(* ===== verification/Prelude.thy ===== *)
theory Prelude
  imports
    Complex_Main
    "HOL-Library.Char_ord"
    "HOL-Library.List_Lexorder"
    "HOL-Library.Product_Lexorder"
    "HOL-Library.Multiset"
begin

text \<open>
  The part of Python the engine is written in, shared by every component: exceptions as values,
  strings with the methods the code calls (\<open>strip\<close>, \<open>lower\<close>, \<open>split\<close>, \<open>join\<close>), slices with
  Python's rule for negative bounds, \<open>dict.fromkeys\<close> and \<open>sorted\<close> with and without
  \<open>reverse\<close>, and the clamp to \<open>[0, 1]\<close> every score passes through.

  A character is a code point below 256, so the string methods are Python's on Latin-1 text.
  Python floats are modelled by \<^typ>\<open>real\<close>: rounding of the binary representation is left out.
\<close>

named_theorems py_defs \<open>definitions of the Python primitives\<close>

section \<open>Exceptions as values\<close>

datatype py_error =
    ValueError string
  | KeyError string
  | TypeError string
  | AttributeError string
  | OSError string
  | IntegrityError string

type_synonym 'a result = "py_error + 'a"

text \<open>
  A method that changes a store and may raise: the new state is returned with the outcome, since
  what was committed before the exception stays committed.
\<close>

type_synonym ('s, 'a) action = "'s \<Rightarrow> 's \<times> 'a result"

definition act_bind :: "('s, 'a) action \<Rightarrow> ('a \<Rightarrow> ('s, 'b) action) \<Rightarrow> ('s, 'b) action" where
  "act_bind m f s = (case m s of (s', Inl e) \<Rightarrow> (s', Inl e) | (s', Inr a) \<Rightarrow> f a s')"

definition act_return :: "'a \<Rightarrow> ('s, 'a) action" where
  "act_return a s = (s, Inr a)"

text \<open>A \<open>for\<close> loop whose body may raise: it stops at the first exception.\<close>

fun act_each :: "('x \<Rightarrow> ('s, 'a) action) \<Rightarrow> 'x list \<Rightarrow> ('s, 'a list) action" where
  "act_each f [] s = (s, Inr [])"
| "act_each f (x # xs) s =
     (case f x s of
        (s', Inl e) \<Rightarrow> (s', Inl e)
      | (s', Inr a) \<Rightarrow>
          (case act_each f xs s' of
             (s'', Inl e) \<Rightarrow> (s'', Inl e)
           | (s'', Inr as) \<Rightarrow> (s'', Inr (a # as))))"

lemma act_each_invariant:
  assumes "\<And>x s. x \<in> set xs \<Longrightarrow> I s \<Longrightarrow> I (fst (f x s))" and "I s"
  shows "I (fst (act_each f xs s))"
  using assms
proof (induction xs arbitrary: s)
  case Nil
  then show ?case by simp
next
  case (Cons x xs)
  have step: "I (fst (f x s))" using Cons.prems by simp
  have rest: "I (fst (act_each f xs t))" if "I t" for t
    using Cons.IH [of t] Cons.prems that by simp
  show ?case
    using step rest [of "fst (f x s)"] by (auto split: prod.splits sum.splits)
qed

lemma act_each_ok:
  assumes "\<And>x s. x \<in> set xs \<Longrightarrow> \<exists>s' a. f x s = (s', Inr a)"
  shows "\<exists>s' as. act_each f xs s = (s', Inr as) \<and> length as = length xs"
  using assms
proof (induction xs arbitrary: s)
  case Nil
  then show ?case by simp
next
  case (Cons x xs)
  obtain s1 a where "f x s = (s1, Inr a)" using Cons.prems [of x s] by auto
  moreover obtain s2 as where "act_each f xs s1 = (s2, Inr as)" "length as = length xs"
    using Cons.IH [of s1] Cons.prems by auto
  ultimately show ?case by simp
qed

text \<open>Calls that may raise and change nothing.\<close>

fun res_bind :: "'a result \<Rightarrow> ('a \<Rightarrow> 'b result) \<Rightarrow> 'b result" where
  "res_bind (Inl e) f = Inl e"
| "res_bind (Inr a) f = f a"

fun res_each :: "('x \<Rightarrow> 'a result) \<Rightarrow> 'x list \<Rightarrow> 'a list result" where
  "res_each f [] = Inr []"
| "res_each f (x # xs) = res_bind (f x) (\<lambda>a. res_bind (res_each f xs) (\<lambda>as. Inr (a # as)))"

lemma res_bind_eq_Inr: "res_bind m f = Inr b \<longleftrightarrow> (\<exists>a. m = Inr a \<and> f a = Inr b)"
  by (cases m) auto

lemma res_bind_eq_Inl: "res_bind m f = Inl e \<longleftrightarrow> m = Inl e \<or> (\<exists>a. m = Inr a \<and> f a = Inl e)"
  by (cases m) auto

lemma res_each_Inr: "(\<And>x. x \<in> set xs \<Longrightarrow> f x = Inr (g x)) \<Longrightarrow> res_each f xs = Inr (map g xs)"
  by (induction xs) auto

lemma res_each_eq_Inr:
  "res_each f xs = Inr ys \<Longrightarrow> length ys = length xs \<and> (\<forall>y\<in>set ys. \<exists>x\<in>set xs. f x = Inr y)"
  by (induction xs arbitrary: ys) (fastforce simp: res_bind_eq_Inr)+

lemma res_each_cong:
  "(\<And>x. x \<in> set xs \<Longrightarrow> f x = g x) \<Longrightarrow> res_each f xs = res_each g xs"
  by (induction xs) auto

section \<open>Numbers\<close>

definition clamp01 :: "real \<Rightarrow> real" where
  "clamp01 x = min 1 (max 0 x)"

lemma clamp01_ge0 [simp]: "0 \<le> clamp01 x"
  and clamp01_le1 [simp]: "clamp01 x \<le> 1"
  by (simp_all add: clamp01_def)

lemma clamp01_id [simp]: "0 \<le> x \<Longrightarrow> x \<le> 1 \<Longrightarrow> clamp01 x = x"
  by (simp add: clamp01_def)

lemma clamp01_mono: "x \<le> y \<Longrightarrow> clamp01 x \<le> clamp01 y"
  by (auto simp: clamp01_def)

lemma clamp01_idem [simp]: "clamp01 (clamp01 x) = clamp01 x"
  by simp

text \<open>Python's slice \<open>xs[:n]\<close>: a negative bound counts from the end.\<close>

definition py_take :: "int \<Rightarrow> 'a list \<Rightarrow> 'a list" where
  "py_take n xs = (if 0 \<le> n then take (nat n) xs else take (length xs - nat (- n)) xs)"

text \<open>SQLite's \<open>LIMIT n\<close>: a negative limit is no limit.\<close>

definition sql_limit :: "int \<Rightarrow> 'a list \<Rightarrow> 'a list" where
  "sql_limit n xs = (if n < 0 then xs else take (nat n) xs)"

lemma set_py_take: "set (py_take n xs) \<subseteq> set xs"
  by (auto simp: py_take_def dest: in_set_takeD)

lemma set_sql_limit: "set (sql_limit n xs) \<subseteq> set xs"
  by (auto simp: sql_limit_def dest: in_set_takeD)

lemma length_py_take: "0 \<le> n \<Longrightarrow> length (py_take n xs) \<le> nat n"
  by (simp add: py_take_def)

lemma py_take_all: "int (length xs) \<le> n \<Longrightarrow> py_take n xs = xs"
  by (simp add: py_take_def)

lemma sql_limit_all: "int (length xs) \<le> n \<Longrightarrow> sql_limit n xs = xs"
  by (simp add: sql_limit_def)

section \<open>Lists\<close>

text \<open>\<open>list(dict.fromkeys(xs))\<close>: the first occurrence of each element, in order.\<close>

definition dedupe :: "'a list \<Rightarrow> 'a list" where
  "dedupe xs = rev (remdups (rev xs))"

lemma set_dedupe [simp]: "set (dedupe xs) = set xs"
  by (simp add: dedupe_def)

lemma distinct_dedupe [simp]: "distinct (dedupe xs)"
  by (simp add: dedupe_def)

lemma dedupe_distinct [simp]: "distinct xs \<Longrightarrow> dedupe xs = xs"
  by (simp add: dedupe_def distinct_remdups_id)

lemma dedupe_eq_Nil [simp]: "dedupe xs = [] \<longleftrightarrow> xs = []"
  by (simp add: dedupe_def)

text \<open>\<open>sorted({x for x in xs})\<close>.\<close>

definition sorted_set :: "'a::linorder list \<Rightarrow> 'a list" where
  "sorted_set xs = sort (remdups xs)"

lemma set_sorted_set [simp]: "set (sorted_set xs) = set xs"
  by (simp add: sorted_set_def)

lemma distinct_sorted_set [simp]: "distinct (sorted_set xs)"
  by (simp add: sorted_set_def)

lemma sorted_sorted_set [simp]: "sorted (sorted_set xs)"
  by (simp add: sorted_set_def)

lemma sorted_set_id [simp]: "sorted xs \<Longrightarrow> distinct xs \<Longrightarrow> sorted_set xs = xs"
  by (simp add: sorted_set_def distinct_remdups_id sorted_sort_id)

lemma sorted_set_cong: "set xs = set ys \<Longrightarrow> sorted_set xs = sorted_set ys"
  by (rule sorted_distinct_set_unique) auto

text \<open>
  \<open>sorted(xs, key=f, reverse=True)\<close>, and SQLite's \<open>ORDER BY f DESC\<close> over rows in table order:
  descending, elements with equal keys in their original order.
\<close>

definition sort_desc :: "('a \<Rightarrow> 'k::linorder) \<Rightarrow> 'a list \<Rightarrow> 'a list" where
  "sort_desc f xs = rev (sort_key f (rev xs))"

lemma mset_sort_desc [simp]: "mset (sort_desc f xs) = mset xs"
  by (simp add: sort_desc_def)

lemma set_sort_desc [simp]: "set (sort_desc f xs) = set xs"
  by (simp add: sort_desc_def)

lemma length_sort_desc [simp]: "length (sort_desc f xs) = length xs"
  by (simp add: sort_desc_def)

lemma distinct_sort_desc [simp]: "distinct (sort_desc f xs) = distinct xs"
  by (simp add: sort_desc_def)

lemma distinct_map_sort_key: "distinct (map f (sort_key g xs)) = distinct (map f xs)"
  by (rule mset_eq_imp_distinct_iff) simp

lemma distinct_map_sort_desc: "distinct (map f (sort_desc g xs)) = distinct (map f xs)"
  by (rule mset_eq_imp_distinct_iff) simp

lemma sort_desc_sorted: "sorted_wrt (\<lambda>x y. f y \<le> f x) (sort_desc f xs)"
  unfolding sort_desc_def sorted_wrt_rev
  using sorted_sort_key [of f "rev xs"] by (simp add: sorted_map)

lemma sorted_wrt_take_drop:
  assumes "sorted_wrt P xs" "x \<in> set (take n xs)" "y \<in> set (drop n xs)"
  shows "P x y"
  using assms by (metis append_take_drop_id sorted_wrt_append)

lemma filter_eq_nth_first:
  "find P xs = Some x \<Longrightarrow> P x \<and> x \<in> set xs"
  by (auto simp: find_Some_iff)

section \<open>Characters\<close>

abbreviation code :: "char \<Rightarrow> nat" where
  "code c \<equiv> of_char c"

lemma code_less_256 [simp]: "code c < 256"
  using of_char_mod_256 [of c, where ?'a = nat] by (metis mod_less_divisor zero_less_numeral)

lemma code_char_of [simp]: "n < 256 \<Longrightarrow> code (char_of n) = n"
  by simp

text \<open>\<open>str.isspace\<close>, the class that \<open>strip\<close>, \<open>split\<close> and the pattern \<open>\s\<close> use.\<close>

definition is_space :: "char \<Rightarrow> bool" where
  "is_space c = (let n = code c in
     (9 \<le> n \<and> n \<le> 13) \<or> (28 \<le> n \<and> n \<le> 32) \<or> n = 133 \<or> n = 160)"

definition lower_char :: "char \<Rightarrow> char" where
  "lower_char c = (let n = code c in
     if (65 \<le> n \<and> n \<le> 90) \<or> (192 \<le> n \<and> n \<le> 222 \<and> n \<noteq> 215) then char_of (n + 32) else c)"

definition is_digit :: "char \<Rightarrow> bool" where
  "is_digit c = (48 \<le> code c \<and> code c \<le> 57)"

definition is_ascii_letter :: "char \<Rightarrow> bool" where
  "is_ascii_letter c = (let n = code c in (65 \<le> n \<and> n \<le> 90) \<or> (97 \<le> n \<and> n \<le> 122))"

text \<open>The pattern \<open>\w\<close>: \<open>isalnum\<close> or the underscore.\<close>

definition is_word :: "char \<Rightarrow> bool" where
  "is_word c = (let n = code c in
     is_digit c \<or> is_ascii_letter c \<or> n = 95 \<or> n \<in> {170, 178, 179, 181, 185, 186, 188, 189, 190}
     \<or> (192 \<le> n \<and> n \<le> 255 \<and> n \<noteq> 215 \<and> n \<noteq> 247))"

lemma code_lower_char:
  "code (lower_char c) =
     (if (65 \<le> code c \<and> code c \<le> 90) \<or> (192 \<le> code c \<and> code c \<le> 222 \<and> code c \<noteq> 215)
      then code c + 32 else code c)"
  by (auto simp: lower_char_def Let_def)

lemma lower_char_idem [simp]: "lower_char (lower_char c) = lower_char c"
  by (subst lower_char_def) (auto simp: code_lower_char Let_def)

lemma is_space_lower [simp]: "is_space (lower_char c) = is_space c"
  by (auto simp: is_space_def code_lower_char Let_def)

lemma is_space_blank [simp]: "is_space (CHR '' '')"
  by (simp add: is_space_def)

section \<open>Strings\<close>

definition py_lower :: "string \<Rightarrow> string" where
  "py_lower s = map lower_char s"

definition py_lstrip :: "string \<Rightarrow> string" where
  "py_lstrip s = dropWhile is_space s"

definition py_rstrip :: "string \<Rightarrow> string" where
  "py_rstrip s = rev (dropWhile is_space (rev s))"

definition py_strip :: "string \<Rightarrow> string" where
  "py_strip s = py_rstrip (py_lstrip s)"

text \<open>\<open>s.split()\<close>: the maximal runs of non-space characters.\<close>

function py_split :: "string \<Rightarrow> string list" where
  "py_split s = (let t = dropWhile is_space s in
     if t = [] then []
     else takeWhile (\<lambda>c. \<not> is_space c) t # py_split (dropWhile (\<lambda>c. \<not> is_space c) t))"
  by pat_completeness auto
termination
proof (relation "measure length", goal_cases)
  case 1
  show ?case by simp
next
  case (2 s x)
  let ?t = "dropWhile is_space s"
  have t: "?t \<noteq> []" using 2 by simp
  then have "\<not> is_space (hd ?t)" by (rule hd_dropWhile)
  then have "length (dropWhile (\<lambda>c. \<not> is_space c) ?t) < length ?t"
    using t by (cases ?t) (auto simp: length_dropWhile_le less_Suc_eq_le)
  also have "\<dots> \<le> length s" by (rule length_dropWhile_le)
  finally show ?case using 2 by simp
qed

declare py_split.simps [simp del]

fun py_join :: "string \<Rightarrow> string list \<Rightarrow> string" where
  "py_join sep [] = []"
| "py_join sep [x] = x"
| "py_join sep (x # y # ys) = x @ sep @ py_join sep (y # ys)"

text \<open>\<open>s.replace(a, b)\<close> for single characters.\<close>

definition py_replace_char :: "char \<Rightarrow> char \<Rightarrow> string \<Rightarrow> string" where
  "py_replace_char a b s = map (\<lambda>c. if c = a then b else c) s"

definition py_startswith :: "string \<Rightarrow> string \<Rightarrow> bool" where
  "py_startswith s p = (take (length p) s = p)"

text \<open>\<open>p in s\<close> for strings.\<close>

fun py_contains :: "string \<Rightarrow> string \<Rightarrow> bool" where
  "py_contains p [] = (p = [])"
| "py_contains p (c # s) = (py_startswith (c # s) p \<or> py_contains p s)"

text \<open>\<open>re.findall(r"[\w]+", s)\<close>: the maximal runs of word characters.\<close>

function py_words :: "string \<Rightarrow> string list" where
  "py_words s = (let t = dropWhile (\<lambda>c. \<not> is_word c) s in
     if t = [] then [] else takeWhile is_word t # py_words (dropWhile is_word t))"
  by pat_completeness auto
termination
proof (relation "measure length", goal_cases)
  case 1
  show ?case by simp
next
  case (2 s x)
  let ?t = "dropWhile (\<lambda>c. \<not> is_word c) s"
  have t: "?t \<noteq> []" using 2 by simp
  then have "is_word (hd ?t)" using hd_dropWhile [OF t] by simp
  then have "length (dropWhile is_word ?t) < length ?t"
    using t by (cases ?t) (auto simp: length_dropWhile_le less_Suc_eq_le)
  also have "\<dots> \<le> length s" by (rule length_dropWhile_le)
  finally show ?case using 2 by simp
qed

declare py_words.simps [simp del]

text \<open>\<open>s.splitlines()\<close>: the line boundaries below code 256, \<open>\r\n\<close> counting as one.\<close>

definition is_break :: "char \<Rightarrow> bool" where
  "is_break c = (let n = code c in (10 \<le> n \<and> n \<le> 13) \<or> (28 \<le> n \<and> n \<le> 30) \<or> n = 133)"

fun drop_break :: "string \<Rightarrow> string" where
  "drop_break [] = []"
| "drop_break (c # s) =
     (case s of [] \<Rightarrow> [] | d # t \<Rightarrow> if c = CHR 0x0D \<and> d = CHR 0x0A then t else s)"

lemma length_drop_break: "s \<noteq> [] \<Longrightarrow> length (drop_break s) < length s"
  by (cases s) (auto split: list.split)

function py_splitlines :: "string \<Rightarrow> string list" where
  "py_splitlines s = (if s = [] then []
     else takeWhile (\<lambda>c. \<not> is_break c) s # py_splitlines (drop_break (dropWhile (\<lambda>c. \<not> is_break c) s)))"
  by pat_completeness auto
termination
proof (relation "measure length", goal_cases)
  case 1
  show ?case by simp
next
  case (2 s)
  show ?case
  proof (cases "dropWhile (\<lambda>c. \<not> is_break c) s = []")
    case True
    show ?thesis unfolding True using 2 by simp
  next
    case False
    then show ?thesis
      using length_drop_break [OF False] length_dropWhile_le [of "\<lambda>c. \<not> is_break c" s] by simp
  qed
qed

declare py_splitlines.simps [simp del]

text \<open>Keeping the first of the items with equal keys.\<close>

fun dedupe_by :: "('a \<Rightarrow> 'k) \<Rightarrow> 'k list \<Rightarrow> 'a list \<Rightarrow> 'a list" where
  "dedupe_by f seen [] = []"
| "dedupe_by f seen (x # xs) =
     (if f x \<in> set seen then dedupe_by f seen xs else x # dedupe_by f (f x # seen) xs)"

subsection \<open>Laws of the string methods\<close>

lemma py_lower_idem [simp]: "py_lower (py_lower s) = py_lower s"
  by (simp add: py_lower_def)

lemma py_lower_append: "py_lower (s @ t) = py_lower s @ py_lower t"
  by (simp add: py_lower_def)

lemma length_py_lower [simp]: "length (py_lower s) = length s"
  by (simp add: py_lower_def)

lemma py_lower_Nil [simp]: "py_lower [] = []"
  by (simp add: py_lower_def)

lemma py_lstrip_Nil_iff: "py_lstrip s = [] \<longleftrightarrow> (\<forall>c\<in>set s. is_space c)"
  by (simp add: py_lstrip_def)

lemma py_rstrip_Nil_iff: "py_rstrip s = [] \<longleftrightarrow> (\<forall>c\<in>set s. is_space c)"
  by (simp add: py_rstrip_def)

lemma py_strip_Nil [simp]: "py_strip [] = []"
  by (simp add: py_strip_def py_lstrip_def py_rstrip_def)

lemma length_py_rstrip: "length (py_rstrip s) \<le> length s"
  unfolding py_rstrip_def by (metis length_dropWhile_le length_rev)

lemma length_py_lstrip: "length (py_lstrip s) \<le> length s"
  unfolding py_lstrip_def by (rule length_dropWhile_le)

lemma length_py_strip: "length (py_strip s) \<le> length s"
  unfolding py_strip_def using length_py_rstrip length_py_lstrip order_trans by blast

text \<open>A stripped non-empty string starts and ends with a non-space; stripping it changes nothing.\<close>

definition trimmed :: "string \<Rightarrow> bool" where
  "trimmed s = (s = [] \<or> (\<not> is_space (hd s) \<and> \<not> is_space (last s)))"

lemma py_rstrip_last: "py_rstrip s \<noteq> [] \<Longrightarrow> \<not> is_space (last (py_rstrip s))"
  unfolding py_rstrip_def by (metis hd_dropWhile last_rev rev.simps(1) rev_rev_ident)

lemma py_rstrip_prefix: "\<exists>t. s = py_rstrip s @ t \<and> (\<forall>c\<in>set t. is_space c)"
proof -
  have "rev s = takeWhile is_space (rev s) @ dropWhile is_space (rev s)" by simp
  then have "s = py_rstrip s @ rev (takeWhile is_space (rev s))"
    unfolding py_rstrip_def by (metis rev_append rev_rev_ident)
  moreover have "\<forall>c\<in>set (rev (takeWhile is_space (rev s))). is_space c"
    by (auto dest: set_takeWhileD)
  ultimately show ?thesis by blast
qed

lemma hd_py_rstrip: "py_rstrip s \<noteq> [] \<Longrightarrow> hd (py_rstrip s) = hd s"
  using py_rstrip_prefix [of s] by (metis hd_append2)

lemma trimmed_py_strip [simp]: "trimmed (py_strip s)"
proof (cases "py_strip s = []")
  case True
  then show ?thesis by (simp add: trimmed_def)
next
  case False
  let ?t = "py_lstrip s"
  from False have r: "py_rstrip ?t \<noteq> []" by (simp add: py_strip_def)
  then have "?t \<noteq> []" by (auto simp: py_rstrip_def)
  then have "\<not> is_space (hd ?t)" unfolding py_lstrip_def by (rule hd_dropWhile)
  with r show ?thesis
    by (simp add: trimmed_def py_strip_def hd_py_rstrip py_rstrip_last)
qed

lemma py_strip_trimmed [simp]: "trimmed s \<Longrightarrow> py_strip s = s"
proof -
  assume t: "trimmed s"
  have "py_lstrip s = s"
    using t by (cases s) (auto simp: trimmed_def py_lstrip_def)
  moreover have "py_rstrip s = s"
  proof (cases "s = []")
    case True
    then show ?thesis by (simp add: py_rstrip_def)
  next
    case False
    then obtain xs x where "s = xs @ [x]" by (cases s rule: rev_cases) auto
    then show ?thesis using t by (simp add: py_rstrip_def trimmed_def)
  qed
  ultimately show ?thesis by (simp add: py_strip_def)
qed

lemma py_strip_idem [simp]: "py_strip (py_strip s) = py_strip s"
  by simp

lemma trimmed_py_lower [simp]: "trimmed (py_lower s) = trimmed s"
  by (cases s) (auto simp: trimmed_def py_lower_def last_map)

text \<open>Whitespace normalisation: splitting the words joined by one blank gives the words back.\<close>

definition solid :: "string \<Rightarrow> bool" where
  "solid w = (w \<noteq> [] \<and> (\<forall>c\<in>set w. \<not> is_space c))"

lemma py_split_solid: "\<forall>w\<in>set (py_split s). solid w"
proof (induction s rule: py_split.induct)
  case (1 s)
  let ?t = "dropWhile is_space s"
  show ?case
  proof (cases "?t = []")
    case True
    then show ?thesis by (subst py_split.simps) (simp add: Let_def)
  next
    case False
    then have "\<not> is_space (hd ?t)" by (rule hd_dropWhile)
    then have "solid (takeWhile (\<lambda>c. \<not> is_space c) ?t)"
      using False by (cases ?t) (auto simp: solid_def dest: set_takeWhileD)
    moreover have "\<forall>w\<in>set (py_split (dropWhile (\<lambda>c. \<not> is_space c) ?t)). solid w"
      using "1.IH" False by simp
    ultimately show ?thesis using False by (subst py_split.simps) (simp add: Let_def)
  qed
qed

lemma py_split_Nil [simp]: "py_split [] = []"
  by (subst py_split.simps) simp

lemma py_split_word_end: "solid w \<Longrightarrow> py_split w = [w]"
proof -
  assume w: "solid w"
  then have h: "dropWhile is_space w = w" by (cases w) (auto simp: solid_def)
  have tw: "takeWhile (\<lambda>c. \<not> is_space c) w = w" "dropWhile (\<lambda>c. \<not> is_space c) w = []"
    using w by (auto simp: solid_def)
  have "w \<noteq> []" using w by (simp add: solid_def)
  then show ?thesis by (subst py_split.simps) (simp only: h tw Let_def if_False py_split_Nil)
qed

lemma py_split_word_blank:
  assumes "solid w"
  shows "py_split (w @ '' '' @ r) = w # py_split r"
proof -
  have h: "dropWhile is_space (w @ '' '' @ r) = w @ '' '' @ r"
    using assms by (cases w) (auto simp: solid_def)
  have t: "takeWhile (\<lambda>c. \<not> is_space c) (w @ '' '' @ r) = w"
    "dropWhile (\<lambda>c. \<not> is_space c) (w @ '' '' @ r) = '' '' @ r"
    using assms by (simp_all add: solid_def takeWhile_append dropWhile_append)
  have "py_split ('' '' @ r) = py_split r"
    by (subst (1 2) py_split.simps) simp
  with h t assms show ?thesis
    by (subst py_split.simps) (simp add: Let_def solid_def)
qed

lemma py_split_join:
  "\<forall>w\<in>set ws. solid w \<Longrightarrow> py_split (py_join '' '' ws) = ws"
proof (induction "'' ''" ws rule: py_join.induct)
  case 1
  then show ?case by simp
next
  case (2 x)
  then show ?case by (simp add: py_split_word_end)
next
  case (3 x y ys)
  then show ?case using py_split_word_blank [of x "py_join '' '' (y # ys)"] by simp
qed

lemma py_join_solid_trimmed: "\<forall>w\<in>set ws. solid w \<Longrightarrow> trimmed (py_join '' '' ws)"
proof (induction "'' ''" ws rule: py_join.induct)
  case 1
  then show ?case by (simp add: trimmed_def)
next
  case (2 x)
  then show ?case by (auto simp: trimmed_def solid_def)
next
  case (3 x y ys)
  have ne: "py_join '' '' (y # ys) \<noteq> []"
    using "3.prems" by (cases ys) (auto simp: solid_def)
  have "trimmed (py_join '' '' (y # ys))" using 3 by simp
  with ne have "\<not> is_space (last (py_join '' '' (y # ys)))" by (simp add: trimmed_def)
  moreover have "x \<noteq> []" "\<not> is_space (hd x)" using "3.prems" by (auto simp: solid_def)
  ultimately show ?case using ne by (simp add: trimmed_def)
qed

lemma py_lower_join: "py_lower (py_join sep ws) = py_join (py_lower sep) (map py_lower ws)"
  by (induction sep ws rule: py_join.induct) (simp_all add: py_lower_append)

text \<open>
  \<open>" ".join(str(value).strip().lower().split())\<close>: the key under which the graph, the fact ledger
  and the knowledge graph file a subject, predicate or object. All three classes define the same
  \<open>_norm\<close>.
\<close>

definition norm_key :: "string \<Rightarrow> string" where
  "norm_key s = py_join '' '' (py_split (py_lower (py_strip s)))"

lemma lower_char_solid: "solid (py_lower w) = solid w"
  by (auto simp: solid_def py_lower_def)

lemma py_split_lower: "py_split (py_lower s) = map py_lower (py_split s)"
proof (induction s rule: py_split.induct)
  case (1 s)
  let ?t = "dropWhile is_space s"
  have d: "dropWhile is_space (py_lower s) = py_lower ?t"
    by (simp add: py_lower_def dropWhile_map comp_def)
  have tw: "takeWhile (\<lambda>c. \<not> is_space c) (py_lower ?t) = py_lower (takeWhile (\<lambda>c. \<not> is_space c) ?t)"
    "dropWhile (\<lambda>c. \<not> is_space c) (py_lower ?t) = py_lower (dropWhile (\<lambda>c. \<not> is_space c) ?t)"
    by (simp_all add: py_lower_def takeWhile_map dropWhile_map comp_def)
  show ?case
  proof (cases "?t = []")
    case True
    then show ?thesis using d py_split.simps [of "py_lower s"] py_split.simps [of s]
      by (simp add: Let_def del: dropWhile_eq_Nil_conv)
  next
    case False
    then have "py_lower ?t \<noteq> []" by (simp add: py_lower_def del: dropWhile_eq_Nil_conv)
    then show ?thesis using "1.IH" False d tw
        py_split.simps [of "py_lower s"] py_split.simps [of s]
      by (simp add: Let_def del: dropWhile_eq_Nil_conv)
  qed
qed

lemma py_lower_blank: "py_lower '' '' = '' ''"
  by (simp add: py_lower_def lower_char_def)

lemma norm_key_idem [simp]: "norm_key (norm_key s) = norm_key s"
proof -
  let ?ws = "py_split (py_lower (py_strip s))"
  have w: "\<forall>w\<in>set ?ws. solid w" by (rule py_split_solid)
  have low: "map py_lower ?ws = ?ws"
    using py_split_lower [of "py_lower (py_strip s)"] by simp
  have "py_strip (py_join '' '' ?ws) = py_join '' '' ?ws"
    by (rule py_strip_trimmed [OF py_join_solid_trimmed [OF w]])
  moreover have "py_lower (py_join '' '' ?ws) = py_join '' '' ?ws"
    using low by (simp add: py_lower_join py_lower_blank)
  ultimately show ?thesis
    unfolding norm_key_def by (simp add: py_split_join [OF w])
qed

lemma norm_key_trimmed [simp]: "trimmed (norm_key s)"
  unfolding norm_key_def by (rule py_join_solid_trimmed [OF py_split_solid])

lemma py_split_eq_Nil: "py_split s = [] \<longleftrightarrow> (\<forall>c\<in>set s. is_space c)"
  by (subst py_split.simps) (simp add: Let_def)

lemma py_strip_eq_Nil: "py_strip s = [] \<longleftrightarrow> (\<forall>c\<in>set s. is_space c)"
proof -
  have "py_strip s = [] \<longleftrightarrow> (\<forall>c\<in>set (dropWhile is_space s). is_space c)"
    by (simp add: py_strip_def py_lstrip_def py_rstrip_Nil_iff)
  also have "\<dots> \<longleftrightarrow> (\<forall>c\<in>set s. is_space c)"
    by (metis dropWhile_eq_Nil_conv hd_dropWhile list.set_sel(1) set_dropWhileD)
  finally show ?thesis .
qed

lemma trimmed_all_space: "trimmed s \<Longrightarrow> (\<forall>c\<in>set s. is_space c) \<longleftrightarrow> s = []"
  by (metis list.set_sel(1) list.set(1) empty_iff trimmed_def)

lemma norm_key_eq_Nil: "norm_key s = [] \<longleftrightarrow> py_strip s = []"
proof -
  have "py_join '' '' ws = [] \<longleftrightarrow> ws = []" if "\<forall>w\<in>set ws. solid w" for ws
    using that by (cases "('' '', ws)" rule: py_join.cases) (auto simp: solid_def)
  then have "norm_key s = [] \<longleftrightarrow> py_split (py_lower (py_strip s)) = []"
    unfolding norm_key_def using py_split_solid by blast
  also have "\<dots> \<longleftrightarrow> (\<forall>c\<in>set (py_strip s). is_space c)"
    by (auto simp: py_split_eq_Nil py_lower_def)
  also have "\<dots> \<longleftrightarrow> py_strip s = []"
    by (rule trimmed_all_space) simp
  finally show ?thesis .
qed

section \<open>Lines and duplicates\<close>

lemma takeWhile_unbroken:
  "\<forall>c\<in>set l. \<not> is_break c \<Longrightarrow> is_break b \<Longrightarrow> takeWhile (\<lambda>c. \<not> is_break c) (l @ b # r) = l"
  "\<forall>c\<in>set l. \<not> is_break c \<Longrightarrow> is_break b \<Longrightarrow> dropWhile (\<lambda>c. \<not> is_break c) (l @ b # r) = b # r"
  by (induction l) auto

lemma py_splitlines_unlines:
  "\<forall>l\<in>set ls. \<forall>c\<in>set l. \<not> is_break c \<Longrightarrow> py_splitlines (concat (map (\<lambda>l. l @ [CHR 0x0A]) ls)) = ls"
proof (induction ls)
  case Nil
  then show ?case by (simp add: py_splitlines.simps)
next
  case (Cons l ls)
  have b: "is_break (CHR 0x0A)" by (simp add: is_break_def)
  have d: "drop_break (CHR 0x0A # r) = r" for r by (cases r) simp_all
  have "\<forall>c\<in>set l. \<not> is_break c" using Cons.prems by simp
  note tw = takeWhile_unbroken [OF this b]
  show ?case
    using Cons by (subst py_splitlines.simps) (simp add: tw d del: drop_break.simps)
qed

lemma set_dedupe_by: "set (dedupe_by f seen xs) \<subseteq> set xs"
  by (induction xs arbitrary: seen) auto

lemma keys_dedupe_by: "f ` set (dedupe_by f seen xs) = f ` set xs - set seen"
  by (induction xs arbitrary: seen) auto

lemma distinct_dedupe_by: "distinct (map f (dedupe_by f seen xs))"
proof (induction xs arbitrary: seen)
  case (Cons x xs)
  then show ?case using keys_dedupe_by [of f "f x # seen" xs] by auto
qed simp

lemma dedupe_by_same: "distinct (map f xs) \<Longrightarrow> f ` set xs \<inter> set seen = {} \<Longrightarrow> dedupe_by f seen xs = xs"
  by (induction xs arbitrary: seen) auto

end
