(* ===== verification/Json.thy ===== *)
theory Json
  imports Prelude
begin

text \<open>
  The values an envelope's \<open>Any\<close> fields hold, and Python's \<open>json\<close> on them: \<open>json.dumps\<close> with sorted
  keys and compact separators (\<open>schema.stable_json\<close>), and \<open>json.loads\<close>. A dict is an association
  list in insertion order. The round trip \<open>loads_dumps\<close> is what makes a JSON text column, log line
  or blob file read back as the value written.
\<close>

section \<open>Values\<close>

datatype py_value =
    VNone
  | VBool bool
  | VInt int
  | VFloat real
  | VStr string
  | VBytes string
  | VList "py_value list"
  | VDict "(string \<times> py_value) list"

type_synonym py_dict = "(string \<times> py_value) list"

lemma size_dict_value [termination_simp]:
  "(k, v) \<in> set d \<Longrightarrow> size v < Suc (size_list (size_prod (\<lambda>_. 0) size) d)"
  by (induction d) auto

text \<open>\<open>d.get(k)\<close>, \<open>d[k] = v\<close>, \<open>d.update(e)\<close> and \<open>k in d\<close>.\<close>

abbreviation d_get :: "py_dict \<Rightarrow> string \<Rightarrow> py_value option" where
  "d_get d k \<equiv> map_of d k"

fun d_set :: "'k \<Rightarrow> 'v \<Rightarrow> ('k \<times> 'v) list \<Rightarrow> ('k \<times> 'v) list" where
  "d_set k v [] = [(k, v)]"
| "d_set k v ((k', v') # d) = (if k = k' then (k, v) # d else (k', v') # d_set k v d)"

definition d_update :: "('k \<times> 'v) list \<Rightarrow> ('k \<times> 'v) list \<Rightarrow> ('k \<times> 'v) list" where
  "d_update d e = foldl (\<lambda>d (k, v). d_set k v d) d e"

definition d_or :: "py_value option \<Rightarrow> py_value" where
  "d_or x = (case x of None \<Rightarrow> VNone | Some v \<Rightarrow> v)"

lemma map_of_d_set [simp]: "map_of (d_set k v d) = (map_of d)(k \<mapsto> v)"
  by (induction d) (auto simp: fun_eq_iff)

lemma keys_d_set: "set (map fst (d_set k v d)) = insert k (set (map fst d))"
  using dom_map_of_conv_image_fst [of "d_set k v d"] dom_map_of_conv_image_fst [of d] by simp

lemma distinct_d_set: "distinct (map fst d) \<Longrightarrow> distinct (map fst (d_set k v d))"
proof (induction d)
  case Nil
  then show ?case by simp
next
  case (Cons p d)
  then show ?case using keys_d_set [of k v d] by (cases p) auto
qed

lemma d_update_snoc: "d_update d (e @ [(k, v)]) = d_set k v (d_update d e)"
  by (simp add: d_update_def)

lemma map_of_d_update: "distinct (map fst e) \<Longrightarrow> map_of (d_update d e) = map_of d ++ map_of e"
proof (induction e rule: rev_induct)
  case Nil
  then show ?case by (simp add: d_update_def)
next
  case (snoc p e)
  obtain k v where p: "p = (k, v)" by fastforce
  have "map_of (e @ [p]) = (map_of e)(k \<mapsto> v)"
  proof -
    have "map_of e k = None" using snoc.prems p by (auto simp: map_of_eq_None_iff)
    then show ?thesis by (auto simp: p fun_eq_iff map_add_def split: option.splits)
  qed
  then show ?case using snoc p
    by (auto simp: d_update_snoc fun_eq_iff map_add_def split: option.splits)
qed

lemma distinct_d_update: "distinct (map fst d) \<Longrightarrow> distinct (map fst (d_update d e))"
proof (induction e rule: rev_induct)
  case Nil
  then show ?case by (simp add: d_update_def)
next
  case (snoc p e)
  then show ?case by (cases p) (simp add: d_update_snoc distinct_d_set)
qed

lemma d_set_new: "k \<notin> set (map fst d) \<Longrightarrow> d_set k v d = d @ [(k, v)]"
  by (induction d) auto

lemma d_update_Nil: "distinct (map fst e) \<Longrightarrow> d_update [] e = e"
proof (induction e rule: rev_induct)
  case Nil
  then show ?case by (simp add: d_update_def)
next
  case (snoc p e)
  then show ?case by (cases p) (simp add: d_update_snoc d_set_new)
qed

text \<open>Truth of a value, as \<open>x or default\<close> and \<open>if x\<close> read it.\<close>

fun truthy :: "py_value \<Rightarrow> bool" where
  "truthy VNone = False"
| "truthy (VBool b) = b"
| "truthy (VInt i) = (i \<noteq> 0)"
| "truthy (VFloat x) = (x \<noteq> 0)"
| "truthy (VStr s) = (s \<noteq> [])"
| "truthy (VBytes s) = (s \<noteq> [])"
| "truthy (VList xs) = (xs \<noteq> [])"
| "truthy (VDict d) = (d \<noteq> [])"

section \<open>Numbers as text\<close>

definition digit_char :: "nat \<Rightarrow> char" where
  "digit_char d = char_of (48 + d)"

fun show_nat :: "nat \<Rightarrow> string" where
  "show_nat n = (if n < 10 then [digit_char n] else show_nat (n div 10) @ [digit_char (n mod 10)])"

declare show_nat.simps [simp del]

definition show_int :: "int \<Rightarrow> string" where
  "show_int i = (if i < 0 then ''-'' @ show_nat (nat (- i)) else show_nat (nat i))"

text \<open>The last \<open>n\<close> decimal digits of \<open>m\<close>, zeros included.\<close>

fun show_digits :: "nat \<Rightarrow> nat \<Rightarrow> string" where
  "show_digits 0 m = []"
| "show_digits (Suc n) m = show_digits n (m div 10) @ [digit_char (m mod 10)]"

text \<open>
  \<open>float.__repr__\<close>. A Python float is modelled by the real its shortest representation denotes, so
  its text is its decimal expansion, here of at most 25 places, in the fixed form from \<open>1e-4\<close> up to
  \<open>1e16\<close> and in the exponent form elsewhere.
\<close>

fun places_from :: "nat \<Rightarrow> nat \<Rightarrow> real \<Rightarrow> nat" where
  "places_from 0 k a = k"
| "places_from (Suc n) k a =
     (if of_int \<lfloor>a * 10 ^ k\<rfloor> = a * 10 ^ k then k else places_from n (Suc k) a)"

definition places :: "real \<Rightarrow> nat" where
  "places a = places_from 25 0 a"

definition fixed_repr :: "real \<Rightarrow> string" where
  "fixed_repr a = (let n = max 1 (places a); m = nat \<lfloor>a * 10 ^ n\<rfloor> in
     show_nat (m div 10 ^ n) @ ''.'' @ show_digits n (m mod 10 ^ n))"

definition drop_zeros :: "string \<Rightarrow> string" where
  "drop_zeros s = rev (dropWhile (\<lambda>c. c = CHR ''0'') (rev s))"

definition exp_repr :: "real \<Rightarrow> string" where
  "exp_repr a = (let n = places a; ds = show_nat (nat \<lfloor>a * 10 ^ n\<rfloor>);
     e = int (length ds) - 1 - int n; sig = drop_zeros ds in
     (case sig of [] \<Rightarrow> ''0'' | [d] \<Rightarrow> [d] | d # rest \<Rightarrow> d # ''.'' @ rest)
       @ ''e'' @ (if e < 0 then ''-'' else ''+'')
       @ (if \<bar>e\<bar> < 10 then ''0'' else []) @ show_nat (nat \<bar>e\<bar>))"

definition float_repr :: "real \<Rightarrow> string" where
  "float_repr x = (let a = \<bar>x\<bar> in
     (if x < 0 then ''-'' else []) @
     (if a = 0 \<or> (1 / 10 ^ 4 \<le> a \<and> a < 10 ^ 16) then fixed_repr a else exp_repr a))"

section \<open>\<open>json.dumps(v, ensure_ascii=False, sort_keys=True, separators=(",", ":"))\<close>\<close>

definition quote_char :: char where "quote_char = CHR 0x22"
definition backslash :: char where "backslash = CHR 0x5C"

definition hex_digit :: "nat \<Rightarrow> char" where
  "hex_digit d = (if d < 10 then char_of (48 + d) else char_of (87 + d))"

definition json_escape_char :: "char \<Rightarrow> string" where
  "json_escape_char c = (let n = code c in
     if n = 34 then [backslash, quote_char]
     else if n = 92 then [backslash, backslash]
     else if n = 10 then [backslash, CHR ''n'']
     else if n = 13 then [backslash, CHR ''r'']
     else if n = 9 then [backslash, CHR ''t'']
     else if n = 8 then [backslash, CHR ''b'']
     else if n = 12 then [backslash, CHR ''f'']
     else if n < 32 then backslash # ''u00'' @ [hex_digit (n div 16), hex_digit (n mod 16)]
     else [c])"

definition json_string :: "string \<Rightarrow> string" where
  "json_string s = quote_char # concat (map json_escape_char s) @ [quote_char]"

fun dumps :: "py_value \<Rightarrow> string" where
  "dumps VNone = ''null''"
| "dumps (VBool b) = (if b then ''true'' else ''false'')"
| "dumps (VInt i) = show_int i"
| "dumps (VFloat x) = float_repr x"
| "dumps (VStr s) = json_string s"
| "dumps (VBytes s) = []"
| "dumps (VList xs) = ''['' @ py_join '','' (map dumps xs) @ '']''"
| "dumps (VDict d) = ''{'' @ py_join '',''
     (map (\<lambda>(k, t). json_string k @ '':'' @ t) (sort_key fst (map (\<lambda>(k, v). (k, dumps v)) d))) @ ''}''"

text \<open>\<open>bytes\<close> have no JSON form: \<open>json.dumps\<close> raises \<open>TypeError\<close> on a value that contains them.\<close>

fun jsonable :: "py_value \<Rightarrow> bool" where
  "jsonable (VBytes s) = False"
| "jsonable (VList xs) = list_all jsonable xs"
| "jsonable (VDict d) = list_all (\<lambda>(k, v). jsonable v) d"
| "jsonable _ = True"

definition stable_json :: "py_value \<Rightarrow> string result" where
  "stable_json v = (if jsonable v then Inr (dumps v) else Inl (TypeError ''not JSON serializable''))"

text \<open>What \<open>json.loads\<close> gives back for a dumped value: every dict with its keys sorted.\<close>

fun canon :: "py_value \<Rightarrow> py_value" where
  "canon (VList xs) = VList (map canon xs)"
| "canon (VDict d) = VDict (sort_key fst (map (\<lambda>(k, v). (k, canon v)) d))"
| "canon v = v"

definition canon_dict :: "py_dict \<Rightarrow> py_dict" where
  "canon_dict d = sort_key fst (map (\<lambda>(k, v). (k, canon v)) d)"

lemma canon_VDict: "canon (VDict d) = VDict (canon_dict d)"
  by (simp add: canon_dict_def)

lemma sort_key_fst_map:
  "sort_key fst (map (\<lambda>(k, v). (k, f v)) d) = map (\<lambda>(k, v). (k, f v)) (sort_key fst d)"
proof (induction d)
  case Nil
  then show ?case by simp
next
  case (Cons p d)
  have "insort_key fst (k, f v) (map (\<lambda>(k, v). (k, f v)) xs)
      = map (\<lambda>(k, v). (k, f v)) (insort_key fst (k, v) xs)" for k v xs
    by (induction xs) auto
  then show ?case using Cons by (cases p) simp
qed

lemma canon_idem [simp]: "canon (canon v) = canon v"
proof (induction v rule: canon.induct)
  case (1 xs)
  then show ?case by (simp add: comp_def)
next
  case (2 d)
  let ?e = "sort_key fst (map (\<lambda>(k, v). (k, canon v)) d)"
  have "map (\<lambda>(k, v). (k, canon v)) ?e = ?e"
  proof (rule map_idI)
    fix p assume "p \<in> set ?e"
    then obtain k v where "(k, v) \<in> set d" "p = (k, canon v)" by auto
    then show "(case p of (k, v) \<Rightarrow> (k, canon v)) = p" using 2 by auto
  qed
  moreover have "sort_key fst ?e = ?e" by (rule sort_key_id_if_sorted) simp
  ultimately show ?case by simp
qed simp_all

text \<open>Sorting the keys again changes nothing: \<open>stable_json\<close> does not see the order of a dict.\<close>

lemma dumps_canon [simp]: "dumps (canon v) = dumps v"
proof (induction v rule: canon.induct)
  case (1 xs)
  then have "map (dumps \<circ> canon) xs = map dumps xs" by simp
  then show ?case by (simp del: map_eq_conv)
next
  case (2 d)
  have "map (\<lambda>(k, v). (k, dumps v)) (map (\<lambda>(k, v). (k, canon v)) d) = map (\<lambda>(k, v). (k, dumps v)) d"
    using 2 by auto
  then have "sort_key fst (map (\<lambda>(k, v). (k, dumps v)) (sort_key fst (map (\<lambda>(k, v). (k, canon v)) d)))
      = sort_key fst (map (\<lambda>(k, v). (k, dumps v)) d)"
    by (simp only: sort_key_fst_map [of dumps, symmetric] sort_key_id_if_sorted [OF sorted_sort_key]
        sort_key_fst_map [of dumps "map (\<lambda>(k, v). (k, canon v)) d"])
  then show ?case by (simp del: map_map)
qed simp_all

lemma jsonable_canon [simp]: "jsonable (canon v) = jsonable v"
  by (induction v rule: canon.induct) (auto simp: list_all_iff)

lemma map_of_canon_dict:
  assumes "distinct (map fst d)"
  shows "map_of (canon_dict d) k = map_option canon (map_of d k)"
proof -
  have d: "distinct (map fst (map (\<lambda>(k, v). (k, canon v)) d))"
    using assms by (simp add: comp_def case_prod_beta)
  have "map_of (canon_dict d) = map_of (map (\<lambda>(k, v). (k, canon v)) d)"
    unfolding canon_dict_def
    by (rule map_of_inject_set [THEN iffD2])
      (use d in \<open>simp_all only: distinct_map_sort_key, simp\<close>)
  then show ?thesis by (simp add: map_of_map)
qed

section \<open>\<open>str\<close> and \<open>repr\<close>\<close>

definition repr_char :: "char \<Rightarrow> char \<Rightarrow> bool \<Rightarrow> string" where
  "repr_char q c ascii = (let n = code c in
     if c = backslash then [backslash, backslash]
     else if c = q then [backslash, q]
     else if n = 10 then [backslash, CHR ''n'']
     else if n = 13 then [backslash, CHR ''r'']
     else if n = 9 then [backslash, CHR ''t'']
     else if n < 32 \<or> n = 127 \<or> (128 \<le> n \<and> (ascii \<or> n \<le> 160 \<or> n = 173))
       then [backslash, CHR ''x'', hex_digit (n div 16), hex_digit (n mod 16)]
     else [c])"

definition repr_quote :: "string \<Rightarrow> char" where
  "repr_quote s = (if CHR 0x27 \<in> set s \<and> quote_char \<notin> set s then quote_char else CHR 0x27)"

definition repr_str :: "string \<Rightarrow> string" where
  "repr_str s = (let q = repr_quote s in q # concat (map (\<lambda>c. repr_char q c False) s) @ [q])"

definition repr_bytes :: "string \<Rightarrow> string" where
  "repr_bytes s = (let q = repr_quote s in CHR ''b'' # q # concat (map (\<lambda>c. repr_char q c True) s) @ [q])"

fun py_repr :: "py_value \<Rightarrow> string" where
  "py_repr VNone = ''None''"
| "py_repr (VBool b) = (if b then ''True'' else ''False'')"
| "py_repr (VInt i) = show_int i"
| "py_repr (VFloat x) = float_repr x"
| "py_repr (VStr s) = repr_str s"
| "py_repr (VBytes s) = repr_bytes s"
| "py_repr (VList xs) = ''['' @ py_join '', '' (map py_repr xs) @ '']''"
| "py_repr (VDict d) = ''{'' @ py_join '', '' (map (\<lambda>(k, v). repr_str k @ '': '' @ py_repr v) d) @ ''}''"

definition py_str :: "py_value \<Rightarrow> string" where
  "py_str v = (case v of VStr s \<Rightarrow> s | _ \<Rightarrow> py_repr v)"

lemma py_str_VStr [simp]: "py_str (VStr s) = s"
  by (simp add: py_str_def)

section \<open>Equality\<close>

definition as_number :: "py_value \<Rightarrow> real option" where
  "as_number v = (case v of VBool b \<Rightarrow> Some (if b then 1 else 0) | VInt i \<Rightarrow> Some (of_int i)
     | VFloat x \<Rightarrow> Some x | _ \<Rightarrow> None)"

text \<open>\<open>==\<close> of Python: numbers by value, lists by element, dicts without their order.\<close>

function py_eq :: "py_value \<Rightarrow> py_value \<Rightarrow> bool" where
  "py_eq (VList xs) w = (case w of VList ys \<Rightarrow> length xs = length ys
     \<and> list_all (\<lambda>(x, y). py_eq x y) (zip xs ys) | _ \<Rightarrow> False)"
| "py_eq (VDict d) w = (case w of VDict e \<Rightarrow> length d = length e
     \<and> list_all (\<lambda>(k, v). case map_of e k of Some u \<Rightarrow> py_eq v u | None \<Rightarrow> False) d | _ \<Rightarrow> False)"
| "py_eq VNone w = (w = VNone)"
| "py_eq (VStr s) w = (w = VStr s)"
| "py_eq (VBytes s) w = (w = VBytes s)"
| "py_eq (VBool b) w = (as_number w = as_number (VBool b))"
| "py_eq (VInt i) w = (as_number w = as_number (VInt i))"
| "py_eq (VFloat x) w = (as_number w = as_number (VFloat x))"
  by pat_completeness auto
termination
proof (relation "measure (size \<circ> fst)", goal_cases)
  case 1
  show ?case by simp
next
  case (2 xs w ys z x y)
  then have "x \<in> set xs" by (auto dest: set_zip_leftD)
  then have "size x < Suc (size_list size xs)" using size_list_estimation' [of x xs "size x" size] by simp
  then show ?case by simp
next
  case (3 d w e z k v u)
  then have "(k, v) \<in> set d" by simp
  then show ?case using size_dict_value [of k v d] by simp
qed

end
