(* ===== verification/Json_Text.thy ===== *)
theory Json_Text
  imports Json
begin

text \<open>
  \<open>json.loads\<close> as a recursive-descent parser, and the round trip with \<open>json.dumps\<close>. The fuel of the
  parser is twice the length of the text plus one, which \<open>loads_dumps\<close> shows to be enough for every
  text that \<open>dumps\<close> writes. The \<open>NaN\<close> and \<open>Infinity\<close> literals and \<open>\u\<close> escapes above 255 are outside
  the values of the model and are rejected.
\<close>

section \<open>The parser\<close>

definition skip_ws :: "string \<Rightarrow> string" where
  "skip_ws s = dropWhile (\<lambda>c. code c = 32 \<or> code c = 9 \<or> code c = 10 \<or> code c = 13) s"

definition unescape :: "char \<Rightarrow> char option" where
  "unescape e = (let n = code e in
     if n = 34 \<or> n = 92 \<or> n = 47 then Some e
     else if n = 98 then Some (char_of (8 :: nat))
     else if n = 102 then Some (char_of (12 :: nat))
     else if n = 110 then Some (char_of (10 :: nat))
     else if n = 114 then Some (char_of (13 :: nat))
     else if n = 116 then Some (char_of (9 :: nat))
     else None)"

definition hex_value :: "char \<Rightarrow> nat option" where
  "hex_value c = (let n = code c in
     if 48 \<le> n \<and> n \<le> 57 then Some (n - 48)
     else if 97 \<le> n \<and> n \<le> 102 then Some (n - 87)
     else if 65 \<le> n \<and> n \<le> 70 then Some (n - 55)
     else None)"

text \<open>The two leading digits of a \<open>\u\<close> escape are \<open>00\<close>: the code point is below 256.\<close>

definition hex_char :: "char \<Rightarrow> char \<Rightarrow> char \<Rightarrow> char \<Rightarrow> char option" where
  "hex_char a b x y = (case (hex_value a, hex_value b, hex_value x, hex_value y) of
     (Some 0, Some 0, Some h, Some l) \<Rightarrow> Some (char_of (16 * h + l))
   | _ \<Rightarrow> None)"

fun p_str :: "string \<Rightarrow> (string \<times> string) option" where
  "p_str [] = None"
| "p_str (c # s) =
     (if c = quote_char then Some ([], s)
      else if c = backslash then
        (case s of
           [] \<Rightarrow> None
         | e # s' \<Rightarrow>
             (case unescape e of
                Some d \<Rightarrow> map_option (\<lambda>(t, r). (d # t, r)) (p_str s')
              | None \<Rightarrow>
                  if e = CHR ''u'' then
                    (case s' of
                       a # b # x # y # s'' \<Rightarrow>
                         (case hex_char a b x y of
                            None \<Rightarrow> None
                          | Some d \<Rightarrow> map_option (\<lambda>(t, r). (d # t, r)) (p_str s''))
                     | _ \<Rightarrow> None)
                  else None))
      else if code c < 32 then None
      else map_option (\<lambda>(t, r). (c # t, r)) (p_str s))"

definition nat_of_digits :: "string \<Rightarrow> nat" where
  "nat_of_digits s = foldl (\<lambda>n c. 10 * n + (code c - 48)) 0 s"

definition p_sign :: "string \<Rightarrow> bool \<times> string" where
  "p_sign s = (case s of [] \<Rightarrow> (False, [])
     | c # r \<Rightarrow> if c = CHR ''-'' then (True, r) else (False, s))"

text \<open>The integer part: a zero, or digits that do not start with one.\<close>

definition p_int_part :: "string \<Rightarrow> string \<times> string" where
  "p_int_part s = (case s of [] \<Rightarrow> ([], [])
     | c # r \<Rightarrow> if c = CHR ''0'' then ([c], r) else (takeWhile is_digit s, dropWhile is_digit s))"

definition p_frac :: "string \<Rightarrow> string \<times> string" where
  "p_frac s = (case s of [] \<Rightarrow> ([], s)
     | c # r \<Rightarrow> if c = CHR ''.'' \<and> takeWhile is_digit r \<noteq> []
               then (takeWhile is_digit r, dropWhile is_digit r) else ([], s))"

definition p_exp :: "string \<Rightarrow> int option \<times> string" where
  "p_exp s = (case s of [] \<Rightarrow> (None, s)
     | c # r \<Rightarrow>
         if c = CHR ''e'' \<or> c = CHR ''E'' then
           (let (neg, t) = (case r of [] \<Rightarrow> (False, r)
                 | d # t \<Rightarrow> if d = CHR ''-'' then (True, t) else if d = CHR ''+'' then (False, t) else (False, r));
                ds = takeWhile is_digit t
            in if ds = [] then (None, s)
               else (Some (if neg then - int (nat_of_digits ds) else int (nat_of_digits ds)),
                     dropWhile is_digit t))
         else (None, s))"

definition scale10 :: "real \<Rightarrow> int \<Rightarrow> real" where
  "scale10 x e = (if 0 \<le> e then x * 10 ^ nat e else x / 10 ^ nat (- e))"

definition p_num :: "string \<Rightarrow> (py_value \<times> string) option" where
  "p_num s =
     (let (neg, s1) = p_sign s; (ip, s2) = p_int_part s1; (fp, s3) = p_frac s2; (ex, s4) = p_exp s3 in
      if ip = [] then None
      else if fp = [] \<and> ex = None then
        Some (VInt (if neg then - int (nat_of_digits ip) else int (nat_of_digits ip)), s4)
      else
        (let m = real (nat_of_digits (ip @ fp)) / 10 ^ length fp;
             x = (case ex of None \<Rightarrow> m | Some e \<Rightarrow> scale10 m e)
         in Some (VFloat (if neg then - x else x), s4)))"

fun p_val :: "nat \<Rightarrow> string \<Rightarrow> (py_value \<times> string) option"
  and p_elems :: "nat \<Rightarrow> string \<Rightarrow> (py_value list \<times> string) option"
  and p_members :: "nat \<Rightarrow> string \<Rightarrow> (py_dict \<times> string) option" where
  "p_val 0 s = None"
| "p_val (Suc n) s =
     (case s of
        [] \<Rightarrow> None
      | c # r \<Rightarrow>
          if c = quote_char then map_option (\<lambda>(t, r'). (VStr t, r')) (p_str r)
          else if c = CHR ''['' then
            (if take 1 (skip_ws r) = '']'' then Some (VList [], tl (skip_ws r))
             else map_option (\<lambda>(xs, r'). (VList xs, r')) (p_elems n (skip_ws r)))
          else if c = CHR ''{'' then
            (if take 1 (skip_ws r) = ''}'' then Some (VDict [], tl (skip_ws r))
             else map_option (\<lambda>(d, r'). (VDict (d_update [] d), r')) (p_members n (skip_ws r)))
          else if py_startswith s ''null'' then Some (VNone, drop 4 s)
          else if py_startswith s ''true'' then Some (VBool True, drop 4 s)
          else if py_startswith s ''false'' then Some (VBool False, drop 5 s)
          else p_num s)"
| "p_elems 0 s = None"
| "p_elems (Suc n) s =
     (case p_val n s of
        None \<Rightarrow> None
      | Some (v, r) \<Rightarrow>
          (case skip_ws r of
             [] \<Rightarrow> None
           | c # r' \<Rightarrow>
               if c = CHR '']'' then Some ([v], r')
               else if c = CHR '','' then map_option (\<lambda>(xs, r''). (v # xs, r'')) (p_elems n (skip_ws r'))
               else None))"
| "p_members 0 s = None"
| "p_members (Suc n) s =
     (case s of
        [] \<Rightarrow> None
      | q # r0 \<Rightarrow>
          if q \<noteq> quote_char then None
          else
            (case p_str r0 of
               None \<Rightarrow> None
             | Some (k, r1) \<Rightarrow>
                 (case skip_ws r1 of
                    [] \<Rightarrow> None
                  | c # r2 \<Rightarrow>
                      if c \<noteq> CHR '':'' then None
                      else
                        (case p_val n (skip_ws r2) of
                           None \<Rightarrow> None
                         | Some (v, r3) \<Rightarrow>
                             (case skip_ws r3 of
                                [] \<Rightarrow> None
                              | e # r4 \<Rightarrow>
                                  if e = CHR ''}'' then Some ([(k, v)], r4)
                                  else if e = CHR '','' then
                                    map_option (\<lambda>(d, r5). ((k, v) # d, r5)) (p_members n (skip_ws r4))
                                  else None)))))"

definition loads :: "string \<Rightarrow> py_value result" where
  "loads s =
     (case p_val (2 * length s + 1) (skip_ws s) of
        Some (v, r) \<Rightarrow> if skip_ws r = [] then Inr v else Inl (ValueError ''Extra data'')
      | None \<Rightarrow> Inl (ValueError ''Expecting value''))"

section \<open>Strings round trip\<close>

lemma hex_value_digit: "d < 16 \<Longrightarrow> hex_value (hex_digit d) = Some d"
  by (auto simp: hex_value_def hex_digit_def Let_def)

lemma hex_char_code: "hex_char CHR ''0'' CHR ''0'' (hex_digit (code c div 16)) (hex_digit (code c mod 16)) = Some c"
proof -
  have "hex_value CHR ''0'' = Some 0" by (simp add: hex_value_def)
  moreover have "code c div 16 < 16" using code_less_256 [of c] by linarith
  ultimately show ?thesis by (simp add: hex_char_def hex_value_digit)
qed

lemma p_str_escape:
  "p_str (json_escape_char c @ s) = map_option (\<lambda>(t, r). (c # t, r)) (p_str s)"
proof -
  have q: "quote_char \<noteq> backslash" "code quote_char = 34" "code backslash = 92"
    by (simp_all add: quote_char_def backslash_def)
  have c: "c = char_of (code c)" by simp
  have u: "unescape quote_char = Some quote_char" "unescape backslash = Some backslash"
    "unescape CHR ''n'' = Some (char_of (10 :: nat))" "unescape CHR ''r'' = Some (char_of (13 :: nat))"
    "unescape CHR ''t'' = Some (char_of (9 :: nat))" "unescape CHR ''b'' = Some (char_of (8 :: nat))"
    "unescape CHR ''f'' = Some (char_of (12 :: nat))" "unescape CHR ''u'' = None"
    by (simp_all add: unescape_def q)
  have e: "code c = n \<Longrightarrow> char_of n = c" for n by auto
  have lit: "char_of (34 :: nat) = quote_char" "char_of (92 :: nat) = backslash" by code_simp+
  have qc: "c = quote_char \<longleftrightarrow> code c = 34" "c = backslash \<longleftrightarrow> code c = 92"
    using e [of 34] e [of 92] q by (auto simp: lit)
  show ?thesis
    unfolding json_escape_char_def Let_def
    by (simp add: q q(1) [symmetric] u e qc hex_char_code) (use qc in auto)
qed

lemma p_str_json: "p_str (concat (map json_escape_char s) @ quote_char # rest) = Some (s, rest)"
proof (induction s)
  case Nil
  then show ?case by simp
next
  case (Cons c s)
  then show ?case by (simp add: p_str_escape)
qed

section \<open>Numbers round trip\<close>

lemma code_digit_char [simp]: "d < 10 \<Longrightarrow> code (digit_char d) = 48 + d"
  by (simp add: digit_char_def)

lemma is_digit_char [simp]: "d < 10 \<Longrightarrow> is_digit (digit_char d)"
  by (simp add: is_digit_def)

lemma foldl_digits: "foldl (\<lambda>n c. 10 * n + (code c - 48)) a s = a * 10 ^ length s + nat_of_digits s"
proof (induction s rule: rev_induct)
  case Nil
  then show ?case by (simp add: nat_of_digits_def)
next
  case (snoc c s)
  have "nat_of_digits (s @ [c]) = 10 * nat_of_digits s + (code c - 48)"
    by (simp add: nat_of_digits_def)
  with snoc show ?case by (simp add: algebra_simps)
qed

lemma nat_of_digits_append:
  "nat_of_digits (s @ t) = nat_of_digits s * 10 ^ length t + nat_of_digits t"
  using foldl_digits [of "nat_of_digits s" t] by (simp add: nat_of_digits_def)

lemma nat_of_digits_digit [simp]: "d < 10 \<Longrightarrow> nat_of_digits [digit_char d] = d"
  by (simp add: nat_of_digits_def)

lemma nat_of_digits_show_nat [simp]: "nat_of_digits (show_nat n) = n"
proof (induction n rule: show_nat.induct)
  case (1 n)
  then show ?case by (subst show_nat.simps) (auto simp: nat_of_digits_append)
qed

lemma digits_show_nat: "\<forall>c\<in>set (show_nat n). is_digit c"
proof (induction n rule: show_nat.induct)
  case (1 n)
  then show ?case by (subst show_nat.simps) auto
qed

lemma show_nat_nonempty [simp]: "show_nat n \<noteq> []"
  by (subst show_nat.simps) simp

lemma hd_show_nat: "n \<noteq> 0 \<Longrightarrow> hd (show_nat n) \<noteq> CHR ''0''"
proof (induction n rule: show_nat.induct)
  case (1 n)
  show ?case
  proof (cases "n < 10")
    case True
    have "code (digit_char n) \<noteq> code CHR ''0''" using True "1.prems" by simp
    then have "digit_char n \<noteq> CHR ''0''" by metis
    with True show ?thesis by (subst show_nat.simps) simp
  next
    case False
    then have "n div 10 \<noteq> 0" by linarith
    with False "1.IH" show ?thesis by (subst show_nat.simps) simp
  qed
qed

lemma digit_char_0 [simp]: "digit_char 0 = CHR ''0''"
  by code_simp

lemma show_nat_0: "show_nat 0 = ''0''"
  by (subst show_nat.simps) simp

lemma digits_show_digits: "\<forall>c\<in>set (show_digits n m). is_digit c"
  by (induction n arbitrary: m) auto

lemma length_show_digits [simp]: "length (show_digits n m) = n"
  by (induction n arbitrary: m) auto

lemma nat_of_digits_show_digits: "m < 10 ^ n \<Longrightarrow> nat_of_digits (show_digits n m) = m"
proof (induction n arbitrary: m)
  case 0
  then show ?case by (simp add: nat_of_digits_def)
next
  case (Suc n)
  then have "m div 10 < 10 ^ n" by (simp add: div_less_iff_less_mult mult.commute)
  with Suc show ?case by (simp add: nat_of_digits_append)
qed

text \<open>What may follow a value inside a dumped text.\<close>

definition ends_value :: "string \<Rightarrow> bool" where
  "ends_value r = (r = [] \<or> hd r = CHR '','' \<or> hd r = CHR '']'' \<or> hd r = CHR ''}'')"

lemma ends_value_not_digit: "ends_value r \<Longrightarrow> takeWhile is_digit r = [] \<and> dropWhile is_digit r = r"
  by (cases r) (auto simp: ends_value_def is_digit_def)

lemma takeWhile_digits:
  assumes "\<forall>c\<in>set ds. is_digit c" "takeWhile is_digit r = []"
  shows "takeWhile is_digit (ds @ r) = ds" "dropWhile is_digit (ds @ r) = r"
proof -
  have "dropWhile is_digit r = r" using assms(2) by (cases r) (auto split: if_splits)
  then show "takeWhile is_digit (ds @ r) = ds" "dropWhile is_digit (ds @ r) = r"
    using assms by (simp_all add: takeWhile_append dropWhile_append)
qed

lemma p_int_part_show_nat:
  assumes "takeWhile is_digit r = []"
  shows "p_int_part (show_nat n @ r) = (show_nat n, r)"
proof (cases "n = 0")
  case True
  then show ?thesis by (simp add: p_int_part_def show_nat_0)
next
  case False
  obtain c t where ct: "show_nat n = c # t" by (cases "show_nat n") auto
  with False hd_show_nat [of n] have "c \<noteq> CHR ''0''" by simp
  then show ?thesis
    using takeWhile_digits [OF digits_show_nat [of n] assms] ct by (simp add: p_int_part_def)
qed

lemma p_frac_end: "ends_value r \<Longrightarrow> p_frac r = ([], r)"
  by (cases r) (auto simp: p_frac_def ends_value_def)

lemma p_exp_end: "ends_value r \<Longrightarrow> p_exp r = (None, r)"
  by (cases r) (auto simp: p_exp_def ends_value_def)

lemma p_sign_minus [simp]: "p_sign (CHR ''-'' # r) = (True, r)"
  by (simp add: p_sign_def)

lemma p_sign_show_nat [simp]: "p_sign (show_nat n @ r) = (False, show_nat n @ r)"
proof -
  obtain c t where ct: "show_nat n = c # t" by (cases "show_nat n") auto
  then have "is_digit c" using digits_show_nat [of n] by simp
  then have "c \<noteq> CHR ''-''" by (auto simp: is_digit_def)
  with ct show ?thesis by (simp add: p_sign_def)
qed

lemma p_num_show_int: "ends_value r \<Longrightarrow> p_num (show_int i @ r) = Some (VInt i, r)"
  using ends_value_not_digit [of r]
  by (simp add: p_num_def show_int_def p_int_part_show_nat p_frac_end p_exp_end)

lemma p_frac_digits:
  assumes "\<forall>c\<in>set ds. is_digit c" "ds \<noteq> []" "ends_value r"
  shows "p_frac (CHR ''.'' # ds @ r) = (ds, r)"
  using takeWhile_digits [OF assms(1)] ends_value_not_digit [OF assms(3)] assms(2)
  by (simp add: p_frac_def)

text \<open>
  A float the fixed form of \<open>repr\<close> writes exactly: at most 25 decimal places and a magnitude that
  Python does not write with an exponent.
\<close>

definition plain_float :: "real \<Rightarrow> bool" where
  "plain_float x = ((x = 0 \<or> (1 / 10 ^ 4 \<le> \<bar>x\<bar> \<and> \<bar>x\<bar> < 10 ^ 16))
     \<and> of_int \<lfloor>\<bar>x\<bar> * 10 ^ 25\<rfloor> = \<bar>x\<bar> * 10 ^ 25)"

lemma places_from_exact:
  "of_int \<lfloor>a * 10 ^ (k + n)\<rfloor> = a * 10 ^ (k + n) \<Longrightarrow>
     of_int \<lfloor>a * 10 ^ places_from n k a\<rfloor> = a * 10 ^ places_from n k a"
  by (induction n arbitrary: k) auto

lemma fixed_repr_exact:
  assumes "0 \<le> a" "of_int \<lfloor>a * 10 ^ 25\<rfloor> = a * 10 ^ 25"
  shows "\<exists>n m. 0 < n \<and> real m = a * 10 ^ n \<and>
           fixed_repr a = show_nat (m div 10 ^ n) @ ''.'' @ show_digits n (m mod 10 ^ n)"
proof -
  let ?p = "places a" and ?n = "max 1 (places a)"
  have p: "of_int \<lfloor>a * 10 ^ ?p\<rfloor> = a * 10 ^ ?p"
    unfolding places_def using places_from_exact [of a 0 25] assms(2) by simp
  then obtain i :: int where i: "a * 10 ^ ?p = of_int i" by metis
  have "a * 10 ^ ?n = a * 10 ^ ?p * 10 ^ (?n - ?p)"
    by (simp flip: power_add add: mult.assoc)
  then have n: "a * 10 ^ ?n = of_int (i * 10 ^ (?n - ?p))" using i by simp
  then have "real (nat \<lfloor>a * 10 ^ ?n\<rfloor>) = a * 10 ^ ?n"
    using assms(1) by (metis floor_of_int of_nat_nat of_int_0_le_iff of_int_of_nat_eq
        mult_nonneg_nonneg zero_le_power zero_le_numeral)
  then show ?thesis
    by (intro exI [of _ ?n] exI [of _ "nat \<lfloor>a * 10 ^ ?n\<rfloor>"]) (simp add: fixed_repr_def Let_def)
qed

lemma p_num_fixed_repr:
  assumes "0 \<le> a" "of_int \<lfloor>a * 10 ^ 25\<rfloor> = a * 10 ^ 25" "ends_value r"
  shows "p_num (fixed_repr a @ r) = Some (VFloat a, r)"
    and "p_num (CHR ''-'' # fixed_repr a @ r) = Some (VFloat (- a), r)"
proof -
  obtain n m where n: "0 < n" and m: "real m = a * 10 ^ n"
    and f: "fixed_repr a = show_nat (m div 10 ^ n) @ ''.'' @ show_digits n (m mod 10 ^ n)"
    using fixed_repr_exact [OF assms(1,2)] by blast
  let ?q = "show_nat (m div 10 ^ n)" and ?d = "show_digits n (m mod 10 ^ n)"
  have d: "?d \<noteq> []" using n by (metis length_0_conv length_show_digits less_irrefl)
  have ip: "p_int_part (?q @ CHR ''.'' # ?d @ r) = (?q, CHR ''.'' # ?d @ r)"
    by (rule p_int_part_show_nat) (simp add: is_digit_def)
  have fr: "p_frac (CHR ''.'' # ?d @ r) = (?d, r)"
    by (rule p_frac_digits [OF digits_show_digits d assms(3)])
  have "nat_of_digits (?q @ ?d) = m"
    by (simp add: nat_of_digits_append nat_of_digits_show_digits mult.commute)
  then have v: "real (nat_of_digits (?q @ ?d)) / 10 ^ length ?d = a" using m by simp
  show "p_num (fixed_repr a @ r) = Some (VFloat a, r)"
    using d v by (simp add: f p_num_def ip fr p_exp_end [OF assms(3)])
  show "p_num (CHR ''-'' # fixed_repr a @ r) = Some (VFloat (- a), r)"
    using d v by (simp add: f p_num_def ip fr p_exp_end [OF assms(3)])
qed

lemma p_num_float_repr:
  "plain_float x \<Longrightarrow> ends_value r \<Longrightarrow> p_num (float_repr x @ r) = Some (VFloat x, r)"
  using p_num_fixed_repr [of "\<bar>x\<bar>" r] by (auto simp: plain_float_def float_repr_def Let_def)

section \<open>Values round trip\<close>

text \<open>
  The values that survive \<open>loads (dumps v)\<close>: no \<open>bytes\<close>, floats that \<open>repr\<close> writes in fixed form,
  and dicts whose keys are distinct, as every Python dict's are.
\<close>

fun json_ok :: "py_value \<Rightarrow> bool" where
  "json_ok (VBytes s) = False"
| "json_ok (VFloat x) = plain_float x"
| "json_ok (VList xs) = list_all json_ok xs"
| "json_ok (VDict d) = (distinct (map fst d) \<and> list_all (\<lambda>(k, v). json_ok v) d)"
| "json_ok _ = True"

lemma json_ok_jsonable: "json_ok v \<Longrightarrow> jsonable v"
  by (induction v rule: json_ok.induct) (auto simp: list_all_iff)

lemma skip_ws_id: "s = [] \<or> (code (hd s) \<noteq> 32 \<and> code (hd s) \<noteq> 9 \<and> code (hd s) \<noteq> 10 \<and> code (hd s) \<noteq> 13)
    \<Longrightarrow> skip_ws s = s"
  by (cases s) (auto simp: skip_ws_def)

lemma skip_ws_delim [simp]:
  "skip_ws (CHR '','' # s) = CHR '','' # s" "skip_ws (CHR '']'' # s) = CHR '']'' # s"
  "skip_ws (CHR ''}'' # s) = CHR ''}'' # s" "skip_ws (CHR '':'' # s) = CHR '':'' # s"
  "skip_ws (quote_char # s) = quote_char # s"
  by (simp_all add: skip_ws_id quote_char_def)

lemma skip_ws_Nil [simp]: "skip_ws [] = []"
  by (simp add: skip_ws_def)

text \<open>A dumped value starts with a character that is neither whitespace nor a closing bracket.\<close>

definition starts_value :: "string \<Rightarrow> bool" where
  "starts_value s = (s \<noteq> [] \<and> code (hd s) \<notin> {32, 9, 10, 13, 93, 125})"

lemma starts_value_skip: "starts_value s \<Longrightarrow> skip_ws s = s"
  by (simp add: starts_value_def skip_ws_id)

definition starts_number :: "string \<Rightarrow> bool" where
  "starts_number s = (s \<noteq> [] \<and> (is_digit (hd s) \<or> hd s = CHR ''-''))"

lemma starts_number_value: "starts_number s \<Longrightarrow> starts_value s"
  by (auto simp: starts_number_def starts_value_def is_digit_def)

lemma starts_number_append: "starts_number s \<Longrightarrow> starts_number (s @ r)"
  by (auto simp: starts_number_def)

lemma starts_value_append: "starts_value s \<Longrightarrow> starts_value (s @ r)"
  by (simp add: starts_value_def)

lemma starts_number_show_nat [simp]: "starts_number (show_nat n)"
  using digits_show_nat [of n] by (auto simp: starts_number_def)

lemma starts_number_show_int: "starts_number (show_int i)"
  by (auto simp: show_int_def starts_number_def digits_show_nat
      starts_number_show_nat [unfolded starts_number_def])

lemma starts_number_float:
  assumes "plain_float x"
  shows "starts_number (float_repr x)"
proof -
  have "starts_number (fixed_repr \<bar>x\<bar>)"
    by (simp add: fixed_repr_def Let_def starts_number_append)
  then show ?thesis
    using assms by (auto simp: float_repr_def Let_def plain_float_def starts_number_def)
qed

lemma starts_value_dumps: "json_ok v \<Longrightarrow> starts_value (dumps v)"
proof (cases v)
  case (VInt i)
  then show ?thesis by (simp add: starts_number_value starts_number_show_int)
next
  case (VFloat x)
  then show "json_ok v \<Longrightarrow> ?thesis" by (simp add: starts_number_value starts_number_float)
qed (simp_all add: starts_value_def json_string_def quote_char_def)

lemma p_val_number:
  assumes "starts_number s"
  shows "p_val (Suc n) s = p_num s"
proof -
  obtain c t where s: "s = c # t" and c: "is_digit c \<or> c = CHR ''-''"
    using assms by (cases s) (auto simp: starts_number_def)
  have "c \<noteq> quote_char" "c \<noteq> CHR ''[''" "c \<noteq> CHR ''{''" "c \<noteq> CHR ''n''" "c \<noteq> CHR ''t''" "c \<noteq> CHR ''f''"
    using c by (auto simp: is_digit_def quote_char_def)
  then show ?thesis by (simp add: s py_startswith_def)
qed

lemma p_val_literals:
  "p_val (Suc n) (''null'' @ r) = Some (VNone, r)"
  "p_val (Suc n) (''true'' @ r) = Some (VBool True, r)"
  "p_val (Suc n) (''false'' @ r) = Some (VBool False, r)"
  by (simp_all add: py_startswith_def quote_char_def)

lemma p_val_string: "p_val (Suc n) (json_string s @ r) = Some (VStr s, r)"
  using p_str_json [of s r] by (simp add: json_string_def)

text \<open>One value parses as written, with fuel twice its length.\<close>

definition parses :: "py_value \<Rightarrow> bool" where
  "parses v = (\<forall>n r. 2 * length (dumps v) \<le> n \<longrightarrow> ends_value r \<longrightarrow> p_val n (dumps v @ r) = Some (canon v, r))"

lemma parsesD: "parses v \<Longrightarrow> 2 * length (dumps v) \<le> n \<Longrightarrow> ends_value r \<Longrightarrow> p_val n (dumps v @ r) = Some (canon v, r)"
  by (simp add: parses_def)

lemma ends_value_delim [simp]:
  "ends_value (CHR '','' # r)" "ends_value (CHR '']'' # r)" "ends_value (CHR ''}'' # r)" "ends_value []"
  by (simp_all add: ends_value_def)

lemma p_elems_join:
  "xs \<noteq> [] \<Longrightarrow> \<forall>v\<in>set xs. parses v \<and> starts_value (dumps v) \<Longrightarrow>
     2 * length (py_join '','' (map dumps xs)) < n \<Longrightarrow>
     p_elems n (py_join '','' (map dumps xs) @ CHR '']'' # r) = Some (map canon xs, r)"
proof (induction xs arbitrary: n)
  case Nil
  then show ?case by simp
next
  case (Cons v xs)
  then obtain m where n: "n = Suc m" by (cases n) auto
  show ?case
  proof (cases xs)
    case Nil
    have "p_val m (dumps v @ CHR '']'' # r) = Some (canon v, CHR '']'' # r)"
      using Cons.prems n Nil by (intro parsesD) auto
    then show ?thesis by (simp add: n Nil)
  next
    case (Cons w ws)
    let ?rest = "py_join '','' (map dumps xs) @ CHR '']'' # r"
    have j: "py_join '','' (map dumps (v # xs)) = dumps v @ CHR '','' # py_join '','' (map dumps xs)"
      by (simp add: Cons)
    have "starts_value (dumps w)" using Cons.prems Cons by simp
    then have "starts_value ?rest"
      by (cases ws) (simp_all add: Cons starts_value_append)
    then have "skip_ws ?rest = ?rest" by (rule starts_value_skip)
    moreover have "p_val m (dumps v @ CHR '','' # ?rest) = Some (canon v, CHR '','' # ?rest)"
      using Cons.prems n j by (intro parsesD) auto
    moreover have "p_elems m ?rest = Some (map canon xs, r)"
      using Cons.prems n j Cons by (intro Cons.IH) auto
    ultimately show ?thesis unfolding n j by simp
  qed
qed

definition member_text :: "string \<times> py_value \<Rightarrow> string" where
  "member_text p = json_string (fst p) @ CHR '':'' # dumps (snd p)"

lemma dumps_VDict:
  "dumps (VDict d) = ''{'' @ py_join '','' (map member_text (sort_key fst d)) @ ''}''"
  by (simp add: sort_key_fst_map member_text_def [abs_def] case_prod_beta comp_def)

lemma p_members_join:
  "e \<noteq> [] \<Longrightarrow> \<forall>p\<in>set e. parses (snd p) \<and> starts_value (dumps (snd p)) \<Longrightarrow>
     2 * length (py_join '','' (map member_text e)) < n \<Longrightarrow>
     p_members n (py_join '','' (map member_text e) @ CHR ''}'' # r)
       = Some (map (\<lambda>(k, v). (k, canon v)) e, r)"
proof (induction e arbitrary: n)
  case Nil
  then show ?case by simp
next
  case (Cons p e)
  obtain k v where p: "p = (k, v)" by fastforce
  from Cons.prems obtain m where n: "n = Suc m" by (cases n) auto
  have one: "p_members (Suc m) (member_text p @ s) =
      (case p_val m (dumps v @ s) of None \<Rightarrow> None
       | Some (v, r3) \<Rightarrow> (case skip_ws r3 of [] \<Rightarrow> None
           | e # r4 \<Rightarrow> if e = CHR ''}'' then Some ([(k, v)], r4)
               else if e = CHR '','' then map_option (\<lambda>(d, r5). ((k, v) # d, r5)) (p_members m (skip_ws r4))
               else None))" for s
  proof -
    have "starts_value (dumps v @ s)" using Cons.prems p by (simp add: starts_value_append)
    then have "skip_ws (dumps v @ s) = dumps v @ s" by (rule starts_value_skip)
    then show ?thesis
      using p_str_json [of k "CHR '':'' # dumps v @ s"] by (simp add: member_text_def json_string_def p)
  qed
  show ?case
  proof (cases e)
    case Nil
    have "p_val m (dumps v @ CHR ''}'' # r) = Some (canon v, CHR ''}'' # r)"
      using Cons.prems n Nil p by (intro parsesD) (auto simp: member_text_def)
    then show ?thesis using one [of "CHR ''}'' # r"] by (simp add: n Nil p)
  next
    case (Cons w ws)
    let ?rest = "py_join '','' (map member_text e) @ CHR ''}'' # r"
    have j: "py_join '','' (map member_text (p # e)) = member_text p @ CHR '','' # py_join '','' (map member_text e)"
      by (simp add: Cons)
    have "skip_ws ?rest = ?rest"
      by (rule starts_value_skip, cases ws)
        (simp_all add: Cons member_text_def starts_value_def json_string_def quote_char_def)
    moreover have len: "2 * (length (member_text p) + 1 + length (py_join '','' (map member_text e))) \<le> m"
      using Cons.prems(3) unfolding n j by simp
    then have "2 * length (dumps v) \<le> m" by (simp add: member_text_def p)
    then have "p_val m (dumps v @ CHR '','' # ?rest) = Some (canon v, CHR '','' # ?rest)"
      using Cons.prems p by (intro parsesD) auto
    moreover have "p_members m ?rest = Some (map (\<lambda>(k, v). (k, canon v)) e, r)"
      using Cons.prems len Cons by (intro Cons.IH) auto
    ultimately show ?thesis using one [of "CHR '','' # ?rest"] unfolding n j by (simp add: p)
  qed
qed

lemma py_join_Nil_iff: "\<forall>w\<in>set ws. w \<noteq> [] \<Longrightarrow> py_join sep ws = [] \<longleftrightarrow> ws = []"
  by (cases "(sep, ws)" rule: py_join.cases) auto

lemma starts_value_join:
  "ws \<noteq> [] \<Longrightarrow> starts_value (hd ws) \<Longrightarrow> starts_value (py_join sep ws @ r)"
  by (cases "(sep, ws)" rule: py_join.cases) (auto simp: starts_value_append)

lemma not_close_bracket:
  assumes "starts_value s"
  shows "take 1 s \<noteq> '']''" "take 1 s \<noteq> ''}''"
  using assms by (cases s; auto simp: starts_value_def)+

lemma parsesI:
  assumes "dumps v \<noteq> []" "\<And>m r. ends_value r \<Longrightarrow> p_val (Suc m) (dumps v @ r) = Some (canon v, r)"
  shows "parses v"
  unfolding parses_def
proof (intro allI impI)
  fix n r assume "2 * length (dumps v) \<le> n" "ends_value r"
  moreover from this obtain m where "n = Suc m" using assms(1) by (cases n) auto
  ultimately show "p_val n (dumps v @ r) = Some (canon v, r)" using assms(2) by simp
qed

lemma json_ok_parses: "json_ok v \<Longrightarrow> parses v"
proof (induction v)
  case VNone
  show ?case by (rule parsesI) (use p_val_literals in auto)
next
  case (VBool b)
  show ?case by (rule parsesI) (use p_val_literals in \<open>cases b; auto\<close>)+
next
  case (VInt i)
  have n: "starts_number (show_int i)" by (rule starts_number_show_int)
  show ?case
    by (rule parsesI)
      (use n p_num_show_int in \<open>auto simp: starts_number_def p_val_number [OF starts_number_append [OF n]] simp del: p_val.simps\<close>)
next
  case (VFloat x)
  then have x: "plain_float x" by simp
  have n: "starts_number (float_repr x)" using x by (rule starts_number_float)
  show ?case
    by (rule parsesI)
      (use n x p_num_float_repr in \<open>auto simp: starts_number_def p_val_number [OF starts_number_append [OF n]] simp del: p_val.simps\<close>)
next
  case (VStr s)
  show ?case
    by (rule parsesI) (simp_all add: p_val_string del: p_val.simps, simp add: json_string_def)
next
  case (VBytes s)
  then show ?case by simp
next
  case (VList xs)
  have ok: "\<forall>v\<in>set xs. parses v \<and> starts_value (dumps v)"
    using VList starts_value_dumps by (auto simp: list_all_iff)
  have "p_val n (dumps (VList xs) @ r) = Some (canon (VList xs), r)"
    if len: "2 * length (dumps (VList xs)) \<le> n" for n r
  proof (cases xs)
    case Nil
    then obtain m where "n = Suc m" using len by (cases n) auto
    then show ?thesis by (simp add: Nil quote_char_def)
  next
    case (Cons y ys)
    obtain m where n: "n = Suc m" using len by (cases n) auto
    let ?s = "py_join '','' (map dumps xs) @ CHR '']'' # r"
    have "starts_value ?s" using ok Cons by (intro starts_value_join) auto
    then have "skip_ws ?s = ?s" "take 1 ?s \<noteq> '']''" by (rule starts_value_skip, rule not_close_bracket)
    moreover have "p_elems m ?s = Some (map canon xs, r)"
      using len n ok Cons by (intro p_elems_join) auto
    ultimately show ?thesis by (simp add: n quote_char_def)
  qed
  then show ?case by (simp add: parses_def)
next
  case (VDict d)
  let ?e = "sort_key fst d"
  have ok: "\<forall>p\<in>set ?e. parses (snd p) \<and> starts_value (dumps (snd p))"
    using VDict starts_value_dumps by (fastforce simp: list_all_iff)
  have dist: "distinct (map fst (map (\<lambda>(k, v). (k, canon v)) ?e))"
    using VDict.prems by (simp add: comp_def case_prod_beta distinct_map inj_on_def)
  have canon: "canon (VDict d) = VDict (map (\<lambda>(k, v). (k, canon v)) ?e)"
    by (simp add: sort_key_fst_map)
  have "p_val n (dumps (VDict d) @ r) = Some (canon (VDict d), r)"
    if len: "2 * length (dumps (VDict d)) \<le> n" for n r
  proof (cases "d = []")
    case True
    then obtain m where "n = Suc m" using len by (cases n) auto
    then show ?thesis by (simp add: True quote_char_def)
  next
    case False
    then have e: "?e \<noteq> []" by (metis length_0_conv length_sort)
    obtain m where n: "n = Suc m" using len by (cases n) (auto simp: dumps_VDict)
    let ?s = "py_join '','' (map member_text ?e) @ CHR ''}'' # r"
    have "starts_value (hd (map member_text ?e))"
      using e by (simp add: hd_map member_text_def starts_value_def json_string_def quote_char_def)
    then have "starts_value ?s" using e by (intro starts_value_join) auto
    then have "skip_ws ?s = ?s" "take 1 ?s \<noteq> ''}''" by (rule starts_value_skip, rule not_close_bracket)
    moreover have "p_members m ?s = Some (map (\<lambda>(k, v). (k, canon v)) ?e, r)"
      using len n ok e unfolding dumps_VDict by (intro p_members_join) auto
    ultimately show ?thesis
      unfolding canon dumps_VDict by (simp add: n quote_char_def d_update_Nil [OF dist] del: canon.simps)
  qed
  then show ?case by (simp add: parses_def del: dumps.simps canon.simps)
qed

text \<open>The round trip: what \<open>json.dumps\<close> writes, \<open>json.loads\<close> reads back, with sorted keys.\<close>

lemma loads_dumps: "json_ok v \<Longrightarrow> loads (dumps v) = Inr (canon v)"
proof -
  assume v: "json_ok v"
  have "p_val (2 * length (dumps v) + 1) (dumps v @ []) = Some (canon v, [])"
    by (rule parsesD [OF json_ok_parses [OF v]]) simp_all
  then show ?thesis
    using starts_value_skip [OF starts_value_dumps [OF v]] by (simp add: loads_def)
qed

end
