(* ===== verification/Sha256.thy ===== *)
theory Sha256
  imports Prelude "HOL-Library.Word"
begin

text \<open>
  \<open>hashlib.sha256\<close> and the text encodings around it. The digest is the function of FIPS 180-4 on
  bytes (characters below 256), so a content hash, a blob address or a bucket index of the model is the
  one the program computes. Proofs use its shape only (32 bytes, 64 lowercase hexadecimal digits):
  nothing here assumes that two inputs have different digests.
\<close>

unbundle bit_operations_syntax

type_synonym u32 = "32 word"

section \<open>Bytes\<close>

definition byte_word :: "char \<Rightarrow> u32" where
  "byte_word c = word_of_nat (code c)"

definition word_byte :: "nat \<Rightarrow> u32 \<Rightarrow> char" where
  "word_byte k w = char_of (unat (drop_bit k w) mod 256)"

definition bytes_of_word :: "u32 \<Rightarrow> string" where
  "bytes_of_word w = [word_byte 24 w, word_byte 16 w, word_byte 8 w, word_byte 0 w]"

fun words_of_bytes :: "string \<Rightarrow> u32 list" where
  "words_of_bytes (a # b # c # d # s) =
     (push_bit 24 (byte_word a) OR push_bit 16 (byte_word b) OR push_bit 8 (byte_word c) OR byte_word d)
       # words_of_bytes s"
| "words_of_bytes _ = []"

text \<open>\<open>int.from_bytes\<close>, both orders.\<close>

definition from_bytes_big :: "string \<Rightarrow> nat" where
  "from_bytes_big s = foldl (\<lambda>n c. 256 * n + code c) 0 s"

definition from_bytes_little :: "string \<Rightarrow> nat" where
  "from_bytes_little s = from_bytes_big (rev s)"

text \<open>\<open>str.encode("utf-8")\<close> and \<open>bytes.decode("utf-8")\<close> for code points below 256.\<close>

definition utf8_char :: "char \<Rightarrow> string" where
  "utf8_char c = (let n = code c in
     if n < 128 then [c] else [char_of (192 + n div 64), char_of (128 + n mod 64)])"

definition utf8_encode :: "string \<Rightarrow> string" where
  "utf8_encode s = concat (map utf8_char s)"

fun utf8_decode :: "string \<Rightarrow> string option" where
  "utf8_decode [] = Some []"
| "utf8_decode (c # s) =
     (if code c < 128 then map_option (Cons c) (utf8_decode s)
      else (case s of
              [] \<Rightarrow> None
            | d # s' \<Rightarrow>
                if (code c = 194 \<or> code c = 195) \<and> 128 \<le> code d \<and> code d < 192
                then map_option (Cons (char_of ((code c - 192) * 64 + (code d - 128)))) (utf8_decode s')
                else None))"

lemma utf8_decode_char: "utf8_decode (utf8_char c @ s) = map_option (Cons c) (utf8_decode s)"
proof (cases "code c < 128")
  case True
  then show ?thesis by (simp add: utf8_char_def)
next
  case False
  let ?n = "code c"
  have n: "?n < 256" by simp
  then have q: "?n div 64 = 2 \<or> ?n div 64 = 3" using False by linarith
  have split: "(?n div 64) * 64 + ?n mod 64 = ?n" by simp
  have c1: "code (char_of (192 + ?n div 64)) = 192 + ?n div 64" using q by auto
  have c2: "code (char_of (128 + ?n mod 64)) = 128 + ?n mod 64"
    by (rule code_char_of) (use mod_less_divisor [of 64 ?n] in linarith)
  have r: "?n mod 64 < 64" by simp
  have u: "utf8_char c = [char_of (192 + ?n div 64), char_of (128 + ?n mod 64)]"
    unfolding utf8_char_def Let_def using False by (rule if_not_P)
  show ?thesis unfolding u using q split by (auto simp: c1 c2 simp del: of_char_of)
qed

lemma utf8_roundtrip [simp]: "utf8_decode (utf8_encode s) = Some s"
  by (induction s) (simp_all add: utf8_encode_def utf8_decode_char)

section \<open>SHA-256\<close>

definition sha_k :: "u32 list" where
  "sha_k =
    [1116352408, 1899447441, 3049323471, 3921009573, 961987163, 1508970993, 2453635748, 2870763221,
     3624381080, 310598401, 607225278, 1426881987, 1925078388, 2162078206, 2614888103, 3248222580,
     3835390401, 4022224774, 264347078, 604807628, 770255983, 1249150122, 1555081692, 1996064986,
     2554220882, 2821834349, 2952996808, 3210313671, 3336571891, 3584528711, 113926993, 338241895,
     666307205, 773529912, 1294757372, 1396182291, 1695183700, 1986661051, 2177026350, 2456956037,
     2730485921, 2820302411, 3259730800, 3345764771, 3516065817, 3600352804, 4094571909, 275423344,
     430227734, 506948616, 659060556, 883997877, 958139571, 1322822218, 1537002063, 1747873779,
     1955562222, 2024104815, 2227730452, 2361852424, 2428436474, 2756734187, 3204031479, 3329325298]"

type_synonym sha_state = "u32 \<times> u32 \<times> u32 \<times> u32 \<times> u32 \<times> u32 \<times> u32 \<times> u32"

definition sha_init :: sha_state where
  "sha_init = (1779033703, 3144134277, 1013904242, 2773480762, 1359893119, 2600822924, 528734635, 1541459225)"

definition rotr :: "nat \<Rightarrow> u32 \<Rightarrow> u32" where
  "rotr n w = drop_bit n w OR push_bit (32 - n) w"

text \<open>The message schedule, kept newest word first.\<close>

definition sha_next :: "u32 list \<Rightarrow> u32" where
  "sha_next ws =
     (let w2 = ws ! 1; w7 = ws ! 6; w15 = ws ! 14; w16 = ws ! 15;
          s0 = rotr 7 w15 XOR rotr 18 w15 XOR drop_bit 3 w15;
          s1 = rotr 17 w2 XOR rotr 19 w2 XOR drop_bit 10 w2
      in w16 + s0 + w7 + s1)"

fun sha_extend :: "nat \<Rightarrow> u32 list \<Rightarrow> u32 list" where
  "sha_extend 0 ws = ws"
| "sha_extend (Suc n) ws = sha_extend n (sha_next ws # ws)"

definition sha_schedule :: "u32 list \<Rightarrow> u32 list" where
  "sha_schedule block = rev (sha_extend 48 (rev block))"

fun sha_round :: "sha_state \<Rightarrow> u32 \<times> u32 \<Rightarrow> sha_state" where
  "sha_round (a, b, c, d, e, f, g, h) (k, w) =
     (let s1 = rotr 6 e XOR rotr 11 e XOR rotr 25 e;
          ch = (e AND f) XOR (NOT e AND g);
          t1 = h + s1 + ch + k + w;
          s0 = rotr 2 a XOR rotr 13 a XOR rotr 22 a;
          maj = (a AND b) XOR (a AND c) XOR (b AND c);
          t2 = s0 + maj
      in (t1 + t2, a, b, c, d + t1, e, f, g))"

fun sha_add :: "sha_state \<Rightarrow> sha_state \<Rightarrow> sha_state" where
  "sha_add (a, b, c, d, e, f, g, h) (a', b', c', d', e', f', g', h') =
     (a + a', b + b', c + c', d + d', e + e', f + f', g + g', h + h')"

definition sha_block :: "sha_state \<Rightarrow> u32 list \<Rightarrow> sha_state" where
  "sha_block s block = sha_add s (foldl sha_round s (zip sha_k (sha_schedule block)))"

function sha_blocks :: "sha_state \<Rightarrow> u32 list \<Rightarrow> sha_state" where
  "sha_blocks s ws = (if length ws < 16 then s else sha_blocks (sha_block s (take 16 ws)) (drop 16 ws))"
  by pat_completeness auto
termination
  by (relation "measure (\<lambda>(s, ws). length ws)") auto

declare sha_blocks.simps [simp del]

fun bytes_big :: "nat \<Rightarrow> nat \<Rightarrow> string" where
  "bytes_big 0 n = []"
| "bytes_big (Suc k) n = bytes_big k (n div 256) @ [char_of (n mod 256)]"

definition sha_pad :: "string \<Rightarrow> string" where
  "sha_pad m = m @ [char_of (128 :: nat)] @ replicate ((119 - length m mod 64) mod 64) (char_of (0 :: nat))
     @ bytes_big 8 (8 * length m)"

fun sha_bytes :: "sha_state \<Rightarrow> string" where
  "sha_bytes (a, b, c, d, e, f, g, h) = concat (map bytes_of_word [a, b, c, d, e, f, g, h])"

definition sha256 :: "string \<Rightarrow> string" where
  "sha256 m = sha_bytes (sha_blocks sha_init (words_of_bytes (sha_pad m)))"

lemma length_bytes_big [simp]: "length (bytes_big k n) = k"
  by (induction k arbitrary: n) auto

text \<open>The padded message is a whole number of 64-byte blocks, so no byte of it is left out.\<close>

lemma sha_pad_blocks: "length (sha_pad m) mod 64 = 0"
proof -
  define r where "r = length m mod 64"
  have r: "r < 64" by (simp add: r_def)
  have "length (sha_pad m) = length m + (9 + (119 - r) mod 64)"
    by (simp add: sha_pad_def r_def)
  then have "length (sha_pad m) mod 64 = (r + (9 + (119 - r) mod 64)) mod 64"
    by (simp add: r_def mod_add_left_eq)
  also have "\<dots> = 0"
  proof (cases "r \<le> 55")
    case True
    then obtain k where k: "55 = r + k" using le_Suc_ex by blast
    then have "119 - r = 64 + k" by simp
    then have "r + (9 + (119 - r) mod 64) = 64" using k by simp
    then show ?thesis by (simp only: mod_self)
  next
    case False
    then have "(119 - r) mod 64 = 119 - r" by simp
    with r show ?thesis by simp
  qed
  finally show ?thesis .
qed

lemma length_sha256 [simp]: "length (sha256 m) = 32"
proof -
  have "length (sha_bytes s) = 32" for s
    by (cases s rule: sha_bytes.cases) (simp add: bytes_of_word_def)
  then show ?thesis by (simp add: sha256_def)
qed

section \<open>\<open>hexdigest\<close>\<close>

definition hex_lower :: "nat \<Rightarrow> char" where
  "hex_lower d = (if d < 10 then char_of (48 + d) else char_of (87 + d))"

definition hex_of_bytes :: "string \<Rightarrow> string" where
  "hex_of_bytes s = concat (map (\<lambda>c. [hex_lower (code c div 16), hex_lower (code c mod 16)]) s)"

definition sha256_hexdigest :: "string \<Rightarrow> string" where
  "sha256_hexdigest m = hex_of_bytes (sha256 m)"

definition is_hex_lower :: "char \<Rightarrow> bool" where
  "is_hex_lower c = ((48 \<le> code c \<and> code c \<le> 57) \<or> (97 \<le> code c \<and> code c \<le> 102))"

lemma is_hex_hex_lower: "d < 16 \<Longrightarrow> is_hex_lower (hex_lower d)"
  by (auto simp: is_hex_lower_def hex_lower_def)

lemma length_hex_of_bytes: "length (hex_of_bytes s) = 2 * length s"
  by (induction s) (auto simp: hex_of_bytes_def)

lemma hex_of_bytes_hex: "\<forall>c\<in>set (hex_of_bytes s). is_hex_lower c"
proof -
  have "code c div 16 < 16" for c using code_less_256 [of c] by linarith
  then show ?thesis by (auto simp: hex_of_bytes_def is_hex_hex_lower)
qed

lemma length_sha256_hexdigest [simp]: "length (sha256_hexdigest m) = 64"
  by (simp add: sha256_hexdigest_def length_hex_of_bytes)

lemma sha256_hexdigest_hex: "\<forall>c\<in>set (sha256_hexdigest m). is_hex_lower c"
  by (simp add: sha256_hexdigest_def hex_of_bytes_hex)

end
