(* ===== verification/Numbers.thy ===== *)
theory Numbers
  imports Json
begin

text \<open>
  Python's \<open>int\<close>, \<open>float\<close> and \<open>round\<close> on the values of an \<open>Any\<close> field. The texts \<open>inf\<close> and \<open>nan\<close>
  are no reals and are rejected as any other malformed number.
\<close>

definition digits_value :: "string \<Rightarrow> nat" where
  "digits_value s = foldl (\<lambda>n c. 10 * n + (code c - 48)) 0 s"

text \<open>An underscore is allowed between two digits.\<close>

fun drop_underscores :: "bool \<Rightarrow> string \<Rightarrow> string option" where
  "drop_underscores after [] = Some []"
| "drop_underscores after (c # s) =
     (if c = CHR ''_'' then
        (if after \<and> s \<noteq> [] \<and> is_digit (hd s) then drop_underscores False s else None)
      else map_option (Cons c) (drop_underscores (is_digit c) s))"

definition split_sign :: "string \<Rightarrow> int \<times> string" where
  "split_sign s = (case s of [] \<Rightarrow> (1, [])
     | c # r \<Rightarrow> if c = CHR ''-'' then (-1, r) else if c = CHR ''+'' then (1, r) else (1, s))"

definition parse_int :: "string \<Rightarrow> int option" where
  "parse_int s = (case drop_underscores False (py_strip s) of None \<Rightarrow> None
     | Some t \<Rightarrow> (case split_sign t of (sg, ds) \<Rightarrow>
         if ds \<noteq> [] \<and> list_all is_digit ds then Some (sg * int (digits_value ds)) else None))"

text \<open>\<open>[sign] digits [. digits] [e [sign] digits]\<close> with a digit in the mantissa.\<close>

definition parse_exponent :: "string \<Rightarrow> int option" where
  "parse_exponent s = (case s of [] \<Rightarrow> Some 0
     | c # r \<Rightarrow> if c = CHR ''e'' \<or> c = CHR ''E'' then
         (case split_sign r of (sg, ds) \<Rightarrow>
           if ds \<noteq> [] \<and> list_all is_digit ds then Some (sg * int (digits_value ds)) else None)
       else None)"

definition scale10 :: "real \<Rightarrow> int \<Rightarrow> real" where
  "scale10 x e = (if 0 \<le> e then x * 10 ^ nat e else x / 10 ^ nat (- e))"

definition parse_float :: "string \<Rightarrow> real option" where
  "parse_float s = (case drop_underscores False (py_strip s) of None \<Rightarrow> None
     | Some t \<Rightarrow> (case split_sign t of (sg, u) \<Rightarrow>
         (let whole = takeWhile is_digit u; r = dropWhile is_digit u;
              r' = (case r of [] \<Rightarrow> [] | c # q \<Rightarrow> if c = CHR ''.'' then q else r);
              frac = (if r \<noteq> [] \<and> hd r = CHR ''.'' then takeWhile is_digit r' else []);
              rest = (if r \<noteq> [] \<and> hd r = CHR ''.'' then dropWhile is_digit r' else r)
          in if whole = [] \<and> frac = [] then None
             else map_option (\<lambda>e. of_int sg
                 * scale10 (of_nat (digits_value (whole @ frac))) (e - int (length frac)))
               (parse_exponent rest))))"

definition py_float :: "py_value \<Rightarrow> real result" where
  "py_float v = (case v of VFloat x \<Rightarrow> Inr x | VInt i \<Rightarrow> Inr (of_int i)
     | VBool b \<Rightarrow> Inr (if b then 1 else 0)
     | VStr s \<Rightarrow> (case parse_float s of Some x \<Rightarrow> Inr x | None \<Rightarrow> Inl (ValueError ''could not convert string to float''))
     | VBytes s \<Rightarrow> (case parse_float s of Some x \<Rightarrow> Inr x | None \<Rightarrow> Inl (ValueError ''could not convert string to float''))
     | _ \<Rightarrow> Inl (TypeError ''float() argument must be a string or a real number''))"

definition trunc :: "real \<Rightarrow> int" where
  "trunc x = (if 0 \<le> x then \<lfloor>x\<rfloor> else \<lceil>x\<rceil>)"

definition py_int :: "py_value \<Rightarrow> int result" where
  "py_int v = (case v of VInt i \<Rightarrow> Inr i | VFloat x \<Rightarrow> Inr (trunc x) | VBool b \<Rightarrow> Inr (if b then 1 else 0)
     | VStr s \<Rightarrow> (case parse_int s of Some i \<Rightarrow> Inr i | None \<Rightarrow> Inl (ValueError ''invalid literal for int()''))
     | VBytes s \<Rightarrow> (case parse_int s of Some i \<Rightarrow> Inr i | None \<Rightarrow> Inl (ValueError ''invalid literal for int()''))
     | _ \<Rightarrow> Inl (TypeError ''int() argument must be a string or a real number''))"

text \<open>\<open>round(x, n)\<close>: to the nearest multiple of \<open>10 ^ -n\<close>, a tie to the even one.\<close>

definition round_even :: "real \<Rightarrow> int" where
  "round_even y = (let f = \<lfloor>y\<rfloor>; r = y - of_int f in
     if r < 1 / 2 then f else if 1 / 2 < r then f + 1 else if even f then f else f + 1)"

definition py_round :: "nat \<Rightarrow> real \<Rightarrow> real" where
  "py_round n x = of_int (round_even (x * 10 ^ n)) / 10 ^ n"

lemma round_even_of_int [simp]: "round_even (of_int k) = k"
  by (simp add: round_even_def)

lemma round_even_near: "\<bar>of_int (round_even y) - y\<bar> \<le> 1 / 2"
  unfolding round_even_def Let_def by (auto split: if_splits)

lemma round_even_mono: "x \<le> y \<Longrightarrow> round_even x \<le> round_even y"
proof -
  assume xy: "x \<le> y"
  show ?thesis
  proof (cases "\<lfloor>x\<rfloor> = \<lfloor>y\<rfloor>")
    case True
    then show ?thesis using xy by (auto simp: round_even_def Let_def)
  next
    case False
    then have "\<lfloor>x\<rfloor> + 1 \<le> \<lfloor>y\<rfloor>" using floor_mono [OF xy] by linarith
    moreover have "round_even x \<le> \<lfloor>x\<rfloor> + 1" by (simp add: round_even_def Let_def)
    moreover have "\<lfloor>y\<rfloor> \<le> round_even y" by (simp add: round_even_def Let_def)
    ultimately show ?thesis by linarith
  qed
qed

lemma py_round_mono: "x \<le> y \<Longrightarrow> py_round n x \<le> py_round n y"
  unfolding py_round_def by (intro divide_right_mono) (simp_all add: round_even_mono mult_right_mono)

lemma py_round_unit:
  assumes "0 \<le> x" "x \<le> 1"
  shows "0 \<le> py_round n x" "py_round n x \<le> 1"
proof -
  have "py_round n 0 \<le> py_round n x" using assms by (intro py_round_mono)
  moreover have "py_round n 0 = 0" using round_even_of_int [of 0] by (simp add: py_round_def)
  ultimately show "0 \<le> py_round n x" by simp
  have "py_round n x \<le> py_round n 1" using assms by (intro py_round_mono)
  moreover have "py_round n 1 = 1" using round_even_of_int [of "10 ^ n"] by (simp add: py_round_def)
  ultimately show "py_round n x \<le> 1" by simp
qed

lemma py_round_near: "\<bar>py_round n x - x\<bar> \<le> 1 / (2 * 10 ^ n)"
proof -
  have "py_round n x - x = (of_int (round_even (x * 10 ^ n)) - x * 10 ^ n) / 10 ^ n"
    by (simp add: py_round_def field_simps)
  then have "\<bar>py_round n x - x\<bar> = \<bar>of_int (round_even (x * 10 ^ n)) - x * 10 ^ n\<bar> / 10 ^ n"
    by (simp add: abs_divide)
  also have "\<dots> \<le> (1 / 2) / 10 ^ n"
    by (rule divide_right_mono [OF round_even_near]) simp
  finally show ?thesis by simp
qed

end
