(* ===== verification/Schema.thy ===== *)
theory Schema
  imports Json_Text Sha256 Numbers
begin

text \<open>
  \<open>schema.py\<close>: the canonical memory envelope and its modality references. A field annotated
  \<open>str | None\<close> or \<open>int | None\<close> is an option, an \<open>Any\<close> field a \<^typ>\<open>py_value\<close> (with \<open>VNone\<close> for
  \<open>None\<close>), a float a real. The dataclass constructors (\<open>__post_init__\<close>) are the functions
  \<open>modality_init\<close> and \<open>envelope_init\<close>, which normalise or raise. A dict read back whose field has
  another type than the annotation is outside the model and is rejected with \<open>TypeError\<close>.
\<close>

section \<open>Content bytes and hashes\<close>

definition TEXT_BRIDGE_METADATA_KEYS :: "string list" where
  "TEXT_BRIDGE_METADATA_KEYS =
    [''text'', ''derived_text'', ''caption'', ''alt_text'', ''ocr_text'', ''detected_text'',
     ''transcript'', ''description'', ''title'', ''labels'']"

definition content_bytes :: "py_value \<Rightarrow> string result" where
  "content_bytes v =
     (case v of
        VNone \<Rightarrow> Inr []
      | VBytes s \<Rightarrow> Inr s
      | VStr s \<Rightarrow> Inr (utf8_encode s)
      | _ \<Rightarrow> res_bind (stable_json v) (\<lambda>t. Inr (utf8_encode t)))"

definition sha256_hex :: "py_value \<Rightarrow> string result" where
  "sha256_hex v = res_bind (content_bytes v) (\<lambda>b. Inr (sha256_hexdigest b))"

lemma content_bytes_canon [simp]: "content_bytes (canon v) = content_bytes v"
proof (cases v)
  case (VList xs)
  have "content_bytes (canon v) = res_bind (stable_json (canon v)) (\<lambda>t. Inr (utf8_encode t))"
    unfolding VList content_bytes_def by simp
  moreover have "content_bytes v = res_bind (stable_json v) (\<lambda>t. Inr (utf8_encode t))"
    unfolding VList content_bytes_def by simp
  ultimately show ?thesis by (simp add: stable_json_def)
next
  case (VDict d)
  have "content_bytes (canon v) = res_bind (stable_json (canon v)) (\<lambda>t. Inr (utf8_encode t))"
    unfolding VDict content_bytes_def by simp
  moreover have "content_bytes v = res_bind (stable_json v) (\<lambda>t. Inr (utf8_encode t))"
    unfolding VDict content_bytes_def by simp
  ultimately show ?thesis by (simp add: stable_json_def)
qed (simp_all add: content_bytes_def)

lemma sha256_hex_canon [simp]: "sha256_hex (canon v) = sha256_hex v"
  by (simp add: sha256_hex_def)

lemma content_bytes_jsonable: "jsonable v \<Longrightarrow> \<exists>b. content_bytes v = Inr b"
  by (cases v) (auto simp: content_bytes_def stable_json_def)

lemma sha256_hex_jsonable: "jsonable v \<Longrightarrow> \<exists>h. sha256_hex v = Inr h"
  using content_bytes_jsonable by (fastforce simp: sha256_hex_def)

lemma sha256_hex_nonempty: "sha256_hex v = Inr h \<Longrightarrow> length h = 64 \<and> (\<forall>c\<in>set h. is_hex_lower c)"
  using sha256_hexdigest_hex by (auto simp: sha256_hex_def res_bind_eq_Inr)

section \<open>\<open>ModalityRef\<close>\<close>

record modality_ref =
  modality :: string
  content :: py_value
  uri :: "string option"
  mime_type :: "string option"
  mod_sha256 :: "string option"
  size_bytes :: "int option"
  mod_metadata :: py_dict

definition modality_init :: "modality_ref \<Rightarrow> modality_ref result" where
  "modality_init m =
     (let name = py_lower (py_strip (modality m)) in
      if name = [] then Inl (ValueError ''modality is required'')
      else
        (let m1 = m\<lparr>modality := name\<rparr> in
         if content m1 = VNone then Inr m1
         else
           res_bind (content_bytes (content m1)) (\<lambda>data.
             Inr (m1\<lparr>mod_sha256 := (case mod_sha256 m1 of None \<Rightarrow> Some (sha256_hexdigest data) | s \<Rightarrow> s),
                     size_bytes := (case size_bytes m1 of None \<Rightarrow> Some (int (length data)) | n \<Rightarrow> n)\<rparr>))))"

definition opt_str :: "string option \<Rightarrow> py_value" where
  "opt_str x = (case x of None \<Rightarrow> VNone | Some s \<Rightarrow> VStr s)"

definition opt_int :: "int option \<Rightarrow> py_value" where
  "opt_int x = (case x of None \<Rightarrow> VNone | Some i \<Rightarrow> VInt i)"

definition modality_to_dict :: "modality_ref \<Rightarrow> py_dict" where
  "modality_to_dict m =
    [(''modality'', VStr (modality m)),
     (''content'', content m),
     (''uri'', opt_str (uri m)),
     (''mime_type'', opt_str (mime_type m)),
     (''sha256'', opt_str (mod_sha256 m)),
     (''size_bytes'', opt_int (size_bytes m)),
     (''metadata'', VDict (mod_metadata m))]"

text \<open>Reading an annotated field back from \<open>data.get(key)\<close>.\<close>

definition read_opt_str :: "py_value option \<Rightarrow> string option result" where
  "read_opt_str v = (case v of None \<Rightarrow> Inr None | Some VNone \<Rightarrow> Inr None | Some (VStr s) \<Rightarrow> Inr (Some s)
     | Some _ \<Rightarrow> Inl (TypeError ''str expected''))"

definition read_opt_int :: "py_value option \<Rightarrow> int option result" where
  "read_opt_int v = (case v of None \<Rightarrow> Inr None | Some VNone \<Rightarrow> Inr None | Some (VInt i) \<Rightarrow> Inr (Some i)
     | Some _ \<Rightarrow> Inl (TypeError ''int expected''))"

text \<open>\<open>dict(data.get(key) or {})\<close>.\<close>

definition read_dict :: "py_value option \<Rightarrow> py_dict result" where
  "read_dict v = (case v of None \<Rightarrow> Inr []
     | Some w \<Rightarrow> if truthy w then (case w of VDict d \<Rightarrow> Inr d | _ \<Rightarrow> Inl (TypeError ''dict expected'')) else Inr [])"

text \<open>\<open>str(data["modality"] or "")\<close>: a missing key raises, any other value is converted.\<close>

definition read_modality_name :: "py_value option \<Rightarrow> string result" where
  "read_modality_name v = (case v of None \<Rightarrow> Inl (KeyError ''modality'')
     | Some w \<Rightarrow> Inr (if truthy w then py_str w else []))"

definition modality_from_dict :: "py_dict \<Rightarrow> modality_ref result" where
  "modality_from_dict d =
     res_bind (read_modality_name (d_get d ''modality'')) (\<lambda>name.
     res_bind (read_opt_str (d_get d ''uri'')) (\<lambda>u.
     res_bind (read_opt_str (d_get d ''mime_type'')) (\<lambda>mime.
     res_bind (read_opt_str (d_get d ''sha256'')) (\<lambda>sha.
     res_bind (read_opt_int (d_get d ''size_bytes'')) (\<lambda>size.
     res_bind (read_dict (d_get d ''metadata'')) (\<lambda>meta.
       modality_init \<lparr>modality = name, content = d_or (d_get d ''content''), uri = u, mime_type = mime,
         mod_sha256 = sha, size_bytes = size, mod_metadata = meta\<rparr>))))))"

text \<open>The text of one modality that full-text search, scoring and prompts read.\<close>

definition bridge_text :: "py_value option \<Rightarrow> string list" where
  "bridge_text v =
     (case v of
        None \<Rightarrow> []
      | Some w \<Rightarrow>
          if w = VNone \<or> w = VStr [] then []
          else (case w of VDict d \<Rightarrow> [dumps w] | VList xs \<Rightarrow> [dumps w] | _ \<Rightarrow> [py_str w]))"

definition searchable_text :: "modality_ref \<Rightarrow> string" where
  "searchable_text m =
     (let plain = modality m = ''text'' \<or> modality m = ''structured'';
          parts =
            (case content m of VNone \<Rightarrow> [] | VStr s \<Rightarrow> [s] | VBytes b \<Rightarrow> [] | v \<Rightarrow> [dumps v])
            @ (case uri m of Some u \<Rightarrow> if u \<noteq> [] then [u] else [] | None \<Rightarrow> [])
            @ (if plain then [] else [modality m])
            @ (case mime_type m of Some t \<Rightarrow> if t \<noteq> [] \<and> \<not> plain then [t] else [] | None \<Rightarrow> [])
            @ concat (map (\<lambda>k. bridge_text (d_get (mod_metadata m) k)) TEXT_BRIDGE_METADATA_KEYS)
      in py_join [CHR 0x0A] (filter (\<lambda>p. p \<noteq> []) parts))"

section \<open>\<open>MemoryEnvelope\<close>\<close>

record envelope =
  scope :: py_dict
  memory_type :: string
  modalities :: "modality_ref list"
  env_id :: string
  created_at :: real
  updated_at :: real
  tags :: "string list"
  entities :: "string list"
  relations :: "py_dict list"
  importance :: real
  confidence :: real
  sensitivity :: string
  provenance :: py_dict
  metadata :: py_dict
  content_hash :: string

definition clamp_score :: "real \<Rightarrow> string \<Rightarrow> real result" where
  "clamp_score x name =
     (if x < 0 \<or> 1 < x then Inl (ValueError (name @ '' must be between 0 and 1'')) else Inr x)"

definition str_list :: "string list \<Rightarrow> py_value" where
  "str_list xs = VList (map VStr xs)"

definition hash_material :: "envelope \<Rightarrow> py_value" where
  "hash_material e = VDict
    [(''scope'', VDict (scope e)),
     (''memory_type'', VStr (memory_type e)),
     (''modalities'', VList (map (VDict \<circ> modality_to_dict) (modalities e))),
     (''tags'', str_list (tags e)),
     (''entities'', str_list (entities e)),
     (''relations'', VList (map VDict (relations e))),
     (''importance'', VFloat (importance e)),
     (''confidence'', VFloat (confidence e)),
     (''sensitivity'', VStr (sensitivity e)),
     (''provenance'', VDict (provenance e)),
     (''metadata'', VDict (metadata e))]"

definition compute_content_hash :: "envelope \<Rightarrow> string result" where
  "compute_content_hash e = sha256_hex (hash_material e)"

definition id_material :: "envelope \<Rightarrow> py_value" where
  "id_material e = VDict
    [(''content_hash'', VStr (content_hash e)),
     (''created_at'', VFloat (created_at e)),
     (''scope'', VDict (scope e))]"

text \<open>
  \<open>__post_init__\<close>: the fields as given, with \<open>upd\<close> for \<open>updated_at\<close> and the empty string for an
  absent hash or id.
\<close>

definition envelope_init :: "envelope \<Rightarrow> real option \<Rightarrow> envelope result" where
  "envelope_init e upd =
     (let e1 = e\<lparr>memory_type := (if memory_type e = [] then ''episodic'' else memory_type e),
                 tags := sorted_set (tags e), entities := sorted_set (entities e),
                 updated_at := (case upd of None \<Rightarrow> created_at e | Some t \<Rightarrow> t)\<rparr> in
      res_bind (clamp_score (importance e1) ''importance'') (\<lambda>imp.
      res_bind (clamp_score (confidence e1) ''confidence'') (\<lambda>conf.
      (let e2 = e1\<lparr>importance := imp, confidence := conf\<rparr> in
       res_bind (if content_hash e2 = [] then compute_content_hash e2 else Inr (content_hash e2)) (\<lambda>h.
       (let e3 = e2\<lparr>content_hash := h\<rparr> in
        res_bind (if env_id e3 = []
                  then res_bind (sha256_hex (id_material e3)) (\<lambda>s. Inr (''mem_'' @ take 24 s))
                  else Inr (env_id e3)) (\<lambda>i.
          Inr (e3\<lparr>env_id := i\<rparr>))))))))"

text \<open>\<open>MemoryEnvelope.text\<close>: one text modality.\<close>

definition text_modality :: "string \<Rightarrow> modality_ref" where
  "text_modality s = \<lparr>modality = ''text'', content = VStr s, uri = None, mime_type = Some ''text/plain'',
     mod_sha256 = None, size_bytes = None, mod_metadata = []\<rparr>"

definition blank_envelope :: "py_dict \<Rightarrow> real \<Rightarrow> envelope" where
  "blank_envelope sc now = \<lparr>scope = sc, memory_type = ''episodic'', modalities = [], env_id = [],
     created_at = now, updated_at = now, tags = [], entities = [], relations = [], importance = 1 / 2,
     confidence = 1, sensitivity = ''normal'', provenance = [], metadata = [], content_hash = []\<rparr>"

text \<open>The classmethods \<open>text\<close>, \<open>structured\<close> and \<open>file_ref\<close>: one modality, the other arguments from \<open>e\<close>.\<close>

definition envelope_of_modality :: "modality_ref \<Rightarrow> envelope \<Rightarrow> envelope result" where
  "envelope_of_modality m e = res_bind (modality_init m) (\<lambda>m'. envelope_init (e\<lparr>modalities := [m']\<rparr>) None)"

definition envelope_text :: "string \<Rightarrow> envelope \<Rightarrow> envelope result" where
  "envelope_text s e = envelope_of_modality (text_modality s) e"

definition envelope_structured :: "py_dict \<Rightarrow> envelope \<Rightarrow> envelope result" where
  "envelope_structured d e = envelope_of_modality
     \<lparr>modality = ''structured'', content = VDict d, uri = None, mime_type = Some ''application/json'',
      mod_sha256 = None, size_bytes = None, mod_metadata = []\<rparr> e"

definition envelope_file_ref :: "string \<Rightarrow> string \<Rightarrow> string \<Rightarrow> envelope \<Rightarrow> envelope result" where
  "envelope_file_ref u mime kind e = envelope_of_modality
     \<lparr>modality = kind, content = VNone, uri = Some u, mime_type = Some mime,
      mod_sha256 = None, size_bytes = None, mod_metadata = metadata e\<rparr> e"

definition envelope_multimodal :: "modality_ref list \<Rightarrow> envelope \<Rightarrow> envelope result" where
  "envelope_multimodal ms e =
     (if ms = [] then Inl (ValueError ''at least one modality is required'')
      else res_bind (res_each modality_init ms) (\<lambda>ms'. envelope_init (e\<lparr>modalities := ms'\<rparr>) None))"

definition text_content :: "envelope \<Rightarrow> string" where
  "text_content e = py_join [CHR 0x0A] (filter (\<lambda>p. p \<noteq> []) (map searchable_text (modalities e)))"

definition modality_names :: "envelope \<Rightarrow> string list" where
  "modality_names e = sorted_set (map modality (modalities e))"

definition envelope_to_dict :: "envelope \<Rightarrow> py_dict" where
  "envelope_to_dict e =
    [(''id'', VStr (env_id e)),
     (''created_at'', VFloat (created_at e)),
     (''updated_at'', VFloat (updated_at e)),
     (''scope'', VDict (scope e)),
     (''memory_type'', VStr (memory_type e)),
     (''modalities'', VList (map (VDict \<circ> modality_to_dict) (modalities e))),
     (''tags'', str_list (tags e)),
     (''entities'', str_list (entities e)),
     (''relations'', VList (map VDict (relations e))),
     (''importance'', VFloat (importance e)),
     (''confidence'', VFloat (confidence e)),
     (''sensitivity'', VStr (sensitivity e)),
     (''provenance'', VDict (provenance e)),
     (''metadata'', VDict (metadata e)),
     (''content_hash'', VStr (content_hash e))]"

text \<open>\<open>float(value)\<close> of \<open>_clamp_score\<close>, with its error.\<close>

definition read_float :: "string \<Rightarrow> py_value \<Rightarrow> real result" where
  "read_float name v = (case py_float v of Inr x \<Rightarrow> Inr x
     | Inl _ \<Rightarrow> Inl (ValueError (name @ '' must be numeric'')))"

definition read_time :: "py_value \<Rightarrow> real result" where
  "read_time v = (case v of VFloat x \<Rightarrow> Inr x | VInt i \<Rightarrow> Inr (of_int i)
     | _ \<Rightarrow> Inl (TypeError ''float expected''))"

text \<open>\<open>data.get("created_at") or time.time()\<close>: a stored zero is falsy and is replaced.\<close>

definition read_created :: "real \<Rightarrow> py_value option \<Rightarrow> real result" where
  "read_created now v = (case v of None \<Rightarrow> Inr now
     | Some w \<Rightarrow> if truthy w then read_time w else Inr now)"

definition read_updated :: "py_value option \<Rightarrow> real option result" where
  "read_updated v = (case v of None \<Rightarrow> Inr None | Some VNone \<Rightarrow> Inr None
     | Some w \<Rightarrow> res_bind (read_time w) (\<lambda>x. Inr (Some x)))"

definition read_score :: "string \<Rightarrow> real \<Rightarrow> py_value option \<Rightarrow> real result" where
  "read_score name dflt v = (case v of None \<Rightarrow> Inr dflt | Some w \<Rightarrow> read_float name w)"

definition read_str :: "string \<Rightarrow> py_value option \<Rightarrow> string result" where
  "read_str dflt v = (case v of None \<Rightarrow> Inr dflt | Some (VStr s) \<Rightarrow> Inr s
     | Some _ \<Rightarrow> Inl (TypeError ''str expected''))"

definition read_type :: "py_value option \<Rightarrow> string result" where
  "read_type v = (case v of None \<Rightarrow> Inr ''episodic''
     | Some w \<Rightarrow> if truthy w then (case w of VStr s \<Rightarrow> Inr s | _ \<Rightarrow> Inl (TypeError ''str expected''))
               else Inr ''episodic'')"

definition read_list :: "py_value option \<Rightarrow> py_value list result" where
  "read_list v = (case v of None \<Rightarrow> Inr []
     | Some w \<Rightarrow> if truthy w then (case w of VList xs \<Rightarrow> Inr xs | _ \<Rightarrow> Inl (TypeError ''list expected''))
               else Inr [])"

text \<open>\<open>for item in data.get("modalities", [])\<close>: what is missing or empty has no items, and \<open>None\<close> or a scalar raises.\<close>

definition read_items :: "py_value option \<Rightarrow> py_value list result" where
  "read_items v = (case v of None \<Rightarrow> Inr [] | Some (VList xs) \<Rightarrow> Inr xs
     | Some w \<Rightarrow> if w \<in> {VStr [], VBytes [], VDict []} then Inr [] else Inl (TypeError ''not iterable''))"

definition read_dict_item :: "py_value \<Rightarrow> py_dict result" where
  "read_dict_item v = (case v of VDict d \<Rightarrow> Inr d | _ \<Rightarrow> Inl (TypeError ''dict expected''))"

definition envelope_from_dict :: "real \<Rightarrow> py_dict \<Rightarrow> envelope result" where
  "envelope_from_dict now d =
     res_bind (read_str [] (d_get d ''id'')) (\<lambda>i.
     res_bind (read_created now (d_get d ''created_at'')) (\<lambda>created.
     res_bind (read_updated (d_get d ''updated_at'')) (\<lambda>upd.
     res_bind (read_dict (d_get d ''scope'')) (\<lambda>sc.
     res_bind (read_type (d_get d ''memory_type'')) (\<lambda>mt.
     res_bind (read_items (d_get d ''modalities'')) (\<lambda>mvs.
     res_bind (res_each (\<lambda>v. res_bind (read_dict_item v) modality_from_dict) mvs) (\<lambda>ms.
     res_bind (read_list (d_get d ''tags'')) (\<lambda>tg.
     res_bind (read_list (d_get d ''entities'')) (\<lambda>en.
     res_bind (read_list (d_get d ''relations'')) (\<lambda>rvs.
     res_bind (res_each read_dict_item rvs) (\<lambda>rs.
     res_bind (read_score ''importance'' (1 / 2) (d_get d ''importance'')) (\<lambda>imp.
     res_bind (read_score ''confidence'' 1 (d_get d ''confidence'')) (\<lambda>conf.
     res_bind (read_str ''normal'' (d_get d ''sensitivity'')) (\<lambda>sens.
     res_bind (read_dict (d_get d ''provenance'')) (\<lambda>prov.
     res_bind (read_dict (d_get d ''metadata'')) (\<lambda>meta.
     res_bind (read_str [] (d_get d ''content_hash'')) (\<lambda>h.
       envelope_init
         \<lparr>scope = sc, memory_type = mt, modalities = ms, env_id = i, created_at = created,
          updated_at = created, tags = map py_str tg, entities = map py_str en, relations = rs,
          importance = imp, confidence = conf, sensitivity = sens, provenance = prov, metadata = meta,
          content_hash = h\<rparr> upd)))))))))))))))))"

section \<open>Well-formed modalities and envelopes\<close>

definition wf_modality :: "modality_ref \<Rightarrow> bool" where
  "wf_modality m =
     (modality m \<noteq> [] \<and> trimmed (modality m) \<and> py_lower (modality m) = modality m
      \<and> (content m \<noteq> VNone \<longrightarrow>
           mod_sha256 m \<noteq> None \<and> size_bytes m \<noteq> None \<and> (\<exists>b. content_bytes (content m) = Inr b)))"

definition wf_envelope :: "envelope \<Rightarrow> bool" where
  "wf_envelope e =
     (0 \<le> importance e \<and> importance e \<le> 1 \<and> 0 \<le> confidence e \<and> confidence e \<le> 1
      \<and> sorted (tags e) \<and> distinct (tags e) \<and> sorted (entities e) \<and> distinct (entities e)
      \<and> memory_type e \<noteq> [] \<and> env_id e \<noteq> [] \<and> content_hash e \<noteq> [])"

lemma modality_init_wf:
  assumes "modality_init m = Inr m'"
  shows "wf_modality m'"
  using assms
  by (auto simp: modality_init_def wf_modality_def Let_def res_bind_eq_Inr
      split: if_splits option.splits)

lemma modality_init_fixpoint:
  assumes "wf_modality m"
  shows "modality_init m = Inr m"
  using assms by (auto simp: modality_init_def wf_modality_def Let_def)

lemma modality_init_content:
  assumes "modality_init m = Inr m'"
  shows "content m' = content m" "uri m' = uri m" "mime_type m' = mime_type m"
    "mod_metadata m' = mod_metadata m" "modality m' = py_lower (py_strip (modality m))"
  using assms
  by (auto simp: modality_init_def Let_def res_bind_eq_Inr split: if_splits option.splits)

text \<open>What the constructor computes when the caller left hash and size out.\<close>

lemma modality_init_hash:
  assumes "modality_init m = Inr m'" "content m \<noteq> VNone" "mod_sha256 m = None" "size_bytes m = None"
  shows "\<exists>b. content_bytes (content m') = Inr b \<and> mod_sha256 m' = Some (sha256_hexdigest b)
    \<and> size_bytes m' = Some (int (length b))"
  using assms by (auto simp: modality_init_def Let_def res_bind_eq_Inr split: if_splits)

lemma clamp_score_eq_Inr: "clamp_score x n = Inr y \<longleftrightarrow> y = x \<and> 0 \<le> x \<and> x \<le> 1"
  by (auto simp: clamp_score_def)

lemma sha256_hex_ne: "sha256_hex v = Inr h \<Longrightarrow> h \<noteq> []"
  using sha256_hex_nonempty [of v h] by auto

lemma envelope_init_eq_Inr:
  "envelope_init e upd = Inr e' \<longleftrightarrow>
     0 \<le> importance e \<and> importance e \<le> 1 \<and> 0 \<le> confidence e \<and> confidence e \<le> 1
     \<and> (let e1 = e\<lparr>memory_type := (if memory_type e = [] then ''episodic'' else memory_type e),
                  tags := sorted_set (tags e), entities := sorted_set (entities e),
                  updated_at := (case upd of None \<Rightarrow> created_at e | Some t \<Rightarrow> t)\<rparr> in
         \<exists>h i. (if content_hash e = [] then compute_content_hash e1 = Inr h else h = content_hash e)
           \<and> (if env_id e = []
              then \<exists>s. sha256_hex (id_material (e1\<lparr>content_hash := h\<rparr>)) = Inr s \<and> i = ''mem_'' @ take 24 s
              else i = env_id e)
           \<and> e' = e1\<lparr>content_hash := h, env_id := i\<rparr>)"
  unfolding envelope_init_def Let_def
  by (auto simp: res_bind_eq_Inr clamp_score_eq_Inr)

lemma envelope_init_wf:
  assumes "envelope_init e upd = Inr e'"
  shows "wf_envelope e'"
proof -
  obtain h i where h: "if content_hash e = [] then \<exists>v. sha256_hex v = Inr h else h = content_hash e"
    and i: "if env_id e = [] then \<exists>s. i = ''mem_'' @ take 24 s else i = env_id e"
    and e': "content_hash e' = h" "env_id e' = i"
      "memory_type e' = (if memory_type e = [] then ''episodic'' else memory_type e)"
      "tags e' = sorted_set (tags e)" "entities e' = sorted_set (entities e)"
      "importance e' = importance e" "confidence e' = confidence e"
    and r: "0 \<le> importance e" "importance e \<le> 1" "0 \<le> confidence e" "confidence e \<le> 1"
    using assms unfolding envelope_init_eq_Inr Let_def compute_content_hash_def
    by (fastforce split: if_splits)
  have "h \<noteq> []" using h sha256_hex_ne by (auto split: if_splits)
  moreover have "i \<noteq> []" using i by (auto split: if_splits)
  ultimately show ?thesis using e' r by (simp add: wf_envelope_def)
qed

lemma envelope_init_fields:
  assumes "envelope_init e upd = Inr e'"
  shows "scope e' = scope e" "modalities e' = modalities e" "created_at e' = created_at e"
    "tags e' = sorted_set (tags e)" "entities e' = sorted_set (entities e)"
    "relations e' = relations e" "importance e' = importance e" "confidence e' = confidence e"
    "sensitivity e' = sensitivity e" "provenance e' = provenance e" "metadata e' = metadata e"
    "updated_at e' = (case upd of None \<Rightarrow> created_at e | Some t \<Rightarrow> t)"
    "memory_type e' = (if memory_type e = [] then ''episodic'' else memory_type e)"
    "env_id e \<noteq> [] \<Longrightarrow> env_id e' = env_id e"
    "content_hash e \<noteq> [] \<Longrightarrow> content_hash e' = content_hash e"
  using assms unfolding envelope_init_eq_Inr by (auto simp: Let_def)

lemma envelope_init_updated:
  "envelope_init (e\<lparr>updated_at := t\<rparr>) (Some u) = envelope_init e (Some u)"
  by (cases e) (simp only: envelope_init_def envelope.simps envelope.update_convs Let_def option.case)

lemma envelope_init_fixpoint:
  assumes "wf_envelope e"
  shows "envelope_init e (Some (updated_at e)) = Inr e"
  using assms by (auto simp: envelope_init_def wf_envelope_def Let_def clamp_score_def)

text \<open>The constructor raises exactly on a score outside \<open>[0, 1]\<close>, once the hashed parts are JSON.\<close>

lemma jsonable_hash_material:
  "jsonable (hash_material e) \<longleftrightarrow>
     jsonable (VDict (scope e)) \<and> (\<forall>m\<in>set (modalities e). jsonable (content m) \<and> jsonable (VDict (mod_metadata m)))
     \<and> (\<forall>r\<in>set (relations e). jsonable (VDict r)) \<and> jsonable (VDict (provenance e)) \<and> jsonable (VDict (metadata e))"
  by (auto simp: hash_material_def modality_to_dict_def list_all_iff opt_str_def opt_int_def str_list_def
      split: option.splits)

lemma envelope_init_ok_iff:
  assumes "jsonable (hash_material e)"
  shows "(\<exists>e'. envelope_init e upd = Inr e') \<longleftrightarrow>
    0 \<le> importance e \<and> importance e \<le> 1 \<and> 0 \<le> confidence e \<and> confidence e \<le> 1"
proof -
  let ?e1 = "e\<lparr>memory_type := (if memory_type e = [] then ''episodic'' else memory_type e),
      tags := sorted_set (tags e), entities := sorted_set (entities e),
      updated_at := (case upd of None \<Rightarrow> created_at e | Some t \<Rightarrow> t)\<rparr>"
  have "\<exists>h. compute_content_hash ?e1 = Inr h"
    unfolding compute_content_hash_def
    by (rule sha256_hex_jsonable) (use assms in \<open>simp add: jsonable_hash_material\<close>)
  then obtain h where h: "if content_hash e = [] then compute_content_hash ?e1 = Inr h else h = content_hash e"
    by (cases "content_hash e = []") auto
  have "\<exists>s. sha256_hex (id_material (?e1\<lparr>content_hash := h\<rparr>)) = Inr s"
    by (rule sha256_hex_jsonable) (use assms in \<open>simp add: jsonable_hash_material id_material_def\<close>)
  then obtain i where "if env_id e = []
      then \<exists>s. sha256_hex (id_material (?e1\<lparr>content_hash := h\<rparr>)) = Inr s \<and> i = ''mem_'' @ take 24 s
      else i = env_id e"
    by (cases "env_id e = []") auto
  then show ?thesis
    unfolding envelope_init_eq_Inr Let_def using h by blast
qed

section \<open>Reading a stored envelope back\<close>

definition canon_modality :: "modality_ref \<Rightarrow> modality_ref" where
  "canon_modality m = m\<lparr>content := canon (content m), mod_metadata := canon_dict (mod_metadata m)\<rparr>"

definition canon_envelope :: "envelope \<Rightarrow> envelope" where
  "canon_envelope e = e\<lparr>scope := canon_dict (scope e), modalities := map canon_modality (modalities e),
     relations := map canon_dict (relations e), provenance := canon_dict (provenance e),
     metadata := canon_dict (metadata e)\<rparr>"

lemma canon_eq_VNone [simp]: "canon v = VNone \<longleftrightarrow> v = VNone"
  by (cases v) auto

lemma canon_dict_eq_Nil [simp]: "canon_dict d = [] \<longleftrightarrow> d = []"
  using length_sort [of fst "map (\<lambda>(k, v). (k, canon v)) d"]
  by (auto simp: canon_dict_def simp del: length_sort)

lemma canon_dict_idem [simp]: "canon_dict (canon_dict d) = canon_dict d"
  using canon_idem [of "VDict d"] by (simp add: canon_VDict del: canon.simps(2))

lemma wf_canon_modality [simp]: "wf_modality (canon_modality m) = wf_modality m"
  by (simp add: wf_modality_def canon_modality_def)

lemma wf_canon_envelope [simp]: "wf_envelope (canon_envelope e) = wf_envelope e"
  by (simp add: wf_envelope_def canon_envelope_def)

lemma canon_modality_to_dict:
  "canon (VDict (modality_to_dict m)) = VDict (canon_dict (modality_to_dict m))"
  by (simp add: canon_VDict del: canon.simps(2))

lemma distinct_modality_keys [simp]: "distinct (map fst (modality_to_dict m))"
  by (simp add: modality_to_dict_def)

lemma distinct_envelope_keys [simp]: "distinct (map fst (envelope_to_dict e))"
  by (simp add: envelope_to_dict_def)

lemma read_opt_str_opt_str [simp]: "read_opt_str (Some (canon (opt_str x))) = Inr x"
  by (cases x) (simp_all add: read_opt_str_def opt_str_def)

lemma read_opt_int_opt_int [simp]: "read_opt_int (Some (canon (opt_int x))) = Inr x"
  by (cases x) (simp_all add: read_opt_int_def opt_int_def)

lemma read_dict_VDict [simp]: "read_dict (Some (VDict d)) = Inr d"
  by (simp add: read_dict_def)

lemma read_dict_canon [simp]: "read_dict (Some (canon (VDict d))) = Inr (canon_dict d)"
  by (simp only: canon_VDict read_dict_VDict)

lemma map_of_modality:
  "map_of (canon_dict (modality_to_dict m)) k = map_option canon (map_of (modality_to_dict m) k)"
  by (simp add: map_of_canon_dict)

lemma modality_from_dict_to_dict:
  assumes "wf_modality m"
  shows "modality_from_dict (canon_dict (modality_to_dict m)) = Inr (canon_modality m)"
proof -
  have ne: "modality m \<noteq> []" using assms by (simp add: wf_modality_def)
  have g: "map_of (modality_to_dict m) ''modality'' = Some (VStr (modality m))"
    "map_of (modality_to_dict m) ''content'' = Some (content m)"
    "map_of (modality_to_dict m) ''uri'' = Some (opt_str (uri m))"
    "map_of (modality_to_dict m) ''mime_type'' = Some (opt_str (mime_type m))"
    "map_of (modality_to_dict m) ''sha256'' = Some (opt_str (mod_sha256 m))"
    "map_of (modality_to_dict m) ''size_bytes'' = Some (opt_int (size_bytes m))"
    "map_of (modality_to_dict m) ''metadata'' = Some (VDict (mod_metadata m))"
    by (simp_all add: modality_to_dict_def)
  have "modality_from_dict (canon_dict (modality_to_dict m)) = modality_init (canon_modality m)"
    unfolding modality_from_dict_def map_of_modality g
    using ne
    by (cases m) (simp add: read_modality_name_def d_or_def canon_modality_def del: canon.simps(2))
  then show ?thesis
    using modality_init_fixpoint [of "canon_modality m"] assms by simp
qed

lemma map_of_envelope:
  "map_of (canon_dict (envelope_to_dict e)) k = map_option canon (map_of (envelope_to_dict e) k)"
  by (simp add: map_of_canon_dict)

lemma read_list_VList [simp]: "read_list (Some (VList xs)) = Inr xs"
  by (simp add: read_list_def)

lemma read_items_VList [simp]: "read_items (Some (VList xs)) = Inr xs"
  by (simp add: read_items_def)

lemma canon_str_list [simp]: "canon (str_list xs) = VList (map VStr xs)"
  by (simp add: str_list_def)

lemma res_each_modalities:
  assumes "list_all wf_modality ms"
  shows "res_each (\<lambda>v. res_bind (read_dict_item v) modality_from_dict)
      (map (canon \<circ> (VDict \<circ> modality_to_dict)) ms) = Inr (map canon_modality ms)"
  using assms
  by (induction ms)
    (simp_all add: read_dict_item_def canon_VDict modality_from_dict_to_dict del: canon.simps(2))

text \<open>What the reader makes of a dict, field by field.\<close>

definition restamped :: "real \<Rightarrow> envelope \<Rightarrow> envelope" where
  "restamped now e = e\<lparr>created_at := (if created_at e = 0 then now else created_at e)\<rparr>"

lemma restamped_id [simp]: "created_at e \<noteq> 0 \<Longrightarrow> restamped now e = e"
  by (simp add: restamped_def)

lemma envelope_from_dict_restamps:
  assumes "map_of d ''id'' = Some (VStr (env_id e))"
    "map_of d ''created_at'' = Some (VFloat (created_at e))"
    "map_of d ''updated_at'' = Some (VFloat (updated_at e))"
    "map_of d ''scope'' = Some (VDict (scope e))"
    "map_of d ''memory_type'' = Some (VStr (memory_type e))"
    "map_of d ''modalities'' = Some (VList mvs)"
    "map_of d ''tags'' = Some (VList (map VStr (tags e)))"
    "map_of d ''entities'' = Some (VList (map VStr (entities e)))"
    "map_of d ''relations'' = Some (VList (map VDict (relations e)))"
    "map_of d ''importance'' = Some (VFloat (importance e))"
    "map_of d ''confidence'' = Some (VFloat (confidence e))"
    "map_of d ''sensitivity'' = Some (VStr (sensitivity e))"
    "map_of d ''provenance'' = Some (VDict (provenance e))"
    "map_of d ''metadata'' = Some (VDict (metadata e))"
    "map_of d ''content_hash'' = Some (VStr (content_hash e))"
  and ms: "res_each (\<lambda>v. res_bind (read_dict_item v) modality_from_dict) mvs = Inr (modalities e)"
  and ne: "memory_type e \<noteq> []"
  shows "envelope_from_dict now d = envelope_init (restamped now e) (Some (updated_at e))"
proof -
  have f: "read_float n (VFloat x) = Inr x" for n x by (simp add: read_float_def py_float_def)
  have t: "read_time (VFloat x) = Inr x" for x by (simp add: read_time_def)
  have s: "read_str d (Some (VStr x)) = Inr x" for d x by (simp add: read_str_def)
  have strs: "map (\<lambda>x. py_str (VStr x)) xs = xs" for xs by (simp add: map_idI)
  have rs: "res_each read_dict_item (map VDict ds) = Inr ds" for ds
    by (induction ds) (simp_all add: read_dict_item_def)
  have c: "read_created now (Some (VFloat (created_at e))) = Inr (created_at (restamped now e))"
    by (simp add: read_created_def t restamped_def)
  have r: "\<lparr>scope = scope e, memory_type = memory_type e, modalities = modalities e, env_id = env_id e,
      created_at = created_at (restamped now e), updated_at = created_at (restamped now e), tags = tags e, entities = entities e,
      relations = relations e, importance = importance e, confidence = confidence e,
      sensitivity = sensitivity e, provenance = provenance e, metadata = metadata e,
      content_hash = content_hash e\<rparr> = (restamped now e)\<lparr>updated_at := created_at (restamped now e)\<rparr>"
    by (cases e) (simp add: restamped_def)
  have "envelope_from_dict now d
      = envelope_init ((restamped now e)\<lparr>updated_at := created_at (restamped now e)\<rparr>) (Some (updated_at e))"
    unfolding envelope_from_dict_def assms c
    using ne
    by (simp add: f t s strs rs r ms read_updated_def read_score_def read_type_def comp_def)
  also have "\<dots> = envelope_init (restamped now e) (Some (updated_at e))"
    by (rule envelope_init_updated)
  finally show ?thesis .
qed

lemma map_of_envelope_to_dict:
  "map_of (envelope_to_dict e) ''id'' = Some (VStr (env_id e))"
  "map_of (envelope_to_dict e) ''created_at'' = Some (VFloat (created_at e))"
  "map_of (envelope_to_dict e) ''updated_at'' = Some (VFloat (updated_at e))"
  "map_of (envelope_to_dict e) ''scope'' = Some (VDict (scope e))"
  "map_of (envelope_to_dict e) ''memory_type'' = Some (VStr (memory_type e))"
  "map_of (envelope_to_dict e) ''modalities'' = Some (VList (map (VDict \<circ> modality_to_dict) (modalities e)))"
  "map_of (envelope_to_dict e) ''tags'' = Some (str_list (tags e))"
  "map_of (envelope_to_dict e) ''entities'' = Some (str_list (entities e))"
  "map_of (envelope_to_dict e) ''relations'' = Some (VList (map VDict (relations e)))"
  "map_of (envelope_to_dict e) ''importance'' = Some (VFloat (importance e))"
  "map_of (envelope_to_dict e) ''confidence'' = Some (VFloat (confidence e))"
  "map_of (envelope_to_dict e) ''sensitivity'' = Some (VStr (sensitivity e))"
  "map_of (envelope_to_dict e) ''provenance'' = Some (VDict (provenance e))"
  "map_of (envelope_to_dict e) ''metadata'' = Some (VDict (metadata e))"
  "map_of (envelope_to_dict e) ''content_hash'' = Some (VStr (content_hash e))"
  by (simp_all add: envelope_to_dict_def)

text \<open>The dict of an envelope read back, as it is and after JSON sorted its keys.\<close>

lemma modality_from_dict_same:
  assumes "wf_modality m"
  shows "modality_from_dict (modality_to_dict m) = Inr m"
proof -
  have ne: "modality m \<noteq> []" using assms by (simp add: wf_modality_def)
  have u: "read_opt_str (Some (opt_str x)) = Inr x" for x
    by (cases x) (simp_all add: read_opt_str_def opt_str_def)
  have i: "read_opt_int (Some (opt_int x)) = Inr x" for x
    by (cases x) (simp_all add: read_opt_int_def opt_int_def)
  have "modality_from_dict (modality_to_dict m) = modality_init m"
    using ne
    by (cases m) (simp add: modality_from_dict_def modality_to_dict_def u i read_modality_name_def d_or_def)
  then show ?thesis using modality_init_fixpoint [OF assms] by simp
qed

lemma envelope_from_dict_again_stamped:
  assumes "list_all wf_modality (modalities e)" "memory_type e \<noteq> []"
  shows "envelope_from_dict now (envelope_to_dict e) = envelope_init (restamped now e) (Some (updated_at e))"
proof -
  have "res_each (\<lambda>v. res_bind (read_dict_item v) modality_from_dict) (map (VDict \<circ> modality_to_dict) ms) = Inr ms"
    if "list_all wf_modality ms" for ms
    using that by (induction ms) (simp_all add: read_dict_item_def modality_from_dict_same)
  then show ?thesis
    using assms
    by (intro envelope_from_dict_restamps) (simp_all add: map_of_envelope_to_dict str_list_def)
qed

lemma envelope_from_dict_again:
  assumes "list_all wf_modality (modalities e)" "memory_type e \<noteq> []" "created_at e \<noteq> 0"
  shows "envelope_from_dict now (envelope_to_dict e) = envelope_init e (Some (updated_at e))"
  using envelope_from_dict_again_stamped [OF assms(1,2)] assms(3) by simp

lemma envelope_from_dict_same:
  assumes "wf_envelope e" "list_all wf_modality (modalities e)" "created_at e \<noteq> 0"
  shows "envelope_from_dict now (envelope_to_dict e) = Inr e"
  using envelope_from_dict_again [OF assms(2) _ assms(3)] envelope_init_fixpoint [OF assms(1)] assms(1)
  by (simp add: wf_envelope_def)

text \<open>An envelope read from a dict with an empty content hash carries its own.\<close>

lemma envelope_init_rehash:
  assumes "envelope_init e upd = Inr e'" "content_hash e = []"
  shows "compute_content_hash e' = Inr (content_hash e')"
proof -
  have "compute_content_hash (f\<lparr>content_hash := h, env_id := i\<rparr>) = compute_content_hash f" for f h i
    by (simp add: compute_content_hash_def hash_material_def)
  then show ?thesis using assms unfolding envelope_init_eq_Inr Let_def by auto
qed

lemma envelope_from_dict_rehash:
  assumes "envelope_from_dict now d = Inr e'" "d_get d ''content_hash'' = Some (VStr [])"
  shows "compute_content_hash e' = Inr (content_hash e')"
proof -
  have "\<exists>e upd. envelope_init e upd = Inr e' \<and> content_hash e = []"
    using assms unfolding envelope_from_dict_def res_bind_eq_Inr
    by (fastforce simp: read_str_def)
  then show ?thesis using envelope_init_rehash by blast
qed

lemma canon_restamped [simp]: "canon_envelope (restamped now e) = restamped now (canon_envelope e)"
  by (cases e) (simp add: restamped_def canon_envelope_def)

lemma wf_restamped [simp]: "wf_envelope (restamped now e) = wf_envelope e"
  by (simp add: restamped_def wf_envelope_def)

lemma restamped_fields [simp]:
  "modalities (restamped now e) = modalities e" "updated_at (restamped now e) = updated_at e"
  "env_id (restamped now e) = env_id e" "memory_type (restamped now e) = memory_type e"
  by (simp_all add: restamped_def)

lemma compute_content_hash_restamped [simp]: "compute_content_hash (restamped now e) = compute_content_hash e"
  by (simp add: compute_content_hash_def hash_material_def restamped_def)

lemma envelope_from_dict_canon:
  assumes "list_all wf_modality (modalities e)" "memory_type e \<noteq> []"
  shows "envelope_from_dict now (canon_dict (envelope_to_dict e))
    = envelope_init (restamped now (canon_envelope e)) (Some (updated_at e))"
proof -
  have "map (canon \<circ> VDict) rs = map VDict (map canon_dict rs)" for rs
    by (simp add: canon_VDict del: canon.simps(2))
  then show ?thesis
    using assms res_each_modalities [OF assms(1)]
    by (subst envelope_from_dict_restamps [where e = "canon_envelope e"])
      (simp_all add: map_of_envelope map_of_envelope_to_dict canon_VDict canon_envelope_def
        comp_def del: canon.simps(2))
qed

lemma envelope_from_dict_stored:
  assumes "wf_envelope e" "list_all wf_modality (modalities e)"
  shows "envelope_from_dict now (canon_dict (envelope_to_dict e)) = Inr (canon_envelope (restamped now e))"
proof -
  have "memory_type e \<noteq> []" "updated_at (canon_envelope e) = updated_at e"
    using assms(1) by (simp_all add: wf_envelope_def canon_envelope_def)
  then show ?thesis
    using envelope_from_dict_canon [OF assms(2)] envelope_init_fixpoint [of "restamped now (canon_envelope e)"] assms(1) by simp
qed

lemma envelope_from_dict_to_dict:
  assumes "wf_envelope e" "list_all wf_modality (modalities e)" "created_at e \<noteq> 0"
  shows "envelope_from_dict now (canon_dict (envelope_to_dict e)) = Inr (canon_envelope e)"
  using envelope_from_dict_stored [OF assms(1,2)] assms(3) by (simp add: canon_envelope_def)

lemma canon_VDict_cong:
  "map (\<lambda>(k, v). (k, canon v)) d = map (\<lambda>(k, v). (k, canon v)) d' \<Longrightarrow> canon (VDict d) = canon (VDict d')"
  by simp

lemma canon_VDict_canon_dict [simp]: "canon (VDict (canon_dict d)) = canon (VDict d)"
  by (simp add: canon_VDict del: canon.simps(2))

lemma canon_modality_dict:
  "canon (VDict (modality_to_dict (canon_modality m))) = canon (VDict (modality_to_dict m))"
  by (rule canon_VDict_cong) (simp add: modality_to_dict_def canon_modality_def del: canon.simps(2))

lemma canon_hash_material: "canon (hash_material (canon_envelope e)) = canon (hash_material e)"
  unfolding hash_material_def
  by (rule canon_VDict_cong) (simp add: canon_envelope_def comp_def canon_modality_dict del: canon.simps(2))

lemma canon_envelope_dict: "canon (VDict (envelope_to_dict (canon_envelope e))) = canon (VDict (envelope_to_dict e))"
  by (rule canon_VDict_cong)
    (simp add: envelope_to_dict_def canon_envelope_def canon_modality_dict comp_def del: canon.simps(2))

lemma dumps_canon_envelope:
  "dumps (VDict (envelope_to_dict (canon_envelope e))) = dumps (VDict (envelope_to_dict e))"
  by (metis canon_envelope_dict dumps_canon)

lemma jsonable_canon_envelope:
  "jsonable (VDict (envelope_to_dict (canon_envelope e))) = jsonable (VDict (envelope_to_dict e))"
  by (metis canon_envelope_dict jsonable_canon)

text \<open>The content hash does not see the order in which a dict was filled.\<close>

lemma compute_content_hash_canon [simp]:
  "compute_content_hash (canon_envelope e) = compute_content_hash e"
  using sha256_hex_canon [of "hash_material (canon_envelope e)"] sha256_hex_canon [of "hash_material e"]
  by (simp add: compute_content_hash_def canon_hash_material)

text \<open>
  C2: take an envelope as the constructors leave it (its scores in range, its tags and entities sorted, its id and hash
  set), whose parts are values that JSON text can hold: no bytes, no repeated key in a dict, no float of more than plain
  decimal digits. What is stored of it as JSON text is read back as the same envelope, its dicts in key order, with the
  same content hash; but a creation time of zero is read back as the time of the reading.
\<close>

theorem stored_envelope_roundtrip:
  assumes "wf_envelope e" "list_all wf_modality (modalities e)" "json_ok (VDict (envelope_to_dict e))"
  shows "res_bind (loads (dumps (VDict (envelope_to_dict e))))
      (\<lambda>v. res_bind (read_dict_item v) (envelope_from_dict now))
      = Inr (canon_envelope (if created_at e = 0 then e\<lparr>created_at := now\<rparr> else e))
    \<and> compute_content_hash (canon_envelope e) = compute_content_hash e"
  using loads_dumps [OF assms(3)] envelope_from_dict_stored [OF assms(1,2), of now]
  by (simp add: canon_VDict read_dict_item_def restamped_def del: canon.simps(2))

text \<open>A note of one text modality.\<close>

definition sample_envelope :: envelope where
  "sample_envelope = (blank_envelope [(''box'', VStr ''main'')] 1)\<lparr>modalities :=
     [(text_modality ''hi'')\<lparr>mod_sha256 := Some ''d'', size_bytes := Some 2\<rparr>], env_id := ''m1'', content_hash := ''h''\<rparr>"

lemma sample_envelope_ok:
  "wf_envelope sample_envelope" "list_all wf_modality (modalities sample_envelope)" "created_at sample_envelope \<noteq> 0"
  "json_ok (VDict (envelope_to_dict sample_envelope))"
  by (simp_all add: sample_envelope_def blank_envelope_def wf_envelope_def wf_modality_def text_modality_def
      content_bytes_def envelope_to_dict_def modality_to_dict_def str_list_def opt_str_def opt_int_def
      plain_float_def trimmed_def py_lower_def lower_char_def is_space_def)

lemma stored_envelope_roundtrip_witness:
  "res_bind (loads (dumps (VDict (envelope_to_dict sample_envelope))))
      (\<lambda>v. res_bind (read_dict_item v) (envelope_from_dict 5)) = Inr (canon_envelope sample_envelope)
    \<and> compute_content_hash (canon_envelope sample_envelope) = compute_content_hash sample_envelope"
  using stored_envelope_roundtrip [OF sample_envelope_ok(1,2,4), of 5] sample_envelope_ok(3) by simp

text \<open>
  C17: once the hashed parts are JSON, the constructor raises exactly on a score outside \<open>[0, 1]\<close>; what
  it returns is well formed (sorted tags without duplicates, an id, a hash, a type), and constructing it
  again from its own fields gives the same envelope.
\<close>

theorem envelope_constructor:
  assumes "jsonable (hash_material e)"
  shows "(\<exists>e'. envelope_init e upd = Inr e') = (0 \<le> importance e \<and> importance e \<le> 1 \<and> 0 \<le> confidence e \<and> confidence e \<le> 1)
    \<and> (\<forall>e'. envelope_init e upd = Inr e' \<longrightarrow> wf_envelope e' \<and> envelope_init e' (Some (updated_at e')) = Inr e')"
  using envelope_init_ok_iff [OF assms] envelope_init_wf envelope_init_fixpoint by blast

lemma envelope_constructor_witness:
  "\<exists>e'. envelope_init sample_envelope None = Inr e' \<and> wf_envelope e'"
proof -
  have "jsonable (hash_material sample_envelope)"
    by (simp add: jsonable_hash_material sample_envelope_def blank_envelope_def text_modality_def)
  moreover have "0 \<le> importance sample_envelope \<and> importance sample_envelope \<le> 1
      \<and> 0 \<le> confidence sample_envelope \<and> confidence sample_envelope \<le> 1"
    by (simp add: sample_envelope_def blank_envelope_def)
  ultimately show ?thesis using envelope_constructor [of sample_envelope None] by blast
qed

end
