(* ===== verification/Lifecycle.thy ===== *)
theory Lifecycle
  imports Schema
begin

text \<open>
  \<open>lifecycle.py\<close>: the state, validity window and usage of a memory, read from
  \<open>metadata["lifecycle"]\<close>, and the score adjustments ranking applies to it. \<open>math.log1p\<close> is
  \<^term>\<open>ln (1 + x)\<close>.
\<close>

definition ALLOWED_STATES :: "string list" where
  "ALLOWED_STATES = [''active'', ''historical'', ''superseded'', ''contradicted'', ''archival'', ''deleted'']"

definition HISTORICAL_QUERY_TERMS :: "string list" where
  "HISTORICAL_QUERY_TERMS =
    [''anterior'', ''antiga'', ''antigo'', ''audit'', ''auditoria'', ''before'', ''evolution'', ''evolucao'',
     ''evolu'' @ [CHR 0xE7, CHR 0xE3] @ ''o'', ''historical'', ''historico'',
     ''hist'' @ [CHR 0xF3] @ ''rico'', ''history'', ''old'', ''passado'', ''past'', ''previous'']"

definition CURRENT_QUERY_TERMS :: "string list" where
  "CURRENT_QUERY_TERMS = [''active'', ''atual'', ''current'', ''latest'', ''now'', ''recente'']"

record lifecycle_view =
  lc_state :: string
  lc_version :: "string option"
  lc_supersedes :: "string list"
  lc_superseded_by :: "string option"
  lc_valid_from :: "real option"
  lc_valid_to :: "real option"
  usage_count :: int
  last_used_at :: "real option"
  importance_delta :: real
  base_importance :: real

definition is_deleted :: "lifecycle_view \<Rightarrow> bool" where
  "is_deleted v = (lc_state v = ''deleted'')"

definition active_at :: "lifecycle_view \<Rightarrow> real option \<Rightarrow> bool" where
  "active_at v t = (case t of None \<Rightarrow> True
     | Some now \<Rightarrow> (case lc_valid_from v of None \<Rightarrow> True | Some a \<Rightarrow> a \<le> now)
                 \<and> (case lc_valid_to v of None \<Rightarrow> True | Some b \<Rightarrow> now \<le> b))"

text \<open>\<open>_terms\<close> and the two set intersections on it.\<close>

definition query_terms_of :: "string list \<Rightarrow> string list" where
  "query_terms_of values = filter (\<lambda>t. t \<noteq> []) (map (\<lambda>v. py_lower (py_strip v)) values)"

definition historical_query :: "string list \<Rightarrow> bool" where
  "historical_query terms = list_ex (\<lambda>t. t \<in> set HISTORICAL_QUERY_TERMS) (query_terms_of terms)"

definition current_query :: "string list \<Rightarrow> bool" where
  "current_query terms = list_ex (\<lambda>t. t \<in> set CURRENT_QUERY_TERMS) (query_terms_of terms)"

definition state_adjustments :: "(string \<times> real) list" where
  "state_adjustments = [(''active'', 0), (''historical'', - 10 / 100), (''superseded'', - 28 / 100),
     (''contradicted'', - 22 / 100), (''archival'', - 35 / 100)]"

definition state_adjustment :: "lifecycle_view \<Rightarrow> string list \<Rightarrow> real option \<Rightarrow> real" where
  "state_adjustment v terms at_time =
     (let a0 = (case map_of state_adjustments (lc_state v) of None \<Rightarrow> 0 | Some a \<Rightarrow> a);
          h = historical_query terms;
          a1 = (if h \<and> lc_state v \<in> {''historical'', ''superseded'', ''archival''} then a0 + 25 / 100 else a0);
          a2 = (if h \<and> lc_state v = ''contradicted'' then a1 + 10 / 100 else a1);
          a3 = (if current_query terms \<and> lc_state v = ''superseded'' then a2 - 12 / 100 else a2)
      in if at_time \<noteq> None \<and> \<not> active_at v at_time \<and> \<not> h then a3 - 50 / 100 else a3)"

definition usage_bonus :: "int \<Rightarrow> real" where
  "usage_bonus n = min (12 / 100) (ln (1 + of_int (max 0 n)) * (3 / 100))"

definition effective_importance :: "lifecycle_view \<Rightarrow> real option \<Rightarrow> string list \<Rightarrow> real option \<Rightarrow> real" where
  "effective_importance v base terms at_time =
     (let b = (case base of None \<Rightarrow> base_importance v | Some x \<Rightarrow> clamp01 x) in
      if is_deleted v then 0
      else clamp01 (b + importance_delta v + state_adjustment v terms at_time + usage_bonus (usage_count v)))"

definition adjusted_score :: "lifecycle_view \<Rightarrow> real \<Rightarrow> string list \<Rightarrow> real option \<Rightarrow> real" where
  "adjusted_score v score terms at_time =
     (if is_deleted v then 0
      else
        (let base = clamp01 (base_importance v);
             effective = effective_importance v None terms at_time;
             h = historical_query terms;
             d0 = (effective - base) * (65 / 100);
             d1 = (if lc_state v = ''superseded'' \<and> current_query terms then d0 - 18 / 100 else d0);
             d2 = (if lc_state v = ''contradicted'' \<and> \<not> h then d1 - 20 / 100 else d1);
             d3 = (if lc_state v \<in> {''historical'', ''superseded'', ''archival''} \<and> h then d2 + 16 / 100 else d2)
         in clamp01 (score + d3)))"

definition should_recall :: "lifecycle_view \<Rightarrow> string list \<Rightarrow> real option \<Rightarrow> bool" where
  "should_recall v terms at_time =
     (\<not> is_deleted v \<and> \<not> (at_time \<noteq> None \<and> \<not> active_at v at_time \<and> \<not> historical_query terms))"

definition lifecycle_to_trace :: "lifecycle_view \<Rightarrow> string list \<Rightarrow> real option \<Rightarrow> py_dict" where
  "lifecycle_to_trace v terms at_time =
     [(''state'', VStr (lc_state v)),
      (''effective_importance'', VFloat (py_round 4 (effective_importance v None terms at_time)))]
     @ (if lc_state v \<noteq> ''active'' then [(''rank_policy'', VStr ''preserved_downranked'')] else [])
     @ (case lc_version v of None \<Rightarrow> [] | Some s \<Rightarrow> if s = [] then [] else [(''version'', VStr s)])
     @ (case lc_superseded_by v of None \<Rightarrow> [] | Some s \<Rightarrow> if s = [] then [] else [(''superseded_by'', VStr s)])
     @ (if lc_supersedes v = [] then [] else [(''supersedes'', str_list (take 4 (lc_supersedes v)))])
     @ (if usage_count v = 0 then [] else [(''usage_count'', VInt (usage_count v))])
     @ (if at_time \<noteq> None \<and> \<not> active_at v at_time then [(''active_at_query_time'', VBool False)] else [])"

section \<open>Reading the view from an envelope\<close>

definition read_state :: "py_value option \<Rightarrow> string" where
  "read_state x =
     (let raw = (case x of None \<Rightarrow> ''active'' | Some v \<Rightarrow> if truthy v then py_str v else ''active'');
          s = py_replace_char (CHR '' '') (CHR ''_'') (py_lower (py_strip raw))
      in if s \<in> set ALLOWED_STATES then s else ''active'')"

definition is_blank_value :: "py_value option \<Rightarrow> bool" where
  "is_blank_value x = (x = None \<or> x = Some VNone \<or> x = Some (VStr []))"

definition optional_float :: "py_value option \<Rightarrow> real option" where
  "optional_float x = (if is_blank_value x then None
     else (case py_float (d_or x) of Inr r \<Rightarrow> Some r | Inl _ \<Rightarrow> None))"

definition optional_int :: "py_value option \<Rightarrow> int" where
  "optional_int x = (if is_blank_value x then 0
     else (case py_int (d_or x) of
         Inr n \<Rightarrow> max 0 n
       | Inl _ \<Rightarrow> (case py_float (d_or x) of Inr r \<Rightarrow> max 0 (trunc r) | Inl _ \<Rightarrow> 0)))"

definition optional_str :: "py_value option \<Rightarrow> string option" where
  "optional_str x = (case d_or x of VNone \<Rightarrow> None
     | v \<Rightarrow> (let s = py_strip (py_str v) in if s = [] then None else Some s))"

definition string_list :: "py_value option \<Rightarrow> string list" where
  "string_list x = (case d_or x of VNone \<Rightarrow> []
     | VList vs \<Rightarrow> filter (\<lambda>s. s \<noteq> []) (map py_str vs)
     | v \<Rightarrow> [py_str v])"

definition lifecycle_for :: "envelope \<Rightarrow> lifecycle_view" where
  "lifecycle_for e =
     (let d = (case d_get (metadata e) ''lifecycle'' of Some (VDict d) \<Rightarrow> d | _ \<Rightarrow> []) in
      \<lparr>lc_state = read_state (d_get d ''state''),
       lc_version = optional_str (d_get d ''version''),
       lc_supersedes = string_list (d_get d ''supersedes''),
       lc_superseded_by = optional_str (d_get d ''superseded_by''),
       lc_valid_from = optional_float (d_get d ''valid_from''),
       lc_valid_to = optional_float (d_get d ''valid_to''),
       usage_count = optional_int (d_get d ''usage_count''),
       last_used_at = optional_float (d_get d ''last_used_at''),
       importance_delta = (case optional_float (d_get d ''importance_delta'') of None \<Rightarrow> 0 | Some x \<Rightarrow> x),
       base_importance = importance e\<rparr>)"

section \<open>What ranking gets\<close>

lemma read_state_allowed: "read_state x \<in> set ALLOWED_STATES"
  by (simp add: read_state_def Let_def ALLOWED_STATES_def)

lemma optional_int_nonneg: "0 \<le> optional_int x"
  by (auto simp: optional_int_def split: sum.splits)

lemma usage_bonus_range: "0 \<le> usage_bonus n \<and> usage_bonus n \<le> 12 / 100"
  by (auto simp: usage_bonus_def intro!: mult_nonneg_nonneg ln_ge_zero)

lemma usage_bonus_mono: "m \<le> n \<Longrightarrow> usage_bonus m \<le> usage_bonus n"
  unfolding usage_bonus_def
  by (intro min.mono order_refl mult_right_mono ln_mono) auto

lemma state_cases:
  assumes "s \<in> set ALLOWED_STATES"
  obtains "s = ''active''" | "s = ''historical''" | "s = ''superseded''" | "s = ''contradicted''"
    | "s = ''archival''" | "s = ''deleted''"
proof -
  have "s = ''active'' \<or> s = ''historical'' \<or> s = ''superseded'' \<or> s = ''contradicted''
      \<or> s = ''archival'' \<or> s = ''deleted''"
    using assms by (simp add: ALLOWED_STATES_def)
  then show ?thesis by (elim disjE) (erule that)+
qed

lemma active_at_state [simp]: "active_at (v\<lparr>lc_state := s\<rparr>) t = active_at v t"
  by (cases t) (simp_all add: active_at_def)

lemma state_adjustment_le_active:
  assumes "s \<in> set ALLOWED_STATES" "\<not> historical_query terms"
  shows "state_adjustment (v\<lparr>lc_state := s\<rparr>) terms t \<le> state_adjustment (v\<lparr>lc_state := ''active''\<rparr>) terms t"
  using assms(1) by (cases rule: state_cases) (simp_all add: state_adjustment_def state_adjustments_def Let_def assms(2))

lemma effective_importance_range: "0 \<le> effective_importance v base terms t \<and> effective_importance v base terms t \<le> 1"
  by (simp add: effective_importance_def Let_def)

lemma effective_le_active:
  assumes "s \<in> set ALLOWED_STATES" "\<not> historical_query terms"
  shows "effective_importance (v\<lparr>lc_state := s\<rparr>) base terms t
    \<le> effective_importance (v\<lparr>lc_state := ''active''\<rparr>) base terms t"
  using state_adjustment_le_active [OF assms, of v t]
  by (cases base) (auto simp: effective_importance_def Let_def is_deleted_def intro!: clamp01_mono)

text \<open>
  Ranked scores are in \<open>[0, 1]\<close>; a deleted memory scores 0 and is never recalled, a memory
  outside its validity window is recalled only by a query about the past.
\<close>

theorem adjusted_score_range:
  "0 \<le> adjusted_score v score terms t \<and> adjusted_score v score terms t \<le> 1
   \<and> (lc_state v = ''deleted'' \<longrightarrow> adjusted_score v score terms t = 0 \<and> \<not> should_recall v terms t)
   \<and> (\<not> active_at v t \<longrightarrow> should_recall v terms t = (lc_state v \<noteq> ''deleted'' \<and> historical_query terms))"
  by (auto simp: adjusted_score_def should_recall_def is_deleted_def active_at_def Let_def)

text \<open>
  No state ranks a memory above the same memory in state active, unless the query asks about
  the past.
\<close>

theorem superseded_downranked:
  assumes "s \<in> set ALLOWED_STATES" "\<not> historical_query terms"
  shows "adjusted_score (v\<lparr>lc_state := s\<rparr>) score terms t \<le> adjusted_score (v\<lparr>lc_state := ''active''\<rparr>) score terms t"
proof -
  have le: "effective_importance (v\<lparr>lc_state := s\<rparr>) None terms t
      \<le> effective_importance (v\<lparr>lc_state := ''active''\<rparr>) None terms t"
    by (rule effective_le_active [OF assms])
  have "(effective_importance (v\<lparr>lc_state := s\<rparr>) None terms t - clamp01 (base_importance v)) * (65 / 100)
      \<le> (effective_importance (v\<lparr>lc_state := ''active''\<rparr>) None terms t - clamp01 (base_importance v)) * (65 / 100)"
    using le by simp
  then show ?thesis
    by (cases rule: state_cases [OF assms(1)])
      (auto simp: adjusted_score_def is_deleted_def assms(2) Let_def clamp01_ge0
        intro!: clamp01_mono, argo+)
qed

text \<open>
  a query about the past, with no word for the present, ranks a historical, superseded or
  archival memory at least as high as the same memory in state active.
\<close>

theorem history_query_upranks:
  assumes "s \<in> {''historical'', ''superseded'', ''archival''}"
    and "historical_query terms" "\<not> current_query terms"
  shows "adjusted_score (v\<lparr>lc_state := ''active''\<rparr>) score terms t \<le> adjusted_score (v\<lparr>lc_state := s\<rparr>) score terms t"
proof -
  have gap: "clamp01 x - clamp01 (x + a) \<le> 10 / 100" if "- 10 / 100 \<le> a" for x a :: real
    using that unfolding clamp01_def by linarith
  define x where "x = base_importance v + importance_delta v + usage_bonus (usage_count v)"
  define a where "a = state_adjustment (v\<lparr>lc_state := s\<rparr>) terms t"
  have a: "- 10 / 100 \<le> a"
    using assms by (auto simp: a_def state_adjustment_def state_adjustments_def Let_def)
  have active: "effective_importance (v\<lparr>lc_state := ''active''\<rparr>) None terms t = clamp01 x"
    using assms by (simp add: effective_importance_def is_deleted_def Let_def x_def
        state_adjustment_def state_adjustments_def algebra_simps)
  have moved: "effective_importance (v\<lparr>lc_state := s\<rparr>) None terms t = clamp01 (x + a)"
    using assms(1) by (auto simp: effective_importance_def is_deleted_def Let_def x_def a_def algebra_simps)
  have "(clamp01 x - c) * (65 / 100) \<le> (clamp01 (x + a) - c) * (65 / 100) + 16 / 100" for c
    using gap [OF a, of x] by argo
  then show ?thesis
    using assms by (auto simp: adjusted_score_def is_deleted_def Let_def active moved intro!: clamp01_mono)
qed

text \<open>the view read from any envelope has a known state and a usage count that is not negative.\<close>

theorem lifecycle_for_valid:
  "lc_state (lifecycle_for e) \<in> set ALLOWED_STATES \<and> 0 \<le> usage_count (lifecycle_for e)
   \<and> base_importance (lifecycle_for e) = importance e"
  by (simp add: lifecycle_for_def Let_def read_state_allowed optional_int_nonneg)

lemma adjusted_score_mono:
  assumes "x \<le> y"
  shows "adjusted_score v x terms t \<le> adjusted_score v y terms t"
  using assms by (simp add: adjusted_score_def Let_def clamp01_mono)


definition demo_view :: lifecycle_view where
  "demo_view = \<lparr>lc_state = ''active'', lc_version = None, lc_supersedes = [], lc_superseded_by = None,
     lc_valid_from = None, lc_valid_to = Some 10, usage_count = 0, last_used_at = None,
     importance_delta = 0, base_importance = 1 / 2\<rparr>"

lemma superseded_downranked_witness:
  "adjusted_score (demo_view\<lparr>lc_state := ''superseded''\<rparr>) (1 / 2) [''now''] None
    \<le> adjusted_score (demo_view\<lparr>lc_state := ''active''\<rparr>) (1 / 2) [''now''] None"
  by (rule superseded_downranked) code_simp+

lemma history_query_upranks_witness:
  "adjusted_score (demo_view\<lparr>lc_state := ''active''\<rparr>) (1 / 2) [''History''] (Some 20)
    \<le> adjusted_score (demo_view\<lparr>lc_state := ''archival''\<rparr>) (1 / 2) [''History''] (Some 20)"
  by (rule history_query_upranks) code_simp+

lemma adjusted_score_range_witness:
  "adjusted_score (demo_view\<lparr>lc_state := ''deleted''\<rparr>) 1 [] (Some 20) = 0
   \<and> should_recall demo_view [''History''] (Some 20) = (lc_state demo_view \<noteq> ''deleted'' \<and> historical_query [''History''])"
  using adjusted_score_range [of "demo_view\<lparr>lc_state := ''deleted''\<rparr>" 1 "[]" "Some 20"]
    adjusted_score_range [of demo_view 1 "[''History'']" "Some 20"]
  by (simp add: demo_view_def active_at_def)

end
