(* ===== verification/Regex.thy ===== *)
theory Regex
  imports Prelude
begin

text \<open>
  The part of Python's \<open>re\<close> the program's patterns use: character classes and their greedy or lazy
  repetition, sequences, alternatives, numbered groups, \<open>\b\<close> and \<open>$\<close>. \<open>rx_all\<close> lists every way to match
  from a position in the order in which backtracking tries them, so the first is the match the engine
  reports.
\<close>

definition at_boundary :: "string \<Rightarrow> nat \<Rightarrow> bool" where
  "at_boundary s i =
     ((0 < i \<and> i \<le> length s \<and> is_word (s ! (i - 1))) \<noteq> (i < length s \<and> is_word (s ! i)))"

datatype regex =
    Empty
  | Class "char \<Rightarrow> bool"
  | Repeat bool "char \<Rightarrow> bool" nat "nat option"
  | Seq regex regex
  | Alt regex regex
  | Group nat regex
  | Boundary
  | AtEnd

type_synonym captures = "(nat \<times> string) list"

definition substr :: "nat \<Rightarrow> nat \<Rightarrow> string \<Rightarrow> string" where
  "substr p q s = take (q - p) (drop p s)"

text \<open>The lengths a repetition may take at \<open>p\<close>: longest first when greedy.\<close>

definition repeat_lengths :: "bool \<Rightarrow> (char \<Rightarrow> bool) \<Rightarrow> nat \<Rightarrow> nat option \<Rightarrow> string \<Rightarrow> nat list" where
  "repeat_lengths greedy P lo hi s =
     (let n = length (takeWhile P s); top = (case hi of None \<Rightarrow> n | Some h \<Rightarrow> min h n); ks = [lo..<Suc top]
      in if greedy then rev ks else ks)"

primrec rx_all :: "regex \<Rightarrow> string \<Rightarrow> nat \<Rightarrow> (nat \<times> captures) list" where
  "rx_all Empty s p = [(p, [])]"
| "rx_all (Class P) s p = (if p < length s \<and> P (s ! p) then [(Suc p, [])] else [])"
| "rx_all (Repeat greedy P lo hi) s p = map (\<lambda>k. (p + k, [])) (repeat_lengths greedy P lo hi (drop p s))"
| "rx_all (Seq a b) s p =
     concat (map (\<lambda>(q, c). map (\<lambda>(r, d). (r, c @ d)) (rx_all b s q)) (rx_all a s p))"
| "rx_all (Alt a b) s p = rx_all a s p @ rx_all b s p"
| "rx_all (Group n a) s p = map (\<lambda>(q, c). (q, (n, substr p q s) # c)) (rx_all a s p)"
| "rx_all Boundary s p = (if at_boundary s p then [(p, [])] else [])"
| "rx_all AtEnd s p =
     (if p = length s \<or> Suc p = length s \<and> s ! p = CHR 0x0A then [(p, [])] else [])"

fun rx_seq :: "regex list \<Rightarrow> regex" where
  "rx_seq [] = Empty"
| "rx_seq [a] = a"
| "rx_seq (a # b # rs) = Seq a (rx_seq (b # rs))"

definition rx_word :: "string \<Rightarrow> regex" where
  "rx_word w = rx_seq (map (\<lambda>c. Class (\<lambda>x. x = c)) w)"

text \<open>The same with \<open>re.IGNORECASE\<close>, for a pattern written in lower case.\<close>

definition rx_word_nocase :: "string \<Rightarrow> regex" where
  "rx_word_nocase w = rx_seq (map (\<lambda>c. Class (\<lambda>x. lower_char x = c)) w)"

definition rx_optional :: "regex \<Rightarrow> regex" where
  "rx_optional a = Alt a Empty"

text \<open>\<open>match\<close> at a position, \<open>search\<close> from it on, and the successive matches of \<open>finditer\<close>.\<close>

definition rx_match :: "regex \<Rightarrow> string \<Rightarrow> nat \<Rightarrow> (nat \<times> captures) option" where
  "rx_match r s p = (case rx_all r s p of [] \<Rightarrow> None | m # _ \<Rightarrow> Some m)"

definition rx_search :: "regex \<Rightarrow> string \<Rightarrow> nat \<Rightarrow> (nat \<times> nat \<times> captures) option" where
  "rx_search r s p =
     (case find (\<lambda>i. rx_match r s i \<noteq> None) [p..<Suc (length s)] of
        None \<Rightarrow> None
      | Some i \<Rightarrow> (case rx_match r s i of None \<Rightarrow> None | Some (q, c) \<Rightarrow> Some (i, q, c)))"

fun rx_finditer_from :: "nat \<Rightarrow> regex \<Rightarrow> string \<Rightarrow> nat \<Rightarrow> (nat \<times> nat \<times> captures) list" where
  "rx_finditer_from 0 r s p = []"
| "rx_finditer_from (Suc n) r s p =
     (case rx_search r s p of
        None \<Rightarrow> []
      | Some (i, q, c) \<Rightarrow> (i, q, c) # rx_finditer_from n r s (if q = i then Suc i else q))"

text \<open>Every step moves the position, so a text of length \<open>n\<close> needs at most \<open>n + 1\<close> of them.\<close>

definition rx_finditer :: "regex \<Rightarrow> string \<Rightarrow> (nat \<times> nat \<times> captures) list" where
  "rx_finditer r s = rx_finditer_from (Suc (length s)) r s 0"

definition capture :: "nat \<Rightarrow> captures \<Rightarrow> string" where
  "capture n c = (case map_of c n of None \<Rightarrow> [] | Some t \<Rightarrow> t)"

section \<open>Laws\<close>

lemma repeat_lengths_bounds:
  "k \<in> set (repeat_lengths greedy P lo hi s) \<longleftrightarrow>
     lo \<le> k \<and> k \<le> length (takeWhile P s) \<and> (case hi of None \<Rightarrow> True | Some h \<Rightarrow> k \<le> h)"
  by (auto simp: repeat_lengths_def Let_def split: option.split)

lemma rx_all_bounds: "(q, c) \<in> set (rx_all r s p) \<Longrightarrow> p \<le> length s \<Longrightarrow> p \<le> q \<and> q \<le> length s"
proof (induction r arbitrary: p q c)
  case (Repeat greedy P lo hi)
  then obtain k where k: "k \<in> set (repeat_lengths greedy P lo hi (drop p s))" "q = p + k" by auto
  then have "k \<le> length (takeWhile P (drop p s))" by (simp add: repeat_lengths_bounds)
  also have "\<dots> \<le> length (drop p s)" by (rule length_takeWhile_le)
  finally show ?case using k(2) Repeat.prems(2) by simp
next
  case (Seq a b)
  then obtain q1 c1 c2 where "(q1, c1) \<in> set (rx_all a s p)" "(q, c2) \<in> set (rx_all b s q1)" by auto
  then show ?case using Seq.IH Seq.prems(2) by (meson le_trans)
next
  case (Group n a)
  then show ?case by auto
next
  case (Alt a b)
  then show ?case by auto
qed (auto split: if_splits)

text \<open>A search finds a match wherever there is one, and at the first place.\<close>

lemma find_Some_mem: "find P xs = Some x \<Longrightarrow> x \<in> set xs \<and> P x"
  by (induction xs) (auto split: if_splits)

lemma rx_match_None [simp]: "rx_match r s i = None \<longleftrightarrow> rx_all r s i = []"
  by (simp add: rx_match_def split: list.split)

lemma rx_search_None: "rx_search r s p = None \<longleftrightarrow> (\<forall>i\<in>{p..length s}. rx_all r s i = [])"
proof -
  have "rx_search r s p = None \<longleftrightarrow> find (\<lambda>i. rx_match r s i \<noteq> None) [p..<Suc (length s)] = None"
  proof (cases "find (\<lambda>i. rx_match r s i \<noteq> None) [p..<Suc (length s)]")
    case (Some i)
    then obtain m where "rx_match r s i = Some m" using find_Some_mem [OF Some] by blast
    then show ?thesis using Some by (simp add: rx_search_def case_prod_beta del: upt_Suc rx_match_None)
  qed (simp add: rx_search_def)
  then show ?thesis by (auto simp: find_None_iff simp del: upt_Suc)
qed

lemma rx_search_Some:
  assumes "rx_search r s p = Some (i, q, c)"
  shows "p \<le> i \<and> i \<le> q \<and> q \<le> length s \<and> (q, c) \<in> set (rx_all r s i)"
proof -
  have f: "find (\<lambda>i. rx_match r s i \<noteq> None) [p..<Suc (length s)] = Some i" "rx_match r s i = Some (q, c)"
    using assms by (auto simp: rx_search_def simp del: upt_Suc rx_match_None split: option.splits)
  have i: "p \<le> i" "i \<le> length s" using find_Some_mem [OF f(1)] by auto
  have "(q, c) \<in> set (rx_all r s i)" using f(2) by (auto simp: rx_match_def split: list.splits)
  then show ?thesis using i rx_all_bounds by blast
qed

lemma rx_finditer_from_enough:
  "length s < p + n \<Longrightarrow> length s < p + m \<Longrightarrow> rx_finditer_from n r s p = rx_finditer_from m r s p"
proof (induction n arbitrary: p m)
  case 0
  then have none: "rx_search r s p = None" by (simp add: rx_search_def)
  then show ?case by (cases m) simp_all
next
  case (Suc n)
  show ?case
  proof (cases m)
    case 0
    then have "rx_search r s p = None" using Suc.prems by (simp add: rx_search_def)
    then show ?thesis using 0 by simp
  next
    case m: (Suc m')
    have "rx_finditer_from n r s (if q = i then Suc i else q) = rx_finditer_from m' r s (if q = i then Suc i else q)"
      if "rx_search r s p = Some (i, q, c)" for i q c
      using rx_search_Some [OF that] Suc.prems m by (intro Suc.IH) auto
    then show ?thesis using m by (auto split: option.split)
  qed
qed

end
