(* ===== verification/Governance.thy ===== *)
theory Governance
  imports Lifecycle Regex
begin

text \<open>
  \<open>governance.py\<close>: safety labels of a memory and the text a prompt may contain of it. The three
  patterns of the file are lists of items (a word boundary, a repeated character class, one of
  several words) matched with backtracking; a search only asks whether some match exists, so the
  order in which alternatives are tried does not matter.
\<close>

section \<open>The patterns\<close>

datatype pattern_item =
    Bound
  | Many "char \<Rightarrow> bool" nat "nat option"
  | OneOf "string list"

definition run_length :: "(char \<Rightarrow> bool) \<Rightarrow> nat option \<Rightarrow> string \<Rightarrow> nat" where
  "run_length c hi s = (let n = length (takeWhile c s) in case hi of None \<Rightarrow> n | Some h \<Rightarrow> min n h)"

fun matches_at :: "pattern_item list \<Rightarrow> string \<Rightarrow> nat \<Rightarrow> bool" where
  "matches_at [] s i = True"
| "matches_at (Bound # ps) s i = (at_boundary s i \<and> matches_at ps s i)"
| "matches_at (Many c lo hi # ps) s i =
     list_ex (\<lambda>k. matches_at ps s (i + k)) [lo..<Suc (run_length c hi (drop i s))]"
| "matches_at (OneOf ws # ps) s i =
     list_ex (\<lambda>w. take (length w) (drop i s) = w \<and> matches_at ps s (i + length w)) ws"

definition re_search :: "pattern_item list \<Rightarrow> string \<Rightarrow> bool" where
  "re_search ps s = list_ex (matches_at ps s) [0..<Suc (length s)]"

definition is_char :: "string \<Rightarrow> char \<Rightarrow> bool" where
  "is_char cs c = (c \<in> set cs)"

definition email_re :: "pattern_item list" where
  "email_re = [Bound, Many (\<lambda>c. is_ascii_letter c \<or> is_digit c \<or> is_char ''._%+-'' c) 1 None,
     Many (is_char ''@'') 1 (Some 1),
     Many (\<lambda>c. is_ascii_letter c \<or> is_digit c \<or> is_char ''.-'' c) 1 None,
     Many (is_char ''.'') 1 (Some 1), Many is_ascii_letter 2 None, Bound]"

definition cpf_re :: "pattern_item list" where
  "cpf_re = [Bound, Many is_digit 3 (Some 3), Many (is_char ''.'') 0 (Some 1),
     Many is_digit 3 (Some 3), Many (is_char ''.'') 0 (Some 1), Many is_digit 3 (Some 3),
     Many (is_char ''-'') 0 (Some 1), Many is_digit 2 (Some 2), Bound]"

definition phone_marker_re :: "pattern_item list" where
  "phone_marker_re = [Bound, OneOf [''cpf'', ''rg'', ''telefone'', ''phone'', ''ssn''], Bound]"

section \<open>Labels and policy\<close>

definition INSPECT_ONLY_LABELS :: "string list" where
  "INSPECT_ONLY_LABELS = [''credential'', ''pii'', ''prompt_attack'', ''restricted'']"

definition SENSITIVE_LEVELS :: "string list" where
  "SENSITIVE_LEVELS = [''sensitive'', ''confidential'', ''restricted'', ''credential'', ''pii'']"

definition CREDENTIAL_MARKERS :: "string list" where
  "CREDENTIAL_MARKERS = [''api key'', ''apikey'', ''bearer '', ''chave api'', ''credential'', ''password'',
     ''secret'', ''segredo'', ''senha'', ''sk-'', ''xoxb-'']"

definition PROMPT_ATTACK_MARKERS :: "string list" where
  "PROMPT_ATTACK_MARKERS = [''disregard previous instructions'', ''exfiltrate'', ''export the memory vault'',
     ''ignore all previous instructions'', ''ignore previous instructions'', ''reveal secrets'', ''system prompt'']"

definition PROMPT_ATTACK_TAGS :: "string list" where
  "PROMPT_ATTACK_TAGS = [''prompt-attack'', ''prompt-injection'', ''prompt_attack'', ''prompt_injection'',
     ''unsafe-media'', ''unsafe_media'']"

definition label_of_str :: "string \<Rightarrow> string" where
  "label_of_str s = py_replace_char (CHR '' '') (CHR ''_'')
     (py_replace_char (CHR ''-'') (CHR ''_'') (py_lower (py_strip s)))"

definition normalize_label :: "py_value \<Rightarrow> string" where
  "normalize_label v = label_of_str (if truthy v then py_str v else [])"

definition normalized_sensitivity :: "string \<Rightarrow> string" where
  "normalized_sensitivity s =
     (let t = normalize_label (VStr (if s = [] then ''normal'' else s)) in if t = [] then ''normal'' else t)"

text \<open>Iterating over the raw labels: a string counts as one label, a dict gives its keys.\<close>

definition raw_labels :: "py_dict \<Rightarrow> py_value list result" where
  "raw_labels meta =
     (let pick = (\<lambda>k. case d_get meta k of None \<Rightarrow> None | Some v \<Rightarrow> if truthy v then Some v else None);
          raw = (case pick ''safety_labels'' of Some v \<Rightarrow> v
                 | None \<Rightarrow> (case pick ''safety'' of Some v \<Rightarrow> v | None \<Rightarrow> VList []))
      in case raw of
           VStr s \<Rightarrow> Inr [VStr s]
         | VList xs \<Rightarrow> Inr xs
         | VDict d \<Rightarrow> Inr (map (VStr \<circ> fst) d)
         | VBytes b \<Rightarrow> Inr (map (\<lambda>c. VInt (int (code c))) b)
         | _ \<Rightarrow> Inl (TypeError ''object is not iterable''))"

definition has_any_marker :: "string list \<Rightarrow> string \<Rightarrow> bool" where
  "has_any_marker ms s = list_ex (\<lambda>m. py_contains m s) ms"

definition label_sources :: "envelope \<Rightarrow> py_value list \<Rightarrow> string list" where
  "label_sources e raw =
     (let given = map normalize_label (filter (\<lambda>v. py_strip (py_str v) \<noteq> []) raw);
          sens = normalized_sensitivity (sensitivity e);
          tgs = map (\<lambda>t. normalize_label (VStr t)) (tags e);
          text = py_lower (text_content e)
      in given
         @ (if sens \<in> set SENSITIVE_LEVELS then [sens] else [])
         @ (if list_ex (\<lambda>t. t \<in> set PROMPT_ATTACK_TAGS) tgs then [''prompt_attack''] else [])
         @ (if ''credential'' \<in> set tgs then [''credential''] else [])
         @ (if ''pii'' \<in> set tgs then [''pii''] else [])
         @ (if has_any_marker CREDENTIAL_MARKERS text then [''credential''] else [])
         @ (if re_search email_re text \<or> re_search cpf_re text \<or> re_search phone_marker_re text
            then [''pii''] else [])
         @ (if has_any_marker PROMPT_ATTACK_MARKERS text then [''prompt_attack''] else []))"

definition safety_labels_for :: "envelope \<Rightarrow> string list result" where
  "safety_labels_for e =
     res_bind (raw_labels (metadata e)) (\<lambda>raw.
       Inr (sorted_set (filter (\<lambda>l. l \<noteq> []) (label_sources e raw))))"

definition prompt_policy :: "string list \<Rightarrow> string" where
  "prompt_policy labels =
     (if list_ex (\<lambda>l. l \<in> set labels) INSPECT_ONLY_LABELS then ''inspect_only'' else ''inline'')"

definition governance_for :: "envelope \<Rightarrow> py_dict result" where
  "governance_for e =
     res_bind (safety_labels_for e) (\<lambda>labels.
       (let v = lifecycle_for e in
        Inr ([(''state'', VStr (lc_state v)),
              (''sensitivity'', VStr (normalized_sensitivity (sensitivity e))),
              (''safety_labels'', str_list labels),
              (''prompt_policy'', VStr (prompt_policy labels)),
              (''effective_importance'', VFloat (py_round 4 (effective_importance v None [] None)))]
          @ (case lc_version v of None \<Rightarrow> [] | Some s \<Rightarrow> [(''version'', VStr s)])
          @ (case lc_superseded_by v of None \<Rightarrow> [] | Some s \<Rightarrow> [(''superseded_by'', VStr s)])
          @ (if lc_supersedes v = [] then [] else [(''supersedes'', str_list (take 4 (lc_supersedes v)))]))))"

definition withheld_notice :: "string list \<Rightarrow> string \<Rightarrow> string" where
  "withheld_notice labels i =
     (let shown = py_join '','' (take 4 labels) in
      ''[memory withheld: '' @ (if shown = [] then ''sensitive'' else shown)
      @ ''; use inspect_memory('' @ i @ '') with permission]'')"

definition prompt_text_for :: "envelope \<Rightarrow> string result" where
  "prompt_text_for e =
     res_bind (safety_labels_for e) (\<lambda>labels.
       Inr (if prompt_policy labels = ''inline'' then text_content e else withheld_notice labels (env_id e)))"

section \<open>What a prompt can see\<close>

lemma prompt_policy_inline:
  "prompt_policy labels = ''inline'' \<longleftrightarrow> (\<forall>l\<in>set INSPECT_ONLY_LABELS. l \<notin> set labels)"
  by (auto simp: prompt_policy_def list_ex_iff)

lemma safety_labels_cases:
  assumes "safety_labels_for e = Inr labels"
  shows "has_any_marker CREDENTIAL_MARKERS (py_lower (text_content e)) \<Longrightarrow> ''credential'' \<in> set labels"
    and "has_any_marker PROMPT_ATTACK_MARKERS (py_lower (text_content e)) \<Longrightarrow> ''prompt_attack'' \<in> set labels"
    and "re_search email_re (py_lower (text_content e)) \<Longrightarrow> ''pii'' \<in> set labels"
    and "re_search cpf_re (py_lower (text_content e)) \<Longrightarrow> ''pii'' \<in> set labels"
    and "re_search phone_marker_re (py_lower (text_content e)) \<Longrightarrow> ''pii'' \<in> set labels"
    and "normalized_sensitivity (sensitivity e) \<in> {''restricted'', ''credential'', ''pii''} \<Longrightarrow>
      normalized_sensitivity (sensitivity e) \<in> set labels"
    and "sorted labels \<and> distinct labels \<and> [] \<notin> set labels"
proof -
  obtain raw where "labels = sorted_set (filter (\<lambda>l. l \<noteq> []) (label_sources e raw))"
    using assms unfolding safety_labels_for_def res_bind_eq_Inr by blast
  then have mem: "\<And>l. l \<in> set labels \<longleftrightarrow> l \<noteq> [] \<and> l \<in> set (label_sources e raw)"
    and srt: "sorted labels \<and> distinct labels"
    by (simp_all add: conj_commute)
  show "''credential'' \<in> set labels" if "has_any_marker CREDENTIAL_MARKERS (py_lower (text_content e))"
    unfolding mem using that by (simp add: label_sources_def Let_def)
  show "''prompt_attack'' \<in> set labels" if "has_any_marker PROMPT_ATTACK_MARKERS (py_lower (text_content e))"
    unfolding mem using that by (simp add: label_sources_def Let_def)
  show "''pii'' \<in> set labels" if "re_search email_re (py_lower (text_content e))"
    unfolding mem using that by (simp add: label_sources_def Let_def)
  show "''pii'' \<in> set labels" if "re_search cpf_re (py_lower (text_content e))"
    unfolding mem using that by (simp add: label_sources_def Let_def)
  show "''pii'' \<in> set labels" if "re_search phone_marker_re (py_lower (text_content e))"
    unfolding mem using that by (simp add: label_sources_def Let_def)
  show "normalized_sensitivity (sensitivity e) \<in> set labels"
    if n: "normalized_sensitivity (sensitivity e) \<in> {''restricted'', ''credential'', ''pii''}"
  proof -
    have "normalized_sensitivity (sensitivity e) \<in> set SENSITIVE_LEVELS"
      using n by (elim insertE emptyE) (simp_all add: SENSITIVE_LEVELS_def)
    moreover have "normalized_sensitivity (sensitivity e) \<noteq> []" using n by fastforce
    ultimately show ?thesis unfolding mem by (simp add: label_sources_def Let_def)
  qed
  show "sorted labels \<and> distinct labels \<and> [] \<notin> set labels" using srt mem by blast
qed

text \<open>The text a prompt must not carry: a credential, personal data or an injected instruction.\<close>

definition unsafe_text :: "string \<Rightarrow> bool" where
  "unsafe_text t = (has_any_marker CREDENTIAL_MARKERS t \<or> has_any_marker PROMPT_ATTACK_MARKERS t
     \<or> re_search email_re t \<or> re_search cpf_re t \<or> re_search phone_marker_re t)"

text \<open>
  What \<open>prompt_text_for\<close> returns of a memory whose text has a marker or matches a pattern,
  whatever its metadata, tags and sensitivity say, is the notice built from its id and its labels;
  the same holds for a restricted memory.
\<close>

theorem prompt_text_withholds:
  assumes "unsafe_text (py_lower (text_content e))
      \<or> normalized_sensitivity (sensitivity e) \<in> {''restricted'', ''credential'', ''pii''}"
    and "prompt_text_for e = Inr t"
  shows "\<exists>labels. safety_labels_for e = Inr labels \<and> prompt_policy labels = ''inspect_only''
    \<and> t = withheld_notice labels (env_id e)"
proof -
  obtain labels where l: "safety_labels_for e = Inr labels"
    and t: "t = (if prompt_policy labels = ''inline'' then text_content e else withheld_notice labels (env_id e))"
    using assms(2) by (auto simp: prompt_text_for_def res_bind_eq_Inr)
  have "\<exists>x\<in>set INSPECT_ONLY_LABELS. x \<in> set labels"
    using assms(1) safety_labels_cases [OF l] by (auto simp: unsafe_text_def INSPECT_ONLY_LABELS_def)
  then have "prompt_policy labels \<noteq> ''inline''" by (simp add: prompt_policy_inline)
  then show ?thesis using l t by (auto simp: prompt_policy_def split: if_splits)
qed

text \<open>
  C27: two memories with the same id and the same labels have the same prompt text once they are
  withheld: nothing else of their content reaches the prompt.
\<close>

theorem withheld_noninterference:
  assumes "safety_labels_for e = Inr labels" "safety_labels_for f = Inr labels"
    and "prompt_policy labels = ''inspect_only''" "env_id e = env_id f"
  shows "prompt_text_for e = prompt_text_for f"
  using assms by (simp add: prompt_text_for_def)

text \<open>
  labels are sorted, without repetition and not empty; a memory goes inline exactly if none of
  its labels is one of the four inspect-only labels, and then its whole text does.
\<close>

theorem inline_iff_no_inspect_label:
  assumes "safety_labels_for e = Inr labels"
  shows "sorted labels \<and> distinct labels \<and> [] \<notin> set labels
    \<and> (prompt_text_for e = Inr (text_content e) \<or> prompt_text_for e = Inr (withheld_notice labels (env_id e)))
    \<and> ((\<forall>l\<in>set INSPECT_ONLY_LABELS. l \<notin> set labels) \<longrightarrow> prompt_text_for e = Inr (text_content e))"
  using assms safety_labels_cases(7) [OF assms] by (simp add: prompt_text_for_def prompt_policy_inline)

definition demo_secret :: "string \<Rightarrow> envelope" where
  "demo_secret s = (blank_envelope [] 1)\<lparr>env_id := ''mem_1'', modalities := [text_modality s]\<rparr>"

lemma demo_secret_unsafe: "unsafe_text (py_lower (text_content (demo_secret ''CPF 123.456.789-09'')))"
  by code_simp

lemma demo_secret_prompt: "prompt_text_for (demo_secret ''CPF 123.456.789-09'')
    = Inr ''[memory withheld: pii; use inspect_memory(mem_1) with permission]''"
  by code_simp

lemma prompt_text_withholds_witness:
  "\<exists>labels. safety_labels_for (demo_secret ''CPF 123.456.789-09'') = Inr labels
    \<and> prompt_policy labels = ''inspect_only''
    \<and> ''[memory withheld: pii; use inspect_memory(mem_1) with permission]'' = withheld_notice labels ''mem_1''"
proof -
  have "env_id (demo_secret ''CPF 123.456.789-09'') = ''mem_1''" by (simp add: demo_secret_def)
  then show ?thesis
    using prompt_text_withholds [of "demo_secret ''CPF 123.456.789-09''"
        "''[memory withheld: pii; use inspect_memory(mem_1) with permission]''"]
    by (metis (no_types) demo_secret_unsafe demo_secret_prompt)
qed

lemma withheld_noninterference_witness:
  "prompt_text_for (demo_secret ''my password is x'') = prompt_text_for (demo_secret ''other password is y'')"
  by (rule withheld_noninterference [where labels = "[''credential'']"]) code_simp+

lemma inline_iff_no_inspect_label_witness:
  "prompt_text_for (demo_secret ''hello'') = Inr ''hello''"
proof -
  have l: "safety_labels_for (demo_secret ''hello'') = Inr []" by code_simp
  have t: "text_content (demo_secret ''hello'') = ''hello''" by code_simp
  show ?thesis using inline_iff_no_inspect_label [OF l] t by simp
qed

end
