(* ===== verification/Mobius.thy ===== *)
theory Mobius
  imports Schema
begin

text \<open>
  \<open>mobius.py\<close>: the bounded cyclic address space memories are filed in. The first axis closes up
  with a twist (one turn flips the second axis, two turns do not), the second is reflected at its
  ends, the third is cyclic. An address is a datatype with the field order as its order, as
  \<open>dataclass(order=True)\<close> gives it.
\<close>

section \<open>Addresses\<close>

datatype mobius_address = MobiusAddress (iu: int) (iv: int) (iw: int) (region: string)

definition address_key :: "mobius_address \<Rightarrow> int \<times> int \<times> int \<times> string" where
  "address_key a = (iu a, iv a, iw a, region a)"

lemma address_key_inject [simp]: "address_key a = address_key b \<longleftrightarrow> a = b"
  by (cases a, cases b) (simp add: address_key_def)

instantiation mobius_address :: linorder
begin

definition less_eq_mobius_address :: "mobius_address \<Rightarrow> mobius_address \<Rightarrow> bool" where
  "a \<le> b \<longleftrightarrow> address_key a \<le> address_key b"

definition less_mobius_address :: "mobius_address \<Rightarrow> mobius_address \<Rightarrow> bool" where
  "a < b \<longleftrightarrow> address_key a < address_key b"

instance
  by standard (auto simp: less_eq_mobius_address_def less_mobius_address_def less_le)

end

definition address_to_dict :: "mobius_address \<Rightarrow> py_dict" where
  "address_to_dict a =
    [(''iu'', VInt (iu a)), (''iv'', VInt (iv a)), (''iw'', VInt (iw a)), (''region'', VStr (region a))]"

text \<open>\<open>int(data[key])\<close> for a JSON number and \<open>str(data.get("region") or "episodic")\<close>.\<close>

definition read_coord :: "py_dict \<Rightarrow> string \<Rightarrow> int result" where
  "read_coord d k = (case d_get d k of None \<Rightarrow> Inl (KeyError k)
     | Some (VInt i) \<Rightarrow> Inr i
     | Some (VBool b) \<Rightarrow> Inr (if b then 1 else 0)
     | Some (VFloat x) \<Rightarrow> Inr (if 0 \<le> x then \<lfloor>x\<rfloor> else \<lceil>x\<rceil>)
     | Some _ \<Rightarrow> Inl (TypeError ''int expected''))"

definition address_from_dict :: "py_dict \<Rightarrow> mobius_address result" where
  "address_from_dict d =
     res_bind (read_coord d ''iu'') (\<lambda>u.
     res_bind (read_coord d ''iv'') (\<lambda>v.
     res_bind (read_coord d ''iw'') (\<lambda>w.
       Inr (MobiusAddress u v w (case d_get d ''region'' of None \<Rightarrow> ''episodic''
         | Some r \<Rightarrow> if truthy r then py_str r else ''episodic'')))))"

section \<open>The index\<close>

record mobius_index =
  u_size :: int
  v_size :: int
  w_size :: int

definition mobius_new :: "int \<Rightarrow> int \<Rightarrow> int \<Rightarrow> mobius_index result" where
  "mobius_new u v w =
     (if min u (min v w) \<le> 0 then Inl (ValueError ''all dimensions must be positive'')
      else Inr \<lparr>u_size = u, v_size = v, w_size = w\<rparr>)"

definition valid_index :: "mobius_index \<Rightarrow> bool" where
  "valid_index ix = (0 < u_size ix \<and> 0 < v_size ix \<and> 0 < w_size ix)"

definition in_range :: "mobius_index \<Rightarrow> mobius_address \<Rightarrow> bool" where
  "in_range ix a =
     (0 \<le> iu a \<and> iu a < u_size ix \<and> 0 \<le> iv a \<and> iv a < v_size ix \<and> 0 \<le> iw a \<and> iw a < w_size ix)"

definition reflect_axis :: "int \<Rightarrow> int \<Rightarrow> int" where
  "reflect_axis x n =
     (if n \<le> 1 then 0
      else (let period = 2 * (n - 1); position = x mod period in
            if n \<le> position then period - position else position))"

definition wrap :: "mobius_index \<Rightarrow> int \<Rightarrow> int \<Rightarrow> int \<Rightarrow> string \<Rightarrow> mobius_address" where
  "wrap ix u v w r =
     MobiusAddress (u mod u_size ix)
       (reflect_axis (if odd (u div u_size ix) then v_size ix - 1 - v else v) (v_size ix))
       (w mod w_size ix) r"

definition neighbors :: "mobius_index \<Rightarrow> mobius_address \<Rightarrow> int \<Rightarrow> mobius_address list result" where
  "neighbors ix a depth =
     (if depth < 0 then Inl (ValueError ''depth must be non-negative'')
      else Inr (sorted_set
        (concat (map (\<lambda>du. concat (map (\<lambda>dv. concat (map (\<lambda>dw.
            if \<bar>du\<bar> + \<bar>dv\<bar> + \<bar>dw\<bar> > depth then []
            else [wrap ix (iu a + du) (iv a + dv) (iw a + dw) (region a)])
          [- depth..depth])) [- depth..depth])) [- depth..depth]))))"

definition region_for :: "envelope \<Rightarrow> string" where
  "region_for e =
     (if memory_type e \<in> {''decision'', ''error'', ''solution'', ''procedural'', ''semantic''} then memory_type e
      else (let kinds = remdups (map modality (modalities e)) in
        if length kinds > 1 \<or> \<not> (\<forall>k\<in>set kinds. k = ''text'' \<or> k = ''structured'')
        then ''multimodal'' else ''episodic''))"

definition bands :: "(string \<times> int) list" where
  "bands = [(''episodic'', 0), (''semantic'', 2), (''procedural'', 4), (''decision'', 6),
     (''error'', 8), (''solution'', 10), (''multimodal'', 12)]"

definition region_band :: "mobius_index \<Rightarrow> string \<Rightarrow> nat \<Rightarrow> int" where
  "region_band ix r byte =
     (let start = min (case map_of bands r of None \<Rightarrow> 0 | Some b \<Rightarrow> b) (v_size ix - 1);
          width = max 1 (v_size ix div 8)
      in min (v_size ix - 1) (start + int byte mod width))"

definition address_material :: "envelope \<Rightarrow> py_value" where
  "address_material e = VDict
    [(''scope'', VDict (scope e)),
     (''memory_type'', VStr (memory_type e)),
     (''modalities'', str_list (map modality (modalities e))),
     (''tags'', str_list (tags e)),
     (''entities'', str_list (entities e)),
     (''content_hash'', VStr (content_hash e))]"

definition address_for :: "mobius_index \<Rightarrow> envelope \<Rightarrow> mobius_address result" where
  "address_for ix e =
     res_bind (stable_json (address_material e)) (\<lambda>text.
       (let r = region_for e; digest = sha256 (utf8_encode text) in
        Inr (MobiusAddress (int (from_bytes_big (take 4 digest)) mod u_size ix)
          (region_band ix r (code (digest ! 4)))
          (int (from_bytes_big (take 4 (drop 5 digest))) mod w_size ix) r)))"

definition serialize_many :: "mobius_address list \<Rightarrow> py_dict list" where
  "serialize_many as = map address_to_dict as"

section \<open>The reflected axis\<close>

lemma reflect_alt:
  "1 < n \<Longrightarrow> reflect_axis x n =
     (let m = x mod (2 * (n - 1)) in if n \<le> m then 2 * (n - 1) - m else m)"
  by (simp add: reflect_axis_def Let_def)

lemma reflect_range:
  assumes "0 < n"
  shows "0 \<le> reflect_axis x n \<and> reflect_axis x n < n"
proof (cases "1 < n")
  case True
  then have "0 \<le> x mod (2 * (n - 1))" "x mod (2 * (n - 1)) < 2 * (n - 1)" by simp_all
  then show ?thesis unfolding reflect_alt [OF True] Let_def by (simp split: if_split)
next
  case False
  then show ?thesis using assms by (simp add: reflect_axis_def)
qed

lemma reflect_id: "0 \<le> x \<Longrightarrow> x < n \<Longrightarrow> reflect_axis x n = x"
  by (auto simp: reflect_axis_def Let_def)

lemma reflect_period: "reflect_axis (x + 2 * (n - 1) * k) n = reflect_axis x n"
  by (simp add: reflect_axis_def)

lemma reflect_neg: "reflect_axis (- x) n = reflect_axis x n"
proof (cases "1 < n")
  case True
  let ?p = "2 * (n - 1)"
  have b: "0 \<le> x mod ?p" "x mod ?p < ?p" using True by simp_all
  have "(- x) mod ?p = (if x mod ?p = 0 then 0 else ?p - x mod ?p)"
    by (simp only: zmod_zminus1_eq_if)
  then show ?thesis
    unfolding reflect_alt [OF True] Let_def using b True by (auto split: if_splits)
next
  case False
  then show ?thesis by (simp add: reflect_axis_def)
qed

text \<open>Reflecting is folding the line: the result is \<open>x\<close> or \<open>-x\<close> up to whole periods.\<close>

lemma reflect_fold:
  assumes "1 < n"
  obtains s k where "s = 1 \<or> s = -1" "reflect_axis x n = s * x + 2 * (n - 1) * k"
proof -
  let ?p = "2 * (n - 1)"
  have x: "x mod ?p = x - ?p * (x div ?p)" by (simp only: minus_mult_div_eq_mod)
  show ?thesis
  proof (cases "n \<le> x mod ?p")
    case True
    then have "reflect_axis x n = ?p - x mod ?p" by (simp add: reflect_alt [OF assms] Let_def)
    then have "reflect_axis x n = (- 1) * x + ?p * (1 + x div ?p)"
      unfolding x by (simp only: distrib_left mult_1_right minus_mult_left [symmetric] mult_1)
    then show ?thesis using that by blast
  next
    case False
    then have "reflect_axis x n = x mod ?p" by (simp add: reflect_alt [OF assms] Let_def)
    then have "reflect_axis x n = 1 * x + ?p * (- (x div ?p))"
      unfolding x by (simp only: mult_minus_right mult_1 diff_conv_add_uminus)
    then show ?thesis using that by blast
  qed
qed

lemma reflect_sign_period:
  "s = 1 \<or> s = -1 \<Longrightarrow> reflect_axis (s * x + 2 * (n - 1) * k) n = reflect_axis x n"
  unfolding reflect_period by (auto simp: reflect_neg)

lemma reflect_complement:
  assumes "0 < n"
  shows "reflect_axis (n - 1 - x) n = n - 1 - reflect_axis x n"
proof (cases "1 < n")
  case True
  obtain s k where s: "s = 1 \<or> s = -1" and y: "reflect_axis x n = s * x + 2 * (n - 1) * k"
    using reflect_fold [OF True] .
  have r: "0 \<le> reflect_axis x n" "reflect_axis x n < n" using reflect_range [OF assms] by simp_all
  have "reflect_axis (n - 1 - x) n = reflect_axis (n - 1 - reflect_axis x n) n"
  proof (cases "s = 1")
    case True
    then have "n - 1 - reflect_axis x n = 1 * (n - 1 - x) + 2 * (n - 1) * (- k)" using y by simp
    then show ?thesis by (simp only: reflect_sign_period simp_thms)
  next
    case False
    then have "n - 1 - reflect_axis x n = (- 1) * (n - 1 - x) + 2 * (n - 1) * (1 - k)"
      using y s by (simp add: algebra_simps)
    then show ?thesis by (simp only: reflect_sign_period simp_thms)
  qed
  also have "\<dots> = n - 1 - reflect_axis x n" by (rule reflect_id) (use r in simp_all)
  finally show ?thesis .
next
  case False
  then show ?thesis using assms by (simp add: reflect_axis_def)
qed

text \<open>Folding again after a step from a folded point: a step of the same length from the point.\<close>

lemma reflect_step:
  assumes "0 < n"
  obtains s where "s = 1 \<or> s = -1" "\<And>d. reflect_axis (reflect_axis x n + s * d) n = reflect_axis (x + d) n"
proof (cases "1 < n")
  case True
  obtain s k where s: "s = 1 \<or> s = -1" and y: "reflect_axis x n = s * x + 2 * (n - 1) * k"
    using reflect_fold [OF True] .
  have "reflect_axis (reflect_axis x n + s * d) n = reflect_axis (x + d) n" for d
  proof -
    have "reflect_axis x n + s * d = s * (x + d) + 2 * (n - 1) * k"
      by (simp add: y algebra_simps)
    then show ?thesis using s by (simp only: reflect_sign_period)
  qed
  then show ?thesis using that s by blast
next
  case False
  have "reflect_axis (reflect_axis x n + 1 * d) n = reflect_axis (x + d) n" for d
    using False by (simp add: reflect_axis_def)
  then show ?thesis using that by blast
qed

section \<open>Wrapping\<close>

lemma wrap_in_range: "valid_index ix \<Longrightarrow> in_range ix (wrap ix u v w r)"
  using reflect_range by (simp add: valid_index_def in_range_def wrap_def)

lemma wrap_id: "in_range ix a \<Longrightarrow> wrap ix (iu a) (iv a) (iw a) (region a) = a"
  by (cases a) (auto simp: in_range_def wrap_def div_pos_pos_trivial reflect_id)

text \<open>The second coordinate, with the twist taken out of the fold.\<close>

lemma iv_wrap:
  assumes "valid_index ix"
  shows "iv (wrap ix u v w r) =
    (if odd (u div u_size ix) then v_size ix - 1 - reflect_axis v (v_size ix) else reflect_axis v (v_size ix))"
  using assms reflect_complement [of "v_size ix" v] by (simp add: wrap_def valid_index_def)

text \<open>
  The Moebius identification: going once round the first axis is flipping the second, going round
  twice is going nowhere.
\<close>

lemma wrap_twist:
  assumes "valid_index ix"
  shows "wrap ix (u + u_size ix) v w r = wrap ix u (v_size ix - 1 - v) w r"
  using assms by (auto simp: wrap_def valid_index_def div_add_self2)

lemma wrap_twice:
  assumes "valid_index ix"
  shows "wrap ix (u + 2 * u_size ix) v w r = wrap ix u v w r"
  using wrap_twist [OF assms, of "u + u_size ix" v w r] wrap_twist [OF assms, of u _ w r]
  by (simp add: algebra_simps)

section \<open>Neighbourhoods\<close>

lemma in_concat_mapI: "x \<in> set xs \<Longrightarrow> b \<in> set (f x) \<Longrightarrow> b \<in> set (concat (map f xs))"
  by auto

lemma neighbors_eq:
  assumes "0 \<le> depth"
  shows "\<exists>bs. neighbors ix a depth = Inr bs \<and> sorted bs \<and> distinct bs \<and>
    (\<forall>b. b \<in> set bs \<longleftrightarrow> (\<exists>x y z. \<bar>x\<bar> + \<bar>y\<bar> + \<bar>z\<bar> \<le> depth
      \<and> b = wrap ix (iu a + x) (iv a + y) (iw a + z) (region a)))"
proof -
  let ?w = "\<lambda>x y z. wrap ix (iu a + x) (iv a + y) (iw a + z) (region a)"
  let ?row = "\<lambda>x y z. if \<bar>x\<bar> + \<bar>y\<bar> + \<bar>z\<bar> > depth then [] else [?w x y z]"
  let ?l = "concat (map (\<lambda>x. concat (map (\<lambda>y. concat (map (?row x y) [- depth..depth]))
      [- depth..depth])) [- depth..depth])"
  have "b \<in> set ?l \<longleftrightarrow> (\<exists>x y z. \<bar>x\<bar> + \<bar>y\<bar> + \<bar>z\<bar> \<le> depth \<and> b = ?w x y z)" for b
  proof
    assume "b \<in> set ?l"
    then obtain x y z where "\<bar>x\<bar> + \<bar>y\<bar> + \<bar>z\<bar> \<le> depth \<and> b = ?w x y z"
      by (auto simp: not_less split: if_splits)
    then show "\<exists>x y z. \<bar>x\<bar> + \<bar>y\<bar> + \<bar>z\<bar> \<le> depth \<and> b = ?w x y z" by blast
  next
    assume "\<exists>x y z. \<bar>x\<bar> + \<bar>y\<bar> + \<bar>z\<bar> \<le> depth \<and> b = ?w x y z"
    then obtain x y z where xyz: "\<bar>x\<bar> + \<bar>y\<bar> + \<bar>z\<bar> \<le> depth" and b: "b = ?w x y z" by blast
    have m: "x \<in> set [- depth..depth]" "y \<in> set [- depth..depth]" "z \<in> set [- depth..depth]"
      using xyz by auto
    have "b \<in> set (?row x y z)" using xyz b by simp
    then show "b \<in> set ?l" by (intro in_concat_mapI [OF m(1)] in_concat_mapI [OF m(2)] in_concat_mapI [OF m(3)])
  qed
  then show ?thesis
    using assms by (simp add: neighbors_def)
qed

text \<open>
  A step of the wrapped point can be mirrored by a step of the same length: folding and twisting
  move the lattice onto itself.
\<close>

lemma wrap_step:
  assumes "valid_index ix"
  obtains s where "s = 1 \<or> s = -1"
    "\<And>x y z. wrap ix (iu (wrap ix u v w r) + x) (iv (wrap ix u v w r) + s * y) (iw (wrap ix u v w r) + z) r
      = wrap ix (u + x) (v + y) (w + z) r"
proof -
  let ?U = "u_size ix" and ?V = "v_size ix" and ?W = "w_size ix"
  let ?b = "wrap ix u v w r"
  have pos: "0 < ?U" "0 < ?V" "0 < ?W" using assms by (simp_all add: valid_index_def)
  obtain t where t: "t = 1 \<or> t = -1"
    and fold: "\<And>d. reflect_axis (reflect_axis v ?V + t * d) ?V = reflect_axis (v + d) ?V"
    using reflect_step [OF pos(2), of v] by blast
  define k where "k = u div ?U"
  define s where "s = (if odd k then - t else t)"
  have iub: "iu ?b + x = (u + x) + ?U * (- k)" for x
    by (simp add: wrap_def k_def minus_mult_div_eq_mod [symmetric])
  have turn: "(iu ?b + x) div ?U = (u + x) div ?U - k" "(iu ?b + x) mod ?U = (u + x) mod ?U" for x
    unfolding iub using pos div_mult_self2 [of ?U "u + x" "- k"] mod_mult_self2 [of "u + x" ?U "- k"]
    by simp_all
  have ivb: "iv ?b = (if odd k then ?V - 1 - reflect_axis v ?V else reflect_axis v ?V)"
    using iv_wrap [OF assms] by (simp add: k_def)
  have bend: "reflect_axis (iv ?b + s * y) ?V =
      (if odd k then ?V - 1 - reflect_axis (v + y) ?V else reflect_axis (v + y) ?V)" for y
  proof (cases "odd k")
    case True
    then have "iv ?b + s * y = ?V - 1 - (reflect_axis v ?V + t * y)" by (simp add: ivb s_def)
    then show ?thesis using True reflect_complement [OF pos(2)] fold by simp
  next
    case False
    then show ?thesis using fold by (simp add: ivb s_def)
  qed
  have "wrap ix (iu ?b + x) (iv ?b + s * y) (iw ?b + z) r = wrap ix (u + x) (v + y) (w + z) r"
    (is "?L = ?R") for x y z
  proof -
    have "iv ?L = (if odd ((u + x) div ?U - k) then ?V - 1 - reflect_axis (iv ?b + s * y) ?V
        else reflect_axis (iv ?b + s * y) ?V)"
      using iv_wrap [OF assms, of "iu ?b + x" "iv ?b + s * y"] by (simp only: turn)
    moreover have "iv ?R = (if odd ((u + x) div ?U) then ?V - 1 - reflect_axis (v + y) ?V
        else reflect_axis (v + y) ?V)"
      by (rule iv_wrap [OF assms])
    ultimately have "iv ?L = iv ?R" unfolding bend by auto
    moreover have "iu ?L = iu ?R" using turn by (simp add: wrap_def)
    moreover have "iw ?L = iw ?R" by (simp add: wrap_def mod_add_left_eq)
    moreover have "region ?L = region ?R" by (simp add: wrap_def)
    ultimately show ?thesis using mobius_address.expand by blast
  qed
  moreover have "s = 1 \<or> s = -1" using t by (auto simp: s_def)
  ultimately show ?thesis using that by blast
qed

text \<open>Being within \<open>depth\<close> steps is symmetric on the addresses of the index.\<close>

theorem neighbors_symmetric:
  assumes "valid_index ix" "in_range ix a"
    and "neighbors ix a depth = Inr bs" "b \<in> set bs"
  shows "\<exists>cs. neighbors ix b depth = Inr cs \<and> a \<in> set cs"
proof -
  have d: "0 \<le> depth" using assms(3) by (simp add: neighbors_def split: if_splits)
  obtain x y z where xyz: "\<bar>x\<bar> + \<bar>y\<bar> + \<bar>z\<bar> \<le> depth"
    and b: "b = wrap ix (iu a + x) (iv a + y) (iw a + z) (region a)"
    using neighbors_eq [OF d, of ix a] assms(3,4) by auto
  have rb: "region b = region a" by (simp add: b wrap_def)
  obtain s where s: "s = 1 \<or> s = -1"
    and mirror: "\<And>x' y' z'. wrap ix (iu b + x') (iv b + s * y') (iw b + z') (region a)
      = wrap ix (iu a + x + x') (iv a + y + y') (iw a + z + z') (region a)"
    using wrap_step [OF assms(1)] unfolding b by blast
  have "wrap ix (iu b + - x) (iv b + s * - y) (iw b + - z) (region b) = a"
    unfolding rb mirror using wrap_id [OF assms(2)] by simp
  moreover have "\<bar>- x\<bar> + \<bar>s * - y\<bar> + \<bar>- z\<bar> \<le> depth"
    using xyz s by auto
  ultimately show ?thesis using neighbors_eq [OF d, of ix b] by metis
qed

text \<open>
  The strip without the code's folding: the steps \<open>x\<close>, \<open>y\<close>, \<open>z\<close> from \<open>a\<close> land on \<open>b\<close>. The first and third coordinates are
  congruent to where the steps lead; the second is congruent to it or to its negative, modulo the way to the far edge and
  back, after it was measured from the other edge if the first axis was passed round an odd number of times.
\<close>

definition lands_on :: "mobius_index \<Rightarrow> mobius_address \<Rightarrow> int \<Rightarrow> int \<Rightarrow> int \<Rightarrow> mobius_address \<Rightarrow> bool" where
  "lands_on ix a x y z b =
     (in_range ix b \<and> region b = region a
      \<and> u_size ix dvd iu b - (iu a + x) \<and> w_size ix dvd iw b - (iw a + z)
      \<and> (v_size ix = 1 \<or>
          (let v = (if even ((iu a + x) div u_size ix) then iv a + y else v_size ix - 1 - (iv a + y));
               round_trip = 2 * (v_size ix - 1)
           in round_trip dvd iv b - v \<or> round_trip dvd iv b + v)))"

lemma reflect_iff:
  assumes "1 < n"
  shows "reflect_axis x n = b \<longleftrightarrow> 0 \<le> b \<and> b < n \<and> (2 * (n - 1) dvd b - x \<or> 2 * (n - 1) dvd b + x)"
proof
  assume b: "reflect_axis x n = b"
  obtain s k where "s = 1 \<or> s = -1" "reflect_axis x n = s * x + 2 * (n - 1) * k" using reflect_fold [OF assms] .
  then show "0 \<le> b \<and> b < n \<and> (2 * (n - 1) dvd b - x \<or> 2 * (n - 1) dvd b + x)"
    using b reflect_range [of n x] assms by auto
next
  assume r: "0 \<le> b \<and> b < n \<and> (2 * (n - 1) dvd b - x \<or> 2 * (n - 1) dvd b + x)"
  then obtain s k where s: "s = 1 \<or> s = -1" and b: "b = s * x + 2 * (n - 1) * k"
    by (metis add_diff_cancel_right' add.commute diff_add_cancel dvd_def mult_1 mult_minus1 uminus_add_conv_diff)
  have "reflect_axis b n = b" using r reflect_id by blast
  then show "reflect_axis x n = b" using reflect_sign_period [OF s, of x n k] b by simp
qed

lemma mod_eq_iff_range: "0 < n \<Longrightarrow> (x :: int) mod n = b \<longleftrightarrow> 0 \<le> b \<and> b < n \<and> n dvd b - x"
  by (metis dvd_minus_mod mod_eq_dvd_iff mod_pos_pos_trivial pos_mod_bound pos_mod_sign)

lemma lands_on_wrap:
  assumes "valid_index ix"
  shows "lands_on ix a x y z b \<longleftrightarrow> b = wrap ix (iu a + x) (iv a + y) (iw a + z) (region a)"
proof -
  let ?v = "if odd ((iu a + x) div u_size ix) then v_size ix - 1 - (iv a + y) else iv a + y"
  have s: "0 < u_size ix" "0 < v_size ix" "0 < w_size ix" using assms by (simp_all add: valid_index_def)
  have v: "iv b = reflect_axis ?v (v_size ix) \<longleftrightarrow> 0 \<le> iv b \<and> iv b < v_size ix
      \<and> (v_size ix = 1 \<or> 2 * (v_size ix - 1) dvd iv b - ?v \<or> 2 * (v_size ix - 1) dvd iv b + ?v)"
  proof (cases "1 < v_size ix")
    case True
    then show ?thesis using reflect_iff [OF True, of ?v "iv b"] by auto
  next
    case False
    then show ?thesis using s(2) by (auto simp: reflect_axis_def)
  qed
  have "b = wrap ix (iu a + x) (iv a + y) (iw a + z) (region a) \<longleftrightarrow> region b = region a
      \<and> (iu a + x) mod u_size ix = iu b \<and> (iw a + z) mod w_size ix = iw b \<and> iv b = reflect_axis ?v (v_size ix)"
    by (cases b) (auto simp: wrap_def)
  then show ?thesis
    unfolding v mod_eq_iff_range [OF s(1)] mod_eq_iff_range [OF s(3)]
    by (simp add: lands_on_def in_range_def Let_def) blast
qed

text \<open>
  C37: take an index whose three sizes are positive and an address in its range. With a negative depth
  \<open>neighbors\<close> raises. Otherwise it returns, sorted and without repetition, exactly the addresses of the
  index on which at most \<open>depth\<close> steps along the axes land, where passing round the first axis flips the
  second (the twist of the strip), the second is reflected at its edges and the third is cyclic. The address itself is
  among them, and a larger depth only adds addresses.
\<close>

theorem neighbors_spec:
  assumes "valid_index ix" "in_range ix a"
  shows "(depth < 0 \<longrightarrow> neighbors ix a depth = Inl (ValueError ''depth must be non-negative''))
    \<and> (0 \<le> depth \<longrightarrow> (\<exists>bs. neighbors ix a depth = Inr bs \<and> sorted bs \<and> distinct bs \<and> a \<in> set bs
        \<and> (\<forall>b. b \<in> set bs \<longleftrightarrow> (\<exists>x y z. \<bar>x\<bar> + \<bar>y\<bar> + \<bar>z\<bar> \<le> depth \<and> lands_on ix a x y z b))
        \<and> (\<exists>cs. neighbors ix a (depth + 1) = Inr cs \<and> set bs \<subseteq> set cs)))"
proof (intro conjI impI)
  show "neighbors ix a depth = Inl (ValueError ''depth must be non-negative'')" if "depth < 0"
    using that by (simp add: neighbors_def)
next
  assume d: "0 \<le> depth"
  obtain bs where bs: "neighbors ix a depth = Inr bs" "sorted bs" "distinct bs"
    and mem: "\<And>b. b \<in> set bs \<longleftrightarrow> (\<exists>x y z. \<bar>x\<bar> + \<bar>y\<bar> + \<bar>z\<bar> \<le> depth \<and> lands_on ix a x y z b)"
    using neighbors_eq [OF d, of ix a] unfolding lands_on_wrap [OF assms(1), symmetric] by blast
  obtain cs where cs: "neighbors ix a (depth + 1) = Inr cs"
    and more: "\<And>b. b \<in> set cs \<longleftrightarrow> (\<exists>x y z. \<bar>x\<bar> + \<bar>y\<bar> + \<bar>z\<bar> \<le> depth + 1 \<and> lands_on ix a x y z b)"
    using neighbors_eq [of "depth + 1" ix a] d unfolding lands_on_wrap [OF assms(1), symmetric] by fastforce
  have "lands_on ix a 0 0 0 a" using wrap_id [OF assms(2)] by (simp add: lands_on_wrap [OF assms(1)])
  then have "a \<in> set bs" unfolding mem using d by (intro exI [of _ 0]) simp
  moreover have "set bs \<subseteq> set cs"
  proof
    fix b assume "b \<in> set bs"
    then obtain x y z where "\<bar>x\<bar> + \<bar>y\<bar> + \<bar>z\<bar> \<le> depth" "lands_on ix a x y z b" unfolding mem by blast
    then show "b \<in> set cs" unfolding more by (intro exI [of _ x] exI [of _ y] exI [of _ z]) simp
  qed
  ultimately show "\<exists>bs. neighbors ix a depth = Inr bs \<and> sorted bs \<and> distinct bs \<and> a \<in> set bs
        \<and> (\<forall>b. b \<in> set bs \<longleftrightarrow> (\<exists>x y z. \<bar>x\<bar> + \<bar>y\<bar> + \<bar>z\<bar> \<le> depth \<and> lands_on ix a x y z b))
        \<and> (\<exists>cs. neighbors ix a (depth + 1) = Inr cs \<and> set bs \<subseteq> set cs)"
    using bs cs mem by blast
qed

definition demo_index :: mobius_index where
  "demo_index = \<lparr>u_size = 32, v_size = 16, w_size = 8\<rparr>"

lemma neighbors_symmetric_witness:
  "\<exists>cs. neighbors demo_index (MobiusAddress 0 12 0 ''episodic'') 1 = Inr cs
    \<and> MobiusAddress 31 3 0 ''episodic'' \<in> set cs"
  by (rule neighbors_symmetric [of demo_index "MobiusAddress 31 3 0 ''episodic''" 1
        "case neighbors demo_index (MobiusAddress 31 3 0 ''episodic'') 1 of Inr bs \<Rightarrow> bs | _ \<Rightarrow> []"]) code_simp+

lemma neighbors_spec_witness:
  "\<exists>bs. neighbors demo_index (MobiusAddress 31 3 0 ''episodic'') 1 = Inr bs \<and> MobiusAddress 0 12 0 ''episodic'' \<in> set bs"
proof -
  let ?a = "MobiusAddress 31 3 0 ''episodic''" and ?b = "MobiusAddress 0 12 0 ''episodic''"
  have ok: "valid_index demo_index" "in_range demo_index ?a" by (simp_all add: demo_index_def valid_index_def in_range_def)
  have "lands_on demo_index ?a 1 0 0 ?b" by (simp add: lands_on_def demo_index_def in_range_def)
  then have "\<exists>x y z. \<bar>x\<bar> + \<bar>y\<bar> + \<bar>z\<bar> \<le> (1 :: int) \<and> lands_on demo_index ?a x y z ?b"
    by (intro exI [of _ 1] exI [of _ 0]) simp
  then show ?thesis using neighbors_spec [OF ok, of 1] by auto
qed

section \<open>Filing a memory\<close>

lemma bands_nonneg: "map_of bands r = Some b \<Longrightarrow> 0 \<le> b"
  by (drule map_of_SomeD) (auto simp: bands_def)

lemma region_band_range:
  assumes "0 < v_size ix"
  shows "0 \<le> region_band ix r k \<and> region_band ix r k < v_size ix"
proof -
  define st where "st = min (case map_of bands r of None \<Rightarrow> 0 | Some b \<Rightarrow> b) (v_size ix - 1)"
  have "0 \<le> st" using assms by (auto simp: st_def dest: bands_nonneg split: option.splits)
  moreover have "0 \<le> int k mod max 1 (v_size ix div 8)" by simp
  ultimately show ?thesis
    using assms by (simp add: region_band_def Let_def st_def [symmetric])
qed

lemma region_for_known: "region_for e \<in> fst ` set bands"
  by (simp add: region_for_def Let_def bands_def)

lemma address_for_in_range:
  assumes "valid_index ix" "address_for ix e = Inr a"
  shows "in_range ix a \<and> region a = region_for e"
  using assms region_band_range
  by (auto simp: address_for_def Let_def res_bind_eq_Inr in_range_def valid_index_def)

text \<open>an address survives \<open>to_dict\<close>, JSON and \<open>from_dict\<close> unless its region is empty.\<close>

theorem address_dict_roundtrip:
  assumes "region a \<noteq> []"
  shows "res_bind (loads (dumps (VDict (address_to_dict a))))
      (\<lambda>v. res_bind (read_dict_item v) address_from_dict) = Inr a"
proof -
  have ok: "json_ok (VDict (address_to_dict a))" by (simp add: address_to_dict_def)
  have "map_of (canon_dict (address_to_dict a)) k = map_option canon (map_of (address_to_dict a) k)" for k
    by (rule map_of_canon_dict) (simp add: address_to_dict_def)
  then have "address_from_dict (canon_dict (address_to_dict a)) = Inr a"
    using assms by (cases a) (simp add: address_from_dict_def read_coord_def address_to_dict_def)
  then show ?thesis
    using loads_dumps [OF ok] by (simp add: canon_VDict read_dict_item_def del: canon.simps(2))
qed

lemma address_dict_roundtrip_witness:
  "res_bind (loads (dumps (VDict (address_to_dict (MobiusAddress 1 2 3 ''error'')))))
      (\<lambda>v. res_bind (read_dict_item v) address_from_dict) = Inr (MobiusAddress 1 2 3 ''error'')"
  by (rule address_dict_roundtrip) simp

end
