(* ===== verification/Table.thy ===== *)
theory Table
  imports Prelude
begin

text \<open>
  SQLite tables with a \<open>TEXT PRIMARY KEY\<close>, as row lists in \<open>rowid\<close> order: \<open>INSERT OR REPLACE\<close>
  deletes the row of the key and appends the new one, \<open>INSERT OR IGNORE\<close> keeps the old one,
  \<open>SELECT ... WHERE key = ?\<close> finds the one row. The locale states what the components rely on; each
  component interprets it on its own table.
\<close>

definition tbl_find :: "('r \<Rightarrow> 'k) \<Rightarrow> 'k \<Rightarrow> 'r list \<Rightarrow> 'r option" where
  "tbl_find key k rows = find (\<lambda>r. key r = k) rows"

definition tbl_put :: "('r \<Rightarrow> 'k) \<Rightarrow> 'r \<Rightarrow> 'r list \<Rightarrow> 'r list" where
  "tbl_put key r rows = filter (\<lambda>x. key x \<noteq> key r) rows @ [r]"

definition tbl_add :: "('r \<Rightarrow> 'k) \<Rightarrow> 'r \<Rightarrow> 'r list \<Rightarrow> 'r list" where
  "tbl_add key r rows = (if key r \<in> key ` set rows then rows else rows @ [r])"

definition tbl_ok :: "('r \<Rightarrow> 'k) \<Rightarrow> 'r list \<Rightarrow> bool" where
  "tbl_ok key rows = distinct (map key rows)"

named_theorems table_simps \<open>lookups after updates\<close>

lemma tbl_find_Nil [simp]: "tbl_find key k [] = None"
  by (simp add: tbl_find_def)

lemma find_append: "find P (xs @ ys) = (case find P xs of None \<Rightarrow> find P ys | Some x \<Rightarrow> Some x)"
  by (induction xs) auto

lemma find_filter_other: "(\<And>x. P x \<Longrightarrow> Q x) \<Longrightarrow> find P (filter Q xs) = find P xs"
  by (induction xs) auto

lemma tbl_find_put [table_simps]:
  "tbl_find key k (tbl_put key r rows) = (if k = key r then Some r else tbl_find key k rows)"
proof (cases "k = key r")
  case True
  then have "find (\<lambda>x. key x = k) (filter (\<lambda>x. key x \<noteq> key r) rows) = None"
    by (simp add: find_None_iff)
  then show ?thesis using True by (simp add: tbl_find_def tbl_put_def find_append)
next
  case False
  then have "find (\<lambda>x. key x = k) (filter (\<lambda>x. key x \<noteq> key r) rows) = find (\<lambda>x. key x = k) rows"
    by (intro find_filter_other) auto
  then show ?thesis
    using False by (simp add: tbl_find_def tbl_put_def find_append split: option.split)
qed

lemma tbl_find_SomeD: "tbl_find key k rows = Some r \<Longrightarrow> key r = k \<and> r \<in> set rows"
  by (auto simp: tbl_find_def find_Some_iff)

lemma tbl_find_None_iff: "tbl_find key k rows = None \<longleftrightarrow> k \<notin> key ` set rows"
  by (auto simp: tbl_find_def find_None_iff)

lemma tbl_find_add [table_simps]:
  "tbl_find key k (tbl_add key r rows) =
     (case tbl_find key k rows of Some x \<Rightarrow> Some x | None \<Rightarrow> if k = key r then Some r else None)"
proof (cases "key r \<in> key ` set rows")
  case True
  then have "tbl_find key (key r) rows \<noteq> None" by (simp add: tbl_find_None_iff)
  then show ?thesis using True by (auto simp: tbl_add_def split: option.split)
next
  case False
  then show ?thesis
    by (simp add: tbl_add_def tbl_find_def find_append split: option.split)
qed

lemma tbl_find_member: "tbl_ok key rows \<Longrightarrow> r \<in> set rows \<Longrightarrow> tbl_find key (key r) rows = Some r"
proof (induction rows)
  case Nil
  then show ?case by simp
next
  case (Cons x rows)
  then show ?case by (auto simp: tbl_ok_def tbl_find_def)
qed

lemma keys_tbl_put: "key ` set (tbl_put key r rows) = insert (key r) (key ` set rows)"
  by (auto simp: tbl_put_def)

lemma keys_tbl_add: "key ` set (tbl_add key r rows) = insert (key r) (key ` set rows)"
  by (auto simp: tbl_add_def)

lemma set_tbl_put: "set (tbl_put key r rows) \<subseteq> insert r (set rows)"
  by (auto simp: tbl_put_def)

lemma set_tbl_put_eq: "set (tbl_put key r rows) = insert r {x \<in> set rows. key x \<noteq> key r}"
  by (auto simp: tbl_put_def)

lemma tbl_ok_inj: "tbl_ok key rows \<Longrightarrow> x \<in> set rows \<Longrightarrow> y \<in> set rows \<Longrightarrow> key x = key y \<Longrightarrow> x = y"
  by (auto simp: tbl_ok_def distinct_map inj_on_def)

lemma tbl_ok_Nil [simp]: "tbl_ok key []"
  by (simp add: tbl_ok_def)

lemma tbl_ok_put [intro]: "tbl_ok key rows \<Longrightarrow> tbl_ok key (tbl_put key r rows)"
  by (auto simp: tbl_ok_def tbl_put_def distinct_map_filter)

lemma tbl_ok_add [intro]: "tbl_ok key rows \<Longrightarrow> tbl_ok key (tbl_add key r rows)"
  by (auto simp: tbl_ok_def tbl_add_def)

lemma tbl_ok_map: "(\<And>r. key (f r) = key r) \<Longrightarrow> tbl_ok key (map f rows) = tbl_ok key rows"
  by (simp add: tbl_ok_def comp_def)

lemma tbl_find_map: "(\<And>r. key (f r) = key r) \<Longrightarrow> tbl_find key k (map f rows) = map_option f (tbl_find key k rows)"
  by (induction rows) (auto simp: tbl_find_def)

lemma tbl_put_twice: "key r = key q \<Longrightarrow> tbl_put key r (tbl_put key q rows) = tbl_put key r rows"
  by (simp add: tbl_put_def)

section \<open>The interface\<close>

locale keyed_table =
  fixes lookup :: "'k \<Rightarrow> 't \<Rightarrow> 'r option"
    and put :: "'r \<Rightarrow> 't \<Rightarrow> 't"
    and key :: "'r \<Rightarrow> 'k"
  assumes lookup_put: "lookup k (put r t) = (if k = key r then Some r else lookup k t)"
begin

lemma lookup_own: "lookup (key r) (put r t) = Some r"
  by (simp add: lookup_put)

lemma lookup_other: "k \<noteq> key r \<Longrightarrow> lookup k (put r t) = lookup k t"
  by (simp add: lookup_put)

text \<open>Writing a list of rows, as a rebuild does: the last row of a key is the one found.\<close>

lemma lookup_puts:
  "lookup k (foldl (\<lambda>t r. put r t) t rs) =
     (case find (\<lambda>r. key r = k) (rev rs) of Some r \<Rightarrow> Some r | None \<Rightarrow> lookup k t)"
  by (induction rs rule: rev_induct) (auto simp: lookup_put)

lemma lookup_puts_fresh: "k \<notin> key ` set rs \<Longrightarrow> lookup k (foldl (\<lambda>t r. put r t) t rs) = lookup k t"
proof -
  assume "k \<notin> key ` set rs"
  then have "find (\<lambda>r. key r = k) (rev rs) = None" by (auto simp: find_None_iff)
  then show ?thesis by (simp add: lookup_puts)
qed

text \<open>Writing the same rows again changes no lookup.\<close>

lemma lookup_puts_again:
  "lookup k (foldl (\<lambda>t r. put r t) (foldl (\<lambda>t r. put r t) t rs) rs) = lookup k (foldl (\<lambda>t r. put r t) t rs)"
  by (simp add: lookup_puts split: option.split)

end

locale checked_table = keyed_table lookup put key
  for lookup :: "'k \<Rightarrow> 't \<Rightarrow> 'r option" and put :: "'r \<Rightarrow> 't \<Rightarrow> 't" and key :: "'r \<Rightarrow> 'k" +
  fixes ok :: "'t \<Rightarrow> bool" and keys :: "'t \<Rightarrow> 'k set"
  assumes ok_put: "ok t \<Longrightarrow> ok (put r t)"
    and keys_put: "keys (put r t) = insert (key r) (keys t)"
begin

lemma ok_puts: "ok t \<Longrightarrow> ok (foldl (\<lambda>t r. put r t) t rs)"
  by (induction rs arbitrary: t) (auto intro: ok_put)

lemma keys_puts: "keys (foldl (\<lambda>t r. put r t) t rs) = key ` set rs \<union> keys t"
  by (induction rs arbitrary: t) (auto simp: keys_put)

end

text \<open>Every table of the program is an instance, for its own key column.\<close>

lemma checked_table_rows:
  "checked_table (tbl_find key) (tbl_put key) key (tbl_ok key) (\<lambda>rows. key ` set rows)"
  by unfold_locales (auto simp: tbl_find_put keys_tbl_put)

end
