(* ===== verification/Store.thy ===== *)
theory Store
  imports Mobius Table
begin

text \<open>
  \<open>store.py\<close>: the SQLite tables \<open>memories\<close>, \<open>memory_fts\<close> and \<open>mobius_index\<close>, the append-only
  JSONL log and the content-addressed blob directory. Text columns and log lines hold the JSON text
  itself. The order in which full-text search returns its rows (\<open>bm25\<close>) belongs to SQLite: it is the
  parameter \<open>rank\<close> of \<open>search_text\<close>. Rows with equal sort keys are taken in table order.
  The clock read by \<open>from_dict\<close> is the argument \<open>now\<close>.
\<close>

record memory_row =
  row_id :: string
  row_created_at :: real
  row_updated_at :: real
  row_memory_type :: string
  row_scope_json :: string
  row_tags_json :: string
  row_entities_json :: string
  row_importance :: real
  row_confidence :: real
  row_sensitivity :: string
  row_content_hash :: string
  row_envelope_json :: string

record store =
  blob_threshold :: int
  st_index :: mobius_index
  st_memories :: "memory_row list"
  st_fts :: "(string \<times> string) list"
  st_mobius :: "(string \<times> mobius_address) list"
  st_log :: "string list"
  st_blobs :: "(string \<times> string) list"

text \<open>\<open>__init__\<close> and \<open>_init_db\<close> on an empty directory; a non-empty one keeps its log and blobs.\<close>

definition store_open :: "int \<Rightarrow> mobius_index \<Rightarrow> string list \<Rightarrow> (string \<times> string) list \<Rightarrow> store" where
  "store_open threshold ix lines blobs = \<lparr>blob_threshold = threshold, st_index = ix, st_memories = [],
     st_fts = [], st_mobius = [], st_log = lines, st_blobs = blobs\<rparr>"

section \<open>Blobs\<close>

text \<open>\<open>^[0-9a-f]{64}$\<close>: the \<open>$\<close> also matches before one final newline.\<close>

definition is_sha256_hex :: "string \<Rightarrow> bool" where
  "is_sha256_hex s =
     ((length s = 64 \<or> (length s = 65 \<and> s ! 64 = CHR 0x0A)) \<and> list_all is_hex_lower (take 64 s))"

text \<open>The path below the blob directory: the first two characters, then the whole name.\<close>

definition blob_path :: "string \<Rightarrow> (string \<times> string) result" where
  "blob_path sha = (if is_sha256_hex sha then Inr (take 2 sha, sha) else Inl (ValueError ''invalid blob reference''))"

definition read_blob :: "store \<Rightarrow> string \<Rightarrow> string result" where
  "read_blob s sha = res_bind (blob_path sha) (\<lambda>p.
     case map_of (st_blobs s) (snd p) of None \<Rightarrow> Inl (OSError ''No such file'') | Some data \<Rightarrow> Inr data)"

text \<open>\<open>if not path.exists(): path.write_bytes(data)\<close>.\<close>

definition write_blob :: "string \<Rightarrow> string \<Rightarrow> (string \<times> string) list \<Rightarrow> (string \<times> string) list" where
  "write_blob sha data blobs = (if map_of blobs sha = None then blobs @ [(sha, data)] else blobs)"

definition blob_uri :: "string \<Rightarrow> string" where
  "blob_uri sha = ''blob://'' @ sha"

definition blob_sha :: "modality_ref \<Rightarrow> string \<Rightarrow> string result" where
  "blob_sha m data =
     res_bind (case mod_sha256 m of Some h \<Rightarrow> if h \<noteq> [] then Inr h else stable_json (content m)
               | None \<Rightarrow> stable_json (content m))
       (\<lambda>sha. Inr (if is_sha256_hex sha then sha else sha256_hexdigest data))"

definition externalize_modality ::
  "int \<Rightarrow> modality_ref \<Rightarrow> ((string \<times> string) list, modality_ref) action" where
  "externalize_modality threshold m blobs =
     (if content m = VNone then (blobs, Inr m)
      else (case content_bytes (content m) of
          Inl err \<Rightarrow> (blobs, Inl err)
        | Inr data \<Rightarrow>
            if int (length data) \<le> threshold then (blobs, Inr m)
            else (case blob_sha m data of
                Inl err \<Rightarrow> (blobs, Inl err)
              | Inr sha \<Rightarrow>
                  (write_blob sha data blobs,
                   modality_init \<lparr>modality = modality m, content = VNone, uri = Some (blob_uri sha),
                     mime_type = mime_type m, mod_sha256 = Some sha, size_bytes = Some (int (length data)),
                     mod_metadata = d_set ''blob_format''
                       (VStr (case content m of VStr _ \<Rightarrow> ''text'' | _ \<Rightarrow> ''json'')) (mod_metadata m)\<rparr>))))"

definition with_modalities :: "real \<Rightarrow> envelope \<Rightarrow> modality_ref list \<Rightarrow> envelope result" where
  "with_modalities now e ms =
     envelope_from_dict now (d_set ''modalities'' (VList (map (VDict \<circ> modality_to_dict) ms)) (envelope_to_dict e))"

definition externalize_large_payloads :: "real \<Rightarrow> envelope \<Rightarrow> (store, envelope) action" where
  "externalize_large_payloads now e s =
     (case act_each (externalize_modality (blob_threshold s)) (modalities e) (st_blobs s) of
        (blobs, r) \<Rightarrow> (s\<lparr>st_blobs := blobs\<rparr>, res_bind r (with_modalities now e)))"

definition blob_name :: "modality_ref \<Rightarrow> string option" where
  "blob_name m = (case uri m of None \<Rightarrow> None
     | Some u \<Rightarrow> if py_startswith u ''blob://'' then Some (drop 7 u) else None)"

definition decode_utf8 :: "string \<Rightarrow> string result" where
  "decode_utf8 b = (case utf8_decode b of None \<Rightarrow> Inl (ValueError ''invalid utf-8'') | Some t \<Rightarrow> Inr t)"

definition resolve_modality :: "store \<Rightarrow> modality_ref \<Rightarrow> modality_ref result" where
  "resolve_modality s m =
     (case blob_name m of
        None \<Rightarrow> Inr m
      | Some sha \<Rightarrow>
          res_bind (read_blob s sha) (\<lambda>data.
          res_bind (decode_utf8 data) (\<lambda>text.
          res_bind (if d_get (mod_metadata m) ''blob_format'' = Some (VStr ''json'') then loads text
                    else Inr (VStr text)) (\<lambda>c.
            modality_init \<lparr>modality = modality m, content = c, uri = None, mime_type = mime_type m,
              mod_sha256 = mod_sha256 m, size_bytes = size_bytes m,
              mod_metadata = filter (\<lambda>p. fst p \<noteq> ''blob_format'') (mod_metadata m)\<rparr>))))"

definition resolve_blobs :: "real \<Rightarrow> store \<Rightarrow> envelope \<Rightarrow> envelope result" where
  "resolve_blobs now s e = res_bind (res_each (resolve_modality s) (modalities e)) (with_modalities now e)"

section \<open>Writing\<close>

definition memory_row_of :: "envelope \<Rightarrow> memory_row result" where
  "memory_row_of e =
     res_bind (stable_json (VDict (envelope_to_dict e))) (\<lambda>payload.
     res_bind (stable_json (VDict (scope e))) (\<lambda>sc.
     res_bind (stable_json (str_list (tags e))) (\<lambda>tg.
     res_bind (stable_json (str_list (entities e))) (\<lambda>en.
       Inr \<lparr>row_id = env_id e, row_created_at = created_at e, row_updated_at = updated_at e,
         row_memory_type = memory_type e, row_scope_json = sc, row_tags_json = tg, row_entities_json = en,
         row_importance = importance e, row_confidence = confidence e, row_sensitivity = sensitivity e,
         row_content_hash = content_hash e, row_envelope_json = payload\<rparr>))))"

definition remember :: "real \<Rightarrow> bool \<Rightarrow> envelope \<Rightarrow> (store, string) action" where
  "remember now append_log e s =
     (case envelope_from_dict now (envelope_to_dict e) of
        Inl err \<Rightarrow> (s, Inl err)
      | Inr original \<Rightarrow>
          (case externalize_large_payloads now original s of
             (s1, Inl err) \<Rightarrow> (s1, Inl err)
           | (s1, Inr stored) \<Rightarrow>
               (case res_bind (address_for (st_index s1) original) (\<lambda>a.
                       res_bind (memory_row_of stored) (\<lambda>r. Inr (a, r))) of
                  Inl err \<Rightarrow> (s1, Inl err)
                | Inr (a, r) \<Rightarrow>
                    (s1\<lparr>st_memories := tbl_put row_id r (st_memories s1),
                        st_fts := filter (\<lambda>p. fst p \<noteq> env_id stored) (st_fts s1) @ [(env_id stored, text_content original)],
                        st_mobius := tbl_put fst (env_id stored, a) (st_mobius s1),
                        st_log := (if append_log then st_log s1 @ [row_envelope_json r] else st_log s1)\<rparr>,
                     Inr (env_id stored)))))"

text \<open>The database file is deleted and created again; the log and the blobs stay.\<close>

definition clear_indexes :: "store \<Rightarrow> store" where
  "clear_indexes s = s\<lparr>st_memories := [], st_fts := [], st_mobius := []\<rparr>"

section \<open>Reading\<close>

definition parse_envelope :: "real \<Rightarrow> string \<Rightarrow> envelope result" where
  "parse_envelope now text = res_bind (loads text) (\<lambda>v. res_bind (read_dict_item v) (envelope_from_dict now))"

definition inspect :: "real \<Rightarrow> bool \<Rightarrow> string \<Rightarrow> store \<Rightarrow> envelope result" where
  "inspect now resolve i s =
     (case tbl_find row_id i (st_memories s) of
        None \<Rightarrow> Inl (KeyError i)
      | Some r \<Rightarrow> res_bind (parse_envelope now (row_envelope_json r))
          (\<lambda>e. if resolve then resolve_blobs now s e else Inr e))"

definition matches_filter :: "py_dict \<Rightarrow> string list \<Rightarrow> envelope \<Rightarrow> bool" where
  "matches_filter sc tgs e =
     (list_all (\<lambda>(k, v). py_eq (d_or (d_get (scope e) k)) v) sc \<and> list_all (\<lambda>t. t \<in> set (tags e)) tgs)"

definition filter_memories :: "py_dict \<Rightarrow> string list \<Rightarrow> envelope list \<Rightarrow> envelope list" where
  "filter_memories sc tgs es = filter (matches_filter sc tgs) es"

definition rank_key :: "memory_row \<Rightarrow> real \<times> real" where
  "rank_key r = (row_importance r, row_created_at r)"

definition list_rows :: "real option \<Rightarrow> int option \<Rightarrow> store \<Rightarrow> memory_row list" where
  "list_rows min_importance limit s =
     (let rows = filter (\<lambda>r. case min_importance of None \<Rightarrow> True | Some x \<Rightarrow> x \<le> row_importance r) (st_memories s);
          ordered = sort_desc rank_key rows
      in case limit of None \<Rightarrow> ordered | Some n \<Rightarrow> sql_limit (n * 4) ordered)"

definition list_memories ::
  "real \<Rightarrow> py_dict \<Rightarrow> string list \<Rightarrow> real option \<Rightarrow> int option \<Rightarrow> store \<Rightarrow> envelope list result" where
  "list_memories now sc tgs min_importance limit s =
     res_bind (res_each (\<lambda>r. parse_envelope now (row_envelope_json r)) (list_rows min_importance limit s)) (\<lambda>es.
       Inr (case limit of None \<Rightarrow> filter_memories sc tgs es | Some n \<Rightarrow> py_take n (filter_memories sc tgs es)))"

definition expanded_tokens :: "string list \<Rightarrow> string list" where
  "expanded_tokens ts0 =
     (let has = (\<lambda>ws ts. list_ex (\<lambda>w. w \<in> set ts) ws);
          ts1 = (if has [''now'', ''latest'', ''active''] ts0 then ts0 @ [''current''] else ts0);
          ts2 = (if has [''current''] ts1 then ts1 @ [''now''] else ts1);
          ts3 = (if has [''run''] ts2 then ts2 @ [''command'', ''commands''] else ts2);
          ts4 = (if has [''missing''] ts3 then ts3 @ [''gap'', ''gaps''] else ts3);
          ts5 = (if has [''gap'', ''gaps''] ts4 then ts4 @ [''missing''] else ts4)
      in sorted_set ts5)"

definition fts_expression :: "string \<Rightarrow> string" where
  "fts_expression query = py_join '' OR '' (expanded_tokens (py_words (py_lower query)))"

text \<open>The join \<open>m.id = f.id\<close> drops index entries without a row.\<close>

definition joined_rows :: "store \<Rightarrow> string list \<Rightarrow> memory_row list" where
  "joined_rows s ids = concat (map (\<lambda>i. case tbl_find row_id i (st_memories s) of None \<Rightarrow> [] | Some r \<Rightarrow> [r]) ids)"

definition search_text ::
  "(string \<Rightarrow> (string \<times> string) list \<Rightarrow> string list) \<Rightarrow> real \<Rightarrow> string \<Rightarrow> py_dict \<Rightarrow> string list \<Rightarrow> int \<Rightarrow> store
    \<Rightarrow> envelope list result" where
  "search_text rank now query sc tgs limit s =
     (let expression = fts_expression query in
      if expression = [] then list_memories now sc tgs None (Some limit) s
      else
        (let rows = sql_limit (max (limit * 4) limit) (joined_rows s (rank expression (st_fts s))) in
         res_bind (res_each (\<lambda>r. parse_envelope now (row_envelope_json r)) rows) (\<lambda>es.
           Inr (py_take limit (filter_memories sc tgs es)))))"

definition store_address_for :: "string \<Rightarrow> store \<Rightarrow> mobius_address result" where
  "store_address_for i s = (case tbl_find fst i (st_mobius s) of None \<Rightarrow> Inl (KeyError i) | Some p \<Rightarrow> Inr (snd p))"

text \<open>The statement has no \<open>ORDER BY\<close>: \<open>scan\<close> is the order in which SQLite visits the entries it selects.\<close>

definition by_mobius_neighbors ::
  "((string \<times> mobius_address) list \<Rightarrow> (string \<times> mobius_address) list) \<Rightarrow> real \<Rightarrow> mobius_address \<Rightarrow> int \<Rightarrow> py_dict \<Rightarrow> string list \<Rightarrow> int \<Rightarrow> store \<Rightarrow> envelope list result" where
  "by_mobius_neighbors scan now a depth sc tgs limit s =
     res_bind (neighbors (st_index s) a depth) (\<lambda>near.
       if near = [] then Inr []
       else
         (let ids = map fst (scan (filter (\<lambda>p. snd p \<in> set near) (st_mobius s))) in
          res_bind (res_each (\<lambda>r. parse_envelope now (row_envelope_json r)) (joined_rows s ids)) (\<lambda>es.
            Inr (py_take limit (filter_memories sc tgs es)))))"

section \<open>The tables as an interface\<close>

interpretation memories: checked_table "tbl_find row_id" "tbl_put row_id" row_id "tbl_ok row_id"
    "\<lambda>rows. row_id ` set rows"
  by (rule checked_table_rows)

interpretation addresses: checked_table "tbl_find fst" "tbl_put fst" fst "tbl_ok fst"
    "\<lambda>rows :: (string \<times> mobius_address) list. fst ` set rows"
  by (rule checked_table_rows)

text \<open>The three tables are keyed by the same ids, each once.\<close>

definition store_ok :: "store \<Rightarrow> bool" where
  "store_ok s =
     (tbl_ok row_id (st_memories s) \<and> distinct (map fst (st_fts s)) \<and> tbl_ok fst (st_mobius s)
      \<and> fst ` set (st_fts s) = row_id ` set (st_memories s)
      \<and> fst ` set (st_mobius s) = row_id ` set (st_memories s))"

lemma store_ok_open [simp]: "store_ok (store_open th ix lg bl)"
  by (simp add: store_ok_def store_open_def)

lemma store_ok_clear [simp]: "store_ok (clear_indexes s)"
  by (simp add: store_ok_def clear_indexes_def)

lemma store_ok_blobs [simp]: "store_ok (s\<lparr>st_blobs := b\<rparr>) = store_ok s"
  by (simp add: store_ok_def)

lemma externalize_large_state:
  "\<exists>b. fst (externalize_large_payloads now e s) = s\<lparr>st_blobs := b\<rparr>"
  by (auto simp: externalize_large_payloads_def split: prod.split)

lemma memory_row_of_id: "memory_row_of e = Inr r \<Longrightarrow> row_id r = env_id e"
  by (auto simp: memory_row_of_def res_bind_eq_Inr)

text \<open>The effect of \<open>remember\<close> on the store: some blobs, and on success one row in each table.\<close>

lemma remember_cases:
  obtains (failed) b err where "remember now lg e s = (s\<lparr>st_blobs := b\<rparr>, Inl err)"
  | (stored) b f g a r where
    "envelope_from_dict now (envelope_to_dict e) = Inr f"
    "externalize_large_payloads now f s = (s\<lparr>st_blobs := b\<rparr>, Inr g)"
    "address_for (st_index s) f = Inr a" "memory_row_of g = Inr r"
    "remember now lg e s =
       (s\<lparr>st_blobs := b, st_memories := tbl_put row_id r (st_memories s),
          st_fts := filter (\<lambda>p. fst p \<noteq> env_id g) (st_fts s) @ [(env_id g, text_content f)],
          st_mobius := tbl_put fst (env_id g, a) (st_mobius s),
          st_log := (if lg then st_log s @ [row_envelope_json r] else st_log s)\<rparr>, Inr (env_id g))"
proof (cases "envelope_from_dict now (envelope_to_dict e)")
  case (Inl err)
  then show ?thesis using failed [of "st_blobs s" err] by (simp add: remember_def)
next
  case (Inr f)
  obtain b x where x: "externalize_large_payloads now f s = (s\<lparr>st_blobs := b\<rparr>, x)"
    using externalize_large_state [of now f s] by (metis eq_fst_iff)
  show ?thesis
  proof (cases x)
    case (Inl err)
    then show ?thesis using failed [of b err] Inr x by (simp add: remember_def)
  next
    case g: (Inr g)
    show ?thesis
    proof (cases "address_for (st_index s) f")
      case (Inl err)
      then show ?thesis using failed [of b err] Inr x g by (simp add: remember_def)
    next
      case a: (Inr a)
      show ?thesis
      proof (cases "memory_row_of g")
        case (Inl err)
        then show ?thesis using failed [of b err] Inr x g a by (simp add: remember_def)
      next
        case (Inr r)
        then show ?thesis using stored [of f b g a r] \<open>envelope_from_dict _ _ = Inr f\<close> x g a
          by (simp add: remember_def)
      qed
    qed
  qed
qed

lemma store_ok_remember:
  assumes "store_ok s"
  shows "store_ok (fst (remember now lg e s))"
proof (cases rule: remember_cases [of now lg e s])
  case (failed b err)
  then show ?thesis using assms by simp
next
  case (stored b f g a r)
  have id: "row_id r = env_id g" using stored(4) by (rule memory_row_of_id)
  have keys: "fst ` set (filter (\<lambda>p. fst p \<noteq> i) ps @ [(i, t)]) = insert i (fst ` set ps)"
    for i t and ps :: "(string \<times> string) list"
    by auto
  have dist: "distinct (map fst (filter (\<lambda>p. fst p \<noteq> i) ps @ [(i, t)]))"
    if "distinct (map fst ps)" for i t and ps :: "(string \<times> string) list"
    using that by (auto simp: distinct_map_filter)
  obtain s' where s': "fst (remember now lg e s) = s'" "st_memories s' = tbl_put row_id r (st_memories s)"
    "st_fts s' = filter (\<lambda>p. fst p \<noteq> env_id g) (st_fts s) @ [(env_id g, text_content f)]"
    "st_mobius s' = tbl_put fst (env_id g, a) (st_mobius s)"
    unfolding stored(5) by simp
  show ?thesis
    using assms unfolding s' store_ok_def
    by (simp only: s' memories.ok_put addresses.ok_put keys dist memories.keys_put addresses.keys_put
        id fst_conv simp_thms)
qed

section \<open>Blobs\<close>

definition honest_blobs :: "(string \<times> string) list \<Rightarrow> bool" where
  "honest_blobs blobs = (\<forall>p\<in>set blobs. fst p = sha256_hexdigest (snd p))"

definition payload :: "modality_ref \<Rightarrow> string" where
  "payload m = (case content_bytes (content m) of Inr b \<Rightarrow> b | Inl _ \<Rightarrow> [])"

text \<open>Hash and size are those of the content, as the constructor computes them.\<close>

definition honest_modality :: "modality_ref \<Rightarrow> bool" where
  "honest_modality m = (content m = VNone \<or>
     (content_bytes (content m) = Inr (payload m) \<and> mod_sha256 m = Some (sha256_hexdigest (payload m))
      \<and> size_bytes m = Some (int (length (payload m)))))"

lemma modality_init_honest:
  assumes "modality_init m = Inr m'" "mod_sha256 m = None" "size_bytes m = None"
  shows "honest_modality m'"
proof (cases "content m = VNone")
  case True
  then show ?thesis using modality_init_content(1) [OF assms(1)] by (simp add: honest_modality_def)
next
  case False
  then show ?thesis using modality_init_hash [OF assms(1) False assms(2,3)]
    by (auto simp: honest_modality_def payload_def)
qed

lemma is_sha256_hexdigest [simp]: "is_sha256_hex (sha256_hexdigest d)"
  using sha256_hexdigest_hex [of d] by (simp add: is_sha256_hex_def list_all_iff)

text \<open>Whatever name a blob is read or written under is made of lower-case hex digits.\<close>

lemma blob_path_safe:
  assumes "blob_path sha = Inr p"
  shows "snd p = sha \<and> fst p = take 2 sha \<and> list_all is_hex_lower (take 64 sha)
    \<and> (\<forall>c\<in>set sha. is_hex_lower c \<or> c = CHR 0x0A)"
proof -
  have s: "is_sha256_hex sha" and p: "p = (take 2 sha, sha)"
    using assms by (auto simp: blob_path_def split: if_splits)
  have "sha = take 64 sha @ drop 64 sha" by simp
  moreover have "drop 64 sha = [] \<or> drop 64 sha = [CHR 0x0A]"
  proof (cases "length sha = 65")
    case True
    then have "drop 64 sha = [sha ! 64]" by (simp add: Cons_nth_drop_Suc [symmetric])
    then show ?thesis using s True by (simp add: is_sha256_hex_def)
  next
    case False
    then show ?thesis using s by (simp add: is_sha256_hex_def)
  qed
  ultimately have "\<forall>c\<in>set sha. is_hex_lower c \<or> c = CHR 0x0A"
    using s unfolding is_sha256_hex_def list_all_iff by (metis Un_iff empty_iff empty_set set_ConsD set_append)
  then show ?thesis using s p by (simp add: is_sha256_hex_def)
qed

definition is_small :: "int \<Rightarrow> modality_ref \<Rightarrow> bool" where
  "is_small th m = (content m = VNone \<or> int (length (payload m)) \<le> th)"

definition external_form :: "modality_ref \<Rightarrow> modality_ref" where
  "external_form m = m\<lparr>content := VNone, uri := Some (blob_uri (sha256_hexdigest (payload m))),
     mod_sha256 := Some (sha256_hexdigest (payload m)), size_bytes := Some (int (length (payload m))),
     mod_metadata := d_set ''blob_format'' (VStr (case content m of VStr _ \<Rightarrow> ''text'' | _ \<Rightarrow> ''json'')) (mod_metadata m)\<rparr>"

lemma externalize_modality_honest:
  assumes "wf_modality m" "honest_modality m"
  shows "externalize_modality th m blobs =
    (if is_small th m then (blobs, Inr m)
     else (write_blob (sha256_hexdigest (payload m)) (payload m) blobs, Inr (external_form m)))"
proof (cases "content m = VNone")
  case True
  then show ?thesis by (simp add: externalize_modality_def is_small_def)
next
  case False
  have ne: "sha256_hexdigest (payload m) \<noteq> []"
    using length_sha256_hexdigest [of "payload m"] by (metis list.size(3) zero_neq_numeral)
  have h: "content_bytes (content m) = Inr (payload m)" "mod_sha256 m = Some (sha256_hexdigest (payload m))"
    using assms(2) False by (auto simp: honest_modality_def)
  have sha: "blob_sha m (payload m) = Inr (sha256_hexdigest (payload m))"
    using ne by (simp add: blob_sha_def h(2))
  have ext: "modality_init \<lparr>modality = modality m, content = VNone,
      uri = Some (blob_uri (sha256_hexdigest (payload m))), mime_type = mime_type m,
      mod_sha256 = Some (sha256_hexdigest (payload m)), size_bytes = Some (int (length (payload m))),
      mod_metadata = d_set ''blob_format'' (VStr (case content m of VStr _ \<Rightarrow> ''text'' | _ \<Rightarrow> ''json'')) (mod_metadata m)\<rparr>
    = Inr (external_form m)"
    using assms(1) by (cases m) (auto simp: modality_init_def wf_modality_def external_form_def Let_def)
  show ?thesis
    using False ext by (simp add: externalize_modality_def is_small_def h(1) sha)
qed

lemma map_of_write_blob:
  "map_of (write_blob k v blobs) k' = (if k' = k \<and> map_of blobs k = None then Some v else map_of blobs k')"
  by (auto simp: write_blob_def map_add_def map_of_append split: option.splits)

lemma write_blob_mono: "map_of blobs \<subseteq>\<^sub>m map_of (write_blob k v blobs)"
  by (auto simp: map_le_def map_of_write_blob)

lemma honest_write_blob: "honest_blobs blobs \<Longrightarrow> honest_blobs (write_blob (sha256_hexdigest d) d blobs)"
  by (auto simp: honest_blobs_def write_blob_def)

lemma honest_map_of: "honest_blobs blobs \<Longrightarrow> map_of blobs k = Some d \<Longrightarrow> k = sha256_hexdigest d \<and> d \<in> snd ` set blobs"
  by (force simp: honest_blobs_def dest: map_of_SomeD)

lemma externalize_modality_mono: "map_of blobs \<subseteq>\<^sub>m map_of (fst (externalize_modality th m blobs))"
  by (auto simp: externalize_modality_def write_blob_mono split: sum.splits)

lemma externalize_each_mono: "map_of blobs \<subseteq>\<^sub>m map_of (fst (act_each (externalize_modality th) ms blobs))"
  by (rule act_each_invariant [where I = "\<lambda>b. map_of blobs \<subseteq>\<^sub>m map_of b"])
    (auto intro: map_le_trans externalize_modality_mono)

text \<open>How a modality is stored, given the blob directory.\<close>

definition stored_form :: "int \<Rightarrow> modality_ref \<Rightarrow> modality_ref" where
  "stored_form th m = (if is_small th m then m else external_form m)"

definition has_blob :: "int \<Rightarrow> (string \<times> string) list \<Rightarrow> modality_ref \<Rightarrow> bool" where
  "has_blob th blobs m =
     (is_small th m \<or> map_of blobs (sha256_hexdigest (payload m)) = Some (payload m))"

lemma has_blob_mono: "map_of blobs \<subseteq>\<^sub>m map_of blobs' \<Longrightarrow> has_blob th blobs m \<Longrightarrow> has_blob th blobs' m"
  by (auto simp: has_blob_def map_le_def) (metis domI)

lemma externalize_each_honest:
  assumes "list_all wf_modality ms" "list_all honest_modality ms" "honest_blobs blobs"
    and "inj_on sha256_hexdigest (snd ` set blobs \<union> payload ` set ms)"
  shows "\<exists>blobs'. act_each (externalize_modality th) ms blobs = (blobs', Inr (map (stored_form th) ms))
    \<and> honest_blobs blobs' \<and> map_of blobs \<subseteq>\<^sub>m map_of blobs' \<and> list_all (has_blob th blobs') ms"
  using assms
proof (induction ms arbitrary: blobs)
  case Nil
  then show ?case by simp
next
  case (Cons m ms)
  define b1 where "b1 = (if is_small th m then blobs else write_blob (sha256_hexdigest (payload m)) (payload m) blobs)"
  have step: "externalize_modality th m blobs = (b1, Inr (stored_form th m))"
    using externalize_modality_honest [of m th blobs] Cons.prems by (simp add: b1_def stored_form_def)
  have h1: "honest_blobs b1" using Cons.prems honest_write_blob by (simp add: b1_def)
  have sub: "snd ` set b1 \<subseteq> snd ` set blobs \<union> payload ` set (m # ms)"
    by (auto simp: b1_def write_blob_def split: if_splits)
  have "inj_on sha256_hexdigest (snd ` set b1 \<union> payload ` set ms)"
    by (rule inj_on_subset [OF Cons.prems(4)]) (use sub in auto)
  then obtain b2 where b2: "act_each (externalize_modality th) ms b1 = (b2, Inr (map (stored_form th) ms))"
    "honest_blobs b2" "map_of b1 \<subseteq>\<^sub>m map_of b2" "list_all (has_blob th b2) ms"
    using Cons.IH [OF _ _ h1] Cons.prems by auto
  have up: "map_of blobs \<subseteq>\<^sub>m map_of b1" by (simp add: b1_def write_blob_mono)
  have "has_blob th b1 m"
  proof (cases "is_small th m")
    case True
    then show ?thesis by (simp add: has_blob_def)
  next
    case False
    have "d = payload m" if d: "map_of blobs (sha256_hexdigest (payload m)) = Some d" for d
      using honest_map_of [OF Cons.prems(3) d] inj_onD [OF Cons.prems(4), of "payload m" d] by auto
    then show ?thesis using False
      by (cases "map_of blobs (sha256_hexdigest (payload m))")
        (auto simp: has_blob_def b1_def map_of_write_blob)
  qed
  then have "has_blob th b2 m" using b2(3) has_blob_mono by blast
  then show ?case
    using step b2 map_le_trans [OF up b2(3)] by simp
qed

text \<open>What one modality must satisfy to come back from the store as it was.\<close>

definition storable :: "int \<Rightarrow> modality_ref \<Rightarrow> bool" where
  "storable th m =
     (wf_modality m \<and> honest_modality m \<and> blob_name m = None \<and> json_ok (VDict (modality_to_dict m))
      \<and> (\<not> is_small th m \<longrightarrow> uri m = None \<and> d_get (mod_metadata m) ''blob_format'' = None))"

lemma json_ok_modality:
  "json_ok (VDict (modality_to_dict m)) \<longleftrightarrow> json_ok (content m) \<and> json_ok (VDict (mod_metadata m))"
  by (auto simp: modality_to_dict_def opt_str_def opt_int_def split: option.split)

lemma json_ok_d_set: "json_ok (VDict d) \<Longrightarrow> json_ok v \<Longrightarrow> json_ok (VDict (d_set k v d))"
proof -
  assume d: "json_ok (VDict d)" and v: "json_ok v"
  have "set (d_set k v d) \<subseteq> insert (k, v) (set d)" by (induction d) (auto split: if_splits)
  then show ?thesis using d v distinct_d_set [of d k v] by (fastforce simp: list_all_iff)
qed

lemma wf_external_form: "wf_modality m \<Longrightarrow> wf_modality (external_form m)"
  by (simp add: wf_modality_def external_form_def)

lemma stored_form_ok:
  assumes "storable th m"
  shows "wf_modality (stored_form th m)" "json_ok (VDict (modality_to_dict (stored_form th m)))"
proof -
  show "wf_modality (stored_form th m)"
    using assms wf_external_form by (simp add: storable_def stored_form_def)
  have "json_ok (VDict (mod_metadata m))" using assms unfolding storable_def json_ok_modality by blast
  then have "json_ok (VDict (modality_to_dict (external_form m)))"
    unfolding json_ok_modality external_form_def
    by (simp add: json_ok_d_set del: json_ok.simps(4))
  then show "json_ok (VDict (modality_to_dict (stored_form th m)))"
    using assms unfolding storable_def stored_form_def by simp
qed

lemma filter_canon_d_set:
  assumes "d_get d k = None"
  shows "filter (\<lambda>p. fst p \<noteq> k) (canon_dict (d_set k v d)) = canon_dict d"
proof -
  have k: "k \<notin> fst ` set d" using assms by (simp add: map_of_eq_None_iff)
  then have "d_set k v d = d @ [(k, v)]" by (simp add: d_set_new)
  moreover have "filter (\<lambda>p. fst p \<noteq> k) (sort_key fst (xs @ [(k, w)])) = sort_key fst xs"
    if "k \<notin> fst ` set xs" for xs :: py_dict and w
  proof -
    have "filter (\<lambda>p. fst p \<noteq> k) (sort_key fst (xs @ [(k, w)])) = sort_key fst (filter (\<lambda>p. fst p \<noteq> k) (xs @ [(k, w)]))"
      by (rule filter_sort)
    also have "filter (\<lambda>p. fst p \<noteq> k) (xs @ [(k, w)]) = xs"
      using that by (auto simp: filter_id_conv image_iff)
    finally show ?thesis .
  qed
  ultimately show ?thesis
    using k by (simp add: canon_dict_def image_image case_prod_beta)
qed

lemma blob_name_uri: "uri m = Some (blob_uri sha) \<Longrightarrow> blob_name m = Some sha"
  by (simp add: blob_name_def blob_uri_def py_startswith_def)

lemma json_ok_content_bytes:
  assumes "json_ok v" "v \<noteq> VNone" "\<nexists>s. v = VStr s"
  shows "content_bytes v = Inr (utf8_encode (dumps v))"
  using assms json_ok_jsonable [OF assms(1)] by (cases v) (simp_all add: content_bytes_def stable_json_def)

text \<open>Reading a stored modality back, after its JSON text sorted its dicts.\<close>

lemma resolve_stored_form:
  assumes m: "storable th m" and b: "has_blob th (st_blobs s) m"
  shows "resolve_modality s (canon_modality (stored_form th m)) = Inr (canon_modality m)"
proof (cases "is_small th m")
  case True
  then show ?thesis using m
    by (simp add: resolve_modality_def stored_form_def storable_def blob_name_def canon_modality_def)
next
  case False
  let ?sha = "sha256_hexdigest (payload m)"
  let ?fmt = "VStr (case content m of VStr _ \<Rightarrow> ''text'' | _ \<Rightarrow> ''json'')"
  let ?x = "canon_modality (external_form m)"
  have c: "content m \<noteq> VNone" and d: "map_of (st_blobs s) ?sha = Some (payload m)"
    using False b by (auto simp: is_small_def has_blob_def)
  have bytes: "content_bytes (content m) = Inr (payload m)" "mod_sha256 m = Some ?sha"
    "size_bytes m = Some (int (length (payload m)))"
    using m c by (auto simp: storable_def honest_modality_def)
  have um: "uri m = None" and fmt: "d_get (mod_metadata m) ''blob_format'' = None"
    using m False by (auto simp: storable_def)
  have js: "json_ok (content m)" "distinct (map fst (mod_metadata m))"
    using m unfolding storable_def json_ok_modality by simp_all
  have name: "blob_name ?x = Some ?sha"
    by (rule blob_name_uri) (simp add: canon_modality_def external_form_def)
  have read: "read_blob s ?sha = Inr (payload m)"
    by (simp add: read_blob_def blob_path_def d)
  have get: "d_get (mod_metadata ?x) ''blob_format'' = Some ?fmt"
    using distinct_d_set [OF js(2), of "''blob_format''" ?fmt]
    by (simp add: canon_modality_def external_form_def map_of_canon_dict split: py_value.split)
  have rest: "filter (\<lambda>p. fst p \<noteq> ''blob_format'') (mod_metadata ?x) = canon_dict (mod_metadata m)"
    using filter_canon_d_set [OF fmt] by (simp add: canon_modality_def external_form_def)
  obtain t where t: "decode_utf8 (payload m) = Inr t"
    and v: "(if ?fmt = VStr ''json'' then loads t else Inr (VStr t)) = Inr (canon (content m))"
  proof (cases "\<exists>x. content m = VStr x")
    case True
    then obtain x where x: "content m = VStr x" by blast
    then have "payload m = utf8_encode x" using bytes(1) by (simp add: content_bytes_def)
    then show ?thesis using that [of x] x by (simp add: decode_utf8_def)
  next
    case False
    then have "payload m = utf8_encode (dumps (content m))"
      using json_ok_content_bytes [OF js(1) c] bytes(1) by simp
    moreover have "?fmt = VStr ''json''" using False by (auto split: py_value.split)
    ultimately show ?thesis using that [of "dumps (content m)"] loads_dumps [OF js(1)]
      by (simp add: decode_utf8_def)
  qed
  have "modality_init \<lparr>modality = modality ?x, content = canon (content m), uri = None,
      mime_type = mime_type ?x, mod_sha256 = mod_sha256 ?x, size_bytes = size_bytes ?x,
      mod_metadata = canon_dict (mod_metadata m)\<rparr> = Inr (canon_modality m)"
  proof -
    have "\<lparr>modality = modality ?x, content = canon (content m), uri = None,
      mime_type = mime_type ?x, mod_sha256 = mod_sha256 ?x, size_bytes = size_bytes ?x,
      mod_metadata = canon_dict (mod_metadata m)\<rparr> = canon_modality m"
      using bytes um by (cases m) (simp add: canon_modality_def external_form_def)
    then show ?thesis using m modality_init_fixpoint [of "canon_modality m"] by (simp add: storable_def)
  qed
  then have "resolve_modality s ?x = Inr (canon_modality m)"
    using v by (simp add: resolve_modality_def name read t get rest)
  then show ?thesis using False by (simp add: stored_form_def)
qed

section \<open>Remembering and inspecting\<close>

definition storable_envelope :: "int \<Rightarrow> envelope \<Rightarrow> bool" where
  "storable_envelope th e =
     (wf_envelope e \<and> created_at e \<noteq> 0 \<and> list_all (storable th) (modalities e)
      \<and> json_ok (VDict (envelope_to_dict e)))"

definition stored_envelope :: "int \<Rightarrow> envelope \<Rightarrow> envelope" where
  "stored_envelope th e = e\<lparr>modalities := map (stored_form th) (modalities e)\<rparr>"

lemma with_modalities_id:
  "with_modalities now e ms = Inr f \<Longrightarrow> env_id e \<noteq> [] \<Longrightarrow> env_id f = env_id e"
  unfolding with_modalities_def envelope_from_dict_def res_bind_eq_Inr
  by (auto simp: map_of_envelope_to_dict read_str_def dest!: envelope_init_fields(14))

lemma externalize_large_id:
  "externalize_large_payloads now e s = (s', Inr f) \<Longrightarrow> env_id e \<noteq> [] \<Longrightarrow> env_id f = env_id e"
  by (auto simp: externalize_large_payloads_def res_bind_eq_Inr intro: with_modalities_id split: prod.splits)

lemma with_modalities_wf:
  assumes "wf_envelope e" "created_at e \<noteq> 0" "list_all wf_modality ms"
  shows "with_modalities now e ms = Inr (e\<lparr>modalities := ms\<rparr>)"
proof -
  have "d_set ''modalities'' (VList (map (VDict \<circ> modality_to_dict) ms)) (envelope_to_dict e)
      = envelope_to_dict (e\<lparr>modalities := ms\<rparr>)"
    by (simp add: envelope_to_dict_def)
  moreover have "wf_envelope (e\<lparr>modalities := ms\<rparr>)" using assms by (simp add: wf_envelope_def)
  ultimately show ?thesis
    using assms envelope_from_dict_same [of "e\<lparr>modalities := ms\<rparr>"] by (simp add: with_modalities_def)
qed

lemma json_ok_envelope:
  "json_ok (VDict (envelope_to_dict e)) \<longleftrightarrow>
     plain_float (created_at e) \<and> plain_float (updated_at e) \<and> json_ok (VDict (scope e))
     \<and> list_all (\<lambda>m. json_ok (VDict (modality_to_dict m))) (modalities e)
     \<and> list_all (\<lambda>r. json_ok (VDict r)) (relations e)
     \<and> plain_float (importance e) \<and> plain_float (confidence e)
     \<and> json_ok (VDict (provenance e)) \<and> json_ok (VDict (metadata e))"
  by (auto simp: envelope_to_dict_def str_list_def list_all_iff simp del: modality_to_dict_def)

lemma stored_envelope_ok:
  assumes "storable_envelope th e"
  shows "wf_envelope (stored_envelope th e)" "list_all wf_modality (modalities (stored_envelope th e))"
    "json_ok (VDict (envelope_to_dict (stored_envelope th e)))"
proof -
  show "wf_envelope (stored_envelope th e)"
    using assms by (simp add: storable_envelope_def stored_envelope_def wf_envelope_def)
  show "list_all wf_modality (modalities (stored_envelope th e))"
    using assms stored_form_ok by (fastforce simp: storable_envelope_def stored_envelope_def list_all_iff)
  have "list_all (\<lambda>m. json_ok (VDict (modality_to_dict m))) (map (stored_form th) (modalities e))"
    using assms stored_form_ok(2) unfolding storable_envelope_def list_all_iff by auto
  then show "json_ok (VDict (envelope_to_dict (stored_envelope th e)))"
    using assms unfolding storable_envelope_def json_ok_envelope stored_envelope_def by simp
qed

definition collision_free :: "(string \<times> string) list \<Rightarrow> envelope \<Rightarrow> bool" where
  "collision_free blobs e = inj_on sha256_hexdigest (snd ` set blobs \<union> payload ` set (modalities e))"

lemma storable_wf: "storable_envelope th e \<Longrightarrow> list_all wf_modality (modalities e) \<and> list_all honest_modality (modalities e)"
  by (simp add: storable_envelope_def storable_def list_all_iff)

lemma externalize_large_ok:
  assumes "storable_envelope (blob_threshold s) e" "honest_blobs (st_blobs s)" "collision_free (st_blobs s) e"
  shows "\<exists>b. externalize_large_payloads now e s = (s\<lparr>st_blobs := b\<rparr>, Inr (stored_envelope (blob_threshold s) e))
    \<and> honest_blobs b \<and> list_all (has_blob (blob_threshold s) b) (modalities e)"
proof -
  obtain b where b: "act_each (externalize_modality (blob_threshold s)) (modalities e) (st_blobs s)
      = (b, Inr (map (stored_form (blob_threshold s)) (modalities e)))"
    "honest_blobs b" "list_all (has_blob (blob_threshold s) b) (modalities e)"
    using externalize_each_honest [of "modalities e" "st_blobs s" "blob_threshold s"]
      storable_wf [OF assms(1)] assms(2,3) by (auto simp: collision_free_def)
  have "with_modalities now e (map (stored_form (blob_threshold s)) (modalities e))
      = Inr (stored_envelope (blob_threshold s) e)"
    using with_modalities_wf [of e] stored_envelope_ok(2) [OF assms(1)] assms(1)
    by (simp add: storable_envelope_def stored_envelope_def)
  then have "externalize_large_payloads now e s = (s\<lparr>st_blobs := b\<rparr>, Inr (stored_envelope (blob_threshold s) e))"
    using b by (simp add: externalize_large_payloads_def)
  then show ?thesis using b by blast
qed

lemma parse_dumped_envelope:
  assumes "wf_envelope e" "list_all wf_modality (modalities e)" "created_at e \<noteq> 0" "json_ok (VDict (envelope_to_dict e))"
  shows "parse_envelope now (dumps (VDict (envelope_to_dict e))) = Inr (canon_envelope e)"
  using loads_dumps [OF assms(4)] envelope_from_dict_to_dict [OF assms(1-3)]
  by (simp add: parse_envelope_def canon_VDict read_dict_item_def del: canon.simps(2))

lemma memory_row_of_ok:
  assumes "json_ok (VDict (envelope_to_dict e))"
  shows "\<exists>r. memory_row_of e = Inr r \<and> row_id r = env_id e \<and> row_importance r = importance e
    \<and> row_created_at r = created_at e \<and> row_envelope_json r = dumps (VDict (envelope_to_dict e))"
proof -
  have j: "jsonable (VDict (envelope_to_dict e))" by (rule json_ok_jsonable [OF assms])
  have sc: "jsonable (VDict (scope e))" using assms unfolding json_ok_envelope by (blast intro: json_ok_jsonable)
  have st: "jsonable (str_list xs)" for xs by (simp add: str_list_def list_all_iff)
  show ?thesis using j sc by (simp add: memory_row_of_def stable_json_def st del: dumps.simps jsonable.simps)
qed

lemma address_for_ok: "json_ok (VDict (envelope_to_dict e)) \<Longrightarrow> \<exists>a. address_for ix e = Inr a"
proof -
  assume "json_ok (VDict (envelope_to_dict e))"
  then have "jsonable (VDict (scope e))" unfolding json_ok_envelope by (blast intro: json_ok_jsonable)
  then have "jsonable (address_material e)"
    by (simp add: address_material_def str_list_def list_all_iff)
  then show ?thesis by (simp add: address_for_def stable_json_def Let_def)
qed

text \<open>The text a memory is stored as, and what it reads back as once its blobs are in place.\<close>

definition stored_text :: "int \<Rightarrow> envelope \<Rightarrow> string" where
  "stored_text th e = dumps (VDict (envelope_to_dict (stored_envelope th e)))"

lemma parse_stored:
  "storable_envelope th e \<Longrightarrow> parse_envelope now (stored_text th e) = Inr (canon_envelope (stored_envelope th e))"
  unfolding stored_text_def using stored_envelope_ok [of th e]
  by (intro parse_dumped_envelope) (simp_all add: stored_envelope_def storable_envelope_def)

text \<open>A storable envelope is stored: one row, one index entry, one address and one log line.\<close>

lemma remember_ok:
  assumes e: "storable_envelope (blob_threshold s) e" "honest_blobs (st_blobs s)" "collision_free (st_blobs s) e"
  shows "\<exists>b a r. remember now lg e s =
       (s\<lparr>st_blobs := b, st_memories := tbl_put row_id r (st_memories s),
          st_fts := filter (\<lambda>p. fst p \<noteq> env_id e) (st_fts s) @ [(env_id e, text_content e)],
          st_mobius := tbl_put fst (env_id e, a) (st_mobius s),
          st_log := (if lg then st_log s @ [row_envelope_json r] else st_log s)\<rparr>, Inr (env_id e))
    \<and> address_for (st_index s) e = Inr a
    \<and> honest_blobs b \<and> list_all (has_blob (blob_threshold s) b) (modalities e)
    \<and> row_id r = env_id e \<and> row_importance r = importance e \<and> row_created_at r = created_at e
    \<and> row_envelope_json r = stored_text (blob_threshold s) e"
proof -
  let ?f = "stored_envelope (blob_threshold s) e"
  have w: "wf_envelope e" "created_at e \<noteq> 0" "list_all wf_modality (modalities e)"
    using e(1) storable_wf [OF e(1)] by (simp_all add: storable_envelope_def)
  have ok: "envelope_from_dict now (envelope_to_dict e) = Inr e"
    by (rule envelope_from_dict_same [OF w(1,3,2)])
  obtain b where b: "externalize_large_payloads now e s = (s\<lparr>st_blobs := b\<rparr>, Inr ?f)"
    "honest_blobs b" "list_all (has_blob (blob_threshold s) b) (modalities e)"
    using externalize_large_ok [OF e] by blast
  obtain a where a: "address_for (st_index s) e = Inr a"
    using address_for_ok e(1) unfolding storable_envelope_def by blast
  obtain r where r: "memory_row_of ?f = Inr r" "row_id r = env_id ?f" "row_importance r = importance ?f"
    "row_created_at r = created_at ?f" "row_envelope_json r = dumps (VDict (envelope_to_dict ?f))"
    using memory_row_of_ok [OF stored_envelope_ok(3) [OF e(1)]] by blast
  have fe: "env_id ?f = env_id e" "importance ?f = importance e" "created_at ?f = created_at e"
    by (simp_all add: stored_envelope_def)
  have "remember now lg e s =
       (s\<lparr>st_blobs := b, st_memories := tbl_put row_id r (st_memories s),
          st_fts := filter (\<lambda>p. fst p \<noteq> env_id e) (st_fts s) @ [(env_id e, text_content e)],
          st_mobius := tbl_put fst (env_id e, a) (st_mobius s),
          st_log := (if lg then st_log s @ [row_envelope_json r] else st_log s)\<rparr>, Inr (env_id e))"
    by (simp add: remember_def ok b(1) a r(1) fe)
  then show ?thesis using a b(2,3) r(2-5) unfolding fe stored_text_def by blast
qed

lemma resolve_stored:
  assumes e: "storable_envelope th e" and b: "list_all (has_blob th (st_blobs s)) (modalities e)"
  shows "resolve_blobs now s (canon_envelope (stored_envelope th e)) = Inr (canon_envelope e)"
proof -
  let ?f = "stored_envelope th e"
  have each: "res_each (resolve_modality s) (map (\<lambda>m. canon_modality (stored_form th m)) ms)
      = Inr (map canon_modality ms)"
    if "list_all (storable th) ms" "list_all (has_blob th (st_blobs s)) ms" for ms
    using that by (induction ms) (simp_all add: resolve_stored_form)
  have m: "modalities (canon_envelope ?f) = map (\<lambda>m. canon_modality (stored_form th m)) (modalities e)"
    by (simp add: canon_envelope_def stored_envelope_def)
  have "with_modalities now (canon_envelope ?f) (map canon_modality (modalities e))
      = Inr ((canon_envelope ?f)\<lparr>modalities := map canon_modality (modalities e)\<rparr>)"
    using stored_envelope_ok(1) [OF e] storable_wf [OF e] e
    by (intro with_modalities_wf)
      (auto simp: list_all_iff storable_envelope_def canon_envelope_def stored_envelope_def wf_envelope_def)
  moreover have "(canon_envelope ?f)\<lparr>modalities := map canon_modality (modalities e)\<rparr> = canon_envelope e"
    by (simp add: canon_envelope_def stored_envelope_def)
  ultimately show ?thesis
    using each [of "modalities e"] e b by (simp add: resolve_blobs_def m storable_envelope_def)
qed

lemma inspect_remembered:
  assumes "storable_envelope (blob_threshold s) e" "honest_blobs (st_blobs s)" "collision_free (st_blobs s) e"
  shows "\<exists>s'. remember now lg e s = (s', Inr (env_id e))
    \<and> inspect now' True (env_id e) s' = Inr (canon_envelope e)
    \<and> honest_blobs (st_blobs s')"
proof -
  let ?th = "blob_threshold s"
  obtain b a r where r: "remember now lg e s =
       (s\<lparr>st_blobs := b, st_memories := tbl_put row_id r (st_memories s),
          st_fts := filter (\<lambda>p. fst p \<noteq> env_id e) (st_fts s) @ [(env_id e, text_content e)],
          st_mobius := tbl_put fst (env_id e, a) (st_mobius s),
          st_log := (if lg then st_log s @ [row_envelope_json r] else st_log s)\<rparr>, Inr (env_id e))"
      "honest_blobs b" "list_all (has_blob ?th b) (modalities e)" "row_id r = env_id e"
      "row_envelope_json r = stored_text ?th e"
    using remember_ok [OF assms] by blast
  define s' where "s' = fst (remember now lg e s)"
  have s': "st_memories s' = tbl_put row_id r (st_memories s)" "st_blobs s' = b"
    by (simp_all add: s'_def r(1))
  have "tbl_find row_id (env_id e) (st_memories s') = Some r"
    using memories.lookup_own [of r] by (simp add: s'(1) r(4))
  then have "inspect now' True (env_id e) s' = Inr (canon_envelope e)"
    using parse_stored [OF assms(1)] resolve_stored [OF assms(1)] r(3)
    by (simp add: inspect_def r(5) s'(2))
  then show ?thesis using r(1,2) s'(2) by (metis fst_conv s'_def)
qed

text \<open>A creation time of zero is falsy: the copy that is stored carries the time of the call.\<close>

lemma remember_restamped:
  assumes "wf_envelope e" "list_all wf_modality (modalities e)" "created_at (restamped now e) \<noteq> 0"
  shows "remember now lg e s = remember now lg (restamped now e) s"
proof -
  have "envelope_from_dict now (envelope_to_dict f) = envelope_init (restamped now f) (Some (updated_at e))"
    if "f = e \<or> f = restamped now e" for f
    using that assms by (auto simp: envelope_from_dict_again_stamped wf_envelope_def)
  then show ?thesis using assms(3) by (simp add: remember_def)
qed

text \<open>
  C1: take an envelope as the constructors leave it, whose parts are values that JSON text can hold and whose payloads
  carry the digest and size the constructor computes; no payload refers to a blob already, and one above the blob
  threshold has no URI and no \<open>blob_format\<close> of its own, for the store replaces them. The blobs of the store
  are filed under their digests, and no two of them and of the payloads have the same one without being the same. Then
  \<open>remember\<close> returns, and \<open>inspect\<close> gives the envelope back whole: the payloads that went to
  blobs are in place again, only the key order of its dicts may differ, and a creation time of zero has become the time
  of the call (which is not zero itself).
\<close>

theorem remember_inspect:
  assumes "storable_envelope (blob_threshold s) (restamped now e)" "honest_blobs (st_blobs s)" "collision_free (st_blobs s) e"
  shows "\<exists>s'. remember now lg e s = (s', Inr (env_id e))
    \<and> inspect now' True (env_id e) s' = Inr (canon_envelope (restamped now e))
    \<and> honest_blobs (st_blobs s')"
proof -
  have "wf_envelope e" "list_all wf_modality (modalities e)" "created_at (restamped now e) \<noteq> 0"
    using assms(1) by (auto simp: storable_envelope_def storable_def list_all_iff)
  then have r: "remember now lg e s = remember now lg (restamped now e) s" by (rule remember_restamped)
  have c: "collision_free (st_blobs s) (restamped now e)" using assms(3) by (simp add: collision_free_def)
  show ?thesis using inspect_remembered [OF assms(1,2) c, of now lg now'] unfolding r by simp
qed

section \<open>Writing leaves the other memories alone\<close>

lemma externalize_large_mono:
  "externalize_large_payloads now e s = (s', r) \<Longrightarrow> map_of (st_blobs s) \<subseteq>\<^sub>m map_of (st_blobs s')"
  using externalize_each_mono [of "st_blobs s" "blob_threshold s" "modalities e"]
  by (auto simp: externalize_large_payloads_def split: prod.splits)

lemma remember_blobs_mono: "map_of (st_blobs s) \<subseteq>\<^sub>m map_of (st_blobs (fst (remember now lg e s)))"
proof (cases "envelope_from_dict now (envelope_to_dict e)")
  case (Inl err)
  then show ?thesis by (simp add: remember_def)
next
  case (Inr f)
  obtain s1 x where x: "externalize_large_payloads now f s = (s1, x)" by fastforce
  have "st_blobs (fst (remember now lg e s)) = st_blobs s1"
    using Inr x by (auto simp: remember_def split: sum.split)
  then show ?thesis using externalize_large_mono [OF x] by simp
qed

lemma read_blob_mono:
  assumes "map_of (st_blobs s) \<subseteq>\<^sub>m map_of (st_blobs s')" "read_blob s sha = Inr d"
  shows "read_blob s' sha = Inr d"
proof -
  obtain p where p: "blob_path sha = Inr p" and d: "map_of (st_blobs s) (snd p) = Some d"
    using assms(2) by (auto simp: read_blob_def res_bind_eq_Inr split: option.splits)
  have "map_of (st_blobs s') (snd p) = Some d"
    using assms(1) d by (metis domI map_le_def)
  then show ?thesis by (simp add: read_blob_def p)
qed

lemma resolve_modality_mono:
  assumes "map_of (st_blobs s) \<subseteq>\<^sub>m map_of (st_blobs s')" "resolve_modality s m = Inr m'"
  shows "resolve_modality s' m = Inr m'"
proof (cases "blob_name m")
  case None
  then show ?thesis using assms(2) by (simp add: resolve_modality_def)
next
  case (Some sha)
  then obtain d where d: "read_blob s sha = Inr d"
    using assms(2) by (cases "read_blob s sha") (simp_all add: resolve_modality_def)
  then have "resolve_modality s' m = resolve_modality s m"
    using Some read_blob_mono [OF assms(1) d] by (simp add: resolve_modality_def)
  then show ?thesis using assms(2) by simp
qed

lemma res_each_mono:
  "(\<And>x y. f x = Inr y \<Longrightarrow> g x = Inr y) \<Longrightarrow> res_each f xs = Inr ys \<Longrightarrow> res_each g xs = Inr ys"
  by (induction xs arbitrary: ys) (fastforce simp: res_bind_eq_Inr)+

lemma resolve_blobs_mono:
  assumes "map_of (st_blobs s) \<subseteq>\<^sub>m map_of (st_blobs s')" "resolve_blobs now s e = Inr f"
  shows "resolve_blobs now s' e = Inr f"
proof -
  obtain ms where "res_each (resolve_modality s) (modalities e) = Inr ms" and w: "with_modalities now e ms = Inr f"
    using assms(2) by (auto simp: resolve_blobs_def res_bind_eq_Inr)
  then have "res_each (resolve_modality s') (modalities e) = Inr ms"
    using res_each_mono resolve_modality_mono [OF assms(1)] by blast
  then show ?thesis using w by (simp add: resolve_blobs_def)
qed

lemma inspect_mono:
  assumes "tbl_find row_id i (st_memories s') = tbl_find row_id i (st_memories s)"
    and "map_of (st_blobs s) \<subseteq>\<^sub>m map_of (st_blobs s')" and "inspect now res i s = Inr f"
  shows "inspect now res i s' = Inr f"
  using assms resolve_blobs_mono [OF assms(2)]
  by (auto simp: inspect_def res_bind_eq_Inr split: option.splits if_splits)

text \<open>
  C3: whatever is remembered, and whether or not it raises, a memory with another id that could be
  inspected still is, with the same result.
\<close>

theorem remember_frame:
  assumes "remember now lg e s = (s', r)" "r \<noteq> Inr i" "inspect now' res i s = Inr f"
  shows "inspect now' res i s' = Inr f"
proof (rule inspect_mono [OF _ _ assms(3)])
  show "map_of (st_blobs s) \<subseteq>\<^sub>m map_of (st_blobs s')"
    using remember_blobs_mono [of s now lg e] assms(1) by simp
  show "tbl_find row_id i (st_memories s') = tbl_find row_id i (st_memories s)"
  proof (cases rule: remember_cases [of now lg e s])
    case (failed b err)
    then show ?thesis using assms(1) by auto
  next
    case (stored b f g a r')
    then have "st_memories s' = tbl_put row_id r' (st_memories s)" "r = Inr (env_id g)"
      using assms(1) by auto
    then show ?thesis
      using memories.lookup_other [of i r'] memory_row_of_id [OF stored(4)] assms(2) by auto
  qed
qed

section \<open>Listing\<close>

text \<open>A row that \<open>remember\<close> wrote for an envelope whose scores, dates and dicts JSON keeps.\<close>

definition faithful_row :: "memory_row \<Rightarrow> envelope \<Rightarrow> bool" where
  "faithful_row r e =
     ((\<forall>now. parse_envelope now (row_envelope_json r) = Inr e) \<and> env_id e = row_id r
      \<and> importance e = row_importance r \<and> created_at e = row_created_at r)"

definition faithful_rows :: "store \<Rightarrow> bool" where
  "faithful_rows s = (\<forall>r\<in>set (st_memories s). \<exists>e. faithful_row r e)"

lemma faithful_rows_open [simp]: "faithful_rows (store_open th ix ls bs)"
  and faithful_rows_clear [simp]: "faithful_rows (clear_indexes s)"
  by (simp_all add: faithful_rows_def store_open_def clear_indexes_def)

lemma faithful_rows_remember:
  assumes "faithful_rows s" "storable_envelope (blob_threshold s) e"
    "honest_blobs (st_blobs s)" "collision_free (st_blobs s) e"
  shows "faithful_rows (fst (remember now lg e s))"
proof -
  let ?f = "stored_envelope (blob_threshold s) e"
  obtain b a r where r: "remember now lg e s =
       (s\<lparr>st_blobs := b, st_memories := tbl_put row_id r (st_memories s),
          st_fts := filter (\<lambda>p. fst p \<noteq> env_id e) (st_fts s) @ [(env_id e, text_content e)],
          st_mobius := tbl_put fst (env_id e, a) (st_mobius s),
          st_log := (if lg then st_log s @ [row_envelope_json r] else st_log s)\<rparr>, Inr (env_id e))"
      "row_id r = env_id e" "row_importance r = importance e" "row_created_at r = created_at e"
      "row_envelope_json r = stored_text (blob_threshold s) e"
    using remember_ok [OF assms(2-4)] by blast
  have "parse_envelope now' (row_envelope_json r) = Inr (canon_envelope ?f)" for now'
    unfolding r(5) by (rule parse_stored [OF assms(2)])
  then have "faithful_row r (canon_envelope ?f)"
    using r(2-4) by (simp add: faithful_row_def canon_envelope_def stored_envelope_def)
  moreover have "set (st_memories (fst (remember now lg e s))) \<subseteq> insert r (set (st_memories s))"
    using set_tbl_put [of row_id r "st_memories s"] by (simp add: r(1))
  ultimately show ?thesis using assms(1) unfolding faithful_rows_def by blast
qed

lemma res_each_choice:
  assumes "\<forall>r\<in>set rs. \<exists>e. f r = Inr e \<and> P r e"
  shows "\<exists>es. res_each f rs = Inr es \<and> list_all2 P rs es"
  using assms by (induction rs) auto

lemma set_list_rows: "set (list_rows m limit s) \<subseteq> {r \<in> set (st_memories s). \<forall>x. m = Some x \<longrightarrow> x \<le> row_importance r}"
  using set_sql_limit by (fastforce simp: list_rows_def Let_def split: option.splits)

lemma sorted_list_rows: "sorted_wrt (\<lambda>r q. rank_key q \<le> rank_key r) (list_rows m limit s)"
proof -
  have t: "sorted_wrt P (sql_limit n xs)" if "sorted_wrt P xs" for P n and xs :: "memory_row list"
    using that by (auto simp: sql_limit_def sorted_wrt_take)
  show ?thesis
    by (auto simp: list_rows_def Let_def sort_desc_sorted intro: t split: option.split)
qed

lemma sorted_wrt_list_all2:
  "sorted_wrt R xs \<Longrightarrow> list_all2 P xs ys \<Longrightarrow> (\<And>x y u v. R x y \<Longrightarrow> P x u \<Longrightarrow> P y v \<Longrightarrow> S u v) \<Longrightarrow> sorted_wrt S ys"
proof (induction xs arbitrary: ys)
  case Nil
  then show ?case by simp
next
  case (Cons x xs)
  then obtain u us where ys: "ys = u # us" "P x u" "list_all2 P xs us" by (auto simp: list_all2_Cons1)
  have "\<forall>v\<in>set us. S u v"
  proof
    fix v assume "v \<in> set us"
    then obtain y where "y \<in> set xs" "P y v" using ys(3) by (metis list_all2_conv_all_nth in_set_conv_nth)
    then show "S u v" using Cons.prems ys(2) by auto
  qed
  then show ?case using Cons ys by auto
qed

text \<open>
  A listing is ordered by importance and then by date, both descending, holds only memories that
  match the scope, the tags and the minimum importance, and is no longer than a non-negative limit;
  without a limit it holds all of them.
\<close>

theorem list_memories_spec:
  assumes "faithful_rows s"
  shows "\<exists>es. list_memories now sc tgs m limit s = Inr es
    \<and> sorted_wrt (\<lambda>e f. (importance f, created_at f) \<le> (importance e, created_at e)) es
    \<and> list_all (matches_filter sc tgs) es
    \<and> list_all (\<lambda>e. case m of None \<Rightarrow> True | Some x \<Rightarrow> x \<le> importance e) es
    \<and> (case limit of Some n \<Rightarrow> n < 0 \<or> int (length es) \<le> n
       | None \<Rightarrow> (\<forall>r\<in>set (st_memories s). \<forall>e. faithful_row r e \<longrightarrow> matches_filter sc tgs e \<longrightarrow>
           (\<forall>x. m = Some x \<longrightarrow> x \<le> importance e) \<longrightarrow> e \<in> set es))"
proof -
  let ?rows = "list_rows m limit s"
  have "\<forall>r\<in>set ?rows. \<exists>e. parse_envelope now (row_envelope_json r) = Inr e \<and> faithful_row r e"
    using assms set_list_rows unfolding faithful_rows_def faithful_row_def by fastforce
  then obtain es where es: "res_each (\<lambda>r. parse_envelope now (row_envelope_json r)) ?rows = Inr es"
    and f: "list_all2 faithful_row ?rows es"
    using res_each_choice by (metis (no_types, lifting))
  have srt: "sorted_wrt (\<lambda>e f. (importance f, created_at f) \<le> (importance e, created_at e)) es"
    by (rule sorted_wrt_list_all2 [OF sorted_list_rows f]) (simp add: faithful_row_def rank_key_def)
  have imp: "\<forall>x. m = Some x \<longrightarrow> x \<le> importance e" if e: "e \<in> set es" for e
  proof -
    obtain r where "r \<in> set ?rows" "faithful_row r e" using f e by (metis list_all2_conv_all_nth in_set_conv_nth)
    then show ?thesis using set_list_rows [of m limit s] by (auto simp: faithful_row_def)
  qed
  define out where "out = (case limit of None \<Rightarrow> filter_memories sc tgs es
     | Some n \<Rightarrow> py_take n (filter_memories sc tgs es))"
  have sub: "set out \<subseteq> {e \<in> set es. matches_filter sc tgs e}"
    using set_py_take by (fastforce simp: out_def filter_memories_def split: option.splits)
  have t: "sorted_wrt P (py_take n xs)" if "sorted_wrt P xs" for P n and xs :: "envelope list"
    using that by (auto simp: py_take_def sorted_wrt_take)
  have "sorted_wrt (\<lambda>e f. (importance f, created_at f) \<le> (importance e, created_at e)) out"
    using srt by (auto simp: out_def filter_memories_def sorted_wrt_filter intro!: t split: option.split)
  moreover have "list_all (matches_filter sc tgs) out" using sub by (auto simp: list_all_iff)
  moreover have "list_all (\<lambda>e. case m of None \<Rightarrow> True | Some x \<Rightarrow> x \<le> importance e) out"
    using sub imp by (auto simp: list_all_iff split: option.split)
  moreover have "case limit of Some n \<Rightarrow> n < 0 \<or> int (length out) \<le> n
       | None \<Rightarrow> (\<forall>r\<in>set (st_memories s). \<forall>e. faithful_row r e \<longrightarrow> matches_filter sc tgs e \<longrightarrow>
           (\<forall>x. m = Some x \<longrightarrow> x \<le> importance e) \<longrightarrow> e \<in> set out)"
  proof (cases limit)
    case None
    have "e \<in> set out" if r: "r \<in> set (st_memories s)" "faithful_row r e" "matches_filter sc tgs e"
      "\<forall>x. m = Some x \<longrightarrow> x \<le> importance e" for r e
    proof -
      have "r \<in> set ?rows" using r None by (auto simp: list_rows_def Let_def faithful_row_def split: option.split)
      then obtain e' where "e' \<in> set es" "faithful_row r e'" using f by (metis list_all2_conv_all_nth in_set_conv_nth)
      moreover have "e' = e" using \<open>faithful_row r e'\<close> r(2) by (simp add: faithful_row_def)
      ultimately show ?thesis using r(3) None by (simp add: out_def filter_memories_def)
    qed
    then show ?thesis using None by simp
  next
    case (Some n)
    then show ?thesis
      using length_py_take [of n "filter_memories sc tgs es"] by (simp add: out_def) linarith
  qed
  moreover have "list_memories now sc tgs m limit s = Inr out"
    by (simp add: list_memories_def es out_def)
  ultimately show ?thesis by blast
qed

section \<open>Crafted references\<close>

text \<open>
  C39: a \<open>blob://\<close> reference is refused, and no file is read for it, unless its name is 64 lower-case hex
  digits, which one newline may follow (the pattern's \<open>$\<close> lets it through). So no path separator and no dot
  reaches the file system.
\<close>

theorem crafted_blob_uri_rejected:
  assumes "blob_name m = Some sha"
    and "\<nexists>h. length h = 64 \<and> list_all is_hex_lower h \<and> (sha = h \<or> sha = h @ [CHR 0x0A])"
  shows "resolve_modality s m = Inl (ValueError ''invalid blob reference'')"
proof -
  have "\<not> is_sha256_hex sha"
  proof
    assume h: "is_sha256_hex sha"
    have "length sha = 65 \<Longrightarrow> drop 64 sha = [sha ! 64]" by (simp add: Cons_nth_drop_Suc [symmetric])
    then have "drop 64 sha = [] \<or> drop 64 sha = [CHR 0x0A]" using h by (auto simp: is_sha256_hex_def)
    then have "sha = take 64 sha \<or> sha = take 64 sha @ [CHR 0x0A]"
      using append_take_drop_id [of 64 sha] by (metis append_Nil2)
    moreover have "length (take 64 sha) = 64" "list_all is_hex_lower (take 64 sha)"
      using h by (auto simp: is_sha256_hex_def)
    ultimately show False using assms(2) by blast
  qed
  then show ?thesis using assms(1) by (simp add: resolve_modality_def read_blob_def blob_path_def)
qed

text \<open>The pattern's \<open>$\<close> lets a name with one trailing newline through.\<close>

lemma sha256_hex_newline: "is_sha256_hex (sha256_hexdigest d @ [CHR 0x0A])"
  using sha256_hexdigest_hex [of d] by (simp add: is_sha256_hex_def list_all_iff nth_append)

text \<open>
  A digest the caller claims is used as the blob's name unchecked: a second, different content under
  the same claimed digest is not written, and the first one is read in its place.
\<close>

lemma claimed_digest_first_wins:
  assumes "is_sha256_hex sha" "sha \<noteq> []" "map_of blobs sha = Some first"
    and "content m = VStr text" "mod_sha256 m = Some sha" "wf_modality m" "th < int (length (utf8_encode text))"
  shows "\<exists>m'. externalize_modality th m blobs = (blobs, Inr m') \<and> uri m' = Some (blob_uri sha)"
proof -
  have sha: "blob_sha m (utf8_encode text) = Inr sha"
    using assms by (simp add: blob_sha_def)
  let ?x = "\<lparr>modality = modality m, content = VNone, uri = Some (blob_uri sha), mime_type = mime_type m,
      mod_sha256 = Some sha, size_bytes = Some (int (length (utf8_encode text))),
      mod_metadata = d_set ''blob_format'' (VStr ''text'') (mod_metadata m)\<rparr>"
  have "modality_init ?x = Inr ?x"
    using assms(6) by (intro modality_init_fixpoint) (simp add: wf_modality_def)
  then have "externalize_modality th m blobs = (blobs, Inr ?x)"
    using assms by (simp add: externalize_modality_def content_bytes_def sha write_blob_def)
  then show ?thesis by auto
qed

text \<open>\<open>LIMIT\<close> is applied before the scope and tag filter: matches behind it are not found.\<close>

lemma list_memories_limit_before_filter:
  assumes "res_each (\<lambda>r. parse_envelope now (row_envelope_json r)) (take (nat (n * 4)) (list_rows m None s)) = Inr es"
    and "0 \<le> n" "\<forall>e\<in>set es. \<not> matches_filter sc tgs e"
  shows "list_memories now sc tgs m (Some n) s = Inr []"
proof -
  have "list_rows m (Some n) s = take (nat (n * 4)) (list_rows m None s)"
    using assms(2) by (simp add: list_rows_def Let_def sql_limit_def)
  moreover have "filter_memories sc tgs es = []" using assms(3) by (auto simp: filter_memories_def filter_empty_conv)
  ultimately show ?thesis using assms(1) by (simp add: list_memories_def py_take_def)
qed

section \<open>Neighbours\<close>

text \<open>
  The memories found around an address match the filter and were filed, under their id, at an
  address within \<open>depth\<close> steps of it.
\<close>

theorem by_mobius_neighbors_sound:
  assumes "faithful_rows s" "\<And>ps. set (scan ps) = set ps" "by_mobius_neighbors scan now a depth sc tgs limit s = Inr es" "e \<in> set es"
  shows "matches_filter sc tgs e \<and> (\<exists>b near. (env_id e, b) \<in> set (st_mobius s)
    \<and> neighbors (st_index s) a depth = Inr near \<and> b \<in> set near)"
proof -
  obtain near where near: "neighbors (st_index s) a depth = Inr near"
    using assms(3) by (auto simp: by_mobius_neighbors_def res_bind_eq_Inr)
  define ids where "ids = map fst (scan (filter (\<lambda>p. snd p \<in> set near) (st_mobius s)))"
  have "near \<noteq> []" using assms(3,4) near by (auto simp: by_mobius_neighbors_def)
  then obtain fs where fs: "res_each (\<lambda>r. parse_envelope now (row_envelope_json r)) (joined_rows s ids) = Inr fs"
    and es: "es = py_take limit (filter_memories sc tgs fs)"
    using assms(3) near by (auto simp: by_mobius_neighbors_def res_bind_eq_Inr ids_def)
  have e: "e \<in> set fs" "matches_filter sc tgs e"
    using assms(4) set_py_take [of limit "filter_memories sc tgs fs"] by (auto simp: es filter_memories_def)
  obtain r where r: "r \<in> set (joined_rows s ids)" "parse_envelope now (row_envelope_json r) = Inr e"
    using res_each_eq_Inr [OF fs] e(1) by auto
  then obtain i where i: "i \<in> set ids" "tbl_find row_id i (st_memories s) = Some r"
    by (auto simp: joined_rows_def split: option.splits)
  have "r \<in> set (st_memories s)" "row_id r = i" using tbl_find_SomeD [OF i(2)] by auto
  then have "env_id e = i"
    using assms(1) r(2) unfolding faithful_rows_def faithful_row_def by fastforce
  then show ?thesis using e(2) near i(1) assms(2) by (auto simp: ids_def)
qed

section \<open>A concrete memory\<close>

text \<open>One text modality whose four bytes exceed a threshold of two, so it goes to a blob.\<close>

definition demo_modality :: modality_ref where
  "demo_modality = \<lparr>modality = ''text'', content = VStr ''note'', uri = None, mime_type = Some ''text/plain'',
     mod_sha256 = Some (sha256_hexdigest ''note''), size_bytes = Some 4, mod_metadata = []\<rparr>"

definition demo_memory :: "string \<Rightarrow> envelope" where
  "demo_memory i = (blank_envelope [(''box'', VStr ''main'')] 1)\<lparr>modalities := [demo_modality], env_id := i,
     content_hash := ''h'', tags := [''t'']\<rparr>"

definition demo_store :: store where
  "demo_store = store_open 2 \<lparr>u_size = 32, v_size = 16, w_size = 8\<rparr> [] []"

lemma demo_bytes: "utf8_encode ''note'' = ''note''"
  by code_simp

lemma demo_storable: "i \<noteq> [] \<Longrightarrow> storable_envelope 2 (demo_memory i)"
  by (simp add: storable_envelope_def demo_memory_def blank_envelope_def wf_envelope_def storable_def
      wf_modality_def honest_modality_def payload_def demo_modality_def content_bytes_def demo_bytes
      blob_name_def envelope_to_dict_def modality_to_dict_def str_list_def opt_str_def opt_int_def plain_float_def trimmed_def py_lower_def lower_char_def
      is_space_def)

lemma demo_store_blobs [simp]: "blob_threshold demo_store = 2" "st_blobs demo_store = []" "st_memories demo_store = []"
  by (simp_all add: demo_store_def store_open_def)

lemma demo_collision_free: "honest_blobs [] \<and> collision_free [] (demo_memory i)"
  by (simp add: honest_blobs_def collision_free_def demo_memory_def)

lemma remember_inspect_witness:
  "\<exists>s'. remember 7 True ((demo_memory ''m1'')\<lparr>created_at := 0\<rparr>) demo_store = (s', Inr ''m1'')
    \<and> inspect 9 True ''m1'' s' = Inr (canon_envelope ((demo_memory ''m1'')\<lparr>created_at := 7\<rparr>))
    \<and> honest_blobs (st_blobs s')"
proof -
  let ?e = "(demo_memory ''m1'')\<lparr>created_at := 0\<rparr>"
  have "restamped 7 ?e = (demo_memory ''m1'')\<lparr>created_at := 7\<rparr>" by (simp add: restamped_def)
  moreover have "storable_envelope 2 ((demo_memory ''m1'')\<lparr>created_at := 7\<rparr>)"
  proof -
    have "plain_float 7" by (simp add: plain_float_def)
    then show ?thesis
      using demo_storable [of "''m1''"] unfolding storable_envelope_def json_ok_envelope wf_envelope_def by simp
  qed
  moreover have "env_id ?e = ''m1''" "collision_free [] ?e"
    using demo_collision_free [of "''m1''"] by (simp_all add: demo_memory_def collision_free_def)
  ultimately show ?thesis
    using remember_inspect [of demo_store 7 ?e True 9] demo_collision_free by simp
qed

lemma demo_remembered:
  obtains s where "remember 0 True (demo_memory ''m1'') demo_store = (s, Inr ''m1'')"
    "inspect 9 True ''m1'' s = Inr (canon_envelope (demo_memory ''m1''))" "faithful_rows s"
proof -
  have id: "env_id (demo_memory ''m1'') = ''m1''" by (simp add: demo_memory_def)
  have ok: "storable_envelope (blob_threshold demo_store) (demo_memory ''m1'')" "honest_blobs (st_blobs demo_store)"
    "collision_free (st_blobs demo_store) (demo_memory ''m1'')"
    using demo_storable demo_collision_free by simp_all
  have "faithful_rows demo_store" by (simp add: demo_store_def)
  then have "faithful_rows (fst (remember 0 True (demo_memory ''m1'') demo_store))"
    by (rule faithful_rows_remember [OF _ ok])
  moreover obtain s where "remember 0 True (demo_memory ''m1'') demo_store = (s, Inr ''m1'')"
    "inspect 9 True ''m1'' s = Inr (canon_envelope (demo_memory ''m1''))"
    using inspect_remembered [OF ok, of 0 True 9] id by auto
  ultimately show ?thesis using that by simp
qed

lemma remember_frame_witness:
  "\<exists>s s' r. remember 0 True (demo_memory ''m2'') s = (s', r)
    \<and> inspect 9 True ''m1'' s = Inr (canon_envelope (demo_memory ''m1''))
    \<and> inspect 9 True ''m1'' s' = Inr (canon_envelope (demo_memory ''m1''))"
proof -
  obtain s where s: "inspect 9 True ''m1'' s = Inr (canon_envelope (demo_memory ''m1''))"
    using demo_remembered by blast
  obtain s' r where r: "remember 0 True (demo_memory ''m2'') s = (s', r)" by fastforce
  have "r \<noteq> Inr ''m1''"
  proof (cases rule: remember_cases [of 0 True "demo_memory ''m2''" s])
    case (failed b err)
    then show ?thesis using r by auto
  next
    case (stored b f g a r')
    have "envelope_from_dict 0 (envelope_to_dict (demo_memory ''m2'')) = Inr (demo_memory ''m2'')"
      using demo_storable [of "''m2''"] storable_wf by (intro envelope_from_dict_same) (auto simp: storable_envelope_def)
    then have "f = demo_memory ''m2''" using stored(1) by simp
    then have "env_id f = ''m2''" by (simp add: demo_memory_def)
    moreover have "env_id g = env_id f" by (rule externalize_large_id [OF stored(2)]) (simp add: \<open>env_id f = ''m2''\<close>)
    ultimately show ?thesis using r stored(5) by auto
  qed
  then show ?thesis using remember_frame [OF r _ s] r s by blast
qed

lemma list_memories_spec_witness:
  "\<exists>es. list_memories 9 [] [''t''] None None demo_store = Inr es \<and> list_all (matches_filter [] [''t'']) es"
  using list_memories_spec [of demo_store 9 "[]" "[''t'']" None None] by (auto simp: demo_store_def)

lemma crafted_blob_uri_rejected_witness:
  "resolve_modality demo_store (demo_modality\<lparr>content := VNone, uri := Some ''blob://../../etc/passwd''\<rparr>)
    = Inl (ValueError ''invalid blob reference'')"
  by (rule crafted_blob_uri_rejected [of _ "''../../etc/passwd''"])
    (auto simp: blob_name_def py_startswith_def dest: arg_cong [where f = length])

definition demo_note :: envelope where
  "demo_note = (demo_memory ''m1'')\<lparr>modalities := []\<rparr>"

definition demo_row :: memory_row where
  "demo_row = \<lparr>row_id = ''m1'', row_created_at = 1, row_updated_at = 1, row_memory_type = ''episodic'',
     row_scope_json = [], row_tags_json = [], row_entities_json = [], row_importance = 1 / 2, row_confidence = 1,
     row_sensitivity = ''normal'', row_content_hash = ''h'',
     row_envelope_json = dumps (VDict (envelope_to_dict demo_note))\<rparr>"

definition demo_filed :: store where
  "demo_filed = demo_store\<lparr>st_memories := [demo_row], st_mobius := [(''m1'', MobiusAddress 0 0 0 ''episodic'')]\<rparr>"

lemma demo_row_faithful: "faithful_row demo_row (canon_envelope demo_note)"
proof -
  have "parse_envelope now (row_envelope_json demo_row) = Inr (canon_envelope demo_note)" for now
    unfolding demo_row_def memory_row.simps
    by (rule parse_dumped_envelope)
      (simp_all add: demo_note_def demo_memory_def blank_envelope_def wf_envelope_def envelope_to_dict_def
        str_list_def plain_float_def)
  then show ?thesis
    by (simp add: faithful_row_def demo_row_def demo_note_def demo_memory_def blank_envelope_def canon_envelope_def)
qed

lemma by_mobius_neighbors_sound_witness:
  "\<exists>es. by_mobius_neighbors rev 9 (MobiusAddress 0 0 0 ''episodic'') 0 [] [''t''] 5 demo_filed = Inr es
    \<and> canon_envelope demo_note \<in> set es \<and> matches_filter [] [''t''] (canon_envelope demo_note)"
proof -
  have near: "neighbors (st_index demo_filed) (MobiusAddress 0 0 0 ''episodic'') 0 = Inr [MobiusAddress 0 0 0 ''episodic'']"
    by (simp add: neighbors_def demo_filed_def demo_store_def store_open_def wrap_def reflect_id sorted_set_def)
  have f: "st_memories demo_filed = [demo_row]" "st_mobius demo_filed = [(''m1'', MobiusAddress 0 0 0 ''episodic'')]"
    "row_id demo_row = ''m1''" "parse_envelope 9 (row_envelope_json demo_row) = Inr (canon_envelope demo_note)"
    using demo_row_faithful by (simp_all add: demo_filed_def faithful_row_def) (simp add: demo_row_def)
  have tg: "tags (canon_envelope demo_note) = [''t'']"
    by (simp add: demo_note_def demo_memory_def canon_envelope_def)
  have "by_mobius_neighbors rev 9 (MobiusAddress 0 0 0 ''episodic'') 0 [] [''t''] 5 demo_filed = Inr [canon_envelope demo_note]"
    by (simp add: by_mobius_neighbors_def near f joined_rows_def tbl_find_def filter_memories_def
        matches_filter_def py_take_def tg)
  moreover have "faithful_rows demo_filed"
    using demo_row_faithful by (auto simp: faithful_rows_def demo_filed_def)
  ultimately show ?thesis using by_mobius_neighbors_sound [of demo_filed rev] by fastforce
qed

end
