(* ===== verification/Graph.thy ===== *)
theory Graph
  imports Schema Table
begin

text \<open>
  \<open>graph.py\<close>: the SQLite table of dated relations between normalised names, filed by graph name and
  memory id. The table is the list of its rows in the order of the autoincrement id. A \<open>SELECT\<close> with
  \<open>LIMIT\<close> but no \<open>ORDER BY\<close> leaves the choice of the rows to SQLite: that choice is the parameter
  \<open>pick\<close>, of which \<open>row_choice\<close> states what SQL promises.
\<close>

definition ALLOWED_GRAPH_NAMES :: "string list" where
  "ALLOWED_GRAPH_NAMES = [''semantic'', ''temporal'', ''multimodal'', ''procedural'', ''provenance'',
     ''topology'', ''facts'', ''conflict'', ''knowledge'', ''default'']"

record relation =
  rl_subject :: string
  rl_predicate :: string
  rl_object :: string
  rl_memory_id :: string
  rl_graph_name :: string
  rl_valid_from :: "real option"
  rl_valid_to :: "real option"
  rl_confidence :: real
  rl_source :: "string option"
  rl_created_at :: real

definition opt_real :: "real option \<Rightarrow> py_value" where
  "opt_real x = (case x of None \<Rightarrow> VNone | Some r \<Rightarrow> VFloat r)"

definition relation_to_dict :: "relation \<Rightarrow> py_dict" where
  "relation_to_dict r =
    [(''subject'', VStr (rl_subject r)), (''predicate'', VStr (rl_predicate r)), (''object'', VStr (rl_object r)),
     (''memory_id'', VStr (rl_memory_id r)), (''graph_name'', VStr (rl_graph_name r)),
     (''valid_from'', opt_real (rl_valid_from r)), (''valid_to'', opt_real (rl_valid_to r)),
     (''confidence'', VFloat (rl_confidence r)), (''source'', opt_str (rl_source r)),
     (''created_at'', VFloat (rl_created_at r))]"

text \<open>A row: the relation (\<open>_row_to_relation\<close> is \<open>gr_relation\<close>) and its three normalised columns.\<close>

record graph_row =
  gr_relation :: relation
  subject_norm :: string
  predicate_norm :: string
  object_norm :: string

type_synonym graph = "graph_row list"

definition graph_name_of :: "string option \<Rightarrow> real option \<Rightarrow> real option \<Rightarrow> string result" where
  "graph_name_of name valid_from valid_to =
     (case name of
        None \<Rightarrow> Inr (if valid_from \<noteq> None \<or> valid_to \<noteq> None then ''temporal'' else ''semantic'')
      | Some v \<Rightarrow>
          if py_strip v = [] then Inr (if valid_from \<noteq> None \<or> valid_to \<noteq> None then ''temporal'' else ''semantic'')
          else (let g = py_replace_char (CHR '' '') (CHR ''_'') (norm_key v) in
                if g \<in> set ALLOWED_GRAPH_NAMES then Inr g else Inl (ValueError (''unknown graph_name: '' @ v))))"

text \<open>\<open>UNIQUE\<close> over nullable columns: two \<open>NULL\<close> dates are never equal.\<close>

definition same_key :: "graph_row \<Rightarrow> graph_row \<Rightarrow> bool" where
  "same_key a b =
     (rl_graph_name (gr_relation a) = rl_graph_name (gr_relation b) \<and> subject_norm a = subject_norm b
      \<and> predicate_norm a = predicate_norm b \<and> object_norm a = object_norm b
      \<and> rl_memory_id (gr_relation a) = rl_memory_id (gr_relation b)
      \<and> rl_valid_from (gr_relation a) \<noteq> None \<and> rl_valid_from (gr_relation a) = rl_valid_from (gr_relation b)
      \<and> rl_valid_to (gr_relation a) \<noteq> None \<and> rl_valid_to (gr_relation a) = rl_valid_to (gr_relation b))"

definition insert_row :: "graph_row \<Rightarrow> graph \<Rightarrow> graph" where
  "insert_row x g = (if list_ex (same_key x) g then g else g @ [x])"

definition graph_row_of :: "relation \<Rightarrow> graph_row" where
  "graph_row_of r = \<lparr>gr_relation = r, subject_norm = norm_key (rl_subject r),
     predicate_norm = norm_key (rl_predicate r), object_norm = norm_key (rl_object r)\<rparr>"

text \<open>The rows of a table from before graph names, copied into the new one.\<close>

definition migrate_graph_name :: "graph_row list \<Rightarrow> graph" where
  "migrate_graph_name legacy =
     foldl (\<lambda>g x. insert_row (x\<lparr>gr_relation := (gr_relation x)\<lparr>rl_graph_name :=
         if rl_valid_from (gr_relation x) \<noteq> None \<or> rl_valid_to (gr_relation x) \<noteq> None
         then ''temporal'' else ''semantic''\<rparr>\<rparr>) g) [] legacy"

text \<open>
  \<open>add_relation\<close>: \<open>r\<close> holds the arguments as given; the name of the graph is separate because it may
  be absent.
\<close>

definition add_relation :: "string option \<Rightarrow> relation \<Rightarrow> (graph, relation) action" where
  "add_relation name r g =
     (case graph_name_of name (rl_valid_from r) (rl_valid_to r) of
        Inl err \<Rightarrow> (g, Inl err)
      | Inr gname \<Rightarrow>
          (let rel = r\<lparr>rl_subject := py_strip (rl_subject r), rl_predicate := py_strip (rl_predicate r),
                 rl_object := py_strip (rl_object r), rl_graph_name := gname,
                 rl_confidence := clamp01 (rl_confidence r)\<rparr>
           in if rl_subject rel = [] \<or> rl_predicate rel = [] \<or> rl_object rel = []
              then (g, Inl (ValueError ''subject, predicate and object are required''))
              else (insert_row (graph_row_of rel) g, Inr rel)))"

definition item_str :: "py_dict \<Rightarrow> string \<Rightarrow> string" where
  "item_str d k = (case d_get d k of None \<Rightarrow> [] | Some v \<Rightarrow> py_str v)"

definition item_graph_name :: "py_dict \<Rightarrow> string option" where
  "item_graph_name d = (case d_or (d_get d ''graph_name'') of VNone \<Rightarrow> None | v \<Rightarrow> Some (py_str v))"

definition relation_of_item :: "envelope \<Rightarrow> py_dict \<Rightarrow> relation result" where
  "relation_of_item e d =
     res_bind (read_updated (d_get d ''valid_from'')) (\<lambda>vf.
     res_bind (read_updated (d_get d ''valid_to'')) (\<lambda>vt.
     res_bind (case d_get d ''confidence'' of None \<Rightarrow> Inr (confidence e) | Some v \<Rightarrow> py_float v) (\<lambda>c.
     res_bind (read_opt_str (d_get (provenance e) ''source'')) (\<lambda>src.
       Inr \<lparr>rl_subject = item_str d ''subject'', rl_predicate = item_str d ''predicate'',
         rl_object = item_str d ''object'', rl_memory_id = env_id e, rl_graph_name = [],
         rl_valid_from = vf, rl_valid_to = vt, rl_confidence = c, rl_source = src,
         rl_created_at = created_at e\<rparr>))))"

definition index_memory :: "envelope \<Rightarrow> (graph, relation list) action" where
  "index_memory e =
     act_each (\<lambda>d g. case relation_of_item e d of Inl err \<Rightarrow> (g, Inl err)
        | Inr r \<Rightarrow> add_relation (item_graph_name d) r g) (relations e)"

section \<open>Queries\<close>

definition date_active :: "real option \<Rightarrow> real option \<Rightarrow> real option \<Rightarrow> bool" where
  "date_active valid_from valid_to at_time = (case at_time of None \<Rightarrow> True
     | Some t \<Rightarrow> (case valid_from of None \<Rightarrow> True | Some a \<Rightarrow> a \<le> t) \<and> (case valid_to of None \<Rightarrow> True | Some b \<Rightarrow> t \<le> b))"

definition relation_active :: "real option \<Rightarrow> relation \<Rightarrow> bool" where
  "relation_active at_time r = date_active (rl_valid_from r) (rl_valid_to r) at_time"

definition relation_rank :: "relation \<Rightarrow> real \<times> real" where
  "relation_rank r = (rl_confidence r, rl_created_at r)"

definition opt_match :: "string option \<Rightarrow> string \<Rightarrow> bool" where
  "opt_match x s = (case x of None \<Rightarrow> True | Some v \<Rightarrow> norm_key v = s)"

definition ordered_relations :: "(graph_row \<Rightarrow> bool) \<Rightarrow> graph \<Rightarrow> relation list" where
  "ordered_relations P g = sort_desc relation_rank (map gr_relation (filter P g))"

definition graph_query ::
  "string option \<Rightarrow> string option \<Rightarrow> string option \<Rightarrow> string option \<Rightarrow> real option \<Rightarrow> int \<Rightarrow> graph
    \<Rightarrow> relation list result" where
  "graph_query subj pred obj name at_time limit g =
     res_bind (case name of None \<Rightarrow> Inr None | Some v \<Rightarrow> res_bind (graph_name_of (Some v) None None) (\<lambda>n. Inr (Some n)))
       (\<lambda>gname. Inr (sql_limit limit (ordered_relations (\<lambda>x.
          (case gname of None \<Rightarrow> True | Some n \<Rightarrow> rl_graph_name (gr_relation x) = n)
          \<and> opt_match subj (subject_norm x) \<and> opt_match pred (predicate_norm x) \<and> opt_match obj (object_norm x)
          \<and> relation_active at_time (gr_relation x)) g)))"

definition relations_for_memory :: "string \<Rightarrow> graph \<Rightarrow> relation list" where
  "relations_for_memory i g = ordered_relations (\<lambda>x. rl_memory_id (gr_relation x) = i) g"

definition relation_nodes_for_memory_ids ::
  "string list \<Rightarrow> string list \<Rightarrow> real option \<Rightarrow> graph \<Rightarrow> (string \<times> string list) list result" where
  "relation_nodes_for_memory_ids memory_ids names at_time g =
     (let ids = filter (\<lambda>i. i \<noteq> []) (dedupe memory_ids) in
      if ids = [] then Inr []
      else res_bind (res_each (\<lambda>n. graph_name_of (Some n) None None) names) (\<lambda>wanted.
        (let rels = filter (\<lambda>r. (wanted = [] \<or> rl_graph_name r \<in> set wanted) \<and> relation_active at_time r)
                      (ordered_relations (\<lambda>x. rl_memory_id (gr_relation x) \<in> set ids) g)
         in Inr (map (\<lambda>i. (i, dedupe (filter (\<lambda>n. n \<noteq> [])
              (concat (map (\<lambda>r. if rl_memory_id r = i then [norm_key (rl_subject r), norm_key (rl_object r)] else [])
                 rels))))) ids))))"

definition relation_nodes_for_memory :: "string \<Rightarrow> string list \<Rightarrow> real option \<Rightarrow> graph \<Rightarrow> string list result" where
  "relation_nodes_for_memory i names at_time g =
     res_bind (relation_nodes_for_memory_ids [i] names at_time g) (\<lambda>d.
       Inr (case map_of d i of None \<Rightarrow> [] | Some ns \<Rightarrow> ns))"

section \<open>The walk\<close>

type_synonym walk_scores = "(string \<times> (real \<times> real)) list"

definition touches :: "string list \<Rightarrow> graph_row \<Rightarrow> bool" where
  "touches frontier x =
     (subject_norm x \<in> set frontier \<or> predicate_norm x \<in> set frontier \<or> object_norm x \<in> set frontier)"

definition walk_rows ::
  "(int \<Rightarrow> graph_row list \<Rightarrow> graph_row list) \<Rightarrow> int \<Rightarrow> string list \<Rightarrow> real option \<Rightarrow> string list \<Rightarrow> graph \<Rightarrow> graph_row list" where
  "walk_rows pick limit names at_time frontier g =
     pick (max (limit * 4) limit)
       (filter (\<lambda>x. touches frontier x \<and> (names = [] \<or> rl_graph_name (gr_relation x) \<in> set names)
          \<and> relation_active at_time (gr_relation x)) g)"

definition score_row :: "real \<Rightarrow> walk_scores \<Rightarrow> graph_row \<Rightarrow> walk_scores" where
  "score_row w scores x =
     (let r = gr_relation x; sc = rl_confidence r * w in
      if (case map_of scores (rl_memory_id r) of None \<Rightarrow> True | Some cur \<Rightarrow> fst cur < sc)
      then d_set (rl_memory_id r) (sc, rl_created_at r) scores else scores)"

definition hop_weight :: "nat \<Rightarrow> real" where
  "hop_weight hop = max (1 / 10) (1 - of_nat hop * (15 / 100))"

fun walk_hops ::
  "(string list \<Rightarrow> graph_row list) \<Rightarrow> nat \<Rightarrow> nat \<Rightarrow> string list \<Rightarrow> string list \<Rightarrow> walk_scores \<Rightarrow> walk_scores" where
  "walk_hops sel 0 hop frontier seen scores = scores"
| "walk_hops sel (Suc n) hop frontier seen scores =
     (let new = filter (\<lambda>x. x \<noteq> [] \<and> x \<notin> set seen) frontier in
      if new = [] then scores
      else
        (let rows = sel new in
         walk_hops sel n (Suc hop) (dedupe (concat (map (\<lambda>x. [subject_norm x, object_norm x]) rows)))
           (new @ seen) (foldl (score_row (hop_weight hop)) scores rows)))"

definition walk_related_memory_ids ::
  "(int \<Rightarrow> graph_row list \<Rightarrow> graph_row list) \<Rightarrow> string list \<Rightarrow> int \<Rightarrow> int \<Rightarrow> real option \<Rightarrow> string list \<Rightarrow> graph
    \<Rightarrow> string list result" where
  "walk_related_memory_ids pick terms limit max_hops at_time graph_names g =
     (let normalized = filter (\<lambda>t. t \<noteq> []) (map norm_key terms) in
      if normalized = [] then Inr []
      else res_bind (res_each (\<lambda>n. graph_name_of (Some n) None None) graph_names) (\<lambda>names.
        (let scores = walk_hops (\<lambda>f. walk_rows pick limit names at_time f g) (nat (max 1 max_hops)) 0
               (dedupe normalized) [] []
         in Inr (map fst (py_take limit (sort_desc snd scores))))))"

definition related_memory_ids ::
  "(int \<Rightarrow> graph_row list \<Rightarrow> graph_row list) \<Rightarrow> string list \<Rightarrow> int \<Rightarrow> graph \<Rightarrow> string list result" where
  "related_memory_ids pick terms limit g = walk_related_memory_ids pick terms limit 1 None [] g"

section \<open>Answerable subgraphs\<close>

definition anchor_term :: "string \<Rightarrow> string" where
  "anchor_term v = (let t = norm_key v in if 3 \<le> length t then t else [])"

definition relation_terms :: "relation \<Rightarrow> string list" where
  "relation_terms r = filter (\<lambda>t. t \<noteq> []) (map anchor_term (py_words (py_lower
     (py_join '' '' [rl_subject r, rl_predicate r, rl_object r, rl_graph_name r]))))"

record subgraph =
  sg_graph_name :: string
  sg_relations :: "relation list"
  sg_memory_ids :: "string list"
  sg_anchor_terms :: "string list"
  sg_answerability :: real

definition subgraph_add :: "string list \<Rightarrow> relation \<Rightarrow> string list \<Rightarrow> subgraph \<Rightarrow> subgraph" where
  "subgraph_add anchors r matched b =
     (let terms = dedupe (sg_anchor_terms b @ matched);
          coverage = of_nat (length terms) / max 1 (of_nat (length anchors)) in
      b\<lparr>sg_relations := sg_relations b @ [r],
        sg_memory_ids := (if rl_memory_id r \<in> set (sg_memory_ids b) then sg_memory_ids b
                          else sg_memory_ids b @ [rl_memory_id r]),
        sg_anchor_terms := terms,
        sg_answerability := max (sg_answerability b) (py_round 4 (coverage * rl_confidence r))\<rparr>)"

definition subgraph_step ::
  "string list \<Rightarrow> nat \<Rightarrow> (string \<times> subgraph) list \<Rightarrow> relation \<Rightarrow> (string \<times> subgraph) list" where
  "subgraph_step anchors min_terms grouped r =
     (let matched = filter (\<lambda>a. a \<in> set (relation_terms r)) anchors in
      if length matched < min_terms then grouped
      else
        (let b = (case map_of grouped (rl_graph_name r) of Some b \<Rightarrow> b
                  | None \<Rightarrow> \<lparr>sg_graph_name = rl_graph_name r, sg_relations = [], sg_memory_ids = [],
                      sg_anchor_terms = [], sg_answerability = 0\<rparr>)
         in d_set (rl_graph_name r) (subgraph_add anchors r matched b) grouped))"

definition answerable_subgraphs ::
  "string list \<Rightarrow> string list \<Rightarrow> string list \<Rightarrow> real option \<Rightarrow> int \<Rightarrow> nat \<Rightarrow> graph \<Rightarrow> subgraph list result" where
  "answerable_subgraphs terms graph_names memory_ids at_time limit min_terms g =
     (let anchors = dedupe (filter (\<lambda>t. t \<noteq> []) (map anchor_term terms)) in
      if anchors = [] then Inr []
      else res_bind (res_each (\<lambda>n. graph_name_of (Some n) None None) graph_names) (\<lambda>wanted.
        (let rels = sql_limit (max (limit * 12) 50) (ordered_relations (\<lambda>x.
               (wanted = [] \<or> rl_graph_name (gr_relation x) \<in> set wanted)
               \<and> (memory_ids = [] \<or> rl_memory_id (gr_relation x) \<in> set memory_ids)
               \<and> relation_active at_time (gr_relation x)) g);
             grouped = foldl (subgraph_step anchors min_terms) [] rels;
             ordered = sort_desc sg_answerability (map snd grouped)
         in Inr (map (\<lambda>b. b\<lparr>sg_anchor_terms := sort (sg_anchor_terms b),
                sg_relations := py_take limit (sg_relations b)\<rparr>) (py_take limit ordered)))))"

section \<open>Well-formed tables\<close>

definition row_ok :: "graph_row \<Rightarrow> bool" where
  "row_ok x =
     (subject_norm x = norm_key (rl_subject (gr_relation x)) \<and> predicate_norm x = norm_key (rl_predicate (gr_relation x))
      \<and> object_norm x = norm_key (rl_object (gr_relation x))
      \<and> subject_norm x \<noteq> [] \<and> predicate_norm x \<noteq> [] \<and> object_norm x \<noteq> []
      \<and> rl_graph_name (gr_relation x) \<in> set ALLOWED_GRAPH_NAMES
      \<and> 0 \<le> rl_confidence (gr_relation x) \<and> rl_confidence (gr_relation x) \<le> 1)"

definition graph_ok :: "graph \<Rightarrow> bool" where
  "graph_ok g = (list_all row_ok g \<and> sorted_wrt (\<lambda>a b. \<not> same_key b a) g)"

lemma graph_ok_Nil [simp]: "graph_ok []"
  by (simp add: graph_ok_def)

lemma graph_ok_insert: "graph_ok g \<Longrightarrow> row_ok x \<Longrightarrow> graph_ok (insert_row x g)"
  by (auto simp: graph_ok_def insert_row_def sorted_wrt_append list_ex_iff)

lemma graph_name_of_allowed: "graph_name_of name vf vt = Inr n \<Longrightarrow> n \<in> set ALLOWED_GRAPH_NAMES"
  by (auto simp: graph_name_of_def Let_def ALLOWED_GRAPH_NAMES_def split: option.splits if_splits)

lemma graph_name_of_known:
  assumes "n \<in> set ALLOWED_GRAPH_NAMES"
  shows "graph_name_of (Some n) vf vt = Inr n"
proof -
  have "list_all (\<lambda>n. py_strip n \<noteq> [] \<and> py_replace_char (CHR '' '') (CHR ''_'') (norm_key n) = n) ALLOWED_GRAPH_NAMES"
    by code_simp
  then show ?thesis using assms by (simp add: graph_name_of_def list_all_iff Let_def)
qed

lemma add_relation_ok_iff:
  "(\<exists>g' rel. add_relation name r g = (g', Inr rel)) \<longleftrightarrow>
     (\<exists>n. graph_name_of name (rl_valid_from r) (rl_valid_to r) = Inr n)
     \<and> py_strip (rl_subject r) \<noteq> [] \<and> py_strip (rl_predicate r) \<noteq> [] \<and> py_strip (rl_object r) \<noteq> []"
  by (auto simp: add_relation_def Let_def split: sum.split)

text \<open>\<open>add_relation\<close> succeeds exactly for a known graph name and three fields that are not blank.\<close>

lemma add_relation_Inl: "add_relation name r g = (g', Inl err) \<Longrightarrow> g' = g"
  by (auto simp: add_relation_def Let_def split: sum.splits if_splits)

lemma norm_key_strip [simp]: "norm_key (py_strip s) = norm_key s"
  by (simp add: norm_key_def)

lemma add_relation_Inr:
  assumes "add_relation name r g = (g', Inr rel)"
  shows "g' = insert_row (graph_row_of rel) g" "row_ok (graph_row_of rel)"
    "graph_name_of name (rl_valid_from r) (rl_valid_to r) = Inr (rl_graph_name rel)"
    "norm_key (rl_subject rel) = norm_key (rl_subject r)" "norm_key (rl_object rel) = norm_key (rl_object r)"
    "norm_key (rl_predicate rel) = norm_key (rl_predicate r)"
    "rl_memory_id rel = rl_memory_id r" "rl_valid_from rel = rl_valid_from r" "rl_valid_to rel = rl_valid_to r"
    "rl_confidence rel = clamp01 (rl_confidence r)" "rl_created_at rel = rl_created_at r"
  using assms graph_name_of_allowed
  by (auto simp: add_relation_def Let_def graph_row_of_def row_ok_def norm_key_eq_Nil split: sum.splits if_splits)

lemma add_relation_graph_ok: "graph_ok g \<Longrightarrow> graph_ok (fst (add_relation name r g))"
proof (cases "add_relation name r g")
  case (Pair g' x)
  assume "graph_ok g"
  then show ?thesis
    using Pair add_relation_Inl [of name r g g'] add_relation_Inr(1,2) [of name r g g'] graph_ok_insert
    by (cases x) auto
qed

lemma set_insert_row: "set g \<subseteq> set (insert_row x g)" "set (insert_row x g) \<subseteq> insert x (set g)"
  by (auto simp: insert_row_def)

lemma index_memory_graph_ok: "graph_ok g \<Longrightarrow> graph_ok (fst (index_memory e g))"
  unfolding index_memory_def
  by (rule act_each_invariant) (auto simp: add_relation_graph_ok split: sum.split)

text \<open>
  Every row that enters the table, one by one or from a memory's relation list, has a known graph
  name, a confidence in \<open>[0, 1]\<close>, names that are not blank and their normal forms beside them; no two
  rows agree on the whole key once both dates are given. An operation that raises in the middle keeps
  this.
\<close>

theorem graph_invariant:
  "graph_ok [] \<and> (graph_ok g \<longrightarrow> graph_ok (fst (add_relation name r g)) \<and> graph_ok (fst (index_memory e g)))"
  by (simp add: add_relation_graph_ok index_memory_graph_ok)

lemma graph_invariant_witness:
  "graph_ok (fst (add_relation (Some ''Temporal'') \<lparr>rl_subject = ''a'', rl_predicate = ''b'', rl_object = ''c'',
     rl_memory_id = ''m'', rl_graph_name = [], rl_valid_from = None, rl_valid_to = None, rl_confidence = 2,
     rl_source = None, rl_created_at = 1\<rparr> []))"
  using graph_invariant [of "[]" "Some ''Temporal''" _ undefined] by blast

text \<open>Adding a relation with both dates again changes nothing; without one it adds a second row.\<close>

lemma add_relation_again:
  assumes "add_relation name r g = (g', Inr rel)" "rl_valid_from r \<noteq> None" "rl_valid_to r \<noteq> None"
  shows "add_relation name r g' = (g', Inr rel)"
proof -
  have "add_relation name r g' = (insert_row (graph_row_of rel) g', Inr rel)"
    using assms(1) by (auto simp: add_relation_def Let_def split: sum.splits if_splits)
  moreover have "same_key (graph_row_of rel) (graph_row_of rel)"
    using assms add_relation_Inr [OF assms(1)] by (simp add: same_key_def graph_row_of_def)
  then have "insert_row (graph_row_of rel) g' = g'"
    using add_relation_Inr(1) [OF assms(1)] by (auto simp: insert_row_def list_ex_iff)
  ultimately show ?thesis by simp
qed

lemma add_relation_undated_duplicates:
  assumes "add_relation name r g = (g', Inr rel)" "rl_valid_from r = None \<or> rl_valid_to r = None"
  shows "fst (add_relation name r g') = g' @ [graph_row_of rel]"
proof -
  have "\<not> same_key (graph_row_of rel) y" for y
    using assms add_relation_Inr [OF assms(1)] by (auto simp: same_key_def graph_row_of_def)
  then have "insert_row (graph_row_of rel) g' = g' @ [graph_row_of rel]"
    by (simp add: insert_row_def list_ex_iff)
  then show ?thesis
    using assms(1) by (auto simp: add_relation_def Let_def split: sum.splits if_splits)
qed

section \<open>What a query returns\<close>

lemma set_ordered_relations: "set (ordered_relations P g) = gr_relation ` {x \<in> set g. P x}"
  by (simp add: ordered_relations_def)

lemma sorted_ordered_relations: "sorted_wrt (\<lambda>a b. relation_rank b \<le> relation_rank a) (ordered_relations P g)"
  by (simp add: ordered_relations_def sort_desc_sorted)

lemma length_ordered_relations: "length (ordered_relations P g) \<le> length g"
  by (simp add: ordered_relations_def)

lemma sorted_wrt_sql_limit: "sorted_wrt P xs \<Longrightarrow> sorted_wrt P (sql_limit n xs)"
  by (simp add: sql_limit_def sorted_wrt_take)

text \<open>
  C36: a relation just added is found by a query for any spelling of its subject that has the same normal form, as
  itself or as the row it duplicates, if it holds at the time asked for (or none is) and the limit does not cut it off.
  Every result has that subject and is valid at the time asked for, and results come by confidence and then date, both
  descending.
\<close>

theorem add_relation_query:
  assumes "add_relation name r g = (g', Inr rel)" "norm_key subj = norm_key (rl_subject r)"
    and "limit < 0 \<or> int (length g') \<le> limit"
  shows "\<exists>rels. graph_query (Some subj) None None None at_time limit g' = Inr rels
    \<and> (relation_active at_time rel \<longrightarrow>
         rel \<in> set rels \<or> (\<exists>x\<in>set g. same_key (graph_row_of rel) x \<and> gr_relation x \<in> set rels))
    \<and> (\<forall>x\<in>set rels. (\<exists>y\<in>set g'. gr_relation y = x \<and> subject_norm y = norm_key subj)
         \<and> (\<forall>u. at_time = Some u \<longrightarrow> (\<forall>a. rl_valid_from x = Some a \<longrightarrow> a \<le> u) \<and> (\<forall>b. rl_valid_to x = Some b \<longrightarrow> u \<le> b)))
    \<and> sorted_wrt (\<lambda>a b. relation_rank b \<le> relation_rank a) rels"
proof -
  define P where "P = (\<lambda>x :: graph_row. opt_match (Some subj) (subject_norm x) \<and> relation_active at_time (gr_relation x))"
  let ?rels = "ordered_relations P g'"
  have "graph_query (Some subj) None None None at_time limit g' = Inr (sql_limit limit ?rels)"
    by (simp add: graph_query_def P_def opt_match_def)
  also have "sql_limit limit ?rels = ?rels"
    using assms(3) length_ordered_relations [of P g'] by (auto simp: sql_limit_def)
  finally have q: "graph_query (Some subj) None None None at_time limit g' = Inr ?rels" .
  have g': "g' = insert_row (graph_row_of rel) g" and n: "norm_key (rl_subject rel) = norm_key subj"
    using add_relation_Inr [OF assms(1)] assms(2) by auto
  have "rel \<in> set ?rels \<or> (\<exists>x\<in>set g. same_key (graph_row_of rel) x \<and> gr_relation x \<in> set ?rels)"
    if act: "relation_active at_time rel"
  proof (cases "\<exists>x\<in>set g. same_key (graph_row_of rel) x")
    case True
    then obtain x where x: "x \<in> set g" "same_key (graph_row_of rel) x" by blast
    then have "P x" using n act by (simp add: P_def opt_match_def same_key_def graph_row_of_def relation_active_def)
    moreover have "x \<in> set g'" using x(1) set_insert_row(1) [of g "graph_row_of rel"] by (auto simp: g')
    ultimately have "gr_relation x \<in> set ?rels" by (simp add: set_ordered_relations)
    then show ?thesis using x by blast
  next
    case False
    then have "graph_row_of rel \<in> set g'" by (auto simp: g' insert_row_def list_ex_iff)
    moreover have "P (graph_row_of rel)" using n act by (simp add: P_def opt_match_def graph_row_of_def)
    moreover have "gr_relation (graph_row_of rel) = rel" by (simp add: graph_row_of_def)
    ultimately show ?thesis by (auto simp: set_ordered_relations image_iff intro!: disjI1 bexI [of _ "graph_row_of rel"])
  qed
  moreover have "\<forall>x\<in>set ?rels. (\<exists>y\<in>set g'. gr_relation y = x \<and> subject_norm y = norm_key subj)
      \<and> (\<forall>u. at_time = Some u \<longrightarrow> (\<forall>a. rl_valid_from x = Some a \<longrightarrow> a \<le> u) \<and> (\<forall>b. rl_valid_to x = Some b \<longrightarrow> u \<le> b))"
    by (auto simp: set_ordered_relations P_def opt_match_def relation_active_def date_active_def split: option.splits)
  ultimately show ?thesis unfolding q using sorted_ordered_relations by blast
qed

definition demo_relation :: relation where
  "demo_relation = \<lparr>rl_subject = '' Ana  Maria '', rl_predicate = ''likes'', rl_object = ''tea'',
     rl_memory_id = ''m1'', rl_graph_name = [], rl_valid_from = None, rl_valid_to = Some 9, rl_confidence = 1 / 2,
     rl_source = None, rl_created_at = 1\<rparr>"

lemma add_relation_query_witness:
  "\<exists>g rel rels. add_relation None demo_relation [] = (g, Inr rel)
    \<and> graph_query (Some ''ana maria'') None None None (Some 7) 5 g = Inr rels \<and> rel \<in> set rels"
proof -
  obtain g rel where a: "add_relation None demo_relation [] = (g, Inr rel)"
    by (cases "add_relation None demo_relation []")
      (auto simp: add_relation_def demo_relation_def graph_name_of_def Let_def py_strip_def py_lstrip_def
        py_rstrip_def is_space_def)
  have "length g \<le> 1" using add_relation_Inr(1) [OF a] by (simp add: insert_row_def)
  moreover have "norm_key ''ana maria'' = norm_key (rl_subject demo_relation)" by code_simp
  moreover have "relation_active (Some 7) rel"
    using add_relation_Inr(8,9) [OF a] by (simp add: relation_active_def date_active_def demo_relation_def)
  ultimately show ?thesis using add_relation_query [OF a, of "''ana maria''" 5 "Some 7"] a by fastforce
qed

section \<open>The walk is reachability\<close>

text \<open>What SQL promises of \<open>LIMIT\<close> without \<open>ORDER BY\<close>: as many of the rows as the limit allows.\<close>

locale row_choice =
  fixes pick :: "int \<Rightarrow> 'r list \<Rightarrow> 'r list"
  assumes pick_some: "set (pick n rows) \<subseteq> set rows"
    and pick_all: "n < 0 \<or> int (length rows) \<le> n \<Longrightarrow> set (pick n rows) = set rows"
begin

lemma pick_Nil: "pick n [] = []"
  using pick_some [of n "[]"] by simp

lemma pick_filter_sound: "x \<in> set (pick n (filter P rows)) \<Longrightarrow> x \<in> set rows \<and> P x"
  using pick_some [of n "filter P rows"] by auto

lemma pick_filter_complete:
  "int (length rows) \<le> n \<Longrightarrow> x \<in> set rows \<Longrightarrow> P x \<Longrightarrow> x \<in> set (pick n (filter P rows))"
  using pick_all [of n "filter P rows"] length_filter_le [of P rows] by fastforce

end

interpretation table_order: row_choice "sql_limit :: int \<Rightarrow> graph_row list \<Rightarrow> graph_row list"
  by unfold_locales (auto simp: sql_limit_def dest: in_set_takeD)

definition eligible :: "string list \<Rightarrow> real option \<Rightarrow> graph_row \<Rightarrow> bool" where
  "eligible names at_time x =
     ((names = [] \<or> rl_graph_name (gr_relation x) \<in> set names) \<and> relation_active at_time (gr_relation x))"

definition row_nodes :: "graph_row \<Rightarrow> string set" where
  "row_nodes x = {subject_norm x, predicate_norm x, object_norm x}"

text \<open>A node is \<open>k\<close> hops away: a row mentions a node \<open>k - 1\<close> hops away and has it as subject or object.\<close>

inductive hop_reach :: "graph_row set \<Rightarrow> string set \<Rightarrow> nat \<Rightarrow> string \<Rightarrow> bool" for R S where
  start: "t \<in> S \<Longrightarrow> hop_reach R S 0 t"
| hop: "hop_reach R S k t \<Longrightarrow> x \<in> R \<Longrightarrow> t \<in> row_nodes x \<Longrightarrow> u \<in> {subject_norm x, object_norm x} \<Longrightarrow>
    hop_reach R S (Suc k) u"

inductive_cases hop_reach_0E: "hop_reach R S 0 t"
inductive_cases hop_reach_SucE: "hop_reach R S (Suc k) t"

lemma touches_nodes: "touches f x \<longleftrightarrow> (\<exists>t\<in>set f. t \<in> row_nodes x)"
  by (auto simp: touches_def row_nodes_def)

lemma keys_score_row: "fst ` set (score_row w scores x) = insert (rl_memory_id (gr_relation x)) (fst ` set scores)"
proof -
  have "rl_memory_id (gr_relation x) \<in> fst ` set scores" if "map_of scores (rl_memory_id (gr_relation x)) \<noteq> None"
    using that by (simp add: map_of_eq_None_iff)
  then show ?thesis
    using keys_d_set [of "rl_memory_id (gr_relation x)" _ scores]
    by (auto simp: score_row_def Let_def split: option.splits)
qed

lemma keys_score_rows:
  "fst ` set (foldl (score_row w) scores xs) = (\<lambda>x. rl_memory_id (gr_relation x)) ` set xs \<union> fst ` set scores"
  by (induction xs arbitrary: scores) (simp_all add: keys_score_row)

lemma distinct_score_rows:
  "distinct (map fst scores) \<Longrightarrow> distinct (map fst (foldl (score_row w) scores xs))"
  by (induction xs arbitrary: scores) (simp_all add: score_row_def Let_def distinct_d_set)

lemma distinct_walk_hops:
  "distinct (map fst scores) \<Longrightarrow> distinct (map fst (walk_hops sel n h f seen scores))"
  by (induction sel n h f seen scores rule: walk_hops.induct) (simp_all add: Let_def distinct_score_rows)

lemma walk_hops_sound:
  assumes "\<And>f. \<forall>x\<in>set (sel f). x \<in> R \<and> touches f x" and "\<forall>t\<in>set frontier. hop_reach R S h t"
    and "i \<in> fst ` set (walk_hops sel n h frontier seen scores)"
  shows "i \<in> fst ` set scores
    \<or> (\<exists>k t x. k < h + n \<and> hop_reach R S k t \<and> x \<in> R \<and> t \<in> row_nodes x \<and> rl_memory_id (gr_relation x) = i)"
  using assms(2,3)
proof (induction n arbitrary: h frontier seen scores)
  case 0
  then show ?case by simp
next
  case (Suc n)
  define new where "new = filter (\<lambda>x. x \<noteq> [] \<and> x \<notin> set seen) frontier"
  show ?case
  proof (cases "new = []")
    case True
    then show ?thesis using Suc.prems(2) by (simp add: new_def)
  next
    case False
    let ?rows = "sel new"
    let ?next = "dedupe (concat (map (\<lambda>x. [subject_norm x, object_norm x]) ?rows))"
    have rows: "x \<in> R \<and> touches new x" if "x \<in> set ?rows" for x using assms(1) that by blast
    have reach: "hop_reach R S h t" if "t \<in> set new" for t using Suc.prems(1) that by (auto simp: new_def)
    have "\<forall>t\<in>set ?next. hop_reach R S (Suc h) t"
    proof
      fix u assume "u \<in> set ?next"
      then obtain x where x: "x \<in> set ?rows" "u \<in> {subject_norm x, object_norm x}" by auto
      then obtain t where "t \<in> set new" "t \<in> row_nodes x" using rows touches_nodes by blast
      then show "hop_reach R S (Suc h) u" using hop_reach.hop rows x reach by blast
    qed
    moreover have "i \<in> fst ` set (walk_hops sel n (Suc h) ?next (new @ seen)
        (foldl (score_row (hop_weight h)) scores ?rows))"
      using Suc.prems(2) False by (simp add: new_def Let_def)
    ultimately consider
      (score) "i \<in> fst ` set (foldl (score_row (hop_weight h)) scores ?rows)"
      | (later) "\<exists>k t x. k < Suc h + n \<and> hop_reach R S k t \<and> x \<in> R \<and> t \<in> row_nodes x
          \<and> rl_memory_id (gr_relation x) = i"
      using Suc.IH by blast
    then show ?thesis
    proof cases
      case score
      then consider "i \<in> fst ` set scores" | x where "x \<in> set ?rows" "rl_memory_id (gr_relation x) = i"
        by (auto simp: keys_score_rows)
      then show ?thesis
      proof cases
        case 1
        then show ?thesis by blast
      next
        case (2 x)
        then obtain t where "t \<in> set new" "t \<in> row_nodes x" "x \<in> R" using rows touches_nodes by blast
        then show ?thesis using reach 2 by (metis add_Suc_right less_add_Suc1)
      qed
    next
      case later
      then show ?thesis by simp
    qed
  qed
qed

lemma walk_hops_keeps: "fst ` set scores \<subseteq> fst ` set (walk_hops sel n h f seen scores)"
proof (induction sel n h f seen scores rule: walk_hops.induct)
  case (1 sel hop frontier seen scores)
  then show ?case by simp
next
  case (2 sel n hop frontier seen scores)
  then show ?case by (auto simp: Let_def keys_score_rows subset_iff)
qed

lemma walk_hops_complete:
  assumes sel: "\<And>f x. x \<in> R \<Longrightarrow> touches f x \<Longrightarrow> x \<in> set (sel f)"
    and ne: "\<And>x. x \<in> R \<Longrightarrow> [] \<notin> row_nodes x"
    and s0: "[] \<notin> S"
    and a: "\<forall>k<h. \<forall>t. hop_reach R S k t \<longrightarrow> t \<noteq> [] \<longrightarrow> t \<in> set seen"
    and b: "\<forall>t\<in>set seen. \<forall>x\<in>R. t \<in> row_nodes x \<longrightarrow> rl_memory_id (gr_relation x) \<in> fst ` set scores"
    and c: "\<forall>t. hop_reach R S h t \<longrightarrow> t \<in> set seen \<union> set frontier"
    and d: "\<forall>t\<in>set seen. \<forall>x\<in>R. t \<in> row_nodes x \<longrightarrow> {subject_norm x, object_norm x} \<subseteq> set seen \<union> set frontier"
    and e: "S \<subseteq> set seen \<union> set frontier"
    and r: "k < h + n" "hop_reach R S k t" "x \<in> R" "t \<in> row_nodes x"
  shows "rl_memory_id (gr_relation x) \<in> fst ` set (walk_hops sel n h frontier seen scores)"
  using a b c d e r
proof (induction n arbitrary: h frontier seen scores)
  case 0
  then have "t \<in> set seen" using ne by fastforce
  then show ?case using 0 by simp
next
  case (Suc n)
  define new where "new = filter (\<lambda>x. x \<noteq> [] \<and> x \<notin> set seen) frontier"
  show ?case
  proof (cases "new = []")
    case True
    then have closed: "u \<in> set seen" if "u \<in> set seen \<union> set frontier" "u \<noteq> []" for u
      using that by (auto simp: new_def filter_empty_conv)
    have "u \<noteq> [] \<longrightarrow> u \<in> set seen" if "hop_reach R S k u" for k u
      using that
    proof induction
      case (start t)
      then show ?case using Suc.prems(5) closed by blast
    next
      case (hop k t x u)
      then have "t \<in> set seen" using ne by blast
      then show ?case using Suc.prems(4) hop closed by blast
    qed
    then have "t \<in> set seen" using Suc.prems(7-9) ne by blast
    then show ?thesis using True Suc.prems(2,8,9) by (simp add: new_def)
  next
    case False
    let ?rows = "sel new"
    let ?next = "dedupe (concat (map (\<lambda>x. [subject_norm x, object_norm x]) ?rows))"
    let ?scores = "foldl (score_row (hop_weight h)) scores ?rows"
    have cover: "u \<in> set (new @ seen)" if "u \<in> set seen \<union> set frontier" "u \<noteq> []" for u
      using that by (auto simp: new_def)
    have nexts: "{subject_norm x, object_norm x} \<subseteq> set ?next" if "x \<in> R" "t \<in> set new" "t \<in> row_nodes x" for x t
      using sel [of x new] that touches_nodes by auto
    have a': "\<forall>k<Suc h. \<forall>t. hop_reach R S k t \<longrightarrow> t \<noteq> [] \<longrightarrow> t \<in> set (new @ seen)"
      using Suc.prems(1,3) cover by (metis UnCI less_Suc_eq set_append)
    have b': "\<forall>t\<in>set (new @ seen). \<forall>x\<in>R. t \<in> row_nodes x \<longrightarrow> rl_memory_id (gr_relation x) \<in> fst ` set ?scores"
    proof (intro ballI impI)
      fix t x assume t: "t \<in> set (new @ seen)" "x \<in> R" "t \<in> row_nodes x"
      then consider "t \<in> set new" | "t \<in> set seen" by auto
      then show "rl_memory_id (gr_relation x) \<in> fst ` set ?scores"
      proof cases
        case 1
        then have "x \<in> set ?rows" using sel t touches_nodes by blast
        then show ?thesis by (auto simp: keys_score_rows)
      next
        case 2
        then show ?thesis using Suc.prems(2) t by (auto simp: keys_score_rows)
      qed
    qed
    have d': "\<forall>t\<in>set (new @ seen). \<forall>x\<in>R. t \<in> row_nodes x \<longrightarrow>
        {subject_norm x, object_norm x} \<subseteq> set (new @ seen) \<union> set ?next"
    proof (intro ballI impI)
      fix t x assume t: "t \<in> set (new @ seen)" "x \<in> R" "t \<in> row_nodes x"
      then consider "t \<in> set new" | "t \<in> set seen" by auto
      then show "{subject_norm x, object_norm x} \<subseteq> set (new @ seen) \<union> set ?next"
      proof cases
        case 1
        then show ?thesis using nexts t by blast
      next
        case 2
        then have "{subject_norm x, object_norm x} \<subseteq> set seen \<union> set frontier" using Suc.prems(4) t by blast
        moreover have "subject_norm x \<noteq> []" "object_norm x \<noteq> []" using ne [OF t(2)] by (auto simp: row_nodes_def)
        ultimately show ?thesis using cover by blast
      qed
    qed
    have c': "\<forall>t. hop_reach R S (Suc h) t \<longrightarrow> t \<in> set (new @ seen) \<union> set ?next"
    proof (intro allI impI)
      fix u assume "hop_reach R S (Suc h) u"
      then obtain t x where t: "hop_reach R S h t" "x \<in> R" "t \<in> row_nodes x"
        "u \<in> {subject_norm x, object_norm x}"
        by (auto elim!: hop_reach_SucE)
      then have "t \<in> set (new @ seen)" using Suc.prems(3) cover ne by blast
      then show "u \<in> set (new @ seen) \<union> set ?next" using d' t by blast
    qed
    have e': "S \<subseteq> set (new @ seen) \<union> set ?next"
      using Suc.prems(5) cover s0 by (metis UnI1 subset_iff)
    show ?thesis
      using Suc.IH [OF a' b' c' d' e'] Suc.prems(6-9) False by (simp add: new_def Let_def)
  qed
qed

lemma walk_rows_eligible:
  "walk_rows pick limit names at_time f g
    = pick (max (limit * 4) limit) (filter (\<lambda>x. touches f x \<and> eligible names at_time x) g)"
  by (simp add: walk_rows_def eligible_def)

text \<open>
  C18: the ids a walk returns are distinct and at most \<open>limit\<close> many; each one has an eligible row that
  mentions a node fewer than \<open>max_hops\<close> hops from a term. When the limit does not bind they are all
  such ids: the walk is reachability, whichever rows SQLite would prefer.
\<close>

theorem walk_is_reachability:
  assumes "row_choice pick" "graph_ok g" "0 \<le> limit"
    and "res_each (\<lambda>n. graph_name_of (Some n) None None) graph_names = Inr names"
  shows "\<exists>ids. walk_related_memory_ids pick terms limit max_hops at_time graph_names g = Inr ids
    \<and> distinct ids \<and> int (length ids) \<le> limit
    \<and> (let near = {i. \<exists>k t x. int k < max 1 max_hops
            \<and> hop_reach {x \<in> set g. eligible names at_time x} {t \<in> norm_key ` set terms. t \<noteq> []} k t
            \<and> x \<in> set g \<and> eligible names at_time x \<and> t \<in> row_nodes x \<and> rl_memory_id (gr_relation x) = i}
       in set ids \<subseteq> near \<and> (int (length g) \<le> limit \<longrightarrow> set ids = near))"
proof -
  define R where "R = {x \<in> set g. eligible names at_time x}"
  define S where "S = {t \<in> norm_key ` set terms. t \<noteq> []}"
  define N where "N = nat (max 1 max_hops)"
  define normalized where "normalized = filter (\<lambda>t. t \<noteq> []) (map norm_key terms)"
  define sel where "sel = (\<lambda>f. walk_rows pick limit names at_time f g)"
  define scores where "scores = walk_hops sel N 0 (dedupe normalized) [] []"
  define ids where "ids = map fst (py_take limit (sort_desc snd scores))"
  define near where "near = {i. \<exists>k t x. int k < max 1 max_hops \<and> hop_reach R S k t \<and> x \<in> R \<and> t \<in> row_nodes x
      \<and> rl_memory_id (gr_relation x) = i}"
  have N: "k < N \<longleftrightarrow> int k < max 1 max_hops" for k by (auto simp: N_def)
  have S: "S = set normalized" by (auto simp: S_def normalized_def)
  have sound: "\<forall>x\<in>set (sel f). x \<in> R \<and> touches f x" for f
    using row_choice.pick_filter_sound [OF assms(1)] unfolding sel_def walk_rows_eligible R_def by blast
  have keys: "fst ` set scores \<subseteq> near"
  proof
    fix i assume "i \<in> fst ` set scores"
    then have "\<exists>k t x. k < 0 + N \<and> hop_reach R S k t \<and> x \<in> R \<and> t \<in> row_nodes x \<and> rl_memory_id (gr_relation x) = i"
      using walk_hops_sound [of sel R "dedupe normalized" S 0 i N "[]" "[]"] sound
      by (auto simp: scores_def S intro: hop_reach.start)
    then show "i \<in> near" by (auto simp: near_def N)
  qed
  have dist: "distinct (map fst scores)" by (simp add: scores_def distinct_walk_hops)
  have ids_sub: "set ids \<subseteq> fst ` set scores"
    using set_py_take [of limit "sort_desc snd scores"] by (auto simp: ids_def)
  have "distinct ids"
    using dist assms(3) by (simp add: ids_def py_take_def take_map [symmetric] distinct_map_sort_desc)
  moreover have "int (length ids) \<le> limit"
    using length_py_take [OF assms(3), of "sort_desc snd scores"] assms(3) by (simp add: ids_def)
  moreover have "set ids = near" if lim: "int (length g) \<le> limit"
  proof -
    have complete: "x \<in> set (sel f)" if "x \<in> R" "touches f x" for f x
      using row_choice.pick_filter_complete [OF assms(1), of g "max (limit * 4) limit" x] lim that
      unfolding sel_def walk_rows_eligible R_def by auto
    have ne: "[] \<notin> row_nodes x" if "x \<in> R" for x
      using that assms(2) by (auto simp: R_def graph_ok_def row_ok_def row_nodes_def list_all_iff)
    have "near \<subseteq> fst ` set scores"
    proof
      fix i assume "i \<in> near"
      then obtain k t x where *: "k < N" "hop_reach R S k t" "x \<in> R" "t \<in> row_nodes x" "rl_memory_id (gr_relation x) = i"
        by (auto simp: near_def N)
      have "rl_memory_id (gr_relation x) \<in> fst ` set scores"
        unfolding scores_def
        by (rule walk_hops_complete [where R = R and S = S and k = k and t = t])
          (use complete ne * in \<open>auto simp: S normalized_def elim: hop_reach_0E\<close>)
      then show "i \<in> fst ` set scores" using * by simp
    qed
    then have eq: "fst ` set scores = near" using keys by blast
    have "fst ` set scores \<subseteq> (\<lambda>x. rl_memory_id (gr_relation x)) ` set g"
      using eq by (auto simp: near_def R_def)
    then have "card (fst ` set scores) \<le> length g"
      by (meson card_length card_image_le card_mono finite_imageI finite_set le_trans)
    then have "length scores \<le> length g" using dist by (metis distinct_card length_map list.set_map)
    then have "py_take limit (sort_desc snd scores) = sort_desc snd scores"
      using lim by (intro py_take_all) simp
    then show ?thesis using eq by (simp add: ids_def)
  qed
  moreover have "walk_related_memory_ids pick terms limit max_hops at_time graph_names g = Inr ids"
  proof (cases "normalized = []")
    case True
    then have "scores = []" by (cases N) (simp_all add: scores_def)
    then show ?thesis using True
      by (simp add: walk_related_memory_ids_def normalized_def ids_def sort_desc_def py_take_def)
  next
    case False
    then show ?thesis
      by (simp add: walk_related_memory_ids_def normalized_def [symmetric] assms(4) ids_def scores_def N_def sel_def)
  qed
  ultimately show ?thesis
    using keys ids_sub unfolding near_def R_def S_def by (auto simp: Let_def)
qed

definition demo_graph :: graph where
  "demo_graph = fst (add_relation None demo_relation [])"

lemma demo_graph_ok: "graph_ok demo_graph"
  by (simp add: demo_graph_def add_relation_graph_ok)

lemma walk_is_reachability_witness:
  "\<exists>ids. walk_related_memory_ids sql_limit [''Tea''] 5 2 (Some 3) [''Temporal''] demo_graph = Inr ids
    \<and> distinct ids \<and> int (length ids) \<le> 5"
proof -
  have "res_each (\<lambda>n. graph_name_of (Some n) None None) [''Temporal''] = Inr [''temporal'']" by code_simp
  then show ?thesis
    using walk_is_reachability [OF table_order.row_choice_axioms demo_graph_ok, of 5 "[''Temporal'']" "[''temporal'']"
        "[''Tea'']" 2 "Some 3"] by auto
qed

section \<open>Answerable subgraphs\<close>

definition subgraph_ok :: "string list \<Rightarrow> nat \<Rightarrow> (relation \<Rightarrow> bool) \<Rightarrow> subgraph \<Rightarrow> bool" where
  "subgraph_ok anchors k P b =
     (0 \<le> sg_answerability b \<and> sg_answerability b \<le> 1
      \<and> distinct (sg_anchor_terms b) \<and> set (sg_anchor_terms b) \<subseteq> set anchors
      \<and> distinct (sg_memory_ids b) \<and> set (sg_memory_ids b) = rl_memory_id ` set (sg_relations b)
      \<and> (\<forall>r\<in>set (sg_relations b). P r \<and> rl_graph_name r = sg_graph_name b
           \<and> k \<le> length (filter (\<lambda>a. a \<in> set (relation_terms r)) anchors)))"

lemma subgraph_add_ok:
  assumes "subgraph_ok anchors k P b" "distinct anchors" "matched = filter (\<lambda>a. a \<in> set (relation_terms r)) anchors"
    and "k \<le> length matched" "P r" "rl_graph_name r = sg_graph_name b" "0 \<le> rl_confidence r" "rl_confidence r \<le> 1"
  shows "subgraph_ok anchors k P (subgraph_add anchors r matched b)"
proof -
  let ?terms = "dedupe (sg_anchor_terms b @ matched)"
  have sub: "set ?terms \<subseteq> set anchors" using assms(1,3) by (auto simp: subgraph_ok_def)
  then have "length ?terms \<le> length anchors"
    using assms(2) by (metis card_mono distinct_card distinct_dedupe finite_set)
  then have c: "real (length ?terms) / max 1 (real (length anchors)) \<le> 1" by simp
  let ?x = "real (length ?terms) / max 1 (real (length anchors)) * rl_confidence r"
  have "0 \<le> ?x" using assms(7) by simp
  moreover have "?x \<le> 1" using mult_le_one [OF c assms(7,8)] by simp
  ultimately have r: "0 \<le> py_round 4 ?x" "py_round 4 ?x \<le> 1" by (rule py_round_unit)+
  show ?thesis
    using assms sub r by (auto simp: subgraph_ok_def subgraph_add_def Let_def)
qed

lemma subgraph_steps_ok:
  assumes "distinct anchors" "\<forall>r\<in>set rels. P r \<and> 0 \<le> rl_confidence r \<and> rl_confidence r \<le> 1"
    and "\<forall>p\<in>set grouped. subgraph_ok anchors k P (snd p) \<and> fst p = sg_graph_name (snd p)"
  shows "\<forall>p\<in>set (foldl (subgraph_step anchors k) grouped rels).
    subgraph_ok anchors k P (snd p) \<and> fst p = sg_graph_name (snd p)"
  using assms(2,3)
proof (induction rels arbitrary: grouped)
  case Nil
  then show ?case by simp
next
  case (Cons r rels)
  define matched where "matched = filter (\<lambda>a. a \<in> set (relation_terms r)) anchors"
  have "\<forall>p\<in>set (subgraph_step anchors k grouped r). subgraph_ok anchors k P (snd p) \<and> fst p = sg_graph_name (snd p)"
  proof (cases "length matched < k")
    case True
    then show ?thesis using Cons.prems by (simp add: subgraph_step_def matched_def)
  next
    case False
    define b where "b = (case map_of grouped (rl_graph_name r) of Some b \<Rightarrow> b
        | None \<Rightarrow> \<lparr>sg_graph_name = rl_graph_name r, sg_relations = [], sg_memory_ids = [],
            sg_anchor_terms = [], sg_answerability = 0\<rparr>)"
    have b: "subgraph_ok anchors k P b" "rl_graph_name r = sg_graph_name b"
    proof -
      have "subgraph_ok anchors k P b \<and> rl_graph_name r = sg_graph_name b"
      proof (cases "map_of grouped (rl_graph_name r)")
        case None
        then show ?thesis by (simp add: b_def subgraph_ok_def)
      next
        case (Some c)
        then show ?thesis using Cons.prems(2) map_of_SomeD [OF Some] by (auto simp: b_def)
      qed
      then show "subgraph_ok anchors k P b" "rl_graph_name r = sg_graph_name b" by simp_all
    qed
    have new: "subgraph_ok anchors k P (subgraph_add anchors r matched b)"
      using Cons.prems(1) b False by (intro subgraph_add_ok [OF b(1) assms(1) matched_def]) auto
    have "set (d_set n v d) \<subseteq> insert (n, v) (set d)" for n v and d :: "(string \<times> subgraph) list"
      by (induction d) (auto split: if_splits)
    then have sub: "set (subgraph_step anchors k grouped r)
        \<subseteq> insert (rl_graph_name r, subgraph_add anchors r matched b) (set grouped)"
      using False by (simp add: subgraph_step_def matched_def [symmetric] b_def [symmetric] Let_def)
    show ?thesis
    proof -
      have "sg_graph_name (subgraph_add anchors r matched b) = rl_graph_name r"
        by (simp add: subgraph_add_def Let_def b(2))
      then have "\<forall>p\<in>insert (rl_graph_name r, subgraph_add anchors r matched b) (set grouped).
          subgraph_ok anchors k P (snd p) \<and> fst p = sg_graph_name (snd p)"
        using new Cons.prems(2) by simp
      then show ?thesis using sub by blast
    qed
  qed
  moreover have "\<forall>r\<in>set rels. P r \<and> 0 \<le> rl_confidence r \<and> rl_confidence r \<le> 1"
    using Cons.prems(1) by simp
  ultimately show ?case
    unfolding foldl_Cons using Cons.IH [of "subgraph_step anchors k grouped r"] by blast
qed

text \<open>
  Each answerable subgraph holds only active relations of one graph that mention enough of the
  anchor terms, its score is in \<open>[0, 1]\<close>, and the subgraphs come by score, the best first.
\<close>

theorem answerable_subgraphs_spec:
  assumes "graph_ok g" "answerable_subgraphs terms graph_names memory_ids at_time limit k g = Inr bs"
  shows "sorted_wrt (\<lambda>a b. sg_answerability b \<le> sg_answerability a) bs
    \<and> (\<forall>b\<in>set bs. 0 \<le> sg_answerability b \<and> sg_answerability b \<le> 1
        \<and> set (sg_anchor_terms b) \<subseteq> anchor_term ` set terms
        \<and> (\<forall>r\<in>set (sg_relations b). r \<in> gr_relation ` set g \<and> relation_active at_time r
             \<and> rl_graph_name r = sg_graph_name b
             \<and> (memory_ids = [] \<or> rl_memory_id r \<in> set memory_ids)
             \<and> k \<le> card (anchor_term ` set terms \<inter> set (relation_terms r))))"
proof -
  define anchors where "anchors = dedupe (filter (\<lambda>t. t \<noteq> []) (map anchor_term terms))"
  show ?thesis
  proof (cases "anchors = []")
    case True
    then show ?thesis using assms(2) by (simp add: answerable_subgraphs_def anchors_def [symmetric] Let_def)
  next
    case False
    then obtain wanted where "res_each (\<lambda>n. graph_name_of (Some n) None None) graph_names = Inr wanted"
      using assms(2) by (auto simp: answerable_subgraphs_def anchors_def [symmetric] Let_def res_bind_eq_Inr)
    define E where "E = (\<lambda>x :: graph_row. (wanted = [] \<or> rl_graph_name (gr_relation x) \<in> set wanted)
        \<and> (memory_ids = [] \<or> rl_memory_id (gr_relation x) \<in> set memory_ids) \<and> relation_active at_time (gr_relation x))"
    define rels where "rels = sql_limit (max (limit * 12) 50) (ordered_relations E g)"
    define grouped where "grouped = foldl (subgraph_step anchors k) [] rels"
    define P where "P = (\<lambda>r. r \<in> gr_relation ` set g \<and> relation_active at_time r
        \<and> (memory_ids = [] \<or> rl_memory_id r \<in> set memory_ids))"
    have bs: "bs = map (\<lambda>b. b\<lparr>sg_anchor_terms := sort (sg_anchor_terms b),
        sg_relations := py_take limit (sg_relations b)\<rparr>) (py_take limit (sort_desc sg_answerability (map snd grouped)))"
      using assms(2) False \<open>res_each _ _ = Inr wanted\<close>
      by (simp add: answerable_subgraphs_def anchors_def [symmetric] Let_def grouped_def rels_def E_def)
    have "\<forall>r\<in>set rels. P r \<and> 0 \<le> rl_confidence r \<and> rl_confidence r \<le> 1"
      using assms(1) set_sql_limit [of "max (limit * 12) 50" "ordered_relations E g"]
      by (fastforce simp: rels_def set_ordered_relations P_def E_def graph_ok_def list_all_iff row_ok_def)
    then have ok: "\<forall>p\<in>set grouped. subgraph_ok anchors k P (snd p)"
      using subgraph_steps_ok [of anchors rels P "[]" k] by (simp add: grouped_def anchors_def)
    have "sorted_wrt (\<lambda>a b. sg_answerability b \<le> sg_answerability a)
        (py_take limit (sort_desc sg_answerability (map snd grouped)))"
      by (simp add: py_take_def sorted_wrt_take sort_desc_sorted)
    then have "sorted_wrt (\<lambda>a b. sg_answerability b \<le> sg_answerability a) bs"
      by (simp add: bs sorted_wrt_map)
    moreover have "0 \<le> sg_answerability b \<and> sg_answerability b \<le> 1
        \<and> set (sg_anchor_terms b) \<subseteq> anchor_term ` set terms
        \<and> (\<forall>r\<in>set (sg_relations b). P r \<and> rl_graph_name r = sg_graph_name b
             \<and> k \<le> card (anchor_term ` set terms \<inter> set (relation_terms r)))" if bmem: "b \<in> set bs" for b
    proof -
      obtain c where c: "c \<in> set (sort_desc sg_answerability (map snd grouped))"
        and b: "b = c\<lparr>sg_anchor_terms := sort (sg_anchor_terms c), sg_relations := py_take limit (sg_relations c)\<rparr>"
      proof -
        obtain c where c1: "c \<in> set (py_take limit (sort_desc sg_answerability (map snd grouped)))"
          and c2: "b = c\<lparr>sg_anchor_terms := sort (sg_anchor_terms c), sg_relations := py_take limit (sg_relations c)\<rparr>"
          using bmem unfolding bs by auto
        show ?thesis by (rule that [OF subsetD [OF set_py_take c1] c2])
      qed
      then have co: "subgraph_ok anchors k P c" using ok by auto
      have sub: "set anchors \<subseteq> anchor_term ` set terms" by (auto simp: anchors_def)
      have card: "length (filter (\<lambda>a. a \<in> set (relation_terms r)) anchors)
          \<le> card (anchor_term ` set terms \<inter> set (relation_terms r))" for r
      proof -
        have "distinct (filter (\<lambda>a. a \<in> set (relation_terms r)) anchors)" by (simp add: anchors_def)
        then have "length (filter (\<lambda>a. a \<in> set (relation_terms r)) anchors)
            = card {a \<in> set anchors. a \<in> set (relation_terms r)}" by (metis distinct_card set_filter)
        also have "\<dots> \<le> card (anchor_term ` set terms \<inter> set (relation_terms r))"
          using sub by (intro card_mono) auto
        finally show ?thesis .
      qed
      have rs: "set (sg_relations b) \<subseteq> set (sg_relations c)"
        using set_py_take [of limit "sg_relations c"] by (simp add: b)
      have f: "0 \<le> sg_answerability c" "sg_answerability c \<le> 1" "set (sg_anchor_terms c) \<subseteq> set anchors"
        "\<And>r. r \<in> set (sg_relations c) \<Longrightarrow> P r \<and> rl_graph_name r = sg_graph_name c
           \<and> k \<le> length (filter (\<lambda>a. a \<in> set (relation_terms r)) anchors)"
        using co unfolding subgraph_ok_def by blast+
      have g: "sg_answerability b = sg_answerability c" "set (sg_anchor_terms b) = set (sg_anchor_terms c)"
        "sg_graph_name b = sg_graph_name c"
        by (simp_all add: b)
      have "P r \<and> rl_graph_name r = sg_graph_name b
          \<and> k \<le> card (anchor_term ` set terms \<inter> set (relation_terms r))" if r: "r \<in> set (sg_relations b)" for r
        using f(4) [OF subsetD [OF rs r]] card [of r] g(3) by (metis le_trans)
      then show ?thesis using f(1-3) g sub by (metis subset_trans)
    qed
    ultimately show ?thesis unfolding P_def by blast
  qed
qed

lemma answerable_subgraphs_spec_witness:
  "\<exists>bs. answerable_subgraphs [''Maria'', ''tea''] [] [] None 6 2 demo_graph = Inr bs
    \<and> sorted_wrt (\<lambda>a b. sg_answerability b \<le> sg_answerability a) bs"
proof -
  obtain bs where "answerable_subgraphs [''Maria'', ''tea''] [] [] None 6 2 demo_graph = Inr bs"
    by (cases "answerable_subgraphs [''Maria'', ''tea''] [] [] None 6 2 demo_graph")
      (auto simp: answerable_subgraphs_def Let_def split: if_splits)
  then show ?thesis using answerable_subgraphs_spec [OF demo_graph_ok] by blast
qed

end
