(* ===== verification/Engram.thy ===== *)
theory Engram
  imports Schema Table
begin

text \<open>
  \<open>engram.py\<close>: the cache of hot queries. A query's last tokens are hashed into a bucket, in which an entry
  is found by the signature of the query with its scope and tags. \<open>nf\<close> is \<open>unicodedata.normalize("NFKC", _)\<close>,
  which leaves the code points of the model; \<open>now\<close> is the clock.
\<close>

unbundle bit_operations_syntax

section \<open>Hashing the suffix of a query\<close>

definition PRIMES :: "int list" where
  "PRIMES = [31, 37, 41, 43, 47, 53, 59, 61, 67, 71, 73, 79]"

record ngram_hasher =
  table_size :: int
  n_heads :: int
  ngram_orders :: "int list"

definition hasher_new :: "int \<Rightarrow> int \<Rightarrow> int list \<Rightarrow> ngram_hasher result" where
  "hasher_new slots heads orders =
     (if slots \<le> 0 then Inl (ValueError ''table_size must be positive'')
      else if heads \<le> 0 \<or> int (length PRIMES) < heads then Inl (ValueError ''n_heads must be between 1 and 12'')
      else Inr \<lparr>table_size = slots, n_heads = heads, ngram_orders = (if orders = [] then [2, 3] else orders)\<rparr>)"

definition normalize_query :: "(string \<Rightarrow> string) \<Rightarrow> string \<Rightarrow> string" where
  "normalize_query nf text = py_lower (py_strip (nf text))"

definition query_tokens :: "(string \<Rightarrow> string) \<Rightarrow> string \<Rightarrow> string list" where
  "query_tokens nf text = py_split (normalize_query nf text)"

text \<open>\<open>xs[-n:]\<close>.\<close>

definition py_last :: "int \<Rightarrow> 'a list \<Rightarrow> 'a list" where
  "py_last n xs = (if 0 < n then drop (length xs - nat n) xs else drop (nat (- n)) xs)"

definition token_hash :: "string \<Rightarrow> int" where
  "token_hash t = int (from_bytes_little (take 8 (sha256 (utf8_encode t))))"

definition hash_ngram :: "ngram_hasher \<Rightarrow> string list \<Rightarrow> nat \<Rightarrow> int" where
  "hash_ngram h ts head =
     fold (\<lambda>(index, t) acc. acc XOR ((token_hash t * PRIMES ! head * index) mod table_size h))
       (zip (map int [1..<Suc (length ts)]) ts) 0 mod table_size h"

definition suffix_ngram :: "ngram_hasher \<Rightarrow> string list \<Rightarrow> string list" where
  "suffix_ngram h ts = py_last (min (Max (set (ngram_orders h))) (int (length ts))) ts"

definition primary_index :: "(string \<Rightarrow> string) \<Rightarrow> ngram_hasher \<Rightarrow> string \<Rightarrow> int" where
  "primary_index nf h text =
     (let ts = query_tokens nf text in if ts = [] then 0 else hash_ngram h (suffix_ngram h ts) 0)"

definition all_indices :: "(string \<Rightarrow> string) \<Rightarrow> ngram_hasher \<Rightarrow> string \<Rightarrow> int list" where
  "all_indices nf h text =
     (let ts = query_tokens nf text in
      if ts = [] then replicate (nat (n_heads h)) 0
      else map (hash_ngram h (suffix_ngram h ts)) [0..<nat (n_heads h)])"

section \<open>The cache\<close>

record engram_entry =
  ee_query :: string
  ee_signature :: string
  ee_memory_ids :: "string list"
  ee_scope :: py_dict
  ee_tags :: "string list"
  ee_hit_count :: int
  ee_created_at :: real
  ee_last_access :: real

record engram =
  eg_hasher :: ngram_hasher
  cache_threshold :: int
  max_memory_ids :: int
  eg_entries :: "(int \<times> engram_entry list) list"
  query_counts :: "(string \<times> int) list"
  total_lookups :: int
  cache_hits :: int
  cache_misses :: int
  collision_rejections :: int
  auto_cached :: int

definition engram_new :: "int \<Rightarrow> int \<Rightarrow> int \<Rightarrow> int \<Rightarrow> engram result" where
  "engram_new slots heads threshold max_ids =
     (if threshold \<le> 0 then Inl (ValueError ''cache_threshold must be positive'')
      else if max_ids \<le> 0 then Inl (ValueError ''max_memory_ids must be positive'')
      else res_bind (hasher_new slots heads []) (\<lambda>h.
        Inr \<lparr>eg_hasher = h, cache_threshold = threshold, max_memory_ids = max_ids, eg_entries = [],
             query_counts = [], total_lookups = 0, cache_hits = 0, cache_misses = 0,
             collision_rejections = 0, auto_cached = 0\<rparr>))"

definition signature_of :: "(string \<Rightarrow> string) \<Rightarrow> string \<Rightarrow> py_dict \<Rightarrow> string list \<Rightarrow> string result" where
  "signature_of nf query sc tgs =
     res_bind (stable_json (VDict [(''query'', VStr (normalize_query nf query)), (''scope'', VDict sc),
         (''tags'', str_list (sort tgs))])) (\<lambda>t. Inr (sha256_hexdigest (utf8_encode t)))"

definition bucket_at :: "int \<Rightarrow> engram \<Rightarrow> engram_entry list" where
  "bucket_at i c = (case map_of (eg_entries c) i of None \<Rightarrow> [] | Some b \<Rightarrow> b)"

definition entry_touch :: "real \<Rightarrow> engram_entry \<Rightarrow> engram_entry" where
  "entry_touch now e = e\<lparr>ee_hit_count := ee_hit_count e + 1, ee_last_access := now\<rparr>"

text \<open>The first entry of a bucket with a signature, changed in place.\<close>

fun change_entry :: "string \<Rightarrow> (engram_entry \<Rightarrow> engram_entry) \<Rightarrow> engram_entry list \<Rightarrow> engram_entry list" where
  "change_entry sig f [] = []"
| "change_entry sig f (e # es) = (if ee_signature e = sig then f e # es else e # change_entry sig f es)"

definition engram_lookup ::
  "(string \<Rightarrow> string) \<Rightarrow> real \<Rightarrow> string \<Rightarrow> py_dict \<Rightarrow> string list \<Rightarrow> int option \<Rightarrow> (engram, string list) action" where
  "engram_lookup nf now query sc tgs top_k c =
     (let c1 = c\<lparr>total_lookups := total_lookups c + 1\<rparr>; i = primary_index nf (eg_hasher c) query; b = bucket_at i c in
      case signature_of nf query sc tgs of
        Inl err \<Rightarrow> (c1, Inl err)
      | Inr sig \<Rightarrow>
          (case find (\<lambda>e. ee_signature e = sig) b of
             Some e \<Rightarrow>
               (c1\<lparr>eg_entries := d_set i (change_entry sig (entry_touch now) b) (eg_entries c),
                   cache_hits := cache_hits c + 1\<rparr>,
                Inr (case top_k of None \<Rightarrow> ee_memory_ids e | Some k \<Rightarrow> py_take k (ee_memory_ids e)))
           | None \<Rightarrow>
               (c1\<lparr>collision_rejections := collision_rejections c + (if b \<noteq> [] then 1 else 0),
                   cache_misses := cache_misses c + 1\<rparr>, Inr [])))"

definition engram_cache ::
  "(string \<Rightarrow> string) \<Rightarrow> real \<Rightarrow> string \<Rightarrow> string list \<Rightarrow> py_dict \<Rightarrow> string list \<Rightarrow> (engram, bool) action" where
  "engram_cache nf now query ids sc tgs c =
     (case signature_of nf query sc tgs of
        Inl err \<Rightarrow> (c, Inl err)
      | Inr sig \<Rightarrow>
          (let deduped = py_take (max_memory_ids c) (dedupe ids) in
           if deduped = [] then (c, Inr False)
           else
             (let entry = \<lparr>ee_query = query, ee_signature = sig, ee_memory_ids = deduped, ee_scope = sc,
                           ee_tags = sort tgs, ee_hit_count = 0, ee_created_at = now, ee_last_access = now\<rparr>;
                  i = primary_index nf (eg_hasher c) query; b = bucket_at i c
              in if list_ex (\<lambda>e. ee_signature e = sig) b
                 then (c\<lparr>eg_entries := d_set i (change_entry sig (\<lambda>_. entry) b) (eg_entries c)\<rparr>, Inr False)
                 else (c\<lparr>eg_entries := d_set i (b @ [entry]) (eg_entries c)\<rparr>, Inr True))))"

definition query_count :: "string \<Rightarrow> engram \<Rightarrow> int" where
  "query_count sig c = (case map_of (query_counts c) sig of None \<Rightarrow> 0 | Some n \<Rightarrow> n)"

definition record_result ::
  "(string \<Rightarrow> string) \<Rightarrow> real \<Rightarrow> string \<Rightarrow> string list \<Rightarrow> py_dict \<Rightarrow> string list \<Rightarrow> (engram, bool) action" where
  "record_result nf now query ids sc tgs c =
     (if ids = [] then (c, Inr False)
      else (case signature_of nf query sc tgs of
          Inl err \<Rightarrow> (c, Inl err)
        | Inr sig \<Rightarrow>
            (let c1 = c\<lparr>query_counts := d_set sig (query_count sig c + 1) (query_counts c)\<rparr> in
             if query_count sig c + 1 < cache_threshold c then (c1, Inr False)
             else (case engram_cache nf now query ids sc tgs c1 of
                 (c2, Inl err) \<Rightarrow> (c2, Inl err)
               | (c2, Inr created) \<Rightarrow>
                   ((if created then c2\<lparr>auto_cached := auto_cached c2 + 1\<rparr> else c2), Inr created)))))"

definition drop_memory :: "string \<Rightarrow> engram_entry \<Rightarrow> engram_entry" where
  "drop_memory m e = e\<lparr>ee_memory_ids := filter (\<lambda>x. x \<noteq> m) (ee_memory_ids e)\<rparr>"

definition invalidate_memory :: "string \<Rightarrow> engram \<Rightarrow> engram \<times> int" where
  "invalidate_memory m c =
     (let kept = map (\<lambda>(i, b). (i, filter (\<lambda>e. ee_memory_ids e \<noteq> []) (map (drop_memory m) b))) (eg_entries c)
      in (c\<lparr>eg_entries := filter (\<lambda>(i, b). b \<noteq> []) kept\<rparr>,
          sum_list (map (\<lambda>(i, b). int (length (filter (\<lambda>e. m \<in> set (ee_memory_ids e)) b))) (eg_entries c))))"

definition engram_clear :: "engram \<Rightarrow> engram" where
  "engram_clear c = c\<lparr>eg_entries := [], query_counts := [], total_lookups := 0, cache_hits := 0,
     cache_misses := 0, collision_rejections := 0, auto_cached := 0\<rparr>"

definition engram_stats :: "engram \<Rightarrow> py_dict" where
  "engram_stats c =
    [(''entries'', VInt (sum_list (map (\<lambda>(i, b). int (length b)) (eg_entries c)))),
     (''buckets'', VInt (int (length (eg_entries c)))),
     (''total_lookups'', VInt (total_lookups c)), (''cache_hits'', VInt (cache_hits c)),
     (''cache_misses'', VInt (cache_misses c)),
     (''hit_rate'', VFloat (of_int (cache_hits c) / of_int (max 1 (total_lookups c)))),
     (''collision_rejections'', VInt (collision_rejections c)), (''auto_cached'', VInt (auto_cached c)),
     (''frequent_queries'', VInt (int (length (filter (\<lambda>(s, n). cache_threshold c \<le> n) (query_counts c)))))]"

section \<open>The cache as a map\<close>

text \<open>
  What the cache holds for a bucket and a signature; the operations act on it as on a map from keys to
  lists of memory ids.
\<close>

definition cached_ids :: "engram \<Rightarrow> int \<times> string \<Rightarrow> string list option" where
  "cached_ids c k = map_option ee_memory_ids (find (\<lambda>e. ee_signature e = snd k) (bucket_at (fst k) c))"

definition entry_ok :: "(string \<Rightarrow> string) \<Rightarrow> engram \<Rightarrow> int \<Rightarrow> engram_entry \<Rightarrow> bool" where
  "entry_ok nf c i e =
     (ee_memory_ids e \<noteq> [] \<and> distinct (ee_memory_ids e) \<and> int (length (ee_memory_ids e)) \<le> max_memory_ids c
      \<and> primary_index nf (eg_hasher c) (ee_query e) = i
      \<and> signature_of nf (ee_query e) (ee_scope e) (ee_tags e) = Inr (ee_signature e))"

definition bucket_ok :: "(string \<Rightarrow> string) \<Rightarrow> engram \<Rightarrow> int \<Rightarrow> engram_entry list \<Rightarrow> bool" where
  "bucket_ok nf c i b = (b \<noteq> [] \<and> distinct (map ee_signature b) \<and> list_all (entry_ok nf c i) b)"

definition counters_ok :: "engram \<Rightarrow> bool" where
  "counters_ok c =
     (0 \<le> cache_hits c \<and> 0 \<le> collision_rejections c \<and> collision_rejections c \<le> cache_misses c
      \<and> cache_hits c + cache_misses c \<le> total_lookups c)"

definition engram_ok :: "(string \<Rightarrow> string) \<Rightarrow> engram \<Rightarrow> bool" where
  "engram_ok nf c =
     (0 < cache_threshold c \<and> 0 < max_memory_ids c \<and> distinct (map fst (eg_entries c))
      \<and> (\<forall>(i, b)\<in>set (eg_entries c). bucket_ok nf c i b) \<and> counters_ok c)"

lemma bucket_at_set [simp]:
  "bucket_at j (c\<lparr>eg_entries := d_set i b (eg_entries c)\<rparr>) = (if j = i then b else bucket_at j c)"
  by (simp add: bucket_at_def)

lemma bucket_at_entries: "eg_entries c' = eg_entries c \<Longrightarrow> bucket_at j c' = bucket_at j c"
  by (simp add: bucket_at_def)

lemma cached_ids_entries: "eg_entries c' = eg_entries c \<Longrightarrow> cached_ids c' = cached_ids c"
  by (simp add: cached_ids_def fun_eq_iff bucket_at_def)

lemma cached_ids_set:
  "eg_entries c' = d_set i b (eg_entries c) \<Longrightarrow>
     cached_ids c' k = (if fst k = i then map_option ee_memory_ids (find (\<lambda>e. ee_signature e = snd k) b) else cached_ids c k)"
  by (simp add: cached_ids_def bucket_at_def)

lemma find_change_entry:
  assumes "\<And>e. ee_signature e = sig \<Longrightarrow> ee_signature (f e) = sig"
  shows "find (\<lambda>e. ee_signature e = s) (change_entry sig f es) =
    (if s = sig then map_option f (find (\<lambda>e. ee_signature e = s) es) else find (\<lambda>e. ee_signature e = s) es)"
  using assms by (induction es) auto

lemma set_change_entry: "set (change_entry sig f es) \<subseteq> f ` {e \<in> set es. ee_signature e = sig} \<union> set es"
  by (induction es) auto

lemma signatures_change_entry:
  "(\<And>e. ee_signature e = sig \<Longrightarrow> ee_signature (f e) = sig) \<Longrightarrow> map ee_signature (change_entry sig f es) = map ee_signature es"
  by (induction es) auto

lemma bucket_at_in: "bucket_at i c \<noteq> [] \<Longrightarrow> (i, bucket_at i c) \<in> set (eg_entries c)"
  by (auto simp: bucket_at_def dest: map_of_SomeD split: option.splits)

lemma bucket_at_ok:
  assumes "engram_ok nf c"
  shows "distinct (map ee_signature (bucket_at i c))" "\<forall>e\<in>set (bucket_at i c). entry_ok nf c i e"
  using assms bucket_at_in [of i c] by (cases "bucket_at i c = []"; force simp: engram_ok_def bucket_ok_def list_all_iff)+

lemma set_d_set: "set (d_set k v d) \<subseteq> insert (k, v) (set d)"
  by (induction k v d rule: d_set.induct) auto

lemma d_set_ne [simp]: "d_set k v d \<noteq> []"
  by (cases d) (auto split: if_splits)

section \<open>Each operation on the map\<close>

lemma lookup_cases:
  obtains (bad) err where "signature_of nf q sc tgs = Inl err"
      "engram_lookup nf now q sc tgs top_k c = (c\<lparr>total_lookups := total_lookups c + 1\<rparr>, Inl err)"
  | (hit) sig e where "signature_of nf q sc tgs = Inr sig"
      "find (\<lambda>e. ee_signature e = sig) (bucket_at (primary_index nf (eg_hasher c) q) c) = Some e"
      "engram_lookup nf now q sc tgs top_k c =
         (c\<lparr>total_lookups := total_lookups c + 1,
            eg_entries := d_set (primary_index nf (eg_hasher c) q)
              (change_entry sig (entry_touch now) (bucket_at (primary_index nf (eg_hasher c) q) c)) (eg_entries c),
            cache_hits := cache_hits c + 1\<rparr>,
          Inr (case top_k of None \<Rightarrow> ee_memory_ids e | Some k \<Rightarrow> py_take k (ee_memory_ids e)))"
  | (miss) sig where "signature_of nf q sc tgs = Inr sig"
      "find (\<lambda>e. ee_signature e = sig) (bucket_at (primary_index nf (eg_hasher c) q) c) = None"
      "engram_lookup nf now q sc tgs top_k c =
         (c\<lparr>total_lookups := total_lookups c + 1,
            collision_rejections := collision_rejections c
              + (if bucket_at (primary_index nf (eg_hasher c) q) c \<noteq> [] then 1 else 0),
            cache_misses := cache_misses c + 1\<rparr>, Inr [])"
proof (cases "signature_of nf q sc tgs")
  case (Inl err)
  then show ?thesis using bad by (simp add: engram_lookup_def Let_def)
next
  case (Inr sig)
  then show ?thesis
    using hit [OF Inr] miss [OF Inr]
    by (cases "find (\<lambda>e. ee_signature e = sig) (bucket_at (primary_index nf (eg_hasher c) q) c)")
      (simp_all add: engram_lookup_def Let_def)
qed

lemma touch_signature [simp]: "ee_signature (entry_touch now e) = ee_signature e"
  and touch_ids [simp]: "ee_memory_ids (entry_touch now e) = ee_memory_ids e"
  by (simp_all add: entry_touch_def)

lemma lookup_map:
  assumes "engram_lookup nf now q sc tgs top_k c = (c', x)"
  shows "cached_ids c' = cached_ids c"
    and "signature_of nf q sc tgs = Inr sig \<Longrightarrow> x = Inr (case cached_ids c (primary_index nf (eg_hasher c) q, sig) of
      None \<Rightarrow> [] | Some ids \<Rightarrow> (case top_k of None \<Rightarrow> ids | Some k \<Rightarrow> py_take k ids))"
proof -
  show "cached_ids c' = cached_ids c"
  proof (cases rule: lookup_cases [of nf q sc tgs now top_k c])
    case (hit s e)
    have "eg_entries c' = d_set (primary_index nf (eg_hasher c) q)
        (change_entry s (entry_touch now) (bucket_at (primary_index nf (eg_hasher c) q) c)) (eg_entries c)"
      using hit(3) assms by auto
    then have "cached_ids c' k = cached_ids c k" for k
      unfolding cached_ids_set [OF \<open>eg_entries c' = _\<close>]
      by (simp add: find_change_entry cached_ids_def option.map_comp comp_def)
    then show ?thesis by blast
  qed (use assms in \<open>auto intro!: cached_ids_entries\<close>)
  show "x = Inr (case cached_ids c (primary_index nf (eg_hasher c) q, sig) of
      None \<Rightarrow> [] | Some ids \<Rightarrow> (case top_k of None \<Rightarrow> ids | Some k \<Rightarrow> py_take k ids))"
    if s: "signature_of nf q sc tgs = Inr sig"
  proof (cases rule: lookup_cases [of nf q sc tgs now top_k c])
    case (hit sig' e)
    then show ?thesis using s assms by (cases top_k) (auto simp: cached_ids_def)
  next
    case (miss sig')
    then show ?thesis using s assms by (auto simp: cached_ids_def)
  qed (use s in simp)
qed

lemma cache_map:
  assumes "engram_cache nf now q ids sc tgs c = (c', Inr b)" "signature_of nf q sc tgs = Inr sig"
  shows "cached_ids c' = (if py_take (max_memory_ids c) (dedupe ids) = [] then cached_ids c
      else (cached_ids c)((primary_index nf (eg_hasher c) q, sig) \<mapsto> py_take (max_memory_ids c) (dedupe ids)))"
    and "b \<longleftrightarrow> py_take (max_memory_ids c) (dedupe ids) \<noteq> [] \<and> cached_ids c (primary_index nf (eg_hasher c) q, sig) = None"
proof -
  let ?ids = "py_take (max_memory_ids c) (dedupe ids)" and ?i = "primary_index nf (eg_hasher c) q"
  let ?e = "\<lparr>ee_query = q, ee_signature = sig, ee_memory_ids = ?ids, ee_scope = sc, ee_tags = sort tgs,
      ee_hit_count = 0, ee_created_at = now, ee_last_access = now\<rparr>"
  have ex: "list_ex (\<lambda>e. ee_signature e = sig) xs \<longleftrightarrow> find (\<lambda>e. ee_signature e = sig) xs \<noteq> None" for xs
    by (auto simp: list_ex_iff find_None_iff)
  show "cached_ids c' = (if ?ids = [] then cached_ids c else (cached_ids c)((?i, sig) \<mapsto> ?ids))"
  proof (cases "?ids = []")
    case True
    then show ?thesis using assms by (simp add: engram_cache_def)
  next
    case False
    show ?thesis
    proof (cases "list_ex (\<lambda>e. ee_signature e = sig) (bucket_at ?i c)")
      case True
      then have eq: "eg_entries c' = d_set ?i (change_entry sig (\<lambda>_. ?e) (bucket_at ?i c)) (eg_entries c)"
        using False assms by (auto simp: engram_cache_def Let_def)
      have "cached_ids c' k = ((cached_ids c)((?i, sig) \<mapsto> ?ids)) k" for k
        unfolding cached_ids_set [OF eq] using True
        by (cases k) (auto simp: find_change_entry cached_ids_def ex)
      then show ?thesis using False by auto
    next
      case no: False
      then have eq: "eg_entries c' = d_set ?i (bucket_at ?i c @ [?e]) (eg_entries c)"
        using False assms by (auto simp: engram_cache_def Let_def)
      have "cached_ids c' k = ((cached_ids c)((?i, sig) \<mapsto> ?ids)) k" for k
        unfolding cached_ids_set [OF eq] using no
        by (cases k) (auto simp: find_append cached_ids_def ex split: option.split)
      then show ?thesis using False by auto
    qed
  qed
  show "b \<longleftrightarrow> ?ids \<noteq> [] \<and> cached_ids c (?i, sig) = None"
    using assms unfolding cached_ids_def
    by (auto simp: engram_cache_def Let_def ex split: if_splits)
qed

lemma record_map:
  assumes "record_result nf now q ids sc tgs c = (c', Inr b)" "signature_of nf q sc tgs = Inr sig"
  shows "cached_ids c' = (if ids = [] \<or> query_count sig c + 1 < cache_threshold c \<or> py_take (max_memory_ids c) (dedupe ids) = []
      then cached_ids c
      else (cached_ids c)((primary_index nf (eg_hasher c) q, sig) \<mapsto> py_take (max_memory_ids c) (dedupe ids)))"
    and "ids \<noteq> [] \<Longrightarrow> query_count sig c' = query_count sig c + 1"
proof -
  let ?c1 = "c\<lparr>query_counts := d_set sig (query_count sig c + 1) (query_counts c)\<rparr>"
  have c1: "cached_ids ?c1 = cached_ids c" by (rule cached_ids_entries) simp
  have counts: "query_counts (fst (engram_cache nf now q ids sc tgs x)) = query_counts x" for x
    by (auto simp: engram_cache_def Let_def split: sum.split)
  obtain c2 y where y: "engram_cache nf now q ids sc tgs ?c1 = (c2, y)" by fastforce
  have auto: "cached_ids (c2\<lparr>auto_cached := n\<rparr>) = cached_ids c2" for n by (rule cached_ids_entries) simp
  show "cached_ids c' = (if ids = [] \<or> query_count sig c + 1 < cache_threshold c \<or> py_take (max_memory_ids c) (dedupe ids) = []
      then cached_ids c
      else (cached_ids c)((primary_index nf (eg_hasher c) q, sig) \<mapsto> py_take (max_memory_ids c) (dedupe ids)))"
  proof (cases "ids = [] \<or> query_count sig c + 1 < cache_threshold c")
    case True
    then show ?thesis using assms c1 by (auto simp: record_result_def Let_def split: if_splits)
  next
    case False
    then obtain b2 where "y = Inr b2" "cached_ids c' = cached_ids c2"
      using assms y auto by (cases y) (auto simp: record_result_def Let_def split: if_splits)
    then show ?thesis using cache_map(1) [of nf now q ids sc tgs ?c1 c2 b2 sig] y assms(2) c1 False by simp
  qed
  show "query_count sig c' = query_count sig c + 1" if "ids \<noteq> []"
  proof -
    have "query_counts c' = query_counts ?c1"
      using assms y that counts [of ?c1] by (cases y) (auto simp: record_result_def Let_def split: if_splits)
    then show ?thesis by (simp add: query_count_def)
  qed
qed

lemma map_of_kept:
  assumes "distinct (map fst es)"
  shows "map_of (filter (\<lambda>(i, b). b \<noteq> []) (map (\<lambda>(i, b). (i, g b)) es)) i
    = (case map_of es i of None \<Rightarrow> None | Some b \<Rightarrow> if g b = [] then None else Some (g b))"
  using assms
proof (induction es)
  case (Cons p es)
  have "map_of es i = None" if "fst p = i" using Cons.prems that by (auto simp: map_of_eq_None_iff)
  then show ?case using Cons by (cases p) auto
qed simp

lemma find_filter_map:
  assumes "distinct (map key es)" "\<And>e. key (f e) = key e"
  shows "find (\<lambda>e. key e = s) (filter P (map f es))
    = (case find (\<lambda>e. key e = s) es of None \<Rightarrow> None | Some e \<Rightarrow> if P (f e) then Some (f e) else None)"
  using assms(1)
proof (induction es)
  case (Cons e es)
  have "find (\<lambda>e. key e = s) es = None" if "key e = s" using Cons.prems that by (auto simp: find_None_iff) (metis imageI)
  then show ?case using Cons assms(2) by auto
qed simp

lemma invalidate_map:
  assumes "engram_ok nf c"
  shows "cached_ids (fst (invalidate_memory m c)) k =
    (case cached_ids c k of None \<Rightarrow> None
     | Some ids \<Rightarrow> if filter (\<lambda>x. x \<noteq> m) ids = [] then None else Some (filter (\<lambda>x. x \<noteq> m) ids))"
proof -
  let ?g = "\<lambda>b. filter (\<lambda>e. ee_memory_ids e \<noteq> []) (map (drop_memory m) b)"
  have "bucket_at (fst k) (fst (invalidate_memory m c)) = ?g (bucket_at (fst k) c)"
    using assms map_of_kept [of "eg_entries c" ?g "fst k"]
    by (auto simp: bucket_at_def invalidate_memory_def engram_ok_def split: option.split)
  moreover have "ee_signature (drop_memory m e) = ee_signature e" for e by (simp add: drop_memory_def)
  ultimately show ?thesis
    using find_filter_map [of ee_signature "bucket_at (fst k) c" "drop_memory m" "snd k"] bucket_at_ok(1) [OF assms]
    by (auto simp: cached_ids_def drop_memory_def split: option.split)
qed

section \<open>The invariant\<close>

lemma entries_ok_d_set:
  assumes "engram_ok nf c" "bucket_ok nf c i b" "eg_entries c' = d_set i b (eg_entries c)" "eg_hasher c' = eg_hasher c"
    "max_memory_ids c' = max_memory_ids c" "cache_threshold c' = cache_threshold c" "counters_ok c'"
  shows "engram_ok nf c'"
proof -
  have "bucket_ok nf c' = bucket_ok nf c"
    by (simp add: fun_eq_iff bucket_ok_def entry_ok_def list_all_iff assms(4,5))
  moreover have "\<forall>(j, d)\<in>set (d_set i b (eg_entries c)). bucket_ok nf c j d"
    using assms(1,2) set_d_set [of i b "eg_entries c"] by (fastforce simp: engram_ok_def)
  ultimately show ?thesis
    using assms distinct_d_set [of "eg_entries c" i b] by (simp add: engram_ok_def)
qed

lemma engram_ok_put:
  assumes "engram_ok nf c" "bucket_ok nf c i b"
  shows "engram_ok nf (c\<lparr>eg_entries := d_set i b (eg_entries c)\<rparr>)"
  by (rule entries_ok_d_set [OF assms]) (use assms(1) in \<open>simp_all add: engram_ok_def counters_ok_def\<close>)

lemma engram_ok_counters:
  assumes "engram_ok nf c" "eg_entries c' = eg_entries c" "eg_hasher c' = eg_hasher c"
    "max_memory_ids c' = max_memory_ids c" "cache_threshold c' = cache_threshold c" "counters_ok c'"
  shows "engram_ok nf c'"
proof -
  have "bucket_ok nf c' = bucket_ok nf c"
    by (simp add: fun_eq_iff bucket_ok_def entry_ok_def list_all_iff assms(3,4))
  then show ?thesis using assms by (simp add: engram_ok_def)
qed

lemma lookup_ok:
  assumes ok: "engram_ok nf c"
  shows "engram_ok nf (fst (engram_lookup nf now q sc tgs top_k c))"
proof -
  have n: "counters_ok c" using ok by (simp add: engram_ok_def)
  show ?thesis
  proof (cases rule: lookup_cases [of nf q sc tgs now top_k c])
    case (bad err)
    have "engram_ok nf (c\<lparr>total_lookups := total_lookups c + 1\<rparr>)"
      by (rule engram_ok_counters [OF ok]) (use n in \<open>simp_all add: counters_ok_def\<close>)
    then show ?thesis by (simp add: bad(2))
  next
    case (hit sig e)
    let ?i = "primary_index nf (eg_hasher c) q"
    let ?b = "change_entry sig (entry_touch now) (bucket_at ?i c)"
    have "entry_ok nf c ?i (entry_touch now x) = entry_ok nf c ?i x" for x by (simp add: entry_ok_def entry_touch_def)
    then have "\<forall>x\<in>set ?b. entry_ok nf c ?i x"
      using bucket_at_ok(2) [OF ok] set_change_entry [of sig "entry_touch now" "bucket_at ?i c"] by auto
    moreover have "map ee_signature ?b = map ee_signature (bucket_at ?i c)" by (rule signatures_change_entry) simp
    moreover have "bucket_at ?i c \<noteq> []" using hit(2) by auto
    ultimately have b: "bucket_ok nf c ?i ?b"
      using bucket_at_ok(1) [OF ok, of ?i] unfolding bucket_ok_def list_all_iff by (metis map_is_Nil_conv)
    have "engram_ok nf (c\<lparr>total_lookups := total_lookups c + 1, eg_entries := d_set ?i ?b (eg_entries c),
        cache_hits := cache_hits c + 1\<rparr>)"
      by (rule entries_ok_d_set [OF ok b]) (use n in \<open>simp_all add: counters_ok_def\<close>)
    then show ?thesis by (simp add: hit(3))
  next
    case (miss sig)
    have "engram_ok nf (c\<lparr>total_lookups := total_lookups c + 1, collision_rejections := collision_rejections c
        + (if bucket_at (primary_index nf (eg_hasher c) q) c \<noteq> [] then 1 else 0), cache_misses := cache_misses c + 1\<rparr>)"
      by (rule engram_ok_counters [OF ok]) (use n in \<open>simp_all add: counters_ok_def\<close>)
    then show ?thesis by (simp only: miss(3) fst_conv)
  qed
qed

lemma signature_sorted: "signature_of nf q sc (sort tgs) = signature_of nf q sc tgs"
  by (simp add: signature_of_def sorted_sort_id)

lemma distinct_py_take: "distinct xs \<Longrightarrow> distinct (py_take n xs)"
  by (simp add: py_take_def)

lemma cache_ok: "engram_ok nf c \<Longrightarrow> engram_ok nf (fst (engram_cache nf now q ids sc tgs c))"
proof (cases "signature_of nf q sc tgs")
  case (Inr sig)
  assume ok: "engram_ok nf c"
  let ?ids = "py_take (max_memory_ids c) (dedupe ids)" and ?i = "primary_index nf (eg_hasher c) q"
  let ?e = "\<lparr>ee_query = q, ee_signature = sig, ee_memory_ids = ?ids, ee_scope = sc, ee_tags = sort tgs,
      ee_hit_count = 0, ee_created_at = now, ee_last_access = now\<rparr>"
  have len: "int (length ?ids) \<le> max_memory_ids c"
    using length_py_take [of "max_memory_ids c" "dedupe ids"] ok unfolding engram_ok_def by linarith
  show ?thesis
  proof (cases "?ids = []")
    case True
    then show ?thesis using ok Inr by (simp add: engram_cache_def)
  next
    case ids: False
    then have e: "entry_ok nf c ?i ?e" using len Inr by (simp add: entry_ok_def distinct_py_take signature_sorted)
    note b = bucket_at_ok [OF ok, of ?i]
    have "bucket_ok nf c ?i (change_entry sig (\<lambda>_. ?e) (bucket_at ?i c))" if "list_ex (\<lambda>e. ee_signature e = sig) (bucket_at ?i c)"
    proof -
      have "\<forall>x\<in>set (change_entry sig (\<lambda>_. ?e) (bucket_at ?i c)). entry_ok nf c ?i x"
        using set_change_entry [of sig "\<lambda>_. ?e" "bucket_at ?i c"] b(2) e by auto
      moreover have "map ee_signature (change_entry sig (\<lambda>_. ?e) (bucket_at ?i c)) = map ee_signature (bucket_at ?i c)"
        by (rule signatures_change_entry) simp
      moreover have "bucket_at ?i c \<noteq> []" using that by auto
      ultimately show ?thesis using b(1) unfolding bucket_ok_def list_all_iff by (metis map_is_Nil_conv)
    qed
    moreover have "bucket_ok nf c ?i (bucket_at ?i c @ [?e])" if "\<not> list_ex (\<lambda>e. ee_signature e = sig) (bucket_at ?i c)"
      using b e that by (auto simp: bucket_ok_def list_all_iff list_ex_iff)
    ultimately show ?thesis
      using ok Inr ids engram_ok_put [OF ok, of ?i] by (simp add: engram_cache_def Let_def)
  qed
qed (simp add: engram_cache_def)

lemma record_ok: "engram_ok nf c \<Longrightarrow> engram_ok nf (fst (record_result nf now q ids sc tgs c))"
proof -
  assume ok: "engram_ok nf c"
  have n: "engram_ok nf (d\<lparr>query_counts := x\<rparr>) \<and> engram_ok nf (d\<lparr>auto_cached := y\<rparr>)" if d: "engram_ok nf d" for d x y
  proof -
    have "counters_ok d" using d by (simp add: engram_ok_def)
    then have "counters_ok (d\<lparr>query_counts := x\<rparr>)" "counters_ok (d\<lparr>auto_cached := y\<rparr>)" by (simp_all add: counters_ok_def)
    then show ?thesis using engram_ok_counters [OF d] by simp
  qed
  have "engram_ok nf (fst (engram_cache nf now q ids sc tgs (c\<lparr>query_counts := x\<rparr>)))" for x
    using cache_ok n [OF ok] by blast
  then show ?thesis
    using ok n by (auto simp: record_result_def Let_def split: sum.split prod.split) (metis fst_conv)+
qed

lemma invalidate_ok:
  assumes ok: "engram_ok nf c"
  shows "engram_ok nf (fst (invalidate_memory m c))"
proof -
  let ?g = "\<lambda>b. filter (\<lambda>e. ee_memory_ids e \<noteq> []) (map (drop_memory m) b)"
  let ?c = "fst (invalidate_memory m c)"
  have es: "eg_entries ?c = filter (\<lambda>(i, b). b \<noteq> []) (map (\<lambda>(i, b). (i, ?g b)) (eg_entries c))"
    "eg_hasher ?c = eg_hasher c" "max_memory_ids ?c = max_memory_ids c" "cache_threshold ?c = cache_threshold c"
    "counters_ok ?c = counters_ok c"
    by (simp_all add: invalidate_memory_def Let_def counters_ok_def)
  have entry: "entry_ok nf c i (drop_memory m e)" if "entry_ok nf c i e" "ee_memory_ids (drop_memory m e) \<noteq> []" for i e
  proof -
    have "int (length (filter (\<lambda>x. x \<noteq> m) (ee_memory_ids e))) \<le> int (length (ee_memory_ids e))" by simp
    then have "int (length (filter (\<lambda>x. x \<noteq> m) (ee_memory_ids e))) \<le> max_memory_ids c"
      using that(1) unfolding entry_ok_def by linarith
    then show ?thesis using that by (simp add: entry_ok_def drop_memory_def)
  qed
  have sigs: "distinct (map ee_signature (?g b))" if "distinct (map ee_signature b)" for b
  proof -
    have "map ee_signature (map (drop_memory m) b) = map ee_signature b" by (simp add: drop_memory_def)
    then show ?thesis using that distinct_map_filter by metis
  qed
  have "bucket_ok nf c i (?g b)" if "(i, b) \<in> set (eg_entries c)" "?g b \<noteq> []" for i b
    using ok that sigs [of b] entry by (auto simp: engram_ok_def bucket_ok_def list_all_iff)
  moreover have "bucket_ok nf ?c = bucket_ok nf c"
    by (simp add: fun_eq_iff bucket_ok_def entry_ok_def list_all_iff es(2,3))
  ultimately have "\<forall>(i, b)\<in>set (eg_entries ?c). bucket_ok nf ?c i b" unfolding es(1) by auto
  moreover have "distinct (map fst (eg_entries ?c))"
  proof -
    have "map fst (map (\<lambda>(i, b). (i, ?g b)) (eg_entries c)) = map fst (eg_entries c)" by auto
    then have "distinct (map fst (map (\<lambda>(i, b). (i, ?g b)) (eg_entries c)))"
      using ok unfolding engram_ok_def by metis
    then show ?thesis unfolding es(1) by (rule distinct_map_filter)
  qed
  ultimately show ?thesis using ok es by (simp add: engram_ok_def)
qed

lemma clear_ok: "engram_ok nf c \<Longrightarrow> engram_ok nf (engram_clear c)"
  by (simp add: engram_ok_def engram_clear_def counters_ok_def)

lemma new_ok: "engram_new slots heads threshold max_ids = Inr c \<Longrightarrow> engram_ok nf c"
  by (auto simp: engram_new_def engram_ok_def counters_ok_def res_bind_eq_Inr split: if_splits)

inductive engram_step :: "(string \<Rightarrow> string) \<Rightarrow> engram \<Rightarrow> engram \<Rightarrow> bool" for nf where
  lookup_step: "engram_step nf c (fst (engram_lookup nf now q sc tgs top_k c))"
| cache_step: "engram_step nf c (fst (engram_cache nf now q ids sc tgs c))"
| record_step: "engram_step nf c (fst (record_result nf now q ids sc tgs c))"
| invalidate_step: "engram_step nf c (fst (invalidate_memory m c))"
| clear_step: "engram_step nf c (engram_clear c)"

text \<open>
  From a new cache, whatever is looked up, recorded, cached, invalidated or cleared, every bucket holds
  at least one entry, every entry lies in the bucket of its own query under the signature of its own query,
  scope and tags, once, with one to \<open>max_memory_ids\<close> different memories; hits and misses never exceed
  the lookups, nor collisions the misses.
\<close>

theorem engram_reachable_ok:
  assumes "engram_new slots heads threshold max_ids = Inr c0" "(engram_step nf)\<^sup>*\<^sup>* c0 c"
  shows "engram_ok nf c"
  using assms(2)
proof (induction rule: rtranclp_induct)
  case base
  show ?case by (rule new_ok [OF assms(1)])
next
  case (step y z)
  from step(2,3) show ?case
    by (induction rule: engram_step.induct) (auto intro: lookup_ok cache_ok record_ok invalidate_ok clear_ok)
qed

text \<open>How often each signature's results were recorded.\<close>

definition counts :: "engram \<Rightarrow> string \<Rightarrow> int" where
  "counts c = (\<lambda>s. query_count s c)"

lemma counts_same: "query_counts c' = query_counts c \<Longrightarrow> counts c' = counts c"
  by (simp add: counts_def query_count_def)

lemma query_counts_kept:
  "query_counts (fst (engram_lookup nf now q sc tgs top_k c)) = query_counts c"
  "query_counts (fst (engram_cache nf now q ids sc tgs c)) = query_counts c"
  "query_counts (fst (invalidate_memory m c)) = query_counts c"
  by (auto simp: engram_lookup_def engram_cache_def invalidate_memory_def Let_def split: sum.split option.split)

lemma counts_set: "counts (c\<lparr>query_counts := d_set s n (query_counts c)\<rparr>) = (counts c)(s := n)"
  by (simp add: counts_def query_count_def fun_eq_iff)

lemma counts_record:
  assumes "signature_of nf q sc tgs = Inr sig"
  shows "counts (fst (record_result nf now q ids sc tgs c)) = (if ids = [] then counts c else (counts c)(sig := counts c sig + 1))"
proof -
  let ?c1 = "c\<lparr>query_counts := d_set sig (query_count sig c + 1) (query_counts c)\<rparr>"
  obtain c2 y where y: "engram_cache nf now q ids sc tgs ?c1 = (c2, y)" by fastforce
  have "query_counts c2 = query_counts ?c1" using query_counts_kept(2) [of nf now q ids sc tgs ?c1] y by simp
  then have "query_counts (fst (record_result nf now q ids sc tgs c)) = (if ids = [] then query_counts c else query_counts ?c1)"
    using assms y by (simp add: record_result_def Let_def split: sum.split)
  then have "counts (fst (record_result nf now q ids sc tgs c)) = (if ids = [] then counts c else counts ?c1)"
    by (simp add: counts_def query_count_def split: if_split_asm)
  then show ?thesis by (simp only: counts_set) (simp add: counts_def)
qed

text \<open>
  C12: take a well-formed cache and a query whose scope JSON can write. Seen as a map from (bucket, signature) to memory
  ids, with a count for each signature, a lookup returns what the map holds for its query, scope and tags, cut to
  \<open>top_k\<close>, and changes neither; caching writes the ids without repetition, cut to the maximum, says whether
  the key is new, and changes no count; recording a result that is not empty adds one to the count of its signature
  alone, and caches the result from the threshold on; invalidating a memory removes it from every entry, and an entry
  left empty with it; clearing leaves an empty map with no counts. No other key is affected, even in the same bucket.
\<close>

theorem engram_refines_map:
  assumes "engram_ok nf c" "signature_of nf q sc tgs = Inr sig"
  defines "k \<equiv> (primary_index nf (eg_hasher c) q, sig)"
    and "shorten \<equiv> \<lambda>ids. py_take (max_memory_ids c) (dedupe ids)"
  shows "(\<forall>now top_k. \<exists>c'. engram_lookup nf now q sc tgs top_k c = (c', Inr (case cached_ids c k of None \<Rightarrow> []
           | Some ids \<Rightarrow> (case top_k of None \<Rightarrow> ids | Some n \<Rightarrow> py_take n ids)))
           \<and> cached_ids c' = cached_ids c \<and> counts c' = counts c)
    \<and> (\<forall>now ids. \<exists>c'. engram_cache nf now q ids sc tgs c = (c', Inr (shorten ids \<noteq> [] \<and> cached_ids c k = None))
           \<and> cached_ids c' = (if shorten ids = [] then cached_ids c else (cached_ids c)(k \<mapsto> shorten ids))
           \<and> counts c' = counts c)
    \<and> (\<forall>now ids. cached_ids (fst (record_result nf now q ids sc tgs c)) =
           (if shorten ids = [] \<or> counts c sig + 1 < cache_threshold c then cached_ids c
            else (cached_ids c)(k \<mapsto> shorten ids)))
    \<and> (\<forall>now ids. counts (fst (record_result nf now q ids sc tgs c)) =
           (if ids = [] then counts c else (counts c)(sig := counts c sig + 1)))
    \<and> (\<forall>m j. cached_ids (fst (invalidate_memory m c)) j = (case cached_ids c j of None \<Rightarrow> None
           | Some ids \<Rightarrow> let ids' = filter (\<lambda>x. x \<noteq> m) ids in if ids' = [] then None else Some ids'))
    \<and> (\<forall>m. counts (fst (invalidate_memory m c)) = counts c)
    \<and> cached_ids (engram_clear c) = (\<lambda>_. None) \<and> counts (engram_clear c) = (\<lambda>_. 0)"
proof (intro conjI allI)
  fix now top_k
  obtain c' x where l: "engram_lookup nf now q sc tgs top_k c = (c', x)" by fastforce
  show "\<exists>c'. engram_lookup nf now q sc tgs top_k c = (c', Inr (case cached_ids c k of None \<Rightarrow> []
           | Some ids \<Rightarrow> (case top_k of None \<Rightarrow> ids | Some n \<Rightarrow> py_take n ids)))
        \<and> cached_ids c' = cached_ids c \<and> counts c' = counts c"
    using lookup_map(1) [OF l] lookup_map(2) [OF l assms(2)] l counts_same [OF query_counts_kept(1) [of nf now q sc tgs top_k c]]
    by (simp add: k_def)
next
  fix now ids
  obtain c' x where l: "engram_cache nf now q ids sc tgs c = (c', x)" by fastforce
  then obtain b where b: "x = Inr b" using assms(2) by (auto simp: engram_cache_def Let_def split: if_splits)
  show "\<exists>c'. engram_cache nf now q ids sc tgs c = (c', Inr (shorten ids \<noteq> [] \<and> cached_ids c k = None))
      \<and> cached_ids c' = (if shorten ids = [] then cached_ids c else (cached_ids c)(k \<mapsto> shorten ids))
      \<and> counts c' = counts c"
    using cache_map [OF l [unfolded b] assms(2)] l b counts_same [OF query_counts_kept(2) [of nf now q ids sc tgs c]]
    by (simp add: k_def shorten_def)
next
  fix now ids
  obtain c' x where l: "record_result nf now q ids sc tgs c = (c', x)" by fastforce
  have "\<exists>b. snd (engram_cache nf now q ids sc tgs d) = Inr b" for d
    using assms(2) by (auto simp: engram_cache_def Let_def)
  then obtain b where "x = Inr b"
    using l assms(2) by (auto simp: record_result_def Let_def split: if_splits prod.splits sum.splits) (metis snd_conv sum.distinct(1))+
  moreover have "shorten [] = []" by (simp add: shorten_def dedupe_def py_take_def)
  ultimately show "cached_ids (fst (record_result nf now q ids sc tgs c)) =
      (if shorten ids = [] \<or> counts c sig + 1 < cache_threshold c then cached_ids c
       else (cached_ids c)(k \<mapsto> shorten ids))"
    using record_map(1) [of nf now q ids sc tgs c c' b sig] l assms(2) by (auto simp: k_def shorten_def counts_def)
next
  fix m j
  show "cached_ids (fst (invalidate_memory m c)) j = (case cached_ids c j of None \<Rightarrow> None
      | Some ids \<Rightarrow> let ids' = filter (\<lambda>x. x \<noteq> m) ids in if ids' = [] then None else Some ids')"
    using invalidate_map [OF assms(1), of m j] by (simp add: Let_def split: option.split)
next
  show "cached_ids (engram_clear c) = (\<lambda>_. None)" "counts (engram_clear c) = (\<lambda>_. 0)"
    by (simp_all add: engram_clear_def cached_ids_def bucket_at_def counts_def query_count_def fun_eq_iff)
qed (rule counts_record [OF assms(2)], rule counts_same [OF query_counts_kept(3)])

section \<open>The hash\<close>

text \<open>
  Every index of a query lies in the table, one for each head, the first of them the primary one; and
  the indices depend on the last tokens only, as many as the largest order.
\<close>

theorem indices_in_table:
  assumes "hasher_new slots heads orders = Inr h"
  shows "length (all_indices nf h text) = nat heads \<and> (\<forall>i\<in>set (all_indices nf h text). 0 \<le> i \<and> i < slots)
    \<and> primary_index nf h text = all_indices nf h text ! 0
    \<and> (\<forall>text'. query_tokens nf text' \<noteq> [] \<and> suffix_ngram h (query_tokens nf text') = suffix_ngram h (query_tokens nf text)
         \<and> query_tokens nf text \<noteq> [] \<longrightarrow> all_indices nf h text' = all_indices nf h text)"
proof -
  have h: "0 < table_size h" "table_size h = slots" "0 < n_heads h" "n_heads h = heads"
    using assms by (auto simp: hasher_new_def split: if_splits)
  have r: "0 \<le> hash_ngram h ts k" "hash_ngram h ts k < slots" for ts k
    unfolding hash_ngram_def h(2) [symmetric] using h(1) by simp_all
  show ?thesis using h r by (auto simp: all_indices_def primary_index_def Let_def)
qed

definition demo_engram :: engram where
  "demo_engram = \<lparr>eg_hasher = \<lparr>table_size = 7, n_heads = 2, ngram_orders = [2, 3]\<rparr>, cache_threshold = 1,
     max_memory_ids = 2, eg_entries = [], query_counts = [], total_lookups = 0, cache_hits = 0, cache_misses = 0,
     collision_rejections = 0, auto_cached = 0\<rparr>"

lemma demo_engram_new: "engram_new 7 2 1 2 = Inr demo_engram"
  by (simp add: engram_new_def hasher_new_def demo_engram_def PRIMES_def)

lemma engram_reachable_ok_witness:
  "engram_ok id (fst (invalidate_memory ''m1'' (fst (engram_cache id 1 ''status'' [''m1'', ''m2''] [] [] demo_engram))))"
proof -
  have "(engram_step id)\<^sup>*\<^sup>* demo_engram (fst (invalidate_memory ''m1'' (fst (engram_cache id 1 ''status'' [''m1'', ''m2''] [] [] demo_engram))))"
    by (rule rtranclp_trans [of _ _ "fst (engram_cache id 1 ''status'' [''m1'', ''m2''] [] [] demo_engram)"])
      (rule r_into_rtranclp, rule engram_step.intros)+
  then show ?thesis by (rule engram_reachable_ok [OF demo_engram_new])
qed

lemma engram_refines_map_witness:
  "\<exists>sig. signature_of id ''status'' [] [] = Inr sig
    \<and> cached_ids (fst (engram_cache id 1 ''status'' [''m1'', ''m2'', ''m1'', ''m3''] [] [] demo_engram))
        (primary_index id (eg_hasher demo_engram) ''status'', sig) = Some [''m1'', ''m2'']"
proof -
  have "\<exists>sig. signature_of id ''status'' [] [] = Inr sig"
    by (simp add: signature_of_def stable_json_def str_list_def)
  then obtain sig where sig: "signature_of id ''status'' [] [] = Inr sig" by blast
  have ok: "engram_ok id demo_engram" by (rule new_ok [OF demo_engram_new])
  have "py_take (max_memory_ids demo_engram) (dedupe [''m1'', ''m2'', ''m1'', ''m3'']) = [''m1'', ''m2'']"
    by (simp add: demo_engram_def dedupe_def py_take_def)
  then show ?thesis
    using engram_refines_map [OF ok sig, THEN conjunct2, THEN conjunct1, rule_format, of 1 "[''m1'', ''m2'', ''m1'', ''m3'']"] sig
    by auto
qed

lemma indices_in_table_witness:
  "length (all_indices id \<lparr>table_size = 7, n_heads = 2, ngram_orders = [2, 3]\<rparr> ''what is new'') = 2"
proof -
  have "hasher_new 7 2 [] = Inr \<lparr>table_size = 7, n_heads = 2, ngram_orders = [2, 3]\<rparr>"
    by (simp add: hasher_new_def PRIMES_def)
  then show ?thesis using indices_in_table by force
qed

end
