(* ===== verification/Recall.thy ===== *)
theory Recall
  imports Store Graph Engram Lifecycle
begin

text \<open>
  \<open>recall.py\<close>: the pipeline that collects candidates for a query from the store, the engram cache, the
  full-text index, the Mobius neighbourhood and the relation graph, merges them, adjusts them by lifecycle and
  ranks them. Only the engram cache is changed. \<open>rank\<close> and \<open>pick\<close> are SQLite's choices (the full-text match
  and the rows under \<open>LIMIT\<close>), \<open>nf\<close> is the Unicode normalisation, \<open>now\<close> the clock.
\<close>

section \<open>Results and candidates\<close>

record recall_result =
  rr_memory :: envelope
  rr_score :: real
  rr_confidence :: real
  rr_why :: "string list"
  rr_signals :: "(string \<times> real) list"

definition recall_result_init :: "recall_result \<Rightarrow> recall_result" where
  "recall_result_init r =
     (if rr_signals r = [] then r\<lparr>rr_signals := foldl (\<lambda>d why. d_set why (rr_score r) d) [] (rr_why r)\<rparr> else r)"

definition add_reason :: "string \<Rightarrow> recall_result \<Rightarrow> recall_result" where
  "add_reason why r = (if why \<in> set (rr_why r) then r else r\<lparr>rr_why := rr_why r @ [why]\<rparr>)"

definition add_signal :: "string \<Rightarrow> real \<Rightarrow> recall_result \<Rightarrow> recall_result" where
  "add_signal layer x r =
     r\<lparr>rr_signals := d_set layer (max (case map_of (rr_signals r) layer of None \<Rightarrow> 0 | Some y \<Rightarrow> y) x) (rr_signals r)\<rparr>"

type_synonym candidates = "(string \<times> recall_result) list"

definition merge_into :: "string \<Rightarrow> real \<Rightarrow> envelope \<Rightarrow> recall_result \<Rightarrow> recall_result" where
  "merge_into reason score m current =
     add_signal reason score (add_reason reason (current\<lparr>rr_score := max (rr_score current) score,
       rr_confidence := max (rr_confidence current) (min 1 ((score + confidence m) / 2))\<rparr>))"

definition merge_candidate :: "string \<Rightarrow> real \<Rightarrow> envelope \<Rightarrow> candidates \<Rightarrow> candidates" where
  "merge_candidate reason score0 m cands =
     (let score = clamp01 score0 in
      case map_of cands (env_id m) of
        None \<Rightarrow> d_set (env_id m) (recall_result_init \<lparr>rr_memory = m, rr_score = score,
                  rr_confidence = min 1 ((score + confidence m) / 2), rr_why = [reason],
                  rr_signals = [(reason, score)]\<rparr>) cands
      | Some current \<Rightarrow> d_set (env_id m) (merge_into reason score m current) cands)"

section \<open>Terms and text\<close>

definition recall_terms :: "string \<Rightarrow> string list" where
  "recall_terms query = expanded_tokens (py_words (py_lower query))"

definition relation_text :: "envelope \<Rightarrow> string" where
  "relation_text m = py_join '' '' (filter (\<lambda>p. p \<noteq> []) (concat (map (\<lambda>r.
     map (\<lambda>k. case d_get r k of Some v \<Rightarrow> if truthy v then py_str v else [] | None \<Rightarrow> [])
       [''subject'', ''predicate'', ''object'']) (relations m))))"

definition haystack :: "envelope \<Rightarrow> string" where
  "haystack m = py_lower (py_join '' '' [text_content m, py_join '' '' (tags m), py_join '' '' (entities m),
     memory_type m, relation_text m])"

definition lexical_score :: "string \<Rightarrow> envelope \<Rightarrow> real" where
  "lexical_score query m =
     (let terms = recall_terms query; matched = length (filter (\<lambda>t. py_contains t (haystack m)) terms) in
      if terms = [] \<or> matched = 0 then 0
      else min 1 (sqrt (of_nat matched / of_nat (length terms)) * (70 / 100) + importance m * (15 / 100)))"

section \<open>Nodes of the relation graph\<close>

type_synonym node_cache = "(string \<times> string list) list"

definition graph_nodes :: "graph option \<Rightarrow> real option \<Rightarrow> string \<Rightarrow> node_cache \<Rightarrow> (string list \<times> node_cache) result" where
  "graph_nodes g at_time i cache =
     (case g of
        None \<Rightarrow> Inr ([], cache)
      | Some gr \<Rightarrow>
          (case map_of cache i of
             Some ns \<Rightarrow> Inr (ns, cache)
           | None \<Rightarrow> res_bind (relation_nodes_for_memory i [] at_time gr) (\<lambda>ns. Inr (ns, d_set i ns cache))))"

definition graph_nodes_for_many :: "graph option \<Rightarrow> real option \<Rightarrow> string list \<Rightarrow> node_cache result" where
  "graph_nodes_for_many g at_time ids =
     (case g of None \<Rightarrow> Inr []
      | Some gr \<Rightarrow> if ids = [] then Inr [] else relation_nodes_for_memory_ids ids [] at_time gr)"

definition prime_graph_nodes :: "graph option \<Rightarrow> real option \<Rightarrow> string list \<Rightarrow> node_cache \<Rightarrow> node_cache result" where
  "prime_graph_nodes g at_time ids cache =
     (case g of
        None \<Rightarrow> Inr cache
      | Some gr \<Rightarrow>
          (let missing = filter (\<lambda>i. i \<notin> fst ` set cache) (dedupe ids) in
           if missing = [] then Inr cache
           else res_bind (relation_nodes_for_memory_ids missing [] at_time gr) (\<lambda>d. Inr (d_update cache d))))"

definition mobius_graph_validates ::
  "graph option \<Rightarrow> real option \<Rightarrow> string list \<Rightarrow> string \<Rightarrow> node_cache \<Rightarrow> (bool \<times> node_cache) result" where
  "mobius_graph_validates g at_time seed_nodes i cache =
     (if g = None \<or> seed_nodes = [] then Inr (False, cache)
      else res_bind (graph_nodes g at_time i cache) (\<lambda>(ns, cache').
        Inr (list_ex (\<lambda>n. n \<in> set ns) seed_nodes, cache')))"

section \<open>The stages\<close>

definition merge_list :: "string \<Rightarrow> (envelope \<Rightarrow> real) \<Rightarrow> envelope list \<Rightarrow> candidates \<Rightarrow> candidates" where
  "merge_list reason score ms cands = foldl (\<lambda>c m. merge_candidate reason (score m) m c) cands ms"

fun engram_stage ::
  "real \<Rightarrow> store \<Rightarrow> py_dict \<Rightarrow> string list \<Rightarrow> string list \<Rightarrow> candidates \<Rightarrow> (engram, candidates) action" where
  "engram_stage now s sc tgs [] cands g = (g, Inr cands)"
| "engram_stage now s sc tgs (i # is) cands g =
     (case inspect now True i s of
        Inl (KeyError k) \<Rightarrow> engram_stage now s sc tgs is cands (fst (invalidate_memory i g))
      | Inl err \<Rightarrow> (g, Inl err)
      | Inr m \<Rightarrow>
          engram_stage now s sc tgs is
            (if matches_filter sc tgs m then merge_candidate ''engram'' (60 / 100 + importance m * (25 / 100)) m cands
             else cands) g)"

fun neighbor_stage ::
  "graph option \<Rightarrow> real option \<Rightarrow> string \<Rightarrow> string list \<Rightarrow> envelope list \<Rightarrow> candidates \<times> node_cache
    \<Rightarrow> (candidates \<times> node_cache) result" where
  "neighbor_stage g at_time seed_id seed_nodes [] st = Inr st"
| "neighbor_stage g at_time seed_id seed_nodes (m # ms) st =
     (let cands = merge_candidate ''mobius'' (45 / 100 + importance m * (20 / 100)) m (fst st) in
      res_bind (if env_id m \<noteq> seed_id then mobius_graph_validates g at_time seed_nodes (env_id m) (snd st)
                else Inr (False, snd st)) (\<lambda>(valid, cache).
        neighbor_stage g at_time seed_id seed_nodes ms
          (if valid then merge_candidate ''mobius_graph'' (68 / 100 + importance m * (22 / 100)) m cands else cands, cache)))"

fun mobius_stage ::
  "((string \<times> mobius_address) list \<Rightarrow> (string \<times> mobius_address) list) \<Rightarrow> real \<Rightarrow> store \<Rightarrow> graph option \<Rightarrow> py_dict \<Rightarrow> string list \<Rightarrow> int \<Rightarrow> real option \<Rightarrow> envelope list
    \<Rightarrow> candidates \<times> node_cache \<Rightarrow> (candidates \<times> node_cache) result" where
  "mobius_stage scan now s g sc tgs top_k at_time [] st = Inr st"
| "mobius_stage scan now s g sc tgs top_k at_time (seed # seeds) st =
     (case store_address_for (env_id seed) s of
        Inl err \<Rightarrow> mobius_stage scan now s g sc tgs top_k at_time seeds st
      | Inr a \<Rightarrow>
          res_bind (graph_nodes g at_time (env_id seed) (snd st)) (\<lambda>(seed_nodes, cache1).
          res_bind (by_mobius_neighbors scan now a 1 sc tgs (max (top_k * 2) 10) s) (\<lambda>near.
          res_bind (if seed_nodes \<noteq> [] then prime_graph_nodes g at_time (map env_id near) cache1 else Inr cache1) (\<lambda>cache2.
          res_bind (neighbor_stage g at_time (env_id seed) seed_nodes near (fst st, cache2))
            (mobius_stage scan now s g sc tgs top_k at_time seeds)))))"

fun graph_stage ::
  "real \<Rightarrow> store \<Rightarrow> py_dict \<Rightarrow> string list \<Rightarrow> string list \<Rightarrow> candidates \<Rightarrow> candidates result" where
  "graph_stage now s sc tgs [] cands = Inr cands"
| "graph_stage now s sc tgs (i # is) cands =
     (case inspect now True i s of
        Inl (KeyError k) \<Rightarrow> graph_stage now s sc tgs is cands
      | Inl err \<Rightarrow> Inl err
      | Inr m \<Rightarrow>
          graph_stage now s sc tgs is
            (if matches_filter sc tgs m then merge_candidate ''graph'' (72 / 100 + importance m * (28 / 100)) m cands
             else cands))"

definition lexical_stage :: "string \<Rightarrow> envelope list \<Rightarrow> candidates \<Rightarrow> candidates" where
  "lexical_stage query ms cands =
     foldl (\<lambda>c m. if 0 < lexical_score query m then merge_candidate ''lexical'' (lexical_score query m) m c else c) cands ms"

definition lifecycle_adjust :: "string list \<Rightarrow> real option \<Rightarrow> recall_result \<Rightarrow> recall_result" where
  "lifecycle_adjust terms at_time r =
     (let v = lifecycle_for (rr_memory r);
          adjusted = adjusted_score v (rr_score r) terms at_time;
          effective = effective_importance v None terms at_time
      in if adjusted \<noteq> rr_score r \<or> lc_state v \<noteq> ''active''
         then add_signal ''lifecycle'' effective (add_reason ''lifecycle'' (r\<lparr>rr_score := adjusted,
                rr_confidence := clamp01 ((rr_confidence r + effective) / 2)\<rparr>))
         else r)"

definition lifecycle_stage :: "string list \<Rightarrow> real option \<Rightarrow> candidates \<Rightarrow> candidates" where
  "lifecycle_stage terms at_time cands =
     map (\<lambda>(i, r). (i, lifecycle_adjust terms at_time r))
       (filter (\<lambda>(i, r). should_recall (lifecycle_for (rr_memory r)) terms at_time) cands)"

definition recall_rank :: "recall_result \<Rightarrow> bool \<times> real \<times> real \<times> real \<times> real" where
  "recall_rank r =
     (''critical'' \<in> set (rr_why r) \<and> lc_state (lifecycle_for (rr_memory r)) = ''active'',
      rr_score r, importance (rr_memory r), confidence (rr_memory r), created_at (rr_memory r))"

section \<open>The pipeline\<close>

record recall_pipeline =
  rp_store :: store
  rp_graph :: "graph option"
  rp_engram :: "engram option"
  rp_critical :: real

record recall_args =
  ra_query :: string
  ra_scope :: py_dict
  ra_tags :: "string list"
  ra_top_k :: int
  ra_use_engram :: bool
  ra_at_time :: "real option"
  ra_hops :: int

record recall_env =
  re_rank :: "string \<Rightarrow> (string \<times> string) list \<Rightarrow> string list"
  re_pick :: "int \<Rightarrow> graph_row list \<Rightarrow> graph_row list"
  re_scan :: "(string \<times> mobius_address) list \<Rightarrow> (string \<times> mobius_address) list"
  re_nf :: "string \<Rightarrow> string"
  re_now :: real

definition critical_stage :: "recall_env \<Rightarrow> recall_args \<Rightarrow> recall_pipeline \<Rightarrow> candidates result" where
  "critical_stage env a p =
     res_bind (list_memories (re_now env) (ra_scope a) (ra_tags a) (Some (rp_critical p)) (Some (max (ra_top_k a) 10)) (rp_store p))
       (\<lambda>ms. Inr (merge_list ''critical'' (\<lambda>m. 70 / 100 + importance m * (25 / 100)) ms []))"

text \<open>The engram stage, when there is a cache and it is to be used.\<close>

definition cached_stage :: "recall_env \<Rightarrow> recall_args \<Rightarrow> candidates \<Rightarrow> (recall_pipeline, candidates) action" where
  "cached_stage env a cands p =
     (case rp_engram p of
        None \<Rightarrow> (p, Inr cands)
      | Some g \<Rightarrow>
          if \<not> ra_use_engram a then (p, Inr cands)
          else (case act_bind (engram_lookup (re_nf env) (re_now env) (ra_query a) (ra_scope a) (ra_tags a) (Some (ra_top_k a)))
                  (\<lambda>ids. engram_stage (re_now env) (rp_store p) (ra_scope a) (ra_tags a) ids cands) g of
             (g', x) \<Rightarrow> (p\<lparr>rp_engram := Some g'\<rparr>, x)))"

text \<open>From the full-text search to the ranked list: what is read from store and graph only.\<close>

definition search_stages :: "recall_env \<Rightarrow> recall_args \<Rightarrow> recall_pipeline \<Rightarrow> candidates \<Rightarrow> candidates result" where
  "search_stages env a p cands =
     (let s = rp_store p; sc = ra_scope a; tgs = ra_tags a; k = ra_top_k a; now = re_now env; q = ra_query a in
      res_bind (search_text (re_rank env) now q sc tgs (max (k * 4) 10) s) (\<lambda>found.
      (let cands1 = merge_list ''fts'' (\<lambda>m. lexical_score q m + 35 / 100) found cands;
           seeds = py_take (min (max k 1) 8) found in
       res_bind (graph_nodes_for_many (rp_graph p) (ra_at_time a) (map env_id seeds)) (\<lambda>cache.
       res_bind (mobius_stage (re_scan env) now s (rp_graph p) sc tgs k (ra_at_time a) seeds (cands1, cache)) (\<lambda>(cands2, _).
       res_bind (case rp_graph p of None \<Rightarrow> Inr cands2
           | Some g \<Rightarrow> res_bind (walk_related_memory_ids (re_pick env) (recall_terms q) (max (k * 4) 10) (ra_hops a)
                 (ra_at_time a) [] g) (\<lambda>ids. graph_stage now s sc tgs ids cands2)) (\<lambda>cands3.
         if int (length cands3) < k
         then res_bind (list_memories now sc tgs None (Some 100) s) (\<lambda>ms. Inr (lexical_stage q ms cands3))
         else Inr cands3))))))"

definition ranked :: "recall_args \<Rightarrow> candidates \<Rightarrow> recall_result list" where
  "ranked a cands =
     py_take (ra_top_k a) (sort_desc recall_rank
       (map snd (lifecycle_stage (recall_terms (ra_query a)) (ra_at_time a) cands)))"

definition recorded :: "recall_env \<Rightarrow> recall_args \<Rightarrow> recall_result list \<Rightarrow> (recall_pipeline, unit) action" where
  "recorded env a rs p =
     (case rp_engram p of
        None \<Rightarrow> (p, Inr ())
      | Some g \<Rightarrow>
          if \<not> ra_use_engram a then (p, Inr ())
          else (case record_result (re_nf env) (re_now env) (ra_query a) (map (\<lambda>r. env_id (rr_memory r)) rs)
                  (ra_scope a) (ra_tags a) g of
             (g', x) \<Rightarrow> (p\<lparr>rp_engram := Some g'\<rparr>, res_bind x (\<lambda>_. Inr ()))))"

definition recall :: "recall_env \<Rightarrow> recall_args \<Rightarrow> (recall_pipeline, recall_result list) action" where
  "recall env a =
     act_bind (\<lambda>p. (p, critical_stage env a p)) (\<lambda>cands0.
     act_bind (cached_stage env a cands0) (\<lambda>cands1.
     act_bind (\<lambda>p. (p, search_stages env a p cands1)) (\<lambda>cands2.
     act_bind (recorded env a (ranked a cands2)) (\<lambda>_.
       act_return (ranked a cands2)))))"

section \<open>What the store gives\<close>

text \<open>A memory read from a row of the store, with or without its blobs in place.\<close>

definition stored_memory :: "real \<Rightarrow> store \<Rightarrow> envelope \<Rightarrow> bool" where
  "stored_memory now s m =
     (\<exists>r\<in>set (st_memories s). \<exists>e. parse_envelope now (row_envelope_json r) = Inr e
        \<and> (m = e \<or> resolve_blobs now s e = Inr m))"

lemma envelope_from_dict_wf: "envelope_from_dict now d = Inr e \<Longrightarrow> wf_envelope e"
  unfolding envelope_from_dict_def res_bind_eq_Inr using envelope_init_wf by blast

lemma stored_memory_scores: "stored_memory now s m \<Longrightarrow> 0 \<le> confidence m \<and> confidence m \<le> 1 \<and> 0 \<le> importance m \<and> importance m \<le> 1"
proof -
  assume "stored_memory now s m"
  then have "wf_envelope m"
    by (auto simp: stored_memory_def parse_envelope_def resolve_blobs_def with_modalities_def res_bind_eq_Inr
        dest: envelope_from_dict_wf)
  then show ?thesis by (simp add: wf_envelope_def)
qed

definition admitted :: "real \<Rightarrow> store \<Rightarrow> py_dict \<Rightarrow> string list \<Rightarrow> envelope \<Rightarrow> bool" where
  "admitted now s sc tgs m = (stored_memory now s m \<and> matches_filter sc tgs m)"

lemma parsed_rows_admitted:
  assumes "res_each (\<lambda>r. parse_envelope now (row_envelope_json r)) rs = Inr es" "set rs \<subseteq> set (st_memories s)"
    and "m \<in> set (py_take k (filter_memories sc tgs es)) \<or> m \<in> set (filter_memories sc tgs es)"
  shows "admitted now s sc tgs m"
proof -
  have m: "m \<in> set es" "matches_filter sc tgs m"
    using assms(3) set_py_take [of k "filter_memories sc tgs es"] by (auto simp: filter_memories_def)
  then obtain r where "r \<in> set rs" "parse_envelope now (row_envelope_json r) = Inr m"
    using res_each_eq_Inr [OF assms(1)] by blast
  then show ?thesis using m(2) assms(2) by (auto simp: admitted_def stored_memory_def)
qed

lemma joined_rows_stored: "set (joined_rows s ids) \<subseteq> set (st_memories s)"
  by (auto simp: joined_rows_def split: option.splits dest!: sym [of "Some _"] tbl_find_SomeD)

lemma list_memories_admitted:
  assumes "list_memories now sc tgs mi limit s = Inr ms" "m \<in> set ms"
  shows "admitted now s sc tgs m"
proof -
  have "set (list_rows mi limit s) \<subseteq> set (st_memories s)" using set_list_rows [of mi limit s] by auto
  then show ?thesis
    using assms unfolding list_memories_def res_bind_eq_Inr
    by (cases limit) (auto intro: parsed_rows_admitted)
qed

lemma search_text_admitted: "search_text rank now q sc tgs limit s = Inr ms \<Longrightarrow> m \<in> set ms \<Longrightarrow> admitted now s sc tgs m"
  using set_sql_limit joined_rows_stored
  by (fastforce simp: search_text_def Let_def res_bind_eq_Inr intro: parsed_rows_admitted list_memories_admitted
      split: if_splits)

lemma by_mobius_neighbors_admitted:
  "by_mobius_neighbors scan now a d sc tgs limit s = Inr ms \<Longrightarrow> m \<in> set ms \<Longrightarrow> admitted now s sc tgs m"
  using joined_rows_stored
  by (fastforce simp: by_mobius_neighbors_def Let_def res_bind_eq_Inr intro: parsed_rows_admitted split: if_splits)

lemma inspect_stored: "inspect now res i s = Inr m \<Longrightarrow> stored_memory now s m"
  by (auto simp: inspect_def stored_memory_def res_bind_eq_Inr split: option.splits if_splits dest!: tbl_find_SomeD)

section \<open>Candidates\<close>

text \<open>Each candidate is filed under its own id, was found in the store within scope and tags, and has scores in range.\<close>

definition candidate_ok :: "real \<Rightarrow> store \<Rightarrow> py_dict \<Rightarrow> string list \<Rightarrow> string \<Rightarrow> recall_result \<Rightarrow> bool" where
  "candidate_ok now s sc tgs i r =
     (i = env_id (rr_memory r) \<and> admitted now s sc tgs (rr_memory r) \<and> 0 \<le> rr_score r \<and> rr_score r \<le> 1
      \<and> 0 \<le> rr_confidence r \<and> rr_confidence r \<le> 1 \<and> rr_why r \<noteq> [] \<and> distinct (rr_why r))"

definition candidates_ok :: "real \<Rightarrow> store \<Rightarrow> py_dict \<Rightarrow> string list \<Rightarrow> candidates \<Rightarrow> bool" where
  "candidates_ok now s sc tgs c = (distinct (map fst c) \<and> (\<forall>(i, r)\<in>set c. candidate_ok now s sc tgs i r))"

lemma candidates_ok_Nil [simp]: "candidates_ok now s sc tgs []"
  by (simp add: candidates_ok_def)

lemma add_signal_simps [simp]:
  "rr_memory (add_signal l x r) = rr_memory r" "rr_score (add_signal l x r) = rr_score r"
  "rr_confidence (add_signal l x r) = rr_confidence r" "rr_why (add_signal l x r) = rr_why r"
  by (simp_all add: add_signal_def)

lemma add_reason_simps [simp]:
  "rr_memory (add_reason w r) = rr_memory r" "rr_score (add_reason w r) = rr_score r"
  "rr_confidence (add_reason w r) = rr_confidence r"
  "set (rr_why (add_reason w r)) = insert w (set (rr_why r))"
  "distinct (rr_why (add_reason w r)) = distinct (rr_why r)" "rr_why (add_reason w r) \<noteq> []"
  by (auto simp: add_reason_def)

lemma candidates_ok_put:
  assumes "candidates_ok now s sc tgs c" "candidate_ok now s sc tgs i r"
  shows "candidates_ok now s sc tgs (d_set i r c)"
  using assms set_d_set [of i r c] distinct_d_set [of c i r] by (auto simp: candidates_ok_def)

lemma merge_candidate_ok:
  assumes c: "candidates_ok now s sc tgs c" and m: "admitted now s sc tgs m"
  shows "candidates_ok now s sc tgs (merge_candidate reason x m c)"
proof -
  have conf: "0 \<le> confidence m" "confidence m \<le> 1"
    using m stored_memory_scores [of now s m] by (simp_all add: admitted_def)
  show ?thesis
  proof (cases "map_of c (env_id m)")
    case None
    then show ?thesis
      using m conf by (auto simp: merge_candidate_def Let_def recall_result_init_def candidate_ok_def
          intro!: candidates_ok_put [OF c])
  next
    case (Some r)
    then have "candidate_ok now s sc tgs (env_id m) r"
      using c by (auto simp: candidates_ok_def dest: map_of_SomeD)
    then have "candidate_ok now s sc tgs (env_id m) (merge_into reason (clamp01 x) m r)"
      using conf by (auto simp: candidate_ok_def merge_into_def)
    then show ?thesis using Some by (simp add: merge_candidate_def Let_def candidates_ok_put [OF c])
  qed
qed

lemma merge_list_ok:
  "candidates_ok now s sc tgs c \<Longrightarrow> \<forall>m\<in>set ms. admitted now s sc tgs m \<Longrightarrow> candidates_ok now s sc tgs (merge_list reason f ms c)"
  unfolding merge_list_def by (induction ms arbitrary: c) (simp_all add: merge_candidate_ok)

lemma lexical_stage_ok:
  "candidates_ok now s sc tgs c \<Longrightarrow> \<forall>m\<in>set ms. admitted now s sc tgs m \<Longrightarrow> candidates_ok now s sc tgs (lexical_stage q ms c)"
  unfolding lexical_stage_def by (induction ms arbitrary: c) (simp_all add: merge_candidate_ok)

lemma engram_stage_ok:
  assumes "engram_stage now s sc tgs is c g = (g', x)" "candidates_ok now s sc tgs c" "engram_ok nf g"
  shows "engram_ok nf g' \<and> (\<forall>c'. x = Inr c' \<longrightarrow> candidates_ok now s sc tgs c')"
  using assms
proof (induction now s sc tgs "is" c g rule: engram_stage.induct)
  case (2 now s sc tgs i "is" c g)
  show ?case
  proof (cases "inspect now True i s")
    case (Inl err)
    then show ?thesis using 2 invalidate_ok [of nf g i] by (cases err) auto
  next
    case (Inr m)
    have c1: "candidates_ok now s sc tgs (if matches_filter sc tgs m
        then merge_candidate ''engram'' (60 / 100 + importance m * (25 / 100)) m c else c)"
      using 2(4) inspect_stored [OF Inr] by (simp add: admitted_def merge_candidate_ok del: divide_eq_eq)
    show ?thesis
      by (rule 2(2) [OF Inr _ c1 2(5)]) (use 2(3) Inr in \<open>simp only: engram_stage.simps sum.case\<close>)
  qed
qed auto

lemma graph_stage_ok:
  "graph_stage now s sc tgs is c = Inr c' \<Longrightarrow> candidates_ok now s sc tgs c \<Longrightarrow> candidates_ok now s sc tgs c'"
proof (induction now s sc tgs "is" c rule: graph_stage.induct)
  case (2 now s sc tgs i "is" c)
  show ?case
  proof (cases "inspect now True i s")
    case (Inl err)
    then show ?thesis using 2 by (cases err) simp_all
  next
    case (Inr m)
    have c1: "candidates_ok now s sc tgs (if matches_filter sc tgs m
        then merge_candidate ''graph'' (72 / 100 + importance m * (28 / 100)) m c else c)"
      using 2(4) inspect_stored [OF Inr] by (simp add: admitted_def merge_candidate_ok)
    show ?thesis
      by (rule 2(2) [OF Inr _ c1]) (use 2(3) Inr in \<open>simp only: graph_stage.simps sum.case\<close>)
  qed
qed simp

lemma neighbor_stage_ok:
  "neighbor_stage g t i ns ms st = Inr st' \<Longrightarrow> candidates_ok now s sc tgs (fst st) \<Longrightarrow> \<forall>m\<in>set ms. admitted now s sc tgs m
     \<Longrightarrow> candidates_ok now s sc tgs (fst st')"
proof (induction ms arbitrary: st)
  case (Cons m ms)
  obtain valid cache where v: "(if env_id m \<noteq> i then mobius_graph_validates g t ns (env_id m) (snd st) else Inr (False, snd st))
      = Inr (valid, cache)"
    and r: "neighbor_stage g t i ns ms (if valid then merge_candidate ''mobius_graph'' (68 / 100 + importance m * (22 / 100)) m
        (merge_candidate ''mobius'' (45 / 100 + importance m * (20 / 100)) m (fst st))
      else merge_candidate ''mobius'' (45 / 100 + importance m * (20 / 100)) m (fst st), cache) = Inr st'"
    using Cons.prems(1) by (auto simp only: neighbor_stage.simps Let_def res_bind_eq_Inr split_paired_Ex prod.case)
  show ?case using Cons.IH [OF r] Cons.prems(2,3) by (simp add: merge_candidate_ok)
qed simp

lemma mobius_stage_ok:
  "mobius_stage scan now s g sc tgs k t seeds st = Inr st' \<Longrightarrow> candidates_ok now s sc tgs (fst st)
     \<Longrightarrow> candidates_ok now s sc tgs (fst st')"
proof (induction seeds arbitrary: st)
  case (Cons seed seeds)
  show ?case
  proof (cases "store_address_for (env_id seed) s")
    case (Inl err)
    then show ?thesis using Cons by simp
  next
    case (Inr a)
    then obtain ns cache1 near cache2 st1 where near: "by_mobius_neighbors scan now a 1 sc tgs (max (k * 2) 10) s = Inr near"
      and st1: "neighbor_stage g t (env_id seed) ns near (fst st, cache2) = Inr st1"
      and r: "mobius_stage scan now s g sc tgs k t seeds st1 = Inr st'"
      using Cons.prems(1) by (auto simp: res_bind_eq_Inr)
    have "candidates_ok now s sc tgs (fst st1)"
      by (rule neighbor_stage_ok [OF st1]) (use Cons.prems(2) by_mobius_neighbors_admitted [OF near] in auto)
    then show ?thesis by (rule Cons.IH [OF r])
  qed
qed simp

section \<open>Ranking\<close>

definition result_ok :: "recall_env \<Rightarrow> recall_args \<Rightarrow> store \<Rightarrow> recall_result \<Rightarrow> bool" where
  "result_ok env a s r =
     (admitted (re_now env) s (ra_scope a) (ra_tags a) (rr_memory r)
      \<and> should_recall (lifecycle_for (rr_memory r)) (recall_terms (ra_query a)) (ra_at_time a)
      \<and> 0 \<le> rr_score r \<and> rr_score r \<le> 1 \<and> 0 \<le> rr_confidence r \<and> rr_confidence r \<le> 1
      \<and> rr_why r \<noteq> [] \<and> distinct (rr_why r))"

lemma lifecycle_adjust_ok:
  assumes "candidate_ok now s sc tgs i r"
  shows "candidate_ok now s sc tgs i (lifecycle_adjust terms t r)" "rr_memory (lifecycle_adjust terms t r) = rr_memory r"
  using assms by (auto simp: candidate_ok_def lifecycle_adjust_def Let_def adjusted_score_def)

lemma lifecycle_stage_ok:
  assumes "candidates_ok (re_now env) s (ra_scope a) (ra_tags a) c"
  defines "rs \<equiv> map snd (lifecycle_stage (recall_terms (ra_query a)) (ra_at_time a) c)"
  shows "\<forall>r\<in>set rs. result_ok env a s r" "distinct (map (\<lambda>r. env_id (rr_memory r)) rs)"
proof -
  let ?t = "recall_terms (ra_query a)"
  let ?keep = "filter (\<lambda>(i, r). should_recall (lifecycle_for (rr_memory r)) ?t (ra_at_time a)) c"
  have ok: "candidate_ok (re_now env) s (ra_scope a) (ra_tags a) i r" if "(i, r) \<in> set c" for i r
    using assms(1) that by (auto simp: candidates_ok_def)
  have rs: "rs = map (\<lambda>(i, r). lifecycle_adjust ?t (ra_at_time a) r) ?keep"
    by (simp add: rs_def lifecycle_stage_def comp_def case_prod_unfold)
  show "\<forall>r\<in>set rs. result_ok env a s r"
    unfolding rs using ok lifecycle_adjust_ok [of "re_now env" s "ra_scope a" "ra_tags a"]
    by (force simp: result_ok_def candidate_ok_def)
  have "map (\<lambda>r. env_id (rr_memory r)) rs = map fst ?keep"
    unfolding rs using ok lifecycle_adjust_ok(2) [of "re_now env" s "ra_scope a" "ra_tags a"]
    by (auto simp: candidate_ok_def)
  then show "distinct (map (\<lambda>r. env_id (rr_memory r)) rs)"
    using assms(1) distinct_map_filter [of fst c] by (simp add: candidates_ok_def)
qed

lemma ranked_ok:
  assumes "candidates_ok (re_now env) s (ra_scope a) (ra_tags a) c"
  shows "\<forall>r\<in>set (ranked a c). result_ok env a s r" "distinct (map (\<lambda>r. env_id (rr_memory r)) (ranked a c))"
    "sorted_wrt (\<lambda>r q. recall_rank q \<le> recall_rank r) (ranked a c)"
    "0 \<le> ra_top_k a \<Longrightarrow> int (length (ranked a c)) \<le> ra_top_k a"
proof -
  let ?rs = "map snd (lifecycle_stage (recall_terms (ra_query a)) (ra_at_time a) c)"
  let ?s = "sort_desc recall_rank ?rs"
  note l = lifecycle_stage_ok [OF assms]
  show "\<forall>r\<in>set (ranked a c). result_ok env a s r"
    using l(1) set_py_take [of "ra_top_k a" ?s] by (auto simp: ranked_def)
  have "mset (map (\<lambda>r. env_id (rr_memory r)) ?s) = mset (map (\<lambda>r. env_id (rr_memory r)) ?rs)"
    by (simp only: mset_map mset_sort_desc)
  then have "distinct (map (\<lambda>r. env_id (rr_memory r)) ?s)" using l(2) mset_eq_imp_distinct_iff by blast
  then show "distinct (map (\<lambda>r. env_id (rr_memory r)) (ranked a c))"
    by (auto simp: ranked_def py_take_def take_map [symmetric])
  have "sorted_wrt (\<lambda>r q. recall_rank q \<le> recall_rank r) ?s" by (rule sort_desc_sorted)
  then show "sorted_wrt (\<lambda>r q. recall_rank q \<le> recall_rank r) (ranked a c)"
    by (auto simp: ranked_def py_take_def intro: sorted_wrt_take)
  show "int (length (ranked a c)) \<le> ra_top_k a" if "0 \<le> ra_top_k a"
    using that length_py_take [of "ra_top_k a" ?s] by (simp add: ranked_def)
qed

section \<open>The whole pipeline\<close>

definition pipeline_ok :: "(string \<Rightarrow> string) \<Rightarrow> recall_pipeline \<Rightarrow> bool" where
  "pipeline_ok nf p = (case rp_engram p of None \<Rightarrow> True | Some g \<Rightarrow> engram_ok nf g)"

lemma critical_stage_ok:
  "critical_stage env a p = Inr c \<Longrightarrow> candidates_ok (re_now env) (rp_store p) (ra_scope a) (ra_tags a) c"
  using list_memories_admitted
  by (fastforce simp: critical_stage_def res_bind_eq_Inr intro!: merge_list_ok)

lemma cached_stage_ok:
  assumes "cached_stage env a c p = (p', x)" "pipeline_ok (re_nf env) p"
    and "candidates_ok (re_now env) (rp_store p) (ra_scope a) (ra_tags a) c"
  shows "pipeline_ok (re_nf env) p'" "rp_store p' = rp_store p" "rp_graph p' = rp_graph p"
    "x = Inr c' \<Longrightarrow> candidates_ok (re_now env) (rp_store p) (ra_scope a) (ra_tags a) c'"
proof -
  have "pipeline_ok (re_nf env) p' \<and> rp_store p' = rp_store p \<and> rp_graph p' = rp_graph p
    \<and> (\<forall>c'. x = Inr c' \<longrightarrow> candidates_ok (re_now env) (rp_store p) (ra_scope a) (ra_tags a) c')"
  proof (cases "rp_engram p = None \<or> \<not> ra_use_engram a")
    case True
    then show ?thesis using assms by (auto simp: cached_stage_def split: option.splits)
  next
    case False
    then obtain g where g: "rp_engram p = Some g" "ra_use_engram a" by auto
    then have gok: "engram_ok (re_nf env) g" using assms(2) by (simp add: pipeline_ok_def)
    let ?l = "engram_lookup (re_nf env) (re_now env) (ra_query a) (ra_scope a) (ra_tags a) (Some (ra_top_k a))"
    obtain g1 y where l: "?l g = (g1, y)" by fastforce
    have g1: "engram_ok (re_nf env) g1"
      using lookup_ok [OF gok, of "re_now env" "ra_query a" "ra_scope a" "ra_tags a" "Some (ra_top_k a)"] l by simp
    show ?thesis
    proof (cases y)
      case (Inl err)
      then show ?thesis using assms g l g1 by (auto simp: cached_stage_def act_bind_def pipeline_ok_def)
    next
      case (Inr ids)
      obtain g2 z where z: "engram_stage (re_now env) (rp_store p) (ra_scope a) (ra_tags a) ids c g1 = (g2, z)" by fastforce
      have "engram_ok (re_nf env) g2 \<and> (\<forall>c'. z = Inr c' \<longrightarrow> candidates_ok (re_now env) (rp_store p) (ra_scope a) (ra_tags a) c')"
        by (rule engram_stage_ok [OF z assms(3) g1])
      then show ?thesis using assms(1) g l Inr z by (auto simp: cached_stage_def act_bind_def pipeline_ok_def)
    qed
  qed
  then show "pipeline_ok (re_nf env) p'" "rp_store p' = rp_store p" "rp_graph p' = rp_graph p"
    "x = Inr c' \<Longrightarrow> candidates_ok (re_now env) (rp_store p) (ra_scope a) (ra_tags a) c'"
    by auto
qed

lemma search_stages_ok:
  assumes "search_stages env a p c = Inr c'" "candidates_ok (re_now env) (rp_store p) (ra_scope a) (ra_tags a) c"
  shows "candidates_ok (re_now env) (rp_store p) (ra_scope a) (ra_tags a) c'"
proof -
  let ?ok = "candidates_ok (re_now env) (rp_store p) (ra_scope a) (ra_tags a)" and ?s = "rp_store p" and ?k = "ra_top_k a"
  let ?q = "ra_query a" and ?sc = "ra_scope a" and ?tgs = "ra_tags a" and ?now = "re_now env" and ?t = "ra_at_time a"
  obtain found where found: "search_text (re_rank env) ?now ?q ?sc ?tgs (max (?k * 4) 10) ?s = Inr found"
    using assms(1) by (auto simp: search_stages_def Let_def res_bind_eq_Inr)
  let ?c1 = "merge_list ''fts'' (\<lambda>m. lexical_score ?q m + 35 / 100) found c"
  have c1: "?ok ?c1" by (rule merge_list_ok [OF assms(2)]) (use search_text_admitted [OF found] in blast)
  obtain cache st2 c3 where st2: "mobius_stage (re_scan env) ?now ?s (rp_graph p) ?sc ?tgs ?k ?t (py_take (min (max ?k 1) 8) found) (?c1, cache) = Inr st2"
    and c3: "(case rp_graph p of None \<Rightarrow> Inr (fst st2)
           | Some g \<Rightarrow> res_bind (walk_related_memory_ids (re_pick env) (recall_terms ?q) (max (?k * 4) 10) (ra_hops a) ?t [] g)
               (\<lambda>ids. graph_stage ?now ?s ?sc ?tgs ids (fst st2))) = Inr c3"
    and last: "(if int (length c3) < ?k then res_bind (list_memories ?now ?sc ?tgs None (Some 100) ?s)
           (\<lambda>ms. Inr (lexical_stage ?q ms c3)) else Inr c3) = Inr c'"
    using assms(1) found by (auto simp: search_stages_def Let_def res_bind_eq_Inr case_prod_unfold)
  have c2: "?ok (fst st2)" using mobius_stage_ok [OF st2] c1 by simp
  have "?ok c3"
  proof (cases "rp_graph p")
    case None
    then show ?thesis using c2 c3 by simp
  next
    case (Some g)
    then show ?thesis using c3 c2 graph_stage_ok by (auto simp: res_bind_eq_Inr)
  qed
  then show ?thesis
    using last list_memories_admitted
    by (fastforce simp: res_bind_eq_Inr split: if_split_asm intro!: lexical_stage_ok)
qed

lemma recorded_ok:
  assumes "pipeline_ok (re_nf env) p" "recorded env a rs p = (p', x)"
  shows "pipeline_ok (re_nf env) p' \<and> rp_store p' = rp_store p \<and> rp_graph p' = rp_graph p"
proof (cases "rp_engram p")
  case None
  then show ?thesis using assms by (auto simp: recorded_def)
next
  case (Some g)
  then have "engram_ok (re_nf env) g" using assms(1) by (simp add: pipeline_ok_def)
  then have "engram_ok (re_nf env) (fst (record_result (re_nf env) (re_now env) (ra_query a)
      (map (\<lambda>r. env_id (rr_memory r)) rs) (ra_scope a) (ra_tags a) g))"
    by (rule record_ok)
  then show ?thesis using assms Some by (auto simp: recorded_def pipeline_ok_def split: prod.splits if_splits)
qed

lemma recall_facts:
  assumes "pipeline_ok (re_nf env) p" "recall env a p = (p', x)"
  shows "rp_store p' = rp_store p \<and> rp_graph p' = rp_graph p \<and> pipeline_ok (re_nf env) p'
    \<and> (\<forall>rs. x = Inr rs \<longrightarrow>
         (\<forall>r\<in>set rs. result_ok env a (rp_store p) r) \<and> distinct (map (\<lambda>r. env_id (rr_memory r)) rs)
         \<and> sorted_wrt (\<lambda>r q. recall_rank q \<le> recall_rank r) rs \<and> (0 \<le> ra_top_k a \<longrightarrow> int (length rs) \<le> ra_top_k a))"
proof (cases "critical_stage env a p")
  case (Inl err)
  then show ?thesis using assms by (auto simp: recall_def act_bind_def)
next
  case (Inr c0)
  note c0 = critical_stage_ok [OF Inr]
  obtain p1 y where y: "cached_stage env a c0 p = (p1, y)" by fastforce
  note p1 = cached_stage_ok [OF y assms(1) c0]
  show ?thesis
  proof (cases y)
    case (Inl err)
    then show ?thesis using assms Inr y p1 by (auto simp: recall_def act_bind_def)
  next
    case c1: (Inr c1)
    show ?thesis
    proof (cases "search_stages env a p1 c1")
      case (Inl err)
      then show ?thesis using assms Inr y c1 p1 by (auto simp: recall_def act_bind_def)
    next
      case c2: (Inr c2)
      have ok: "candidates_ok (re_now env) (rp_store p) (ra_scope a) (ra_tags a) c2"
        using search_stages_ok [OF c2] p1(4) [OF c1] p1(2) by simp
      obtain p2 z where z: "recorded env a (ranked a c2) p1 = (p2, z)" by fastforce
      have p2: "pipeline_ok (re_nf env) p2 \<and> rp_store p2 = rp_store p1 \<and> rp_graph p2 = rp_graph p1"
        by (rule recorded_ok [OF p1(1) z])
      have "p' = p2 \<and> (x = Inr (ranked a c2) \<or> (\<exists>err. x = Inl err))"
        using assms(2) Inr y c1 c2 z by (cases z) (auto simp: recall_def act_bind_def act_return_def)
      then show ?thesis using ranked_ok [OF ok] p1(2,3) p2 by auto
    qed
  qed
qed

text \<open>
  C4: a recall returns at most \<open>top_k\<close> memories, each once, all read from the store, all within the scope and
  the tags asked for, none deleted or, at the time asked for, out of its validity (unless the query asks for
  history), with scores and confidences in [0, 1], best first: the critical active ones, then by score,
  importance, confidence and age. Store and graph are not changed and the engram cache stays well formed,
  also when the recall raises.
\<close>

theorem recall_spec:
  assumes "pipeline_ok (re_nf env) p" "recall env a p = (p', x)"
  shows "rp_store p' = rp_store p \<and> rp_graph p' = rp_graph p \<and> pipeline_ok (re_nf env) p'
    \<and> (\<forall>rs. x = Inr rs \<longrightarrow>
         (\<forall>r\<in>set rs. result_ok env a (rp_store p) r) \<and> distinct (map (\<lambda>r. env_id (rr_memory r)) rs)
         \<and> sorted_wrt (\<lambda>r q. recall_rank q \<le> recall_rank r) rs \<and> (0 \<le> ra_top_k a \<longrightarrow> int (length rs) \<le> ra_top_k a))"
  using assms by (rule recall_facts)

section \<open>The node cache changes nothing\<close>

text \<open>The Mobius stage as it would be without the cache of graph nodes.\<close>

definition memory_nodes :: "graph \<Rightarrow> real option \<Rightarrow> string \<Rightarrow> string list" where
  "memory_nodes g at_time i = (case relation_nodes_for_memory i [] at_time g of Inr ns \<Rightarrow> ns | Inl err \<Rightarrow> [])"

definition shares_node :: "graph option \<Rightarrow> real option \<Rightarrow> string \<Rightarrow> string \<Rightarrow> bool" where
  "shares_node g at_time i j =
     (case g of None \<Rightarrow> False | Some gr \<Rightarrow> list_ex (\<lambda>n. n \<in> set (memory_nodes gr at_time j)) (memory_nodes gr at_time i))"

definition uncached_neighbor :: "graph option \<Rightarrow> real option \<Rightarrow> string \<Rightarrow> candidates \<Rightarrow> envelope \<Rightarrow> candidates" where
  "uncached_neighbor g at_time seed_id c m =
     (let c1 = merge_candidate ''mobius'' (45 / 100 + importance m * (20 / 100)) m c in
      if env_id m \<noteq> seed_id \<and> shares_node g at_time seed_id (env_id m)
      then merge_candidate ''mobius_graph'' (68 / 100 + importance m * (22 / 100)) m c1 else c1)"

fun uncached_mobius ::
  "((string \<times> mobius_address) list \<Rightarrow> (string \<times> mobius_address) list) \<Rightarrow> real \<Rightarrow> store \<Rightarrow> graph option \<Rightarrow> py_dict \<Rightarrow> string list \<Rightarrow> int \<Rightarrow> real option \<Rightarrow> envelope list
    \<Rightarrow> candidates \<Rightarrow> candidates result" where
  "uncached_mobius scan now s g sc tgs top_k at_time [] c = Inr c"
| "uncached_mobius scan now s g sc tgs top_k at_time (seed # seeds) c =
     (case store_address_for (env_id seed) s of
        Inl err \<Rightarrow> uncached_mobius scan now s g sc tgs top_k at_time seeds c
      | Inr a \<Rightarrow>
          res_bind (by_mobius_neighbors scan now a 1 sc tgs (max (top_k * 2) 10) s) (\<lambda>near.
            uncached_mobius scan now s g sc tgs top_k at_time seeds
              (foldl (uncached_neighbor g at_time (env_id seed)) c near)))"

definition node_cache_ok :: "graph option \<Rightarrow> real option \<Rightarrow> node_cache \<Rightarrow> bool" where
  "node_cache_ok g at_time cache =
     (case g of None \<Rightarrow> True | Some gr \<Rightarrow> \<forall>i ns. map_of cache i = Some ns \<longrightarrow> set ns = set (memory_nodes gr at_time i))"

definition nodes_among :: "string list \<Rightarrow> real option \<Rightarrow> graph \<Rightarrow> string \<Rightarrow> string list" where
  "nodes_among ids at_time g i =
     dedupe (filter (\<lambda>n. n \<noteq> []) (concat (map (\<lambda>r. if rl_memory_id r = i then [norm_key (rl_subject r), norm_key (rl_object r)] else [])
       (filter (relation_active at_time) (ordered_relations (\<lambda>x. rl_memory_id (gr_relation x) \<in> set ids) g)))))"

lemma nodes_for_ids_eq:
  "relation_nodes_for_memory_ids ids [] at_time g =
     Inr (map (\<lambda>i. (i, nodes_among (filter (\<lambda>i. i \<noteq> []) (dedupe ids)) at_time g i)) (filter (\<lambda>i. i \<noteq> []) (dedupe ids)))"
  by (simp add: relation_nodes_for_memory_ids_def Let_def nodes_among_def)

lemma set_nodes_among:
  "i \<in> set ids \<Longrightarrow> set (nodes_among ids at_time g i) =
     {n. n \<noteq> [] \<and> (\<exists>x\<in>set g. rl_memory_id (gr_relation x) = i \<and> relation_active at_time (gr_relation x)
       \<and> (n = norm_key (rl_subject (gr_relation x)) \<or> n = norm_key (rl_object (gr_relation x))))}"
  by (auto simp: nodes_among_def set_ordered_relations)

lemma nodes_for_ids:
  assumes "relation_nodes_for_memory_ids ids [] at_time g = Inr d" "map_of d i = Some ns"
  shows "set ns = {n. n \<noteq> [] \<and> (\<exists>x\<in>set g. rl_memory_id (gr_relation x) = i \<and> relation_active at_time (gr_relation x)
       \<and> (n = norm_key (rl_subject (gr_relation x)) \<or> n = norm_key (rl_object (gr_relation x))))}"
proof -
  let ?ids = "filter (\<lambda>i. i \<noteq> []) (dedupe ids)"
  have "i \<in> set ?ids" "ns = nodes_among ?ids at_time g i"
    using assms by (auto simp: nodes_for_ids_eq map_of_map_restrict restrict_map_def split: if_splits)
  then show ?thesis using set_nodes_among by simp
qed

lemma nodes_total: "\<exists>d. relation_nodes_for_memory_ids ids [] at_time g = Inr d"
  by (simp add: nodes_for_ids_eq)

lemma nodes_for_ids_keys:
  "relation_nodes_for_memory_ids ids [] at_time g = Inr d \<Longrightarrow> fst ` set d = set ids - {[]}"
  by (auto simp: nodes_for_ids_eq image_iff)

lemma memory_nodes_eq: "relation_nodes_for_memory i [] at_time g = Inr (memory_nodes g at_time i)"
  using nodes_total [of "[i]" at_time g] by (auto simp: memory_nodes_def relation_nodes_for_memory_def)

lemma memory_nodes_of_ids:
  assumes d: "relation_nodes_for_memory_ids ids [] at_time g = Inr d" and i: "map_of d i = Some ns"
  shows "set ns = set (memory_nodes g at_time i)"
proof -
  have "i \<noteq> []" using nodes_for_ids_keys [OF d] map_of_SomeD [OF i] by force
  obtain e where e: "relation_nodes_for_memory_ids [i] [] at_time g = Inr e" using nodes_total by blast
  have "i \<in> fst ` set e" using nodes_for_ids_keys [OF e] \<open>i \<noteq> []\<close> by auto
  then obtain ms where ms: "map_of e i = Some ms" by (metis map_of_eq_None_iff option.exhaust)
  have "memory_nodes g at_time i = ms" using e ms by (simp add: memory_nodes_def relation_nodes_for_memory_def)
  then show ?thesis using nodes_for_ids [OF d i] nodes_for_ids [OF e ms] by simp
qed

lemma node_cache_ok_many: "graph_nodes_for_many g at_time ids = Inr cache \<Longrightarrow> node_cache_ok g at_time cache"
  by (auto simp: graph_nodes_for_many_def node_cache_ok_def memory_nodes_of_ids split: option.splits if_splits)

lemma graph_nodes_ok:
  assumes "node_cache_ok g at_time cache"
  shows "\<exists>ns cache'. graph_nodes g at_time i cache = Inr (ns, cache') \<and> node_cache_ok g at_time cache'
    \<and> set ns = (case g of None \<Rightarrow> {} | Some gr \<Rightarrow> set (memory_nodes gr at_time i))"
  using assms
  by (cases g; cases "map_of cache i") (auto simp: graph_nodes_def node_cache_ok_def memory_nodes_eq)

lemma prime_ok:
  assumes "node_cache_ok g at_time cache"
  shows "\<exists>cache'. prime_graph_nodes g at_time ids cache = Inr cache' \<and> node_cache_ok g at_time cache'"
proof (cases g)
  case None
  then show ?thesis by (simp add: prime_graph_nodes_def node_cache_ok_def)
next
  case (Some gr)
  let ?missing = "filter (\<lambda>i. i \<notin> fst ` set cache) (dedupe ids)"
  obtain d where d: "relation_nodes_for_memory_ids ?missing [] at_time gr = Inr d" using nodes_total by blast
  have "distinct (map fst d)"
    using d by (auto simp: relation_nodes_for_memory_ids_def Let_def comp_def split: if_splits)
  then have "map_of (d_update cache d) = map_of cache ++ map_of d" by (rule map_of_d_update)
  then have "node_cache_ok g at_time (d_update cache d)"
    using assms memory_nodes_of_ids [OF d] by (auto simp: Some node_cache_ok_def map_add_Some_iff)
  then show ?thesis using d assms by (simp add: Some prime_graph_nodes_def)
qed

lemma validates_ok:
  assumes "node_cache_ok g at_time cache" "set ns = (case g of None \<Rightarrow> {} | Some gr \<Rightarrow> set (memory_nodes gr at_time seed))"
  shows "\<exists>cache'. mobius_graph_validates g at_time ns i cache = Inr (shares_node g at_time seed i, cache')
    \<and> node_cache_ok g at_time cache'"
proof (cases "g = None \<or> ns = []")
  case True
  then have "\<not> shares_node g at_time seed i"
    using assms(2) by (cases g) (auto simp: shares_node_def)
  then show ?thesis using True assms(1) by (simp add: mobius_graph_validates_def)
next
  case False
  then obtain gr where gr: "g = Some gr" by auto
  obtain ms cache' where ms: "graph_nodes g at_time i cache = Inr (ms, cache')" "node_cache_ok g at_time cache'"
    "set ms = set (memory_nodes gr at_time i)"
    using graph_nodes_ok [OF assms(1), of i] gr by auto
  have "list_ex (\<lambda>n. n \<in> set ms) ns = shares_node g at_time seed i"
    using assms(2) ms(3) by (auto simp: shares_node_def gr list_ex_iff)
  then show ?thesis using False ms(1,2) gr by (simp add: mobius_graph_validates_def)
qed

lemma neighbor_stage_uncached:
  assumes "node_cache_ok g at_time cache" "set ns = (case g of None \<Rightarrow> {} | Some gr \<Rightarrow> set (memory_nodes gr at_time seed))"
  shows "\<exists>cache'. neighbor_stage g at_time seed ns ms (c, cache) = Inr (foldl (uncached_neighbor g at_time seed) c ms, cache')
    \<and> node_cache_ok g at_time cache'"
  using assms(1)
proof (induction ms arbitrary: c cache)
  case (Cons m ms)
  obtain cache1 where v: "(if env_id m \<noteq> seed then mobius_graph_validates g at_time ns (env_id m) cache else Inr (False, cache))
      = Inr (env_id m \<noteq> seed \<and> shares_node g at_time seed (env_id m), cache1)" "node_cache_ok g at_time cache1"
    using validates_ok [OF Cons.prems assms(2), of "env_id m"] Cons.prems by (cases "env_id m = seed") auto
  have "neighbor_stage g at_time seed ns (m # ms) (c, cache)
      = neighbor_stage g at_time seed ns ms (uncached_neighbor g at_time seed c m, cache1)"
    by (simp only: neighbor_stage.simps fst_conv snd_conv v(1) res_bind.simps(2) prod.case Let_def uncached_neighbor_def)
  then show ?case using Cons.IH [OF v(2)] by simp
qed simp

lemma mobius_stage_uncached:
  "node_cache_ok g at_time cache \<Longrightarrow>
     res_bind (mobius_stage scan now s g sc tgs k at_time seeds (c, cache)) (\<lambda>st. Inr (fst st))
       = uncached_mobius scan now s g sc tgs k at_time seeds c"
proof (induction seeds arbitrary: c cache)
  case (Cons seed seeds)
  show ?case
  proof (cases "store_address_for (env_id seed) s")
    case (Inl err)
    then show ?thesis using Cons by simp
  next
    case a: (Inr a)
    obtain ns cache1 where ns: "graph_nodes g at_time (env_id seed) cache = Inr (ns, cache1)" "node_cache_ok g at_time cache1"
      "set ns = (case g of None \<Rightarrow> {} | Some gr \<Rightarrow> set (memory_nodes gr at_time (env_id seed)))"
      using graph_nodes_ok [OF Cons.prems, of "env_id seed"] by blast
    show ?thesis
    proof (cases "by_mobius_neighbors scan now a 1 sc tgs (max (k * 2) 10) s")
      case (Inl err)
      then show ?thesis using a ns(1) by simp
    next
      case (Inr near)
      obtain cache2 where c2: "(if ns \<noteq> [] then prime_graph_nodes g at_time (map env_id near) cache1 else Inr cache1) = Inr cache2"
        "node_cache_ok g at_time cache2"
        using prime_ok [OF ns(2), of "map env_id near"] ns(2) by (cases "ns = []") auto
      obtain cache3 where c3: "neighbor_stage g at_time (env_id seed) ns near (c, cache2)
          = Inr (foldl (uncached_neighbor g at_time (env_id seed)) c near, cache3)" "node_cache_ok g at_time cache3"
        using neighbor_stage_uncached [OF c2(2) ns(3), of near c] by blast
      have "mobius_stage scan now s g sc tgs k at_time (seed # seeds) (c, cache)
          = mobius_stage scan now s g sc tgs k at_time seeds (foldl (uncached_neighbor g at_time (env_id seed)) c near, cache3)"
        by (simp only: mobius_stage.simps a sum.case snd_conv fst_conv ns(1) res_bind.simps(2) prod.case Inr c2(1) c3(1))
      then show ?thesis using Cons.IH [OF c3(2)] a Inr by simp
    qed
  qed
qed simp

text \<open>
  C35: the cache of graph nodes is an optimisation. Filled for the seeds at once and primed for each
  neighbourhood, it gives the Mobius stage the result of the stage that reads the graph for every pair: a
  neighbour counts as validated exactly if it shares a node of an active relation with its seed.
\<close>

theorem node_cache_transparent:
  assumes "graph_nodes_for_many g at_time (map env_id seeds) = Inr cache"
  shows "res_bind (mobius_stage scan now s g sc tgs k at_time seeds (c, cache)) (\<lambda>st. Inr (fst st))
    = uncached_mobius scan now s g sc tgs k at_time seeds c"
  by (rule mobius_stage_uncached [OF node_cache_ok_many [OF assms]])

section \<open>An example\<close>

definition demo_env :: recall_env where
  "demo_env = \<lparr>re_rank = (\<lambda>q rows. []), re_pick = (\<lambda>n rows. rows), re_scan = rev, re_nf = id, re_now = 9\<rparr>"

definition demo_args :: recall_args where
  "demo_args = \<lparr>ra_query = ''note'', ra_scope = [], ra_tags = [''t''], ra_top_k = 1, ra_use_engram = True,
     ra_at_time = None, ra_hops = 1\<rparr>"

definition demo_pipeline :: recall_pipeline where
  "demo_pipeline = \<lparr>rp_store = demo_filed, rp_graph = Some demo_graph, rp_engram = None, rp_critical = 1 / 4\<rparr>"

lemma demo_graph_walk_none: "walk_related_memory_ids (\<lambda>n rows. rows) [''note''] 10 1 None [] demo_graph = Inr []"
  by code_simp

lemma demo_terms: "recall_terms ''note'' = [''note'']" "fts_expression ''note'' = ''note''"
  by code_simp+

lemma recall_spec_witness:
  "\<exists>r. snd (recall demo_env demo_args demo_pipeline) = Inr [r] \<and> result_ok demo_env demo_args demo_filed r"
proof -
  let ?m = "canon_envelope demo_note"
  have st: "st_memories demo_filed = [demo_row]" by (simp add: demo_filed_def)
  have p: "parse_envelope 9 (row_envelope_json demo_row) = Inr ?m" using demo_row_faithful by (simp add: faithful_row_def)
  have m: "matches_filter [] [''t''] ?m" "env_id ?m = ''m1''" "metadata ?m = []"
    by (simp_all add: matches_filter_def canon_envelope_def demo_note_def demo_memory_def blank_envelope_def canon_dict_def)
  have "list_rows (Some (1 / 4)) (Some 10) demo_filed = [demo_row]"
    by (simp add: list_rows_def st demo_row_def sort_desc_def sql_limit_def)
  then have crit: "list_memories 9 [] [''t''] (Some (1 / 4)) (Some 10) demo_filed = Inr [?m]"
    using p m(1) by (simp add: list_memories_def filter_memories_def py_take_def)
  let ?c = "merge_candidate ''critical'' (70 / 100 + importance ?m * (25 / 100)) ?m []"
  have c0: "critical_stage demo_env demo_args demo_pipeline = Inr ?c"
    by (simp add: critical_stage_def demo_env_def demo_args_def demo_pipeline_def crit merge_list_def)
  obtain r where c: "?c = [(''m1'', r)]" "rr_memory r = ?m"
    by (simp add: merge_candidate_def Let_def m(2) recall_result_init_def)
  have "search_text (\<lambda>q rows. []) 9 ''note'' [] [''t''] 10 demo_filed = Inr []"
    by (simp add: search_text_def Let_def demo_terms joined_rows_def filter_memories_def sql_limit_def py_take_def)
  then have search: "search_stages demo_env demo_args demo_pipeline ?c = Inr [(''m1'', r)]"
    unfolding c(1) by (simp add: search_stages_def Let_def demo_env_def demo_args_def demo_pipeline_def merge_list_def
        graph_nodes_for_many_def py_take_def demo_terms demo_graph_walk_none)
  have "lc_state (lifecycle_for ?m) = ''active''" "lc_valid_from (lifecycle_for ?m) = None" "lc_valid_to (lifecycle_for ?m) = None"
    by (simp_all add: lifecycle_for_def m(3) read_state_def optional_float_def is_blank_value_def
        py_lower_def lower_char_def py_replace_char_def ALLOWED_STATES_def py_strip_def py_lstrip_def py_rstrip_def is_space_def)
  then have "should_recall (lifecycle_for ?m) [''note''] None" by (simp add: should_recall_def is_deleted_def)
  then have "ranked demo_args [(''m1'', r)] = [lifecycle_adjust [''note''] None r]"
    by (simp add: ranked_def lifecycle_stage_def demo_args_def demo_terms c(2) sort_desc_def py_take_def)
  then have rec: "snd (recall demo_env demo_args demo_pipeline) = Inr [lifecycle_adjust [''note''] None r]"
    using c0 search
    by (simp add: recall_def act_bind_def act_return_def cached_stage_def recorded_def demo_pipeline_def)
  obtain p' where p': "recall demo_env demo_args demo_pipeline = (p', Inr [lifecycle_adjust [''note''] None r])"
    using rec by (metis prod.collapse)
  have "pipeline_ok (re_nf demo_env) demo_pipeline" by (simp add: pipeline_ok_def demo_pipeline_def)
  then have "result_ok demo_env demo_args (rp_store demo_pipeline) (lifecycle_adjust [''note''] None r)"
    using recall_spec [OF _ p'] by simp
  then show ?thesis using rec by (simp add: demo_pipeline_def)
qed

lemma node_cache_transparent_witness:
  "\<exists>cache. graph_nodes_for_many (Some demo_graph) None [''m1''] = Inr cache
    \<and> res_bind (mobius_stage rev 9 demo_filed (Some demo_graph) [] [] 1 None [canon_envelope demo_note] ([], cache)) (\<lambda>st. Inr (fst st))
      = uncached_mobius rev 9 demo_filed (Some demo_graph) [] [] 1 None [canon_envelope demo_note] []"
proof -
  have id: "env_id (canon_envelope demo_note) = ''m1''"
    by (simp add: canon_envelope_def demo_note_def demo_memory_def)
  obtain cache where "graph_nodes_for_many (Some demo_graph) None [''m1''] = Inr cache"
    by (simp add: graph_nodes_for_many_def nodes_for_ids_eq)
  then show ?thesis using node_cache_transparent [of "Some demo_graph" None "[canon_envelope demo_note]" cache] id by simp
qed

end
