(* ===== verification/Context_Assembly.thy ===== *)
theory Context_Assembly
  imports Governance Recall "HOL-Library.Sublist"
begin

text \<open>
  \<open>context.py\<close>: the results of a recall made into evidence packets under a token budget. What a packet
  shows is a prefix of the text \<open>governance.prompt_text_for\<close> lets a prompt see; a token is estimated as
  \<open>chars_per_token\<close> characters. The governance of a memory may raise, and so may the assembly.
\<close>

record evidence_packet =
  ep_memory_id :: string
  ep_memory_type :: string
  ep_created_at :: real
  ep_source :: py_value
  ep_snippet :: string
  ep_score :: real
  ep_confidence :: real
  ep_why :: "string list"
  ep_provenance :: py_dict
  ep_metadata :: py_dict
  ep_tokens :: int

definition packet_to_dict :: "evidence_packet \<Rightarrow> py_dict" where
  "packet_to_dict p =
     [(''memory_id'', VStr (ep_memory_id p)),
      (''memory_type'', VStr (ep_memory_type p)),
      (''created_at'', VFloat (ep_created_at p)),
      (''source'', ep_source p),
      (''snippet'', VStr (ep_snippet p)),
      (''score'', VFloat (ep_score p)),
      (''confidence'', VFloat (ep_confidence p)),
      (''why_retrieved'', str_list (ep_why p)),
      (''provenance'', VDict (ep_provenance p)),
      (''metadata'', VDict (ep_metadata p)),
      (''estimated_tokens'', VInt (ep_tokens p))]"

record assembler =
  ca_max_tokens :: int
  ca_chars_per_token :: int

definition assembler_new :: "int \<Rightarrow> int \<Rightarrow> assembler result" where
  "assembler_new max_tokens chars_per_token =
     (if max_tokens \<le> 0 then Inl (ValueError ''max_tokens must be positive'')
      else Inr \<lparr>ca_max_tokens = max_tokens, ca_chars_per_token = max 1 chars_per_token\<rparr>)"

definition estimate_tokens :: "assembler \<Rightarrow> string \<Rightarrow> int" where
  "estimate_tokens a text = max 1 ((int (length text) + ca_chars_per_token a - 1) div ca_chars_per_token a)"

definition fit_text :: "assembler \<Rightarrow> string \<Rightarrow> int \<Rightarrow> string \<times> int" where
  "fit_text a text budget =
     (if text = [] \<or> budget \<le> 0 then ([], 0)
      else if estimate_tokens a text \<le> budget then (text, estimate_tokens a text)
      else (let snippet = py_rstrip (py_take (budget * ca_chars_per_token a) text)
            in (snippet, estimate_tokens a snippet)))"

definition context_rank :: "recall_result \<Rightarrow> bool \<times> real \<times> real \<times> real" where
  "context_rank r =
     (95 / 100 \<le> importance (rr_memory r), rr_score r, importance (rr_memory r), created_at (rr_memory r))"

definition packet_metadata :: "envelope \<Rightarrow> py_dict \<Rightarrow> py_dict" where
  "packet_metadata m gov =
     [(''scope'', VDict (scope m)),
      (''tags'', str_list (tags m)),
      (''entities'', str_list (entities m)),
      (''modalities'', str_list (modality_names m)),
      (''content_hash'', VStr (content_hash m)),
      (''governance'', VDict gov)]"

definition packet_of :: "recall_result \<Rightarrow> string \<Rightarrow> int \<Rightarrow> evidence_packet result" where
  "packet_of r snippet tokens =
     (let m = rr_memory r in
      res_bind (governance_for m) (\<lambda>gov.
        Inr \<lparr>ep_memory_id = env_id m, ep_memory_type = memory_type m, ep_created_at = created_at m,
          ep_source = d_or (d_get (provenance m) ''source''), ep_snippet = snippet, ep_score = rr_score r,
          ep_confidence = rr_confidence r, ep_why = rr_why r, ep_provenance = provenance m,
          ep_metadata = packet_metadata m gov, ep_tokens = tokens\<rparr>))"

fun assemble_from :: "assembler \<Rightarrow> int \<Rightarrow> recall_result list \<Rightarrow> evidence_packet list result" where
  "assemble_from a used [] = Inr []"
| "assemble_from a used (r # rs) =
     (if ca_max_tokens a - used \<le> 0 then Inr []
      else res_bind (prompt_text_for (rr_memory r)) (\<lambda>text.
        (case fit_text a text (ca_max_tokens a - used) of
           (snippet, tokens) \<Rightarrow>
             if snippet = [] then assemble_from a used rs
             else res_bind (packet_of r snippet tokens) (\<lambda>p.
               res_bind (assemble_from a (used + tokens) rs) (\<lambda>ps. Inr (p # ps))))))"

definition assemble :: "assembler \<Rightarrow> recall_result list \<Rightarrow> evidence_packet list result" where
  "assemble a results = assemble_from a 0 (sort_desc context_rank results)"

section \<open>The budget\<close>

definition assembler_ok :: "assembler \<Rightarrow> bool" where
  "assembler_ok a = (0 < ca_max_tokens a \<and> 1 \<le> ca_chars_per_token a)"

lemma assembler_new_ok: "assembler_new n c = Inr a \<Longrightarrow> assembler_ok a"
  by (auto simp: assembler_new_def assembler_ok_def split: if_splits)

lemma estimate_tokens_bound:
  assumes "1 \<le> ca_chars_per_token a" "0 < b" "int (length s) \<le> b * ca_chars_per_token a"
  shows "estimate_tokens a s \<le> b"
proof -
  let ?c = "ca_chars_per_token a"
  have "int (length s) + ?c - 1 < (b + 1) * ?c" using assms(3) by (simp add: distrib_right)
  then have "(int (length s) + ?c - 1) div ?c < b + 1" using assms(1) by (smt (verit) div_by_1 int_div_less_self nonzero_mult_div_cancel_right pos_imp_zdiv_nonneg_iff zdiv_mono1 minus_mod_eq_mult_div pos_mod_sign mult_less_cancel_right mult.commute)
  then show ?thesis using assms(2) by (simp add: estimate_tokens_def)
qed

lemma py_rstrip_visible: "s \<noteq> [] \<Longrightarrow> \<not> is_space (hd s) \<Longrightarrow> py_rstrip s \<noteq> []"
  by (auto simp: py_rstrip_Nil_iff)

lemma py_rstrip_take: "\<exists>rest. s = py_rstrip (take n s) @ rest"
  by (metis append.assoc append_take_drop_id py_rstrip_prefix)

text \<open>A snippet is a prefix of its text within the budget, and not empty if the text starts visibly.\<close>

lemma fit_text_spec:
  assumes "assembler_ok a" "0 < b" "fit_text a text b = (s, t)" "s \<noteq> []"
  shows "\<exists>rest. text = s @ rest" "t = estimate_tokens a s" "t \<le> b"
proof -
  let ?c = "ca_chars_per_token a"
  have c: "1 \<le> ?c" "0 \<le> b * ?c" using assms(1,2) by (auto simp: assembler_ok_def)
  have "length (py_rstrip (take (nat (b * ?c)) text)) \<le> nat (b * ?c)"
    using length_py_rstrip [of "take (nat (b * ?c)) text"] by simp
  then have "int (length (py_rstrip (take (nat (b * ?c)) text))) \<le> b * ?c" using c(2) by linarith
  note est = estimate_tokens_bound [OF c(1) assms(2) this]
  show "\<exists>rest. text = s @ rest" "t = estimate_tokens a s" "t \<le> b"
    using assms(3,4) c(2) est py_rstrip_take [of "text" "nat (b * ?c)"]
    by (auto simp: fit_text_def Let_def py_take_def split: if_splits)
qed

lemma fit_text_visible:
  assumes "assembler_ok a" "0 < b" "text \<noteq> []" "\<not> is_space (hd text)"
  shows "fst (fit_text a text b) \<noteq> []"
proof -
  let ?n = "b * ca_chars_per_token a"
  have "0 < ?n" using assms(1,2) by (auto simp: assembler_ok_def)
  then have "py_rstrip (py_take ?n text) \<noteq> []"
    using assms(3,4) by (intro py_rstrip_visible) (auto simp: py_take_def)
  then show ?thesis using assms(2,3) by (simp add: fit_text_def Let_def)
qed

text \<open>A packet made from a result.\<close>

definition packet_shows :: "assembler \<Rightarrow> evidence_packet \<Rightarrow> recall_result \<Rightarrow> bool" where
  "packet_shows a p r =
     (\<exists>rest. prompt_text_for (rr_memory r) = Inr (ep_snippet p @ rest) \<and> ep_snippet p \<noteq> []
       \<and> ep_tokens p = estimate_tokens a (ep_snippet p) \<and> packet_of r (ep_snippet p) (ep_tokens p) = Inr p)"

definition tokens_of :: "evidence_packet list \<Rightarrow> int" where
  "tokens_of ps = sum_list (map ep_tokens ps)"

text \<open>A result that a prompt may see something of at once.\<close>

definition shows_text :: "recall_result \<Rightarrow> bool" where
  "shows_text r =
     (case prompt_text_for (rr_memory r) of Inl e \<Rightarrow> False | Inr text \<Rightarrow> text \<noteq> [] \<and> \<not> is_space (hd text))"

lemma packet_of_fields: "packet_of r s t = Inr p \<Longrightarrow> ep_snippet p = s \<and> ep_tokens p = t"
  by (auto simp: packet_of_def Let_def res_bind_eq_Inr)

lemma assemble_from_spec:
  assumes "assembler_ok a" "assemble_from a used rs = Inr ps" "used \<le> ca_max_tokens a"
  shows "used + tokens_of ps \<le> ca_max_tokens a \<and> (\<exists>qs. subseq qs rs \<and> list_all2 (packet_shows a) ps qs
    \<and> (used + tokens_of ps < ca_max_tokens a \<longrightarrow> (\<forall>r\<in>set rs. shows_text r \<longrightarrow> r \<in> set qs)))"
  using assms(2,3)
proof (induction rs arbitrary: used ps)
  case Nil
  then show ?case by (auto simp: tokens_of_def)
next
  case (Cons r rs)
  let ?left = "ca_max_tokens a - used"
  show ?case
  proof (cases "?left \<le> 0")
    case True
    then show ?thesis using Cons.prems by (auto simp: tokens_of_def intro: exI [of _ "[]"])
  next
    case False
    then have left: "0 < ?left" by simp
    obtain str where str: "prompt_text_for (rr_memory r) = Inr str"
      using Cons.prems(1) False by (auto simp: res_bind_eq_Inr)
    obtain s t where fit: "fit_text a str ?left = (s, t)" by fastforce
    show ?thesis
    proof (cases "s = []")
      case True
      then have rest: "assemble_from a used rs = Inr ps" using Cons.prems(1) False str fit by simp
      have "\<not> shows_text r" using fit_text_visible [OF assms(1) left, of str] str fit True by (auto simp: shows_text_def)
      then show ?thesis using Cons.IH [OF rest Cons.prems(2)] by auto
    next
      case ne: False
      obtain p ps' where p: "packet_of r s t = Inr p" and rest: "assemble_from a (used + t) rs = Inr ps'" and ps: "ps = p # ps'"
        using Cons.prems(1) False str fit ne by (auto simp: res_bind_eq_Inr)
      note f = fit_text_spec [OF assms(1) left fit ne]
      have "packet_shows a p r" using f str p False ne packet_of_fields [OF p] by (auto simp: packet_shows_def)
      moreover obtain qs where "used + t + tokens_of ps' \<le> ca_max_tokens a" "subseq qs rs" "list_all2 (packet_shows a) ps' qs"
        "used + t + tokens_of ps' < ca_max_tokens a \<longrightarrow> (\<forall>r\<in>set rs. shows_text r \<longrightarrow> r \<in> set qs)"
        using Cons.IH [OF rest] f(3) False by auto
      moreover have "tokens_of ps = t + tokens_of ps'" using packet_of_fields [OF p] ps by (simp add: tokens_of_def)
      ultimately show ?thesis using ps by (intro conjI exI [of _ "r # qs"]) auto
    qed
  qed
qed

text \<open>
  C29: the packets of an assembly cost at most \<open>max_tokens\<close> in all; they show, in rank order, a non-empty
  prefix each of what a prompt may see of its memory, and cost what the prefix is estimated at. If the
  budget is not used up, no result is left out whose visible text begins with a character that is no blank.
\<close>

theorem assemble_within_budget:
  assumes "assembler_new max_tokens chars_per_token = Inr a" "assemble a results = Inr packets"
  shows "tokens_of packets \<le> max_tokens
    \<and> (\<exists>shown. subseq shown (sort_desc context_rank results) \<and> list_all2 (packet_shows a) packets shown
      \<and> (tokens_of packets < max_tokens \<longrightarrow> (\<forall>r\<in>set results. shows_text r \<longrightarrow> r \<in> set shown)))"
proof -
  have "ca_max_tokens a = max_tokens" "0 < max_tokens"
    using assms(1) by (auto simp: assembler_new_def split: if_splits)
  then show ?thesis
    using assemble_from_spec [OF assembler_new_ok [OF assms(1)] assms(2) [unfolded assemble_def]] by simp
qed

section \<open>An example\<close>

definition demo_result :: recall_result where
  "demo_result = recall_result_init \<lparr>rr_memory = demo_secret ''CPF 123.456.789-09'', rr_score = 1 / 2,
     rr_confidence = 1 / 2, rr_why = [''fts''], rr_signals = []\<rparr>"

definition demo_assembler :: assembler where
  "demo_assembler = \<lparr>ca_max_tokens = 2, ca_chars_per_token = 4\<rparr>"

lemma assemble_within_budget_witness:
  "\<exists>p. assembler_new 2 4 = Inr demo_assembler \<and> assemble demo_assembler [demo_result] = Inr [p]
    \<and> ep_snippet p = ''[memory'' \<and> tokens_of [p] \<le> 2"
proof -
  have new: "assembler_new 2 4 = Inr demo_assembler" by (simp add: assembler_new_def demo_assembler_def)
  have m: "rr_memory demo_result = demo_secret ''CPF 123.456.789-09''" by (simp add: demo_result_def recall_result_init_def)
  have shown: "prompt_text_for (rr_memory demo_result)
      = Inr ''[memory withheld: pii; use inspect_memory(mem_1) with permission]''"
    unfolding m by (rule demo_secret_prompt)
  then obtain labels where "safety_labels_for (rr_memory demo_result) = Inr labels"
    by (auto simp: prompt_text_for_def res_bind_eq_Inr)
  then obtain gov where gov: "governance_for (rr_memory demo_result) = Inr gov" by (simp add: governance_for_def Let_def)
  obtain p where p: "packet_of demo_result ''[memory'' 2 = Inr p" using gov by (simp add: packet_of_def Let_def)
  have fit: "fit_text demo_assembler ''[memory withheld: pii; use inspect_memory(mem_1) with permission]'' 2 = (''[memory'', 2)"
    by (simp add: fit_text_def estimate_tokens_def demo_assembler_def py_take_def py_rstrip_def is_space_def)
  have all: "assemble demo_assembler [demo_result] = Inr [p]"
    using shown fit p by (simp add: assemble_def sort_desc_def demo_assembler_def)
  show ?thesis
    using assemble_within_budget [OF new all] new all packet_of_fields [OF p] by blast
qed

end
