(* ===== verification/Facts.thy ===== *)
theory Facts
  imports Graph
begin

text \<open>
  \<open>facts.py\<close>: the ledger of facts with explicit supersession. A row of the \<open>facts\<close> table is the fact
  it is read back as: its JSON columns hold the value \<open>json.loads\<close> gives (\<open>canon_dict\<close>), and the
  normalised columns, which only serve SQLite's index, are left out. The ledger writes to the relation
  graph and tells the knowledge graph about each fact; the latter is the argument \<open>notify\<close>, a call on
  the graph and the listener's own state. SQLite rolls the ledger's own tables back when the block
  raises; the graph commits on its own.
\<close>

record fact =
  fc_id :: string
  fc_subject :: string
  fc_predicate :: string
  fc_object :: string
  fc_memory_id :: string
  fc_scope :: py_dict
  fc_status :: string
  fc_supersedes :: "string list"
  fc_superseded_by :: "string option"
  fc_reason :: string
  fc_valid_from :: "real option"
  fc_valid_to :: "real option"
  fc_confidence :: real
  fc_created_at :: real

definition fact_to_dict :: "fact \<Rightarrow> py_dict" where
  "fact_to_dict f =
    [(''fact_id'', VStr (fc_id f)), (''subject'', VStr (fc_subject f)), (''predicate'', VStr (fc_predicate f)),
     (''object'', VStr (fc_object f)), (''source_memory_id'', VStr (fc_memory_id f)), (''scope'', VDict (fc_scope f)),
     (''status'', VStr (fc_status f)), (''supersedes'', str_list (fc_supersedes f)),
     (''superseded_by'', opt_str (fc_superseded_by f)), (''reason'', VStr (fc_reason f)),
     (''valid_from'', opt_real (fc_valid_from f)), (''valid_to'', opt_real (fc_valid_to f)),
     (''confidence'', VFloat (fc_confidence f)), (''created_at'', VFloat (fc_created_at f))]"

record fact_conflict =
  cf_superseding :: string
  cf_superseded :: string
  cf_reason :: string
  cf_created_at :: real

definition cf_key :: "fact_conflict \<Rightarrow> string \<times> string" where
  "cf_key c = (cf_superseding c, cf_superseded c)"

record ledger =
  lg_facts :: "fact list"
  lg_conflicts :: "fact_conflict list"

record 'k fact_world =
  fw_ledger :: ledger
  fw_graph :: graph
  fw_listener :: 'k

definition ledger_empty :: ledger where
  "ledger_empty = \<lparr>lg_facts = [], lg_conflicts = []\<rparr>"

section \<open>Adding a fact\<close>

definition fact_material :: "fact \<Rightarrow> py_value" where
  "fact_material f = VDict
    [(''subject'', VStr (norm_key (fc_subject f))), (''predicate'', VStr (norm_key (fc_predicate f))),
     (''object'', VStr (norm_key (fc_object f))), (''source_memory_id'', VStr (fc_memory_id f)),
     (''valid_from'', opt_real (fc_valid_from f)), (''valid_to'', opt_real (fc_valid_to f))]"

definition fact_id_of :: "fact \<Rightarrow> string result" where
  "fact_id_of f = res_bind (sha256_hex (fact_material f)) (\<lambda>h. Inr (''fact_'' @ take 24 h))"

definition fact_relation :: "fact \<Rightarrow> relation" where
  "fact_relation f = \<lparr>rl_subject = fc_subject f, rl_predicate = fc_predicate f, rl_object = fc_object f,
     rl_memory_id = fc_memory_id f, rl_graph_name = [], rl_valid_from = fc_valid_from f,
     rl_valid_to = fc_valid_to f, rl_confidence = fc_confidence f, rl_source = Some ''fact_ledger'',
     rl_created_at = fc_created_at f\<rparr>"

definition conflict_relation :: "fact \<Rightarrow> string \<Rightarrow> relation" where
  "conflict_relation f old = \<lparr>rl_subject = fc_id f, rl_predicate = ''supersedes'', rl_object = old,
     rl_memory_id = fc_memory_id f, rl_graph_name = [], rl_valid_from = None, rl_valid_to = None,
     rl_confidence = fc_confidence f, rl_source = Some ''fact_ledger'', rl_created_at = fc_created_at f\<rparr>"

definition index_fact_graph :: "fact \<Rightarrow> (graph, relation) action" where
  "index_fact_graph f = add_relation (Some ''facts'') (fact_relation f)"

definition index_conflict_graph :: "fact \<Rightarrow> string \<Rightarrow> (graph, relation) action" where
  "index_conflict_graph f old = add_relation (Some ''conflict'') (conflict_relation f old)"

text \<open>The record built from the arguments; \<open>f\<close> carries them, \<open>fc_id\<close> and \<open>fc_status\<close> not yet set.\<close>

definition fact_record :: "fact \<Rightarrow> fact result" where
  "fact_record f =
     (let g = f\<lparr>fc_subject := py_strip (fc_subject f), fc_predicate := py_strip (fc_predicate f),
            fc_object := py_strip (fc_object f), fc_memory_id := py_strip (fc_memory_id f),
            fc_supersedes := filter (\<lambda>s. s \<noteq> []) (fc_supersedes f), fc_status := ''active'',
            fc_superseded_by := None, fc_confidence := clamp01 (fc_confidence f)\<rparr>
      in if fc_subject g = [] \<or> fc_predicate g = [] \<or> fc_object g = [] \<or> fc_memory_id g = []
         then Inl (ValueError ''subject, predicate, object, and source_memory_id are required'')
         else res_bind (fact_id_of g) (\<lambda>i. Inr (g\<lparr>fc_id := i\<rparr>)))"

definition mark_superseded :: "string \<Rightarrow> string \<Rightarrow> fact list \<Rightarrow> fact list" where
  "mark_superseded new old rows =
     map (\<lambda>f. if fc_id f = old then f\<lparr>fc_status := ''superseded'', fc_superseded_by := Some new\<rparr> else f) rows"

definition supersede_step :: "fact \<Rightarrow> string \<Rightarrow> (ledger \<times> graph, relation) action" where
  "supersede_step f old w =
     (case w of (l, g) \<Rightarrow>
       (case index_conflict_graph f old g of (g', r) \<Rightarrow>
         ((l\<lparr>lg_facts := mark_superseded (fc_id f) old (lg_facts l),
             lg_conflicts := tbl_put cf_key \<lparr>cf_superseding = fc_id f, cf_superseded = old,
                cf_reason = fc_reason f, cf_created_at = fc_created_at f\<rparr> (lg_conflicts l)\<rparr>, g'), r)))"

text \<open>The block under \<open>with self._connection()\<close>: on an exception the ledger's tables are as before.\<close>

definition write_fact :: "fact \<Rightarrow> (ledger \<times> graph, unit) action" where
  "write_fact f w =
     (case w of (l, g) \<Rightarrow>
        if \<not> jsonable (VDict (fc_scope f)) then ((l, g), Inl (TypeError ''not JSON serializable''))
        else
          (let l1 = l\<lparr>lg_facts := tbl_put fc_id (f\<lparr>fc_scope := canon_dict (fc_scope f)\<rparr>) (lg_facts l)\<rparr> in
           (case index_fact_graph f g of
              (g1, Inl err) \<Rightarrow> ((l, g1), Inl err)
            | (g1, Inr _) \<Rightarrow>
                (case act_each (supersede_step f) (fc_supersedes f) (l1, g1) of
                   ((l2, g2), Inl err) \<Rightarrow> ((l, g2), Inl err)
                 | ((l2, g2), Inr _) \<Rightarrow> ((l2, g2), Inr ())))))"

definition get_fact :: "string \<Rightarrow> ledger \<Rightarrow> fact result" where
  "get_fact i l = (case tbl_find fc_id i (lg_facts l) of None \<Rightarrow> Inl (KeyError i) | Some f \<Rightarrow> Inr f)"

definition add_fact ::
  "(fact \<Rightarrow> (graph \<times> 'k, 'a) action) \<Rightarrow> fact \<Rightarrow> ('k fact_world, fact) action" where
  "add_fact notify args w =
     (case fact_record args of
        Inl err \<Rightarrow> (w, Inl err)
      | Inr f \<Rightarrow>
          (case write_fact f (fw_ledger w, fw_graph w) of
             ((l, g), Inl err) \<Rightarrow> (w\<lparr>fw_ledger := l, fw_graph := g\<rparr>, Inl err)
           | ((l, g), Inr _) \<Rightarrow>
               (let w1 = w\<lparr>fw_ledger := l, fw_graph := g\<rparr> in
                (case get_fact (fc_id f) l of
                   Inl err \<Rightarrow> (w1, Inl err)
                 | Inr indexed \<Rightarrow>
                     (case notify indexed (g, fw_listener w) of
                        ((g', k'), Inl err) \<Rightarrow> (w1\<lparr>fw_graph := g', fw_listener := k'\<rparr>, Inl err)
                      | ((g', k'), Inr _) \<Rightarrow> (w1\<lparr>fw_graph := g', fw_listener := k'\<rparr>, Inr indexed))))))"

section \<open>Reading\<close>

definition fact_rank :: "fact \<Rightarrow> real \<times> real" where
  "fact_rank f = (fc_confidence f, fc_created_at f)"

definition facts_for_memory :: "string \<Rightarrow> ledger \<Rightarrow> fact list" where
  "facts_for_memory m l = sort_desc fact_rank (filter (\<lambda>f. fc_memory_id f = m) (lg_facts l))"

definition scope_matches :: "py_dict \<Rightarrow> py_dict \<Rightarrow> bool" where
  "scope_matches wanted sc = list_all (\<lambda>(k, v). py_eq (d_or (d_get sc k)) v) wanted"

definition list_facts :: "py_dict \<Rightarrow> string option \<Rightarrow> int option \<Rightarrow> ledger \<Rightarrow> fact list" where
  "list_facts sc status limit l =
     (let rows = sort_desc fact_rank (filter (\<lambda>f. case status of None \<Rightarrow> True
            | Some s \<Rightarrow> s = [] \<or> fc_status f = s) (lg_facts l));
          cut = (case limit of None \<Rightarrow> rows | Some n \<Rightarrow> sql_limit n rows);
          matched = filter (\<lambda>f. scope_matches sc (fc_scope f)) cut
      in case limit of None \<Rightarrow> matched | Some n \<Rightarrow> py_take n matched)"

definition conflicts_for_fact :: "string \<Rightarrow> ledger \<Rightarrow> fact_conflict list" where
  "conflicts_for_fact i l =
     sort_desc cf_created_at (filter (\<lambda>c. cf_superseding c = i \<or> cf_superseded c = i) (lg_conflicts l))"

definition memory_fact_status :: "string \<Rightarrow> ledger \<Rightarrow> py_dict" where
  "memory_fact_status m l =
     (let fs = facts_for_memory m l; act = filter (\<lambda>f. fc_status f = ''active'') fs;
          sup = filter (\<lambda>f. fc_status f = ''superseded'') fs
      in [(''active_fact_count'', VInt (int (length act))), (''superseded_fact_count'', VInt (int (length sup))),
          (''fact_ids'', str_list (map fc_id fs)), (''active_fact_ids'', str_list (map fc_id act)),
          (''superseded_fact_ids'', str_list (map fc_id sup))])"

definition fact_count :: "ledger \<Rightarrow> int" where
  "fact_count l = int (length (lg_facts l))"

definition rebuild_graph_index :: "ledger \<Rightarrow> (graph, unit) action" where
  "rebuild_graph_index l g =
     (case act_each index_fact_graph (sort_key fc_created_at (lg_facts l)) g of
        (g1, Inl err) \<Rightarrow> (g1, Inl err)
      | (g1, Inr _) \<Rightarrow>
          (case act_each (\<lambda>c g. case tbl_find fc_id (cf_superseding c) (lg_facts l) of
                  None \<Rightarrow> (g, Inr None)
                | Some f \<Rightarrow> (case index_conflict_graph f (cf_superseded c) g of
                      (g', Inl err) \<Rightarrow> (g', Inl err) | (g', Inr r) \<Rightarrow> (g', Inr (Some r))))
                (sort_key cf_created_at (lg_conflicts l)) g1 of
             (g2, Inl err) \<Rightarrow> (g2, Inl err)
           | (g2, Inr _) \<Rightarrow> (g2, Inr ())))"

section \<open>The ledger's invariant\<close>

interpretation facts: checked_table "tbl_find fc_id" "tbl_put fc_id" fc_id "tbl_ok fc_id" "\<lambda>rows. fc_id ` set rows"
  by (rule checked_table_rows)

interpretation fact_conflicts: checked_table "tbl_find cf_key" "tbl_put cf_key" cf_key "tbl_ok cf_key"
    "\<lambda>rows. cf_key ` set rows"
  by (rule checked_table_rows)

text \<open>A fact is active with no successor, or superseded by one the conflict table names.\<close>

definition fact_ok :: "fact_conflict list \<Rightarrow> fact \<Rightarrow> bool" where
  "fact_ok cs f =
     (0 \<le> fc_confidence f \<and> fc_confidence f \<le> 1 \<and> fc_subject f \<noteq> [] \<and> fc_predicate f \<noteq> [] \<and> fc_object f \<noteq> []
      \<and> fc_memory_id f \<noteq> []
      \<and> (fc_status f = ''active'' \<and> fc_superseded_by f = None
         \<or> fc_status f = ''superseded'' \<and> (\<exists>new. fc_superseded_by f = Some new \<and> (new, fc_id f) \<in> cf_key ` set cs)))"

definition ledger_ok :: "ledger \<Rightarrow> bool" where
  "ledger_ok l =
     (tbl_ok fc_id (lg_facts l) \<and> tbl_ok cf_key (lg_conflicts l) \<and> list_all (fact_ok (lg_conflicts l)) (lg_facts l))"

lemma ledger_ok_empty [simp]: "ledger_ok ledger_empty"
  by (simp add: ledger_ok_def ledger_empty_def)

lemma fact_ok_mono: "fact_ok cs f \<Longrightarrow> cf_key ` set cs \<subseteq> cf_key ` set cs' \<Longrightarrow> fact_ok cs' f"
  unfolding fact_ok_def by blast

lemma fact_ok_scope [simp]: "fact_ok cs (f\<lparr>fc_scope := sc\<rparr>) = fact_ok cs f"
  by (simp add: fact_ok_def)

lemma fact_record_Inr:
  assumes "fact_record a = Inr f"
  shows "fact_ok cs f" "fc_status f = ''active''" "fc_superseded_by f = None" "fact_id_of f = Inr (fc_id f)"
    "fc_supersedes f = filter (\<lambda>s. s \<noteq> []) (fc_supersedes a)" "fc_scope f = fc_scope a"
    "norm_key (fc_subject f) = norm_key (fc_subject a)" "fc_created_at f = fc_created_at a"
    "fc_memory_id f = py_strip (fc_memory_id a)" "fc_valid_from f = fc_valid_from a" "fc_valid_to f = fc_valid_to a"
    "trimmed (fc_subject f)" "trimmed (fc_predicate f)" "trimmed (fc_object f)"
  using assms
  by (auto simp: fact_record_def Let_def res_bind_eq_Inr fact_ok_def fact_id_of_def fact_material_def split: if_splits)

lemma map_find_mark: "tbl_find fc_id i (mark_superseded new old rows) =
    map_option (\<lambda>f. if fc_id f = old then f\<lparr>fc_status := ''superseded'', fc_superseded_by := Some new\<rparr> else f)
      (tbl_find fc_id i rows)"
  unfolding mark_superseded_def by (rule tbl_find_map) simp

lemma ledger_ok_step:
  assumes "ledger_ok (fst w)"
  shows "ledger_ok (fst (fst (supersede_step f old w)))"
proof -
  obtain l g where w: "w = (l, g)" by fastforce
  have old_ok: "ledger_ok l" using assms by (simp add: w)
  let ?c = "\<lparr>cf_superseding = fc_id f, cf_superseded = old, cf_reason = fc_reason f, cf_created_at = fc_created_at f\<rparr>"
  let ?cs = "tbl_put cf_key ?c (lg_conflicts l)"
  let ?fs = "mark_superseded (fc_id f) old (lg_facts l)"
  have l: "fst (fst (supersede_step f old w)) = l\<lparr>lg_facts := ?fs, lg_conflicts := ?cs\<rparr>"
    by (simp add: supersede_step_def w split: prod.split)
  have keys: "cf_key ` set ?cs = insert (fc_id f, old) (cf_key ` set (lg_conflicts l))"
    using fact_conflicts.keys_put [of ?c "lg_conflicts l"] by (simp add: cf_key_def)
  have "fact_ok ?cs x" if xmem: "x \<in> set ?fs" for x
  proof -
    obtain y where y: "y \<in> set (lg_facts l)"
      and x: "x = (if fc_id y = old then y\<lparr>fc_status := ''superseded'', fc_superseded_by := Some (fc_id f)\<rparr> else y)"
      using xmem by (auto simp: mark_superseded_def)
    have "fact_ok (lg_conflicts l) y" using assms y by (simp add: w ledger_ok_def list_all_iff)
    then have ok: "fact_ok ?cs y" by (rule fact_ok_mono) (simp add: keys subset_insertI)
    show ?thesis
    proof (cases "fc_id y = old")
      case True
      then have "(fc_id f, fc_id y) \<in> cf_key ` set ?cs" by (simp add: keys)
      then show ?thesis using ok True unfolding x fact_ok_def by simp
    next
      case False
      then show ?thesis using ok x by simp
    qed
  qed
  moreover have "tbl_ok fc_id ?fs"
    using assms by (simp add: w ledger_ok_def mark_superseded_def tbl_ok_map)
  ultimately have "ledger_ok (l\<lparr>lg_facts := ?fs, lg_conflicts := ?cs\<rparr>)"
    using old_ok by (simp add: ledger_ok_def list_all_iff fact_conflicts.ok_put)
  then show ?thesis unfolding l .
qed

lemma ledger_ok_write:
  assumes "ledger_ok l" "fact_ok (lg_conflicts l) f"
  shows "ledger_ok (fst (fst (write_fact f (l, g))))"
proof -
  let ?l1 = "l\<lparr>lg_facts := tbl_put fc_id (f\<lparr>fc_scope := canon_dict (fc_scope f)\<rparr>) (lg_facts l)\<rparr>"
  have "ledger_ok ?l1"
    using assms set_tbl_put [of fc_id "f\<lparr>fc_scope := canon_dict (fc_scope f)\<rparr>" "lg_facts l"]
    by (auto simp: ledger_ok_def list_all_iff)
  then have "ledger_ok (fst (fst (act_each (supersede_step f) xs (?l1, g1))))" for xs g1
    by (intro act_each_invariant [where I = "\<lambda>w. ledger_ok (fst w)"]) (auto simp: ledger_ok_step)
  then show ?thesis
    using assms(1) by (auto simp: write_fact_def Let_def split: prod.splits sum.splits) (metis fst_conv)+
qed

section \<open>What listens to the ledger\<close>

text \<open>
  The ledger calls its listener with each fact it stored. What it asks of it is that a call keeps an
  invariant of the graph and the listener's state, whether or not it raises, and that adding a
  relation to the graph keeps it too.
\<close>

locale fact_listener =
  fixes notify :: "fact \<Rightarrow> (graph \<times> 'k, 'a) action" and inv :: "graph \<times> 'k \<Rightarrow> bool"
  assumes notify_keeps: "inv s \<Longrightarrow> inv (fst (notify f s))"
    and relation_keeps: "inv (g, k) \<Longrightarrow> inv (fst (add_relation n r g), k)"
begin

lemma supersede_keeps: "inv (snd w, k) \<Longrightarrow> inv (snd (fst (supersede_step f old w)), k)"
proof -
  assume i: "inv (snd w, k)"
  obtain l g where w: "w = (l, g)" by fastforce
  have "snd (fst (supersede_step f old w)) = fst (add_relation (Some ''conflict'') (conflict_relation f old) g)"
    by (simp add: w supersede_step_def index_conflict_graph_def split: prod.split)
  then show ?thesis using relation_keeps i by (simp add: w)
qed

lemma write_keeps: "inv (g, k) \<Longrightarrow> inv (snd (fst (write_fact f (l, g))), k)"
proof -
  assume i: "inv (g, k)"
  obtain g1 x where g1: "index_fact_graph f g = (g1, x)" by fastforce
  then have i1: "inv (g1, k)" using relation_keeps [OF i] by (metis fst_conv index_fact_graph_def)
  have each: "inv (snd (fst (act_each (supersede_step f) xs (l1, g1))), k)" for xs l1
    by (rule act_each_invariant [where I = "\<lambda>w. inv (snd w, k)"]) (use i1 supersede_keeps in auto)
  show ?thesis
    using i i1 each by (auto simp: write_fact_def g1 Let_def split: prod.splits sum.splits) (metis fst_conv snd_conv)+
qed

lemma add_fact_keeps:
  assumes "inv (fw_graph w, fw_listener w)"
  shows "inv (fw_graph (fst (add_fact notify a w)), fw_listener (fst (add_fact notify a w)))"
proof (cases "fact_record a")
  case (Inl err)
  then show ?thesis using assms by (simp add: add_fact_def)
next
  case (Inr f)
  obtain l g x where w: "write_fact f (fw_ledger w, fw_graph w) = ((l, g), x)" by (metis surj_pair)
  then have i: "inv (g, fw_listener w)"
    using write_keeps [OF assms, of f "fw_ledger w"] by simp
  show ?thesis
  proof (cases x)
    case (Inl err)
    then show ?thesis using i by (simp add: add_fact_def Inr w)
  next
    case ok: (Inr u)
    show ?thesis
    proof (cases "get_fact (fc_id f) l")
      case (Inl err)
      then show ?thesis using i ok by (simp add: add_fact_def Inr w Let_def)
    next
      case q: (Inr q)
      obtain g' k' y where n: "notify q (g, fw_listener w) = ((g', k'), y)" by (metis surj_pair)
      then have "inv (g', k')" using notify_keeps [OF i, of q] by simp
      then show ?thesis using ok q n by (cases y) (simp_all add: add_fact_def Inr w Let_def)
    qed
  qed
qed

end

text \<open>A ledger with no knowledge graph.\<close>

definition no_listener :: "fact \<Rightarrow> (graph \<times> unit, unit) action" where
  "no_listener f s = (s, Inr ())"

interpretation bare_ledger: fact_listener no_listener "\<lambda>s. graph_ok (fst s)"
  by unfold_locales (simp_all add: no_listener_def add_relation_graph_ok)

lemma add_fact_ledger_ok:
  assumes "ledger_ok (fw_ledger w)"
  shows "ledger_ok (fw_ledger (fst (add_fact notify a w)))"
proof (cases "fact_record a")
  case (Inl err)
  then show ?thesis using assms by (simp add: add_fact_def)
next
  case (Inr f)
  obtain l g x where w: "write_fact f (fw_ledger w, fw_graph w) = ((l, g), x)" by (metis surj_pair)
  then have "ledger_ok l"
    using ledger_ok_write [OF assms fact_record_Inr(1) [OF Inr], of "fw_graph w"] by simp
  moreover have "fw_ledger (fst (add_fact notify a w)) = l"
    by (auto simp: add_fact_def Inr w Let_def split: sum.split prod.split)
  ultimately show ?thesis by simp
qed

text \<open>
  C20: whatever is added, and whatever the listener does, every fact in the ledger is active with no
  successor or superseded by one the conflict table names, its fields are not blank and its confidence
  is in \<open>[0, 1]\<close>; ids and conflict pairs occur once.
\<close>

theorem add_fact_invariant:
  assumes "ledger_ok (fw_ledger w)"
  shows "ledger_ok (fw_ledger (fst (add_fact notify a w)))"
  by (rule add_fact_ledger_ok [OF assms])

section \<open>What one call does\<close>

definition superseded_by :: "string \<Rightarrow> fact \<Rightarrow> fact" where
  "superseded_by new f = f\<lparr>fc_status := ''superseded'', fc_superseded_by := Some new\<rparr>"

lemma supersede_each_effect:
  assumes "act_each (supersede_step f) olds (l, g) = ((l', g'), Inr rs)"
  shows "tbl_find fc_id i (lg_facts l') =
      map_option (\<lambda>q. if i \<in> set olds then superseded_by (fc_id f) q else q) (tbl_find fc_id i (lg_facts l))"
    and "cf_key ` set (lg_conflicts l') = (\<lambda>old. (fc_id f, old)) ` set olds \<union> cf_key ` set (lg_conflicts l)"
  using assms
proof (induction olds arbitrary: l g rs)
  case Nil
  {
    case 1
    then show ?case by (simp add: option.map_ident)
  next
    case 2
    then show ?case by simp
  }
next
  case (Cons old olds)
  have step: "\<exists>l1 g1 r rs'. supersede_step f old (l, g) = ((l1, g1), Inr r)
      \<and> act_each (supersede_step f) olds (l1, g1) = ((l', g'), Inr rs')
      \<and> lg_facts l1 = mark_superseded (fc_id f) old (lg_facts l)
      \<and> cf_key ` set (lg_conflicts l1) = insert (fc_id f, old) (cf_key ` set (lg_conflicts l))"
    if "act_each (supersede_step f) (old # olds) (l, g) = ((l', g'), Inr rs)" for l g rs
    using that fact_conflicts.keys_put [of _ "lg_conflicts l"]
    by (auto simp: supersede_step_def cf_key_def split: prod.splits sum.splits)
  {
    case 1
    obtain l1 g1 rs' where s: "act_each (supersede_step f) olds (l1, g1) = ((l', g'), Inr rs')"
      "lg_facts l1 = mark_superseded (fc_id f) old (lg_facts l)"
      using step [OF 1] by blast
    have m: "tbl_find fc_id i (lg_facts l1)
        = map_option (\<lambda>q. if fc_id q = old then superseded_by (fc_id f) q else q) (tbl_find fc_id i (lg_facts l))"
      unfolding s(2) map_find_mark superseded_by_def ..
    show ?case
      using Cons.IH(1) [OF s(1)] tbl_find_SomeD [of fc_id i "lg_facts l"]
      by (cases "tbl_find fc_id i (lg_facts l)") (auto simp: m superseded_by_def)
  next
    case 2
    obtain l1 g1 rs' where "act_each (supersede_step f) olds (l1, g1) = ((l', g'), Inr rs')"
      "cf_key ` set (lg_conflicts l1) = insert (fc_id f, old) (cf_key ` set (lg_conflicts l))"
      using step [OF 2] by blast
    then show ?case using Cons.IH(2) by auto
  }
qed

lemma write_fact_effect:
  assumes "write_fact f (l, g) = ((l', g'), Inr u)"
  shows "tbl_find fc_id i (lg_facts l') =
      map_option (\<lambda>q. if i \<in> set (fc_supersedes f) then superseded_by (fc_id f) q else q)
        (if i = fc_id f then Some (f\<lparr>fc_scope := canon_dict (fc_scope f)\<rparr>) else tbl_find fc_id i (lg_facts l))"
    and "(\<lambda>old. (fc_id f, old)) ` set (fc_supersedes f) \<subseteq> cf_key ` set (lg_conflicts l')"
proof -
  let ?l1 = "l\<lparr>lg_facts := tbl_put fc_id (f\<lparr>fc_scope := canon_dict (fc_scope f)\<rparr>) (lg_facts l)\<rparr>"
  obtain g1 r rs where a: "act_each (supersede_step f) (fc_supersedes f) (?l1, g1) = ((l', g'), Inr rs)"
    using assms by (auto simp: write_fact_def Let_def simp del: jsonable.simps split: if_splits prod.splits sum.splits)
  show "tbl_find fc_id i (lg_facts l') =
      map_option (\<lambda>q. if i \<in> set (fc_supersedes f) then superseded_by (fc_id f) q else q)
        (if i = fc_id f then Some (f\<lparr>fc_scope := canon_dict (fc_scope f)\<rparr>) else tbl_find fc_id i (lg_facts l))"
    using supersede_each_effect(1) [OF a, of i] by (simp add: tbl_find_put)
  show "(\<lambda>old. (fc_id f, old)) ` set (fc_supersedes f) \<subseteq> cf_key ` set (lg_conflicts l')"
    using supersede_each_effect(2) [OF a] by simp
qed

lemma add_fact_Inr:
  assumes "add_fact notify a w = (w', Inr q)"
  obtains f g u where "fact_record a = Inr f"
    "write_fact f (fw_ledger w, fw_graph w) = ((fw_ledger w', g), Inr u)"
    "tbl_find fc_id (fc_id f) (lg_facts (fw_ledger w')) = Some q"
  using assms that
  by (auto simp: add_fact_def Let_def get_fact_def split: sum.splits prod.splits option.splits)

text \<open>
  C19: a fact that was added is found under its id, active unless it names itself; each older fact it
  names is now superseded by it, with a conflict recorded; every other fact is as it was.
\<close>

theorem add_fact_spec:
  assumes "add_fact notify a w = (w', Inr q)"
  shows "get_fact (fc_id q) (fw_ledger w') = Inr q
    \<and> fc_status q = (if fc_id q \<in> set (fc_supersedes q) then ''superseded'' else ''active'')
    \<and> (\<forall>i. i \<noteq> fc_id q \<longrightarrow> get_fact i (fw_ledger w') =
          (if i \<in> set (fc_supersedes q) then res_bind (get_fact i (fw_ledger w)) (\<lambda>o'. Inr (superseded_by (fc_id q) o'))
           else get_fact i (fw_ledger w)))
    \<and> (\<forall>old\<in>set (fc_supersedes q). (fc_id q, old) \<in> cf_key ` set (lg_conflicts (fw_ledger w')))"
proof -
  obtain f g u where f: "fact_record a = Inr f"
    and w: "write_fact f (fw_ledger w, fw_graph w) = ((fw_ledger w', g), Inr u)"
    and q: "tbl_find fc_id (fc_id f) (lg_facts (fw_ledger w')) = Some q"
    using add_fact_Inr [OF assms] .
  note e = write_fact_effect [OF w]
  have id: "fc_id q = fc_id f" using tbl_find_SomeD [OF q] by simp
  have q': "q = (if fc_id f \<in> set (fc_supersedes f) then superseded_by (fc_id f) (f\<lparr>fc_scope := canon_dict (fc_scope f)\<rparr>)
      else f\<lparr>fc_scope := canon_dict (fc_scope f)\<rparr>)"
    using e(1) [of "fc_id f"] q by simp
  then have sup: "fc_supersedes q = fc_supersedes f" by (simp add: superseded_by_def)
  have "get_fact i (fw_ledger w') =
      (if i \<in> set (fc_supersedes q) then res_bind (get_fact i (fw_ledger w)) (\<lambda>o'. Inr (superseded_by (fc_id q) o'))
       else get_fact i (fw_ledger w))" if "i \<noteq> fc_id q" for i
    using e(1) [of i] that by (auto simp: get_fact_def sup id split: option.split)
  moreover have "fc_status q = (if fc_id q \<in> set (fc_supersedes q) then ''superseded'' else ''active'')"
    using fact_record_Inr(2) [OF f] by (simp add: id sup) (simp add: q' superseded_by_def)
  moreover have "get_fact (fc_id q) (fw_ledger w') = Inr q" using q by (simp add: get_fact_def id)
  ultimately show ?thesis using e(2) by (auto simp: sup id)
qed

section \<open>When a fact is refused\<close>

definition fact_fields_given :: "fact \<Rightarrow> bool" where
  "fact_fields_given a =
     (py_strip (fc_subject a) \<noteq> [] \<and> py_strip (fc_predicate a) \<noteq> [] \<and> py_strip (fc_object a) \<noteq> []
      \<and> py_strip (fc_memory_id a) \<noteq> [])"

lemma fact_id_of_Inr: "\<exists>i. fact_id_of f = Inr i"
proof -
  have "jsonable (fact_material f)"
    by (simp add: fact_material_def opt_real_def split: option.split)
  then obtain h where "sha256_hex (fact_material f) = Inr h" using sha256_hex_jsonable by blast
  then show ?thesis by (simp add: fact_id_of_def)
qed

lemma fact_record_ok_iff: "(\<exists>f. fact_record a = Inr f) \<longleftrightarrow> fact_fields_given a"
  using fact_id_of_Inr by (auto simp: fact_record_def fact_fields_given_def Let_def res_bind_eq_Inr)

lemma fact_record_nonblank: "fact_record a = Inr f \<Longrightarrow> fc_subject f \<noteq> [] \<and> fc_predicate f \<noteq> [] \<and> fc_object f \<noteq> []"
  using fact_record_Inr(1) [of a f "[]"] by (simp add: fact_ok_def)

lemma index_fact_graph_ok:
  assumes "fact_record a = Inr f"
  shows "\<exists>g' r. index_fact_graph f g = (g', Inr r)"
  unfolding index_fact_graph_def add_relation_ok_iff
  using fact_record_nonblank [OF assms] fact_record_Inr(12-14) [OF assms]
    graph_name_of_known [of "''facts''"]
  by (auto simp: fact_relation_def ALLOWED_GRAPH_NAMES_def)

lemma fact_id_nonblank:
  assumes "fact_record a = Inr f"
  shows "py_strip (fc_id f) \<noteq> []"
proof -
  have "\<exists>h. fc_id f = ''fact_'' @ h"
    using fact_record_Inr(4) [OF assms] by (auto simp: fact_id_of_def res_bind_eq_Inr dest: sym)
  then show ?thesis by (auto simp: py_strip_eq_Nil is_space_def)
qed

lemma supersede_step_ok_iff:
  assumes "fact_record a = Inr f"
  shows "(\<exists>w' r. supersede_step f old w = (w', Inr r)) \<longleftrightarrow> py_strip old \<noteq> []"
proof -
  have "(\<exists>w' r. supersede_step f old w = (w', Inr r)) \<longleftrightarrow> (\<exists>g' r. index_conflict_graph f old (snd w) = (g', Inr r))"
    by (cases w) (auto simp: supersede_step_def split: prod.split)
  moreover have "py_strip ''supersedes'' \<noteq> []" by code_simp
  moreover have "graph_name_of (Some ''conflict'') None None = Inr ''conflict''"
    by (rule graph_name_of_known) (simp add: ALLOWED_GRAPH_NAMES_def)
  ultimately show ?thesis
    using fact_id_nonblank [OF assms]
    unfolding index_conflict_graph_def add_relation_ok_iff by (simp add: conflict_relation_def)
qed

lemma supersede_each_ok_iff:
  assumes "fact_record a = Inr f"
  shows "(\<exists>w' rs. act_each (supersede_step f) olds w = (w', Inr rs)) \<longleftrightarrow> (\<forall>old\<in>set olds. py_strip old \<noteq> [])"
proof (induction olds arbitrary: w)
  case Nil
  then show ?case by simp
next
  case (Cons old olds)
  obtain w1 x where s: "supersede_step f old w = (w1, x)" by fastforce
  show ?case
    using supersede_step_ok_iff [OF assms, of old w] Cons.IH [of w1] s
    by (cases x) (auto split: prod.split sum.split)
qed

definition fact_accepted :: "fact \<Rightarrow> bool" where
  "fact_accepted a =
     (fact_fields_given a \<and> jsonable (VDict (fc_scope a)) \<and> (\<forall>old\<in>set (fc_supersedes a). old = [] \<or> py_strip old \<noteq> []))"

lemma write_fact_ok_iff:
  assumes "fact_record a = Inr f"
  shows "(\<exists>w' u. write_fact f w = (w', Inr u)) \<longleftrightarrow>
    jsonable (VDict (fc_scope a)) \<and> (\<forall>old\<in>set (fc_supersedes a). old = [] \<or> py_strip old \<noteq> [])"
proof -
  obtain l g where w: "w = (l, g)" by fastforce
  obtain g1 r where g1: "index_fact_graph f g = (g1, Inr r)" using index_fact_graph_ok [OF assms] by blast
  let ?l1 = "l\<lparr>lg_facts := tbl_put fc_id (f\<lparr>fc_scope := canon_dict (fc_scope f)\<rparr>) (lg_facts l)\<rparr>"
  have "(\<exists>w' u. write_fact f w = (w', Inr u)) \<longleftrightarrow>
      jsonable (VDict (fc_scope f)) \<and> (\<exists>w' rs. act_each (supersede_step f) (fc_supersedes f) (?l1, g1) = (w', Inr rs))"
  proof (cases "act_each (supersede_step f) (fc_supersedes f) (?l1, g1)")
    case (Pair w' x)
    then show ?thesis
      by (cases w'; cases x) (simp_all add: write_fact_def w g1 Let_def del: jsonable.simps)
  qed
  then show ?thesis
    unfolding supersede_each_ok_iff [OF assms] fact_record_Inr(5) [OF assms] fact_record_Inr(6) [OF assms]
    unfolding set_filter by blast
qed

lemma write_fact_Inl: "write_fact f (l, g) = ((l', g'), Inl err) \<Longrightarrow> l' = l"
  by (auto simp: write_fact_def Let_def simp del: jsonable.simps split: if_splits prod.splits sum.splits)

lemma add_fact_cases:
  assumes quiet: "\<forall>q s. \<exists>s' x. notify q s = (s', Inr x)"
  shows "(\<exists>w' q. add_fact notify a w = (w', Inr q)) \<longleftrightarrow> fact_accepted a"
    and "add_fact notify a w = (w', Inl err) \<Longrightarrow> fw_ledger w' = fw_ledger w"
proof -
  show "(\<exists>w' q. add_fact notify a w = (w', Inr q)) \<longleftrightarrow> fact_accepted a"
  proof (cases "fact_record a")
    case (Inl err)
    then show ?thesis using fact_record_ok_iff [of a] by (simp add: add_fact_def fact_accepted_def)
  next
    case (Inr f)
    note okw = write_fact_ok_iff [OF Inr, of "(fw_ledger w, fw_graph w)"]
    have given: "fact_fields_given a" using fact_record_ok_iff Inr by blast
    obtain l g x where w: "write_fact f (fw_ledger w, fw_graph w) = ((l, g), x)" by (metis surj_pair)
    show ?thesis
    proof (cases x)
      case (Inl err)
      then show ?thesis using okw given w by (simp add: add_fact_def Inr fact_accepted_def)
    next
      case ok: (Inr u)
      then have "tbl_find fc_id (fc_id f) (lg_facts l) \<noteq> None"
        using write_fact_effect(1) [of f "fw_ledger w" "fw_graph w" l g u "fc_id f"] w by simp
      then obtain q where q: "get_fact (fc_id f) l = Inr q" by (auto simp: get_fact_def)
      obtain g' k' y where "notify q (g, fw_listener w) = ((g', k'), Inr y)" using quiet by (metis surj_pair)
      then show ?thesis
        using okw given w ok q by (simp add: add_fact_def Inr fact_accepted_def Let_def)
    qed
  qed
  show "fw_ledger w' = fw_ledger w" if e: "add_fact notify a w = (w', Inl err)"
  proof (cases "fact_record a")
    case (Inl err)
    then show ?thesis using e by (auto simp: add_fact_def)
  next
    case (Inr f)
    obtain l g x where w: "write_fact f (fw_ledger w, fw_graph w) = ((l, g), x)" by (metis surj_pair)
    show ?thesis
    proof (cases x)
      case (Inl err)
      then show ?thesis using e write_fact_Inl [of f "fw_ledger w"] w by (auto simp: add_fact_def Inr)
    next
      case ok: (Inr u)
      then have "tbl_find fc_id (fc_id f) (lg_facts l) \<noteq> None"
        using write_fact_effect(1) [of f "fw_ledger w" "fw_graph w" l g u "fc_id f"] w by simp
      then obtain q where q: "get_fact (fc_id f) l = Inr q" by (auto simp: get_fact_def)
      obtain g' k' y where "notify q (g, fw_listener w) = ((g', k'), Inr y)" using quiet by (metis surj_pair)
      then show ?thesis using e w ok q by (simp add: add_fact_def Inr Let_def)
    qed
  qed
qed

text \<open>
  C38: with a listener that does not raise, a call is refused exactly when a field is blank, the scope
  is not JSON or a non-empty superseded id is blank; a refused call leaves the ledger as it was.
\<close>

theorem add_fact_refusal:
  assumes "\<forall>q s. \<exists>s' x. notify q s = (s', Inr x)"
  shows "(\<exists>w' q. add_fact notify a w = (w', Inr q)) = fact_accepted a
    \<and> (\<forall>w' err. add_fact notify a w = (w', Inl err) \<longrightarrow> fw_ledger w' = fw_ledger w)"
  using add_fact_cases [OF assms] by blast

text \<open>The ledger of a fresh vault, and two facts of one memory, the second replacing the first.\<close>

definition demo_fact :: "string \<Rightarrow> string list \<Rightarrow> fact" where
  "demo_fact obj olds = \<lparr>fc_id = [], fc_subject = ''Ana'', fc_predicate = ''lives in'', fc_object = obj,
     fc_memory_id = ''m1'', fc_scope = [], fc_status = [], fc_supersedes = olds, fc_superseded_by = None,
     fc_reason = [], fc_valid_from = None, fc_valid_to = None, fc_confidence = 1, fc_created_at = 1\<rparr>"

definition demo_world :: "unit fact_world" where
  "demo_world = \<lparr>fw_ledger = ledger_empty, fw_graph = [], fw_listener = ()\<rparr>"

lemma no_listener_quiet: "\<forall>q s. \<exists>s' x. no_listener q s = (s', Inr x)"
  unfolding no_listener_def by blast

lemma add_fact_invariant_witness:
  "ledger_ok (fw_ledger (fst (add_fact no_listener (demo_fact ''Porto'' []) demo_world)))"
  by (rule add_fact_invariant) (simp add: demo_world_def)

lemma demo_fact_accepted:
  "fact_accepted (demo_fact ''Porto'' [])" "fact_accepted (demo_fact ''Lisboa'' [''x''])"
  "\<not> fact_accepted (demo_fact ''Lisboa'' ['' ''])"
  by code_simp+

lemma add_fact_refusal_witness:
  "\<exists>w' err. add_fact no_listener (demo_fact ''Lisboa'' ['' '']) demo_world = (w', Inl err)
    \<and> fw_ledger w' = ledger_empty"
proof -
  obtain w' x where w: "add_fact no_listener (demo_fact ''Lisboa'' ['' '']) demo_world = (w', x)" by fastforce
  note r = add_fact_refusal [of no_listener "demo_fact ''Lisboa'' ['' '']" demo_world, OF no_listener_quiet]
  show ?thesis
  proof (cases x)
    case (Inl err)
    then have "fw_ledger w' = ledger_empty" using r w by (simp add: demo_world_def)
    then show ?thesis using w Inl by blast
  next
    case (Inr q)
    then show ?thesis using r w demo_fact_accepted(3) by blast
  qed
qed

lemma add_fact_spec_witness:
  "\<exists>w1 w2 p q. add_fact no_listener (demo_fact ''Porto'' []) demo_world = (w1, Inr p)
    \<and> add_fact no_listener (demo_fact ''Lisboa'' [fc_id p]) w1 = (w2, Inr q)
    \<and> get_fact (fc_id q) (fw_ledger w2) = Inr q"
proof -
  obtain w1 p where p: "add_fact no_listener (demo_fact ''Porto'' []) demo_world = (w1, Inr p)"
    using add_fact_cases(1) [OF no_listener_quiet] demo_fact_accepted(1) by blast
  obtain f where "fact_record (demo_fact ''Porto'' []) = Inr f" "fc_id p = fc_id f"
    using add_fact_Inr [OF p] tbl_find_SomeD by metis
  then have "fact_accepted (demo_fact ''Lisboa'' [fc_id p])"
    using fact_id_nonblank demo_fact_accepted(2)
    by (auto simp: fact_accepted_def fact_fields_given_def demo_fact_def)
  then obtain w2 q where q: "add_fact no_listener (demo_fact ''Lisboa'' [fc_id p]) w1 = (w2, Inr q)"
    using add_fact_cases(1) [OF no_listener_quiet] by blast
  have "get_fact (fc_id q) (fw_ledger w2) = Inr q" using add_fact_spec [OF q] by blast
  then show ?thesis using p q by blast
qed

end
