(* ===== verification/Fact_Extraction.thy ===== *)
theory Fact_Extraction
  imports Facts Regex
begin

text \<open>
  \<open>extraction.py\<close>: facts read off a memory's text by rule. A date in a text is local time: the offset of
  the local zone at a given second is the parameter \<open>zone\<close>.
\<close>

record extracted =
  ex_subject :: string
  ex_predicate :: string
  ex_object :: string
  ex_memory_id :: string
  ex_scope :: py_dict
  ex_confidence :: real
  ex_valid_from :: "real option"
  ex_valid_to :: "real option"
  ex_entities :: "string list"
  ex_reason :: string

definition extracted_to_dict :: "extracted \<Rightarrow> py_dict" where
  "extracted_to_dict x =
    [(''subject'', VStr (ex_subject x)), (''predicate'', VStr (ex_predicate x)), (''object'', VStr (ex_object x)),
     (''source_memory_id'', VStr (ex_memory_id x)), (''scope'', VDict (ex_scope x)),
     (''confidence'', VFloat (ex_confidence x)), (''valid_from'', opt_real (ex_valid_from x)),
     (''valid_to'', opt_real (ex_valid_to x)), (''entities'', str_list (ex_entities x)),
     (''reason'', VStr (ex_reason x))]"

section \<open>The patterns\<close>

definition subject_char :: "char \<Rightarrow> bool" where
  "subject_char c = (is_word c \<or> c \<in> set '' -/'')"

definition no_newline :: "char \<Rightarrow> bool" where
  "no_newline c = (c \<noteq> CHR 0x0A)"

abbreviation spaces :: regex where
  "spaces \<equiv> Repeat True is_space 0 None"

abbreviation some_spaces :: regex where
  "some_spaces \<equiv> Repeat True is_space 1 None"

definition key_value_re :: regex where
  "key_value_re = rx_seq [spaces, Group 1 (Seq (Class is_ascii_letter) (Repeat True subject_char 1 (Some 48))),
     spaces, rx_word '':'', spaces, Group 2 (Repeat False no_newline 1 None), spaces, AtEnd]"

definition clause_re :: "regex list \<Rightarrow> regex" where
  "clause_re verb = rx_seq ([Boundary, Group 1 (Seq (Class is_ascii_letter) (Repeat False subject_char 1 (Some 48))),
     some_spaces] @ verb @ [some_spaces, Group 2 (Repeat False no_newline 1 None), Alt (rx_word ''.'') AtEnd])"

definition should_use_re :: regex where
  "should_use_re = clause_re [rx_word_nocase ''should'', some_spaces, rx_word_nocase ''use'']"

definition is_re :: regex where
  "is_re = clause_re [rx_word_nocase ''is'']"

abbreviation digits :: "nat \<Rightarrow> regex" where
  "digits n \<equiv> Repeat True is_digit n (Some n)"

abbreviation one_of :: "string \<Rightarrow> regex" where
  "one_of cs \<equiv> Class (\<lambda>c. c \<in> set cs)"

definition iso_date_re :: regex where
  "iso_date_re = rx_seq [Boundary, Group 1 (rx_seq [rx_word ''20'', digits 2, rx_word ''-'', digits 2, rx_word ''-'', digits 2]),
     rx_optional (rx_seq [one_of ''T '', one_of ''012'', digits 1, rx_word '':'', one_of ''012345'', digits 1,
       rx_optional (rx_seq [rx_word '':'', one_of ''012345'', digits 1])]), Boundary]"

definition entity_re :: regex where
  "entity_re = rx_seq [Boundary, Class (\<lambda>c. 65 \<le> code c \<and> code c \<le> 90),
     Repeat True (\<lambda>c. is_ascii_letter c \<or> is_digit c \<or> c \<in> set ''_:-'') 2 None, Boundary]"

section \<open>Dates\<close>

definition leap_year :: "nat \<Rightarrow> bool" where
  "leap_year y = (4 dvd y \<and> (\<not> 100 dvd y \<or> 400 dvd y))"

definition month_days :: "nat \<Rightarrow> nat list" where
  "month_days y = [31, if leap_year y then 29 else 28, 31, 30, 31, 30, 31, 31, 30, 31, 30, 31]"

text \<open>Days from 1970-01-01 to a date of the years 2000 to 2099, which is all the pattern admits.\<close>

definition date_days :: "nat \<Rightarrow> nat \<Rightarrow> nat \<Rightarrow> int" where
  "date_days y m d =
     10957 + 365 * (int y - 2000) + (int y - 2000 + 3) div 4 + int (sum_list (take (m - 1) (month_days y))) + (int d - 1)"

definition iso_date :: "string \<Rightarrow> int option" where
  "iso_date s =
     (let y = digits_value (take 4 s); m = digits_value (take 2 (drop 5 s)); d = digits_value (take 2 (drop 8 s)) in
      if 1 \<le> m \<and> m \<le> 12 \<and> 1 \<le> d \<and> d \<le> month_days y ! (m - 1) then Some (date_days y m d) else None)"

text \<open>Local midnight of the date, in seconds since the epoch.\<close>

definition extract_timestamp :: "(int \<Rightarrow> int) \<Rightarrow> string \<Rightarrow> real option" where
  "extract_timestamp zone v =
     (case rx_search iso_date_re v 0 of
        None \<Rightarrow> None
      | Some (_, _, c) \<Rightarrow>
          (case iso_date (capture 1 c) of None \<Rightarrow> None
           | Some n \<Rightarrow> Some (of_int (86400 * n - zone (86400 * n)))))"

section \<open>Extraction\<close>

definition clean_subject :: "string \<Rightarrow> string" where
  "clean_subject v = py_join '' '' (py_split (py_replace_char (CHR ''_'') (CHR '' '') (py_lower (py_strip v))))"

definition extract_entities :: "envelope \<Rightarrow> string \<Rightarrow> string list" where
  "extract_entities e text =
     sorted_set (filter (\<lambda>s. py_lower s \<notin> set [''project'', ''owner'', ''status'', ''policy'', ''valid''])
       (entities e @ map (\<lambda>(i, q, c). substr i q text) (rx_finditer entity_re text)))"

definition extracted_fact :: "envelope \<Rightarrow> string list \<Rightarrow> string \<Rightarrow> string \<Rightarrow> string \<Rightarrow> real \<Rightarrow> real option \<Rightarrow> extracted" where
  "extracted_fact e ents subj pred obj conf vf =
     \<lparr>ex_subject = subj, ex_predicate = pred, ex_object = obj, ex_memory_id = env_id e, ex_scope = scope e,
      ex_confidence = conf, ex_valid_from = vf, ex_valid_to = None, ex_entities = ents,
      ex_reason = ''rule_based_extraction''\<rparr>"

definition key_value_fact :: "(int \<Rightarrow> int) \<Rightarrow> envelope \<Rightarrow> string list \<Rightarrow> string \<Rightarrow> extracted list" where
  "key_value_fact zone e ents line =
     (case rx_match key_value_re line 0 of
        None \<Rightarrow> []
      | Some (_, c) \<Rightarrow>
          (let key = clean_subject (capture 1 c); v = py_strip (capture 2 c) in
           if key = [] \<or> v = [] then []
           else [extracted_fact e ents (py_replace_char (CHR ''_'') (CHR '' '') key) ''is'' v (82 / 100)
                   (if key \<in> set [''valid from'', ''valid_from'', ''date''] then extract_timestamp zone v else None)]))"

definition clause_facts :: "envelope \<Rightarrow> string list \<Rightarrow> string \<Rightarrow> regex \<Rightarrow> string \<Rightarrow> extracted list" where
  "clause_facts e ents text r pred =
     map (\<lambda>(i, q, c). extracted_fact e ents (clean_subject (capture 1 c)) pred (py_strip (capture 2 c)) (68 / 100) None)
       (rx_finditer r text)"

definition extracted_key :: "extracted \<Rightarrow> string \<times> string \<times> string \<times> string" where
  "extracted_key x = (py_lower (ex_subject x), py_lower (ex_predicate x), py_lower (ex_object x), ex_memory_id x)"

definition extract_facts :: "(int \<Rightarrow> int) \<Rightarrow> envelope \<Rightarrow> extracted list" where
  "extract_facts zone e =
     (let text = text_content e; ents = extract_entities e text in
      dedupe_by extracted_key []
        (concat (map (key_value_fact zone e ents) (py_splitlines text))
         @ clause_facts e ents text should_use_re ''should_use'' @ clause_facts e ents text is_re ''is''))"

section \<open>What is extracted\<close>

lemma norm_key_join_split:
  assumes "py_lower s = s"
  shows "norm_key (py_join '' '' (py_split s)) = py_join '' '' (py_split s)"
proof -
  have w: "\<forall>w\<in>set (py_split s). solid w" by (rule py_split_solid)
  have low: "map py_lower (py_split s) = py_split s" using py_split_lower [of s] assms by simp
  have "py_strip (py_join '' '' (py_split s)) = py_join '' '' (py_split s)"
    by (rule py_strip_trimmed [OF py_join_solid_trimmed [OF w]])
  moreover have "py_lower (py_join '' '' (py_split s)) = py_join '' '' (py_split s)"
    using low by (simp add: py_lower_join py_lower_blank)
  ultimately show ?thesis
    unfolding norm_key_def by (simp add: py_split_join [OF w])
qed

lemma norm_key_clean_subject [simp]: "norm_key (clean_subject v) = clean_subject v"
  unfolding clean_subject_def
proof (rule norm_key_join_split)
  have "lower_char (if lower_char c = CHR ''_'' then CHR '' '' else lower_char c) =
      (if lower_char c = CHR ''_'' then CHR '' '' else lower_char c)" for c
    using py_lower_blank by (simp add: py_lower_def)
  then show "py_lower (py_replace_char (CHR ''_'') (CHR '' '') (py_lower (py_strip v))) =
      py_replace_char (CHR ''_'') (CHR '' '') (py_lower (py_strip v))"
    by (simp add: py_lower_def py_replace_char_def comp_def)
qed

lemma set_py_split: "w \<in> set (py_split s) \<Longrightarrow> set w \<subseteq> set s"
proof (induction s arbitrary: w rule: py_split.induct)
  case (1 s)
  let ?t = "dropWhile is_space s"
  have t: "set ?t \<subseteq> set s" by (auto dest: set_dropWhileD)
  show ?case
  proof (cases "?t = []")
    case True
    then show ?thesis using "1.prems" by (subst (asm) py_split.simps) (simp add: Let_def del: dropWhile_eq_Nil_conv)
  next
    case False
    then consider "w = takeWhile (\<lambda>c. \<not> is_space c) ?t" | "w \<in> set (py_split (dropWhile (\<lambda>c. \<not> is_space c) ?t))"
      using "1.prems" by (subst (asm) py_split.simps) (auto simp: Let_def simp del: dropWhile_eq_Nil_conv)
    then show ?thesis
    proof cases
      case 1
      then show ?thesis using t by (auto dest: set_takeWhileD)
    next
      case 2
      then have "set w \<subseteq> set (dropWhile (\<lambda>c. \<not> is_space c) ?t)" using "1.IH" False by simp
      then show ?thesis using t by (auto dest: set_dropWhileD)
    qed
  qed
qed

lemma set_py_join: "set (py_join sep ws) \<subseteq> set sep \<union> (\<Union>w\<in>set ws. set w)"
  by (induction sep ws rule: py_join.induct) auto

lemma clean_subject_no_underscore: "py_replace_char (CHR ''_'') (CHR '' '') (clean_subject v) = clean_subject v"
proof -
  let ?s = "py_replace_char (CHR ''_'') (CHR '' '') (py_lower (py_strip v))"
  have "CHR ''_'' \<notin> set ?s" by (auto simp: py_replace_char_def)
  then have "CHR ''_'' \<notin> set (clean_subject v)"
    using set_py_join [of "'' ''" "py_split ?s"] set_py_split [of _ ?s] unfolding clean_subject_def by auto
  then show ?thesis unfolding py_replace_char_def by (intro map_idI) auto
qed

lemma py_join_eq_Nil: "\<forall>w\<in>set ws. solid w \<Longrightarrow> py_join '' '' ws = [] \<longleftrightarrow> ws = []"
  by (cases "('' '', ws)" rule: py_join.cases) (auto simp: solid_def)

lemma clean_subject_nonempty:
  assumes "c \<in> set v" "is_ascii_letter c"
  shows "clean_subject v \<noteq> []"
proof -
  have nsp: "\<not> is_space c" using assms(2) by (auto simp: is_ascii_letter_def is_space_def Let_def)
  have "c \<in> set (py_strip v)"
  proof -
    have "c \<in> set (py_lstrip v)"
      using assms(1) nsp by (induction v) (auto simp: py_lstrip_def)
    moreover have "c \<in> set (py_rstrip t)" if "c \<in> set t" for t
      using py_rstrip_prefix [of t] that nsp by (metis UnE set_append)
    ultimately show ?thesis by (simp add: py_strip_def)
  qed
  moreover have "lower_char c \<noteq> CHR ''_''"
    using assms(2) code_lower_char [of c] by (auto simp: is_ascii_letter_def Let_def split: if_splits)
  ultimately have "lower_char c \<in> set (py_replace_char (CHR ''_'') (CHR '' '') (py_lower (py_strip v)))"
    by (force simp: py_replace_char_def py_lower_def)
  then have "py_split (py_replace_char (CHR ''_'') (CHR '' '') (py_lower (py_strip v))) \<noteq> []"
    using nsp is_space_lower [of c] unfolding py_split_eq_Nil by metis
  then show ?thesis using py_join_eq_Nil [OF py_split_solid] by (simp add: clean_subject_def)
qed

text \<open>The first group of a clause starts with a letter.\<close>

lemma clause_subject:
  assumes "(q, c) \<in> set (rx_all (clause_re verb) s p)"
  shows "\<exists>x\<in>set (capture 1 c). is_ascii_letter x"
proof -
  let ?X = "Seq (Class is_ascii_letter) (Repeat False subject_char 1 (Some 48))"
  let ?R = "rx_seq (some_spaces # verb @ [some_spaces, Group 2 (Repeat False no_newline 1 None), Alt (rx_word ''.'') AtEnd])"
  have "clause_re verb = Seq Boundary (Seq (Group 1 ?X) ?R)" by (simp add: clause_re_def)
  then have "(q, c) \<in> set (rx_all (Seq Boundary (Seq (Group 1 ?X) ?R)) s p)" using assms by simp
  then have "(q, c) \<in> set (rx_all (Seq (Group 1 ?X) ?R) s p)"
    by (auto simp del: rx_all.simps(3,4,6) simp add: rx_all.simps(4) [of Boundary] split: if_splits)
  then obtain q1 c1 c2 where g: "(q1, c1) \<in> set (rx_all (Group 1 ?X) s p)" and c: "c = c1 @ c2"
    by (auto simp del: rx_all.simps(3,6))
  then have c1: "c1 = [(1, substr p q1 s)]" and q1: "p < length s" "is_ascii_letter (s ! p)" "p < q1"
    by (auto split: if_splits)
  obtain n where n: "q1 - p = Suc n" using q1(3) by (metis Suc_diff_Suc)
  have "s ! p \<in> set (substr p q1 s)"
    unfolding substr_def n Cons_nth_drop_Suc [OF q1(1), symmetric] by simp
  then show ?thesis using q1(2) by (auto simp: c c1 capture_def)
qed

definition extracted_ok :: "envelope \<Rightarrow> extracted \<Rightarrow> bool" where
  "extracted_ok e x =
     (ex_memory_id x = env_id e \<and> ex_scope x = scope e \<and> ex_predicate x \<in> {''is'', ''should_use''}
      \<and> ex_subject x \<noteq> [] \<and> norm_key (ex_subject x) = ex_subject x \<and> trimmed (ex_object x)
      \<and> ex_confidence x \<in> {82 / 100, 68 / 100} \<and> ex_valid_to x = None)"

lemma key_value_fact_ok: "x \<in> set (key_value_fact zone e ents line) \<Longrightarrow> extracted_ok e x"
proof -
  assume "x \<in> set (key_value_fact zone e ents line)"
  then obtain c vf where "clean_subject (capture 1 c) \<noteq> []"
    "x = extracted_fact e ents (clean_subject (capture 1 c)) ''is'' (py_strip (capture 2 c)) (82 / 100) vf"
    by (auto simp: key_value_fact_def Let_def clean_subject_no_underscore simp del: One_nat_def
        split: option.splits if_split_asm)
  then show ?thesis by (simp add: extracted_fact_def extracted_ok_def)
qed

lemma rx_finditer_from_sound:
  "(i, q, c) \<in> set (rx_finditer_from n r s p) \<Longrightarrow> (q, c) \<in> set (rx_all r s i) \<and> i \<le> q \<and> q \<le> length s"
proof (induction n arbitrary: p)
  case (Suc n)
  then obtain j t d where f: "rx_search r s p = Some (j, t, d)"
    by (cases "rx_search r s p") auto
  then consider "(i, q, c) = (j, t, d)" | "(i, q, c) \<in> set (rx_finditer_from n r s (if t = j then Suc j else t))"
    using Suc.prems by auto
  then show ?case
  proof cases
    case 1
    then show ?thesis using rx_search_Some [OF f] by simp
  next
    case 2
    then show ?thesis by (rule Suc.IH)
  qed
qed simp

lemma clause_fact_ok:
  assumes "x \<in> set (clause_facts e ents text (clause_re verb) pred)" "pred \<in> {''is'', ''should_use''}"
  shows "extracted_ok e x"
proof -
  obtain i q c where m: "(i, q, c) \<in> set (rx_finditer (clause_re verb) text)"
    and x: "x = extracted_fact e ents (clean_subject (capture 1 c)) pred (py_strip (capture 2 c)) (68 / 100) None"
    using assms(1) by (auto simp: clause_facts_def)
  have "\<exists>y\<in>set (capture 1 c). is_ascii_letter y"
    using rx_finditer_from_sound m clause_subject unfolding rx_finditer_def by blast
  then have "clean_subject (capture 1 c) \<noteq> []" using clean_subject_nonempty by blast
  then show ?thesis using assms(2) by (auto simp: x extracted_fact_def extracted_ok_def)
qed

text \<open>
  Every extracted fact is about the memory it was read from and carries its scope; its subject is not
  blank and already in the normal form under which it will be filed, its predicate one of the two rules',
  and no two facts agree on subject, predicate and object in lower case.
\<close>

theorem extract_facts_spec:
  "list_all (extracted_ok e) (extract_facts zone e) \<and> distinct (map extracted_key (extract_facts zone e))"
proof -
  have "extracted_ok e x" if "x \<in> set (extract_facts zone e)" for x
  proof -
    have "x \<in> set (concat (map (key_value_fact zone e (extract_entities e (text_content e))) (py_splitlines (text_content e)))
         @ clause_facts e (extract_entities e (text_content e)) (text_content e) should_use_re ''should_use''
         @ clause_facts e (extract_entities e (text_content e)) (text_content e) is_re ''is'')"
      using that set_dedupe_by by (simp only: extract_facts_def Let_def) (rule subsetD)
    then consider l where "x \<in> set (key_value_fact zone e (extract_entities e (text_content e)) l)"
      | "x \<in> set (clause_facts e (extract_entities e (text_content e)) (text_content e) should_use_re ''should_use'')"
      | "x \<in> set (clause_facts e (extract_entities e (text_content e)) (text_content e) is_re ''is'')"
      by auto
    then show ?thesis
    proof cases
      case 1
      then show ?thesis by (rule key_value_fact_ok)
    next
      case 2
      then show ?thesis unfolding should_use_re_def by (rule clause_fact_ok) simp
    next
      case 3
      then show ?thesis unfolding is_re_def by (rule clause_fact_ok) simp
    qed
  qed
  then show ?thesis by (simp add: list_all_iff extract_facts_def Let_def distinct_dedupe_by)
qed

text \<open>
  The object may be blank: after \<open>is\<close> and two spaces at the end of a text, the object group takes the
  second one. The ledger refuses such a fact.
\<close>

lemma blank_object_extracted:
  "map (\<lambda>(i, q, c). (clean_subject (capture 1 c), py_strip (capture 2 c))) (rx_finditer is_re ''Tea is  '')
     = [(''tea'', [])]"
  by code_simp

end
