(* ===== verification/Ingest.thy ===== *)
theory Ingest
  imports Fact_Extraction
begin

text \<open>
  \<open>ingest.py\<close>: Markdown cut into sections under their headings, and each section into chunks of bounded
  length. The loop of \<open>_split_long_paragraph\<close> is a partial function: not returning is \<^const>\<open>None\<close>,
  so that its termination is a theorem.
\<close>

record markdown_section =
  sec_source_path :: string
  sec_heading_path :: "string list"
  sec_content :: string
  sec_index :: nat
  sec_chunk :: nat

section \<open>Splitting by a pattern\<close>

text \<open>\<open>re.split(r, s)\<close>, and \<open>re.sub(r, " ", s)\<close> which joins the same pieces.\<close>

fun pieces :: "string \<Rightarrow> nat \<Rightarrow> (nat \<times> nat \<times> captures) list \<Rightarrow> string list" where
  "pieces s p [] = [drop p s]"
| "pieces s p ((i, q, c) # ms) = substr p i s # pieces s q ms"

definition rx_split :: "regex \<Rightarrow> string \<Rightarrow> string list" where
  "rx_split r s = pieces s 0 (rx_finditer r s)"

abbreviation newline :: char where
  "newline \<equiv> CHR 0x0A"

definition blank_line_re :: regex where
  "blank_line_re = rx_seq [Class (\<lambda>c. c = newline), spaces, Class (\<lambda>c. c = newline)]"

definition heading_re :: regex where
  "heading_re = rx_seq [Group 1 (Repeat True (\<lambda>c. c = CHR ''#'') 1 (Some 6)), some_spaces,
     Group 2 (Repeat False no_newline 1 None), spaces, AtEnd]"

definition strip_hashes :: "string \<Rightarrow> string" where
  "strip_hashes s = rev (dropWhile (\<lambda>c. c = CHR ''#'') (rev (dropWhile (\<lambda>c. c = CHR ''#'') s)))"

definition clean_heading :: "string \<Rightarrow> string" where
  "clean_heading t = py_strip (py_join '' '' (rx_split some_spaces (strip_hashes (py_strip t))))"

section \<open>Chunks\<close>

text \<open>\<open>text.rfind(c, start, end)\<close>.\<close>

definition py_rfind :: "char \<Rightarrow> string \<Rightarrow> nat \<Rightarrow> nat \<Rightarrow> int" where
  "py_rfind c s p q =
     (case filter (\<lambda>i. s ! i = c) (rev [p..<min q (length s)]) of [] \<Rightarrow> - 1 | i # _ \<Rightarrow> int i)"

definition chunk_end :: "nat \<Rightarrow> string \<Rightarrow> nat \<Rightarrow> nat" where
  "chunk_end max_chars s start =
     (let e = min (length s) (start + max_chars) in
      if e < length s
      then (let boundary = py_rfind (CHR '' '') s start e in
            if int (start + max_chars div 2) < boundary then nat boundary else e)
      else e)"

partial_function (option) split_long_from :: "nat \<Rightarrow> string \<Rightarrow> nat \<Rightarrow> string list option" where
  "split_long_from max_chars s start =
     (if start < length s
      then Option.bind (split_long_from max_chars s (chunk_end max_chars s start)) (\<lambda>chunks.
        Some (py_strip (substr start (chunk_end max_chars s start) s) # chunks))
      else Some [])"

declare split_long_from.simps [code]

definition split_long_paragraph :: "nat \<Rightarrow> string \<Rightarrow> string list option" where
  "split_long_paragraph max_chars s = map_option (filter (\<lambda>c. c \<noteq> [])) (split_long_from max_chars s 0)"

fun chunk_paragraphs :: "nat \<Rightarrow> string list \<Rightarrow> string \<Rightarrow> string list option" where
  "chunk_paragraphs max_chars [] current = Some (if current = [] then [] else [current])"
| "chunk_paragraphs max_chars (p # ps) current =
     (let par = py_strip p in
      if par = [] then chunk_paragraphs max_chars ps current
      else if max_chars < length par
      then Option.bind (split_long_paragraph max_chars par) (\<lambda>chunks.
        Option.bind (chunk_paragraphs max_chars ps []) (\<lambda>rest.
          Some ((if current = [] then [] else [current]) @ chunks @ rest)))
      else (let candidate = (if current = [] then par else current @ [newline, newline] @ par) in
        if length candidate \<le> max_chars then chunk_paragraphs max_chars ps candidate
        else Option.bind (chunk_paragraphs max_chars ps par) (\<lambda>rest. Some (current # rest))))"

definition chunk_text :: "nat \<Rightarrow> string \<Rightarrow> string list option" where
  "chunk_text max_chars s =
     (if length s \<le> max_chars then Some [s] else chunk_paragraphs max_chars (rx_split blank_line_re s) [])"

section \<open>Sections\<close>

record split_state =
  ss_stack :: "(nat \<times> string) list"
  ss_sections :: "(string list \<times> string list) list"
  ss_path :: "string list"
  ss_lines :: "string list"

definition section_text :: "string list \<Rightarrow> string" where
  "section_text ls = py_strip (py_join [newline] ls)"

definition flush_section :: "split_state \<Rightarrow> split_state" where
  "flush_section st =
     (if ss_lines st = [] \<or> section_text (ss_lines st) = [] then st
      else st\<lparr>ss_sections := ss_sections st @ [(ss_path st, ss_lines st)]\<rparr>)"

definition split_line :: "string \<Rightarrow> split_state \<Rightarrow> split_state" where
  "split_line line st =
     (case rx_match heading_re line 0 of
        Some (_, c) \<Rightarrow>
          (let st1 = flush_section st; level = length (capture 1 c); title = clean_heading (capture 2 c);
               stack = filter (\<lambda>(l, t). l < level) (ss_stack st1) @ [(level, title)]
           in st1\<lparr>ss_stack := stack, ss_path := map snd stack, ss_lines := [line]\<rparr>)
      | None \<Rightarrow> st\<lparr>ss_lines := ss_lines st @ [line]\<rparr>)"

definition raw_sections :: "string \<Rightarrow> string \<Rightarrow> (string list \<times> string list) list" where
  "raw_sections source_path s =
     (let st = flush_section (fold split_line (py_splitlines s)
                 \<lparr>ss_stack = [], ss_sections = [], ss_path = [], ss_lines = []\<rparr>)
      in if ss_sections st = [] \<and> py_strip s \<noteq> [] then [([source_path], [py_strip s])] else ss_sections st)"

definition section_chunks :: "string \<Rightarrow> nat \<Rightarrow> string list \<Rightarrow> string list \<Rightarrow> markdown_section list" where
  "section_chunks source_path i path chunks =
     map (\<lambda>(j, chunk). \<lparr>sec_source_path = source_path, sec_heading_path = (if path = [] then [source_path] else path),
            sec_content = chunk, sec_index = i, sec_chunk = j\<rparr>) (enumerate 0 chunks)"

fun chunk_sections ::
  "string \<Rightarrow> nat \<Rightarrow> nat \<Rightarrow> (string list \<times> string list) list \<Rightarrow> markdown_section list option" where
  "chunk_sections source_path max_chars i [] = Some []"
| "chunk_sections source_path max_chars i ((path, ls) # secs) =
     Option.bind (chunk_text max_chars (section_text ls)) (\<lambda>chunks.
     Option.bind (chunk_sections source_path max_chars (Suc i) secs) (\<lambda>rest.
       Some (section_chunks source_path i path chunks @ rest)))"

definition split_markdown_sections :: "string \<Rightarrow> string \<Rightarrow> int \<Rightarrow> markdown_section list result option" where
  "split_markdown_sections s source_path max_chars =
     (if max_chars \<le> 80 then Some (Inl (ValueError ''max_chars must be greater than 80''))
      else map_option Inr (chunk_sections source_path (nat max_chars) 0 (raw_sections source_path s)))"

section \<open>What is kept\<close>

text \<open>The characters of a text that are not blank, in order.\<close>

definition visible :: "string \<Rightarrow> string" where
  "visible s = filter (\<lambda>c. \<not> is_space c) s"

lemma visible_simps [simp]:
  "visible [] = []" "visible (c # s) = (if is_space c then visible s else c # visible s)"
  "visible (s @ t) = visible s @ visible t"
  by (simp_all add: visible_def)

lemma visible_eq_Nil: "visible s = [] \<longleftrightarrow> (\<forall>c\<in>set s. is_space c)"
  by (simp add: visible_def filter_empty_conv)

lemma visible_lstrip: "visible (py_lstrip s) = visible s"
  by (induction s) (simp_all add: py_lstrip_def)

lemma visible_strip [simp]: "visible (py_strip s) = visible s"
proof -
  obtain t where t: "py_lstrip s = py_strip s @ t" "\<forall>c\<in>set t. is_space c"
    using py_rstrip_prefix [of "py_lstrip s"] by (auto simp: py_strip_def)
  then have "visible (py_lstrip s) = visible (py_strip s)" by (simp add: visible_eq_Nil)
  then show ?thesis by (simp add: visible_lstrip)
qed

lemma visible_join: "visible sep = [] \<Longrightarrow> visible (py_join sep ws) = visible (concat ws)"
  by (induction sep ws rule: py_join.induct) simp_all

lemma visible_substr: "p \<le> q \<Longrightarrow> visible (substr p q s) @ visible (drop q s) = visible (drop p s)"
  by (metis append_take_drop_id drop_drop le_add_diff_inverse2 substr_def visible_simps(3))

lemma visible_concat_filter [simp]: "visible (concat (filter (\<lambda>c. c \<noteq> []) cs)) = visible (concat cs)"
  by (induction cs) auto

text \<open>Every line boundary is a blank.\<close>

lemma visible_splitlines: "visible (concat (py_splitlines s)) = visible s"
proof (induction s rule: py_splitlines.induct)
  case (1 s)
  have drop: "visible (drop_break (dropWhile (\<lambda>c. \<not> is_break c) t)) = visible (dropWhile (\<lambda>c. \<not> is_break c) t)" for t
  proof (cases "dropWhile (\<lambda>c. \<not> is_break c) t")
    case (Cons c u)
    then have "is_break c" using hd_dropWhile [of "\<lambda>c. \<not> is_break c" t] by simp
    then have "is_space c" by (auto simp: is_break_def is_space_def Let_def)
    then show ?thesis unfolding Cons by (auto simp: is_space_def split: list.split)
  next
    case Nil
    show ?thesis unfolding Nil by simp
  qed
  show ?case
  proof (cases "s = []")
    case True
    then show ?thesis by (simp add: py_splitlines.simps)
  next
    case False
    have "visible s = visible (takeWhile (\<lambda>c. \<not> is_break c) s) @ visible (dropWhile (\<lambda>c. \<not> is_break c) s)"
      by (metis takeWhile_dropWhile_id visible_simps(3))
    then show ?thesis using 1 [OF False] False drop [of s] by (subst py_splitlines.simps) simp
  qed
qed

section \<open>Separators\<close>

text \<open>A pattern that takes at least one character, and only blanks.\<close>

definition blank_pattern :: "regex \<Rightarrow> bool" where
  "blank_pattern r = (\<forall>s i q c. i \<le> length s \<longrightarrow> (q, c) \<in> set (rx_all r s i) \<longrightarrow>
     i < q \<and> (\<forall>j. i \<le> j \<and> j < q \<longrightarrow> is_space (s ! j)))"

lemma repeat_chars:
  assumes "k \<in> set (repeat_lengths greedy P lo hi (drop p s))" "p \<le> j" "j < p + k"
  shows "P (s ! j)"
proof -
  have k: "k \<le> length (takeWhile P (drop p s))" using assms(1) by (simp add: repeat_lengths_bounds)
  then have "P (drop p s ! (j - p))" using assms(2,3) by (metis diff_less_mono2 less_diff_conv2 nat_less_le
        le_add_diff_inverse nth_mem order_less_le_trans set_takeWhileD takeWhile_nth add_less_cancel_left)
  moreover have "p + k \<le> length s"
    using k length_takeWhile_le [of P "drop p s"] assms by simp
  ultimately show ?thesis using assms(2,3) by simp
qed

lemma blank_line_blank: "blank_pattern blank_line_re"
proof -
  have "i < q \<and> (\<forall>j. i \<le> j \<and> j < q \<longrightarrow> is_space (s ! j))"
    if m: "(q, c) \<in> set (rx_all blank_line_re s i)" for s i q c
  proof -
    obtain k where i: "s ! i = newline" and k: "k \<in> set (repeat_lengths True is_space 0 None (drop (Suc i) s))"
      and q: "s ! (Suc i + k) = newline" "q = Suc (Suc i + k)"
      using m by (auto simp: blank_line_re_def split: if_splits)
    have "is_space (s ! j)" if le: "i \<le> j" and less: "j < q" for j
    proof -
      consider "j = i" | "Suc i \<le> j" "j < Suc i + k" | "j = Suc i + k" using le less q(2) by linarith
      then show ?thesis using repeat_chars [OF k] i q by cases (auto simp: is_space_def)
    qed
    then show ?thesis using q by simp
  qed
  then show ?thesis by (auto simp: blank_pattern_def)
qed

lemma visible_pieces:
  assumes "blank_pattern r"
  shows "p \<le> length s \<Longrightarrow> visible (concat (pieces s p (rx_finditer_from n r s p))) = visible (drop p s)"
proof (induction n arbitrary: p)
  case (Suc n)
  show ?case
  proof (cases "rx_search r s p")
    case (Some m)
    obtain i q c where m: "m = (i, q, c)" by (metis prod_cases3)
    note f = rx_search_Some [OF Some [unfolded m]]
    then have b: "i < q" "\<forall>j. i \<le> j \<and> j < q \<longrightarrow> is_space (s ! j)"
      using assms unfolding blank_pattern_def by (metis le_trans)+
    have "visible (substr i q s) = []"
      using b f by (auto simp: visible_eq_Nil substr_def in_set_conv_nth)
    then have "visible (drop q s) = visible (drop i s)" using visible_substr [of i q s] b(1) by simp
    then show ?thesis using Suc.IH [of q] f b(1) visible_substr [of p i s] by (simp add: Some m)
  qed simp
qed simp

lemma visible_split: "blank_pattern r \<Longrightarrow> visible (concat (rx_split r s)) = visible s"
  unfolding rx_split_def rx_finditer_def using visible_pieces [of r 0 s "Suc (length s)"] by (simp del: rx_finditer_from.simps)

section \<open>The chunks\<close>

lemma py_rfind_bound: "py_rfind c s p q = - 1 \<or> (int p \<le> py_rfind c s p q \<and> py_rfind c s p q < int q)"
proof (cases "filter (\<lambda>i. s ! i = c) (rev [p..<min q (length s)])")
  case (Cons i js)
  have "set (filter (\<lambda>i. s ! i = c) (rev [p..<min q (length s)])) \<subseteq> {p..<q}" by auto
  then have "i \<in> {p..<q}" unfolding Cons by simp
  then show ?thesis using Cons by (simp add: py_rfind_def)
qed (simp add: py_rfind_def)

lemma chunk_end_bounds:
  assumes "0 < m" "start < length s"
  shows "start < chunk_end m s start" "chunk_end m s start \<le> length s" "chunk_end m s start \<le> start + m"
  using assms py_rfind_bound [of "CHR '' ''" s start "start + m"]
  by (auto simp: chunk_end_def Let_def min_def split: if_splits)

definition chunk_ok :: "nat \<Rightarrow> string \<Rightarrow> bool" where
  "chunk_ok m c = (c \<noteq> [] \<and> length c \<le> m \<and> trimmed c)"

lemma split_long_from_spec:
  assumes "0 < m" "start \<le> length s"
  shows "\<exists>cs. split_long_from m s start = Some cs \<and> visible (concat cs) = visible (drop start s)
    \<and> (\<forall>c\<in>set cs. length c \<le> m \<and> trimmed c)"
  using assms(2)
proof (induction "length s - start" arbitrary: start rule: less_induct)
  case less
  show ?case
  proof (cases "start < length s")
    case False
    then show ?thesis using less.prems by (subst split_long_from.simps) simp
  next
    case True
    let ?e = "chunk_end m s start"
    note e = chunk_end_bounds [OF assms(1) True]
    have "length s - ?e < length s - start" using True e by linarith
    from less.hyps [OF this e(2)] obtain cs where cs: "split_long_from m s ?e = Some cs"
      "visible (concat cs) = visible (drop ?e s)" "\<forall>c\<in>set cs. length c \<le> m \<and> trimmed c" by blast
    have "length (py_strip (substr start ?e s)) \<le> m"
      using length_py_strip [of "substr start ?e s"] e by (simp add: substr_def)
    then show ?thesis
      using cs True visible_substr [of start ?e s] e(1) by (subst split_long_from.simps) simp
  qed
qed

lemma split_long_paragraph_spec:
  "0 < m \<Longrightarrow> \<exists>cs. split_long_paragraph m s = Some cs \<and> visible (concat cs) = visible s \<and> list_all (chunk_ok m) cs"
  using split_long_from_spec [of m 0 s] by (auto simp: split_long_paragraph_def list_all_iff chunk_ok_def)

lemma newlines_blank [simp]: "visible [newline, newline] = []" "visible [newline] = []" "is_space newline"
  by (simp_all add: is_space_def)

lemma visible_blank: "py_strip s = [] \<Longrightarrow> visible s = []"
  by (metis visible_simps(1) visible_strip)

lemma trimmed_append: "trimmed s \<Longrightarrow> trimmed t \<Longrightarrow> s \<noteq> [] \<Longrightarrow> t \<noteq> [] \<Longrightarrow> trimmed (s @ u @ t)"
  by (simp add: trimmed_def)

lemma chunk_paragraphs_spec:
  assumes "0 < m"
  shows "trimmed cur \<Longrightarrow> length cur \<le> m \<Longrightarrow>
    \<exists>cs. chunk_paragraphs m ps cur = Some cs \<and> visible (concat cs) = visible cur @ visible (concat ps)
      \<and> list_all (chunk_ok m) cs"
proof (induction ps arbitrary: cur)
  case Nil
  then show ?case by (auto simp: chunk_ok_def)
next
  case (Cons p ps)
  let ?p = "py_strip p" and ?cand = "if cur = [] then py_strip p else cur @ [newline, newline] @ py_strip p"
  have v: "visible ?cand = visible cur @ visible p" by simp
  consider "?p = []" | "m < length ?p" | "?p \<noteq> []" "length ?cand \<le> m" "length ?p \<le> m"
    | "?p \<noteq> []" "m < length ?cand" "length ?p \<le> m" by force
  then show ?case
  proof cases
    case 1
    then show ?thesis using Cons.IH [OF Cons.prems] visible_blank [OF 1] by simp
  next
    case 2
    obtain long where "split_long_paragraph m ?p = Some long" "visible (concat long) = visible p" "list_all (chunk_ok m) long"
      using split_long_paragraph_spec [OF assms, of ?p] by auto
    moreover obtain cs where "chunk_paragraphs m ps [] = Some cs" "visible (concat cs) = visible (concat ps)" "list_all (chunk_ok m) cs"
      using Cons.IH [of "[]"] by (auto simp: trimmed_def)
    moreover have "cur = [] \<or> chunk_ok m cur" using Cons.prems by (auto simp: chunk_ok_def)
    ultimately show ?thesis using 2 by (auto simp: Let_def)
  next
    case 3
    have "trimmed ?cand" using Cons.prems 3(1) trimmed_append [of cur ?p "[newline, newline]"] by simp
    from Cons.IH [OF this 3(2)] show ?thesis using 3 v by (simp add: Let_def del: append_Cons)
  next
    case 4
    then have "chunk_ok m cur" using Cons.prems by (auto simp: chunk_ok_def)
    moreover obtain cs where "chunk_paragraphs m ps ?p = Some cs" "visible (concat cs) = visible p @ visible (concat ps)"
      "list_all (chunk_ok m) cs"
      using Cons.IH [of ?p] 4(3) by auto
    ultimately show ?thesis using 4 by (simp add: Let_def)
  qed
qed

lemma chunk_text_spec:
  assumes "0 < m" "trimmed s" "s \<noteq> []"
  shows "\<exists>cs. chunk_text m s = Some cs \<and> visible (concat cs) = visible s \<and> list_all (chunk_ok m) cs"
  using chunk_paragraphs_spec [OF assms(1), of "[]" "rx_split blank_line_re s"] assms(2,3) visible_split [OF blank_line_blank]
  by (simp add: chunk_text_def chunk_ok_def trimmed_def)

section \<open>The sections\<close>

lemma heading_level:
  assumes "rx_match heading_re line 0 = Some (q, c)"
  shows "1 \<le> length (capture 1 c) \<and> length (capture 1 c) \<le> 6"
proof -
  let ?R = "rx_seq [some_spaces, Group 2 (Repeat False no_newline 1 None), spaces, AtEnd]"
  let ?X = "Repeat True (\<lambda>c. c = CHR ''#'') 1 (Some 6)"
  have "(q, c) \<in> set (rx_all heading_re line 0)"
    using assms by (auto simp: rx_match_def split: list.splits)
  then have "(q, c) \<in> set (rx_all (Seq (Group 1 ?X) ?R) line 0)" by (simp add: heading_re_def)
  then obtain k c2 where k: "k \<in> set (repeat_lengths True (\<lambda>c. c = CHR ''#'') 1 (Some 6) line)"
    and c: "c = (1, substr 0 k line) # c2"
    by (auto simp del: rx_seq.simps)
  have "k \<le> length line" using k length_takeWhile_le [of _ line] by (auto simp: repeat_lengths_bounds intro: le_trans)
  then show ?thesis using k by (simp add: c capture_def substr_def repeat_lengths_bounds)
qed

definition stack_ok :: "(nat \<times> string) list \<Rightarrow> bool" where
  "stack_ok st = (sorted_wrt (<) (map fst st) \<and> set (map fst st) \<subseteq> {1..6})"

definition split_ok :: "split_state \<Rightarrow> bool" where
  "split_ok st = (stack_ok (ss_stack st) \<and> ss_path st = map snd (ss_stack st)
    \<and> (\<forall>sec\<in>set (ss_sections st). length (fst sec) \<le> 6 \<and> section_text (snd sec) \<noteq> []))"

text \<open>What the sections closed so far and the open one hold.\<close>

definition split_kept :: "split_state \<Rightarrow> string" where
  "split_kept st = visible (concat (concat (map snd (ss_sections st)))) @ visible (concat (ss_lines st))"

lemma stack_depth: "stack_ok st \<Longrightarrow> length st \<le> 6"
proof -
  assume ok: "stack_ok st"
  then have "distinct (map fst st)" by (auto simp: stack_ok_def strict_sorted_iff)
  then have "length st = card (set (map fst st))" by (metis distinct_card length_map)
  also have "\<dots> \<le> card {1..6::nat}" using ok by (intro card_mono) (auto simp: stack_ok_def)
  finally show ?thesis by simp
qed

lemma stack_push:
  assumes "stack_ok st" "1 \<le> l" "l \<le> 6"
  shows "stack_ok (filter (\<lambda>(k, t). k < l) st @ [(l, title)])"
proof -
  have "sorted_wrt (<) (map fst (filter (\<lambda>(k, t). k < l) st))"
    using assms(1) sorted_wrt_filter [of "(<)" "map fst st" "\<lambda>k. k < l"]
    by (simp add: stack_ok_def filter_map comp_def case_prod_unfold)
  then show ?thesis using assms by (auto simp: stack_ok_def sorted_wrt_append)
qed

lemma section_text_visible: "visible (section_text ls) = visible (concat ls)"
  by (simp add: section_text_def visible_join)

lemma flush_kept: "visible (concat (concat (map snd (ss_sections (flush_section st))))) = split_kept st"
  using section_text_visible [of "ss_lines st"] by (auto simp: flush_section_def split_kept_def)

lemma flush_ok: "split_ok st \<Longrightarrow> split_ok (flush_section st)"
  using stack_depth [of "ss_stack st"] by (auto simp: split_ok_def flush_section_def)

lemma split_line_step:
  assumes "split_ok st"
  shows "split_ok (split_line l st)" "split_kept (split_line l st) = split_kept st @ visible l"
proof -
  have "split_ok (split_line l st) \<and> split_kept (split_line l st) = split_kept st @ visible l"
  proof (cases "rx_match heading_re l 0")
    case None
    then have "split_line l st = st\<lparr>ss_lines := ss_lines st @ [l]\<rparr>" by (simp add: split_line_def del: rx_match_None)
    then show ?thesis using assms by (simp add: split_ok_def split_kept_def)
  next
    case (Some m)
    obtain q c where m: "m = (q, c)" by fastforce
    note level = heading_level [OF Some [unfolded m]]
    have "split_ok (flush_section st)" by (rule flush_ok [OF assms])
    then have "split_ok (split_line l st)"
      using level stack_push by (auto simp: split_line_def Some m Let_def split_ok_def)
    moreover have "split_kept (split_line l st) = split_kept st @ visible l"
      unfolding flush_kept [of st, symmetric] by (simp add: split_line_def Some m Let_def split_kept_def)
    ultimately show ?thesis by simp
  qed
  then show "split_ok (split_line l st)" "split_kept (split_line l st) = split_kept st @ visible l" by simp_all
qed

lemma split_lines: "split_ok st \<Longrightarrow> split_ok (fold split_line ls st)
    \<and> split_kept (fold split_line ls st) = split_kept st @ visible (concat ls)"
  by (induction ls arbitrary: st) (simp_all add: split_line_step)

definition section_ok :: "string list \<times> string list \<Rightarrow> bool" where
  "section_ok sec = (length (fst sec) \<le> 6 \<and> section_text (snd sec) \<noteq> [])"

lemma raw_sections_spec:
  "visible (concat (concat (map snd (raw_sections src s)))) = visible s \<and> list_all section_ok (raw_sections src s)"
proof -
  let ?init = "\<lparr>ss_stack = [], ss_sections = [], ss_path = [], ss_lines = []\<rparr>"
  let ?st = "flush_section (fold split_line (py_splitlines s) ?init)"
  have init: "split_ok ?init" "split_kept ?init = []" by (simp_all add: split_ok_def stack_ok_def split_kept_def)
  have st: "split_ok ?st" "visible (concat (concat (map snd (ss_sections ?st)))) = visible s"
    using split_lines [OF init(1), of "py_splitlines s"] init(2) flush_ok flush_kept visible_splitlines [of s] by auto
  then have "ss_sections ?st = [] \<Longrightarrow> py_strip s = []"
    by (simp add: py_strip_eq_Nil) (metis visible_eq_Nil)
  then have "raw_sections src s = ss_sections ?st" by (auto simp: raw_sections_def Let_def)
  then show ?thesis using st by (simp add: split_ok_def list_all_iff section_ok_def)
qed

lemma section_chunks_index:
  "sec \<in> set (section_chunks src i path cs) \<Longrightarrow> sec_index sec = i"
  by (auto simp: section_chunks_def)

lemma section_chunks_sorted: "sorted_wrt (<) (map (\<lambda>sec. (sec_index sec, sec_chunk sec)) (section_chunks src i path cs))"
  by (auto simp: section_chunks_def sorted_wrt_iff_nth_less nth_enumerate_eq)

lemma chunk_sections_spec:
  assumes "0 < m" "list_all section_ok secs"
  shows "\<exists>out. chunk_sections src m i secs = Some out
    \<and> visible (concat (map sec_content out)) = visible (concat (concat (map snd secs)))
    \<and> (\<forall>sec\<in>set out. chunk_ok m (sec_content sec) \<and> i \<le> sec_index sec \<and> sec_source_path sec = src
        \<and> sec_heading_path sec \<noteq> [] \<and> length (sec_heading_path sec) \<le> 6)
    \<and> sorted_wrt (<) (map (\<lambda>sec. (sec_index sec, sec_chunk sec)) out)"
  using assms(2)
proof (induction secs arbitrary: i)
  case Nil
  then show ?case by simp
next
  case (Cons sec secs)
  obtain path ls where sec: "sec = (path, ls)" by fastforce
  have "trimmed (section_text ls)" "section_text ls \<noteq> []" "length path \<le> 6"
    using Cons.prems by (simp_all add: section_text_def section_ok_def sec)
  with chunk_text_spec [OF assms(1)] obtain cs where
    cs: "chunk_text m (section_text ls) = Some cs" "visible (concat cs) = visible (concat ls)" "list_all (chunk_ok m) cs"
    by (metis section_text_visible)
  obtain out where out: "chunk_sections src m (Suc i) secs = Some out"
    "visible (concat (map sec_content out)) = visible (concat (concat (map snd secs)))"
    "\<forall>sec\<in>set out. chunk_ok m (sec_content sec) \<and> Suc i \<le> sec_index sec \<and> sec_source_path sec = src
        \<and> sec_heading_path sec \<noteq> [] \<and> length (sec_heading_path sec) \<le> 6"
    "sorted_wrt (<) (map (\<lambda>sec. (sec_index sec, sec_chunk sec)) out)"
    using Cons.IH [of "Suc i"] Cons.prems by auto
  let ?new = "section_chunks src i path cs"
  have new: "map sec_content ?new = cs" by (simp add: section_chunks_def case_prod_beta comp_def)
  have "\<forall>sec\<in>set ?new. chunk_ok m (sec_content sec) \<and> sec_index sec = i \<and> sec_source_path sec = src
        \<and> sec_heading_path sec \<noteq> [] \<and> length (sec_heading_path sec) \<le> 6"
    using cs(3) \<open>length path \<le> 6\<close> by (auto simp: section_chunks_def list_all_iff in_set_enumerate_eq)
  moreover have "sorted_wrt (<) (map (\<lambda>sec. (sec_index sec, sec_chunk sec)) (?new @ out))"
    using section_chunks_sorted [of src i path cs] out(3,4) section_chunks_index [of _ src i path cs]
    by (fastforce simp: sorted_wrt_append)
  ultimately show ?case using cs(1,2) out(1,2,3) new by (auto simp: sec)
qed

section \<open>The headings of a section\<close>

text \<open>The level and title of a line that is a heading.\<close>

definition heading_of :: "string \<Rightarrow> (nat \<times> string) option" where
  "heading_of l = map_option (\<lambda>(_, c). (length (capture 1 c), clean_heading (capture 2 c))) (rx_match heading_re l 0)"

text \<open>
  The headings that are open after some lines, without the code's stack: those that no later heading of the same or a
  higher rank (a smaller or equal level) closes.
\<close>

fun open_headings :: "string list \<Rightarrow> (nat \<times> string) list" where
  "open_headings [] = []"
| "open_headings (l # ls) =
     (case heading_of l of
        None \<Rightarrow> open_headings ls
      | Some (n, t) \<Rightarrow>
          (if list_all (\<lambda>k. case heading_of k of None \<Rightarrow> True | Some (m, _) \<Rightarrow> n < m) ls then [(n, t)] else []) @ open_headings ls)"

lemma open_headings_snoc:
  "open_headings (ls @ [l]) = (case heading_of l of None \<Rightarrow> open_headings ls
     | Some (n, t) \<Rightarrow> filter (\<lambda>(k, _). k < n) (open_headings ls) @ [(n, t)])"
  by (induction ls) (auto split: option.splits)

lemma open_headings_plain: "\<forall>l\<in>set bs. heading_of l = None \<Longrightarrow> open_headings (as @ bs) = open_headings as"
proof (induction bs rule: rev_induct)
  case (snoc b bs)
  then have "open_headings ((as @ bs) @ [b]) = open_headings (as @ bs)" by (simp only: open_headings_snoc) simp
  then show ?case using snoc by simp
qed simp

lemma split_line_heading:
  "split_line l st = (case heading_of l of None \<Rightarrow> st\<lparr>ss_lines := ss_lines st @ [l]\<rparr>
     | Some (n, t) \<Rightarrow> (flush_section st)\<lparr>ss_stack := filter (\<lambda>(k, _). k < n) (ss_stack (flush_section st)) @ [(n, t)],
         ss_path := map snd (filter (\<lambda>(k, _). k < n) (ss_stack (flush_section st)) @ [(n, t)]), ss_lines := [l]\<rparr>)"
  unfolding split_line_def heading_of_def
  by (cases "rx_match heading_re l 0") (simp_all add: Let_def case_prod_unfold del: rx_match_None)

lemma flush_fields [simp]:
  "ss_stack (flush_section st) = ss_stack st" "ss_path (flush_section st) = ss_path st" "ss_lines (flush_section st) = ss_lines st"
  by (simp_all add: flush_section_def)

text \<open>
  A section of some lines: a heading, if it is not at their beginning, and the lines up to the next one, with the titles
  of the headings open there.
\<close>

definition section_of :: "string list \<Rightarrow> string list \<Rightarrow> string list \<Rightarrow> bool" where
  "section_of lines path body \<longleftrightarrow> (\<exists>before after. lines = before @ body @ after
     \<and> (before = [] \<or> (body \<noteq> [] \<and> heading_of (hd body) \<noteq> None)) \<and> (\<forall>l\<in>set (tl body). heading_of l = None)
     \<and> (after = [] \<or> heading_of (hd after) \<noteq> None)
     \<and> path = map snd (open_headings (before @ body)))"

text \<open>The sections of the loop after some lines: the closed ones, each followed by a heading, and the open one.\<close>

definition closed_section :: "string list \<Rightarrow> string list \<Rightarrow> string list \<Rightarrow> bool" where
  "closed_section lines path body \<longleftrightarrow> (\<exists>before after. lines = before @ body @ after
     \<and> (before = [] \<or> (body \<noteq> [] \<and> heading_of (hd body) \<noteq> None)) \<and> (\<forall>l\<in>set (tl body). heading_of l = None)
     \<and> after \<noteq> [] \<and> heading_of (hd after) \<noteq> None
     \<and> path = map snd (open_headings (before @ body)))"

definition open_section :: "string list \<Rightarrow> string list \<Rightarrow> bool" where
  "open_section lines body \<longleftrightarrow> (\<exists>before. lines = before @ body
     \<and> (before = [] \<or> (body \<noteq> [] \<and> heading_of (hd body) \<noteq> None)) \<and> (\<forall>l\<in>set (tl body). heading_of l = None))"

definition sections_of :: "string list \<Rightarrow> split_state \<Rightarrow> bool" where
  "sections_of lines st \<longleftrightarrow> ss_stack st = open_headings lines \<and> ss_path st = map snd (open_headings lines)
     \<and> open_section lines (ss_lines st) \<and> (\<forall>sec\<in>set (ss_sections st). closed_section lines (fst sec) (snd sec))"

lemma closed_is_section: "closed_section lines path body \<Longrightarrow> section_of lines path body"
  unfolding closed_section_def section_of_def by blast

lemma open_is_section: "open_section lines body \<Longrightarrow> section_of lines (map snd (open_headings lines)) body"
  unfolding open_section_def section_of_def by fastforce

lemma closed_section_snoc:
  assumes "closed_section lines path body"
  shows "closed_section (lines @ [l]) path body"
proof -
  obtain before after where "lines = before @ body @ after" "after \<noteq> []" "heading_of (hd after) \<noteq> None"
    "before = [] \<or> (body \<noteq> [] \<and> heading_of (hd body) \<noteq> None)" "\<forall>l\<in>set (tl body). heading_of l = None"
    "path = map snd (open_headings (before @ body))"
    using assms unfolding closed_section_def by blast
  then show ?thesis unfolding closed_section_def by (intro exI [of _ before] exI [of _ "after @ [l]"]) simp
qed

lemma open_section_plain:
  assumes "open_section lines body" "heading_of l = None"
  shows "open_section (lines @ [l]) (body @ [l])"
proof -
  obtain before where b: "lines = before @ body" "before = [] \<or> (body \<noteq> [] \<and> heading_of (hd body) \<noteq> None)"
    "\<forall>k\<in>set (tl body). heading_of k = None"
    using assms(1) unfolding open_section_def by blast
  have "\<forall>k\<in>set (tl (body @ [l])). heading_of k = None" using b(3) assms(2) by (cases body) auto
  then show ?thesis using b(1,2) unfolding open_section_def by (intro exI [of _ before]) auto
qed

lemma open_section_closed:
  assumes "open_section lines body" "heading_of l \<noteq> None"
  shows "closed_section (lines @ [l]) (map snd (open_headings lines)) body"
proof -
  obtain before where "lines = before @ body" "before = [] \<or> (body \<noteq> [] \<and> heading_of (hd body) \<noteq> None)"
    "\<forall>k\<in>set (tl body). heading_of k = None"
    using assms(1) unfolding open_section_def by blast
  then show ?thesis using assms(2) unfolding closed_section_def by (intro exI [of _ before] exI [of _ "[l]"]) simp
qed

lemma open_section_new: "heading_of l \<noteq> None \<Longrightarrow> open_section (lines @ [l]) [l]"
  by (simp add: open_section_def)

lemma sections_of_line:
  assumes "sections_of lines st"
  shows "sections_of (lines @ [l]) (split_line l st)"
proof -
  have st: "ss_stack st = open_headings lines" "ss_path st = map snd (open_headings lines)"
    "open_section lines (ss_lines st)" "\<forall>sec\<in>set (ss_sections st). closed_section lines (fst sec) (snd sec)"
    using assms by (simp_all add: sections_of_def)
  show ?thesis
  proof (cases "heading_of l")
    case None
    then show ?thesis using st open_section_plain [OF st(3) None] closed_section_snoc
      by (simp add: sections_of_def split_line_heading open_headings_snoc)
  next
    case (Some h)
    obtain n t where h: "h = (n, t)" by fastforce
    have "closed_section (lines @ [l]) (ss_path st) (ss_lines st)"
      using open_section_closed [OF st(3)] Some st(2) by simp
    then have "\<forall>sec\<in>set (ss_sections (flush_section st)). closed_section (lines @ [l]) (fst sec) (snd sec)"
      using st(4) closed_section_snoc by (simp add: flush_section_def)
    then show ?thesis using st(1) Some open_section_new [of l lines]
      by (simp add: sections_of_def split_line_heading open_headings_snoc h)
  qed
qed

lemma sections_of_lines: "sections_of ds st \<Longrightarrow> sections_of (ds @ ls) (fold split_line ls st)"
proof (induction ls arbitrary: ds st)
  case (Cons l ls)
  show ?case using Cons.IH [OF sections_of_line [OF Cons.prems, of l]] by simp
qed simp

lemma raw_sections_of:
  assumes "(path, body) \<in> set (raw_sections src s)"
  shows "section_of (py_splitlines s) path body"
proof -
  let ?init = "\<lparr>ss_stack = [], ss_sections = [], ss_path = [], ss_lines = []\<rparr>"
  let ?st = "fold split_line (py_splitlines s) ?init"
  have init: "split_ok ?init" "split_kept ?init = []" by (simp_all add: split_ok_def stack_ok_def split_kept_def)
  have "visible (concat (concat (map snd (ss_sections (flush_section ?st))))) = visible s"
    using split_lines [OF init(1), of "py_splitlines s"] init(2) flush_kept visible_splitlines [of s] by auto
  then have "ss_sections (flush_section ?st) = [] \<Longrightarrow> py_strip s = []"
    by (simp add: py_strip_eq_Nil) (metis visible_eq_Nil)
  then have sec: "(path, body) \<in> set (ss_sections (flush_section ?st))"
    using assms by (auto simp: raw_sections_def Let_def split: if_splits)
  have "sections_of ([] @ py_splitlines s) ?st" by (rule sections_of_lines) (simp add: sections_of_def open_section_def)
  then have inv: "sections_of (py_splitlines s) ?st" by simp
  consider "(path, body) \<in> set (ss_sections ?st)" | "path = ss_path ?st" "body = ss_lines ?st"
    using sec by (auto simp: flush_section_def split: if_splits)
  then show ?thesis
  proof cases
    case 1
    then show ?thesis using inv closed_is_section unfolding sections_of_def by fastforce
  next
    case 2
    then show ?thesis using inv open_is_section unfolding sections_of_def by simp
  qed
qed

text \<open>The chunks of a document that come from one of its sections.\<close>

definition chunks_at :: "nat \<Rightarrow> markdown_section list \<Rightarrow> markdown_section list" where
  "chunks_at i out = filter (\<lambda>sec. sec_index sec = i) out"

lemma chunk_sections_from:
  assumes "0 < m" "list_all section_ok secs" "chunk_sections src m i secs = Some out" "sec \<in> set out"
  shows "\<exists>path body. (path, body) \<in> set secs \<and> sec_heading_path sec = (if path = [] then [src] else path)
    \<and> visible (concat (map sec_content (chunks_at (sec_index sec) out))) = visible (concat body)"
  using assms(2,3,4)
proof (induction secs arbitrary: i out)
  case (Cons s secs)
  obtain path ls where s: "s = (path, ls)" by fastforce
  have "trimmed (section_text ls)" "section_text ls \<noteq> []" using Cons.prems by (simp_all add: section_text_def section_ok_def s)
  with chunk_text_spec [OF assms(1)] obtain cs where
    cs: "chunk_text m (section_text ls) = Some cs" "visible (concat cs) = visible (concat ls)"
    by (metis section_text_visible)
  have ok: "list_all section_ok secs" using Cons.prems(1) by simp
  with chunk_sections_spec [OF assms(1), of secs src "Suc i"] obtain rest where
    rest: "chunk_sections src m (Suc i) secs = Some rest" "\<forall>k\<in>set rest. Suc i \<le> sec_index k" by blast
  let ?new = "section_chunks src i path cs"
  have out: "out = ?new @ rest" using Cons.prems(2) cs(1) rest(1) by (simp add: s)
  have new: "map sec_content ?new = cs" by (simp add: section_chunks_def case_prod_beta comp_def)
  have at_i: "chunks_at i out = ?new"
  proof -
    have "\<forall>k\<in>set ?new. sec_index k = i" "\<forall>k\<in>set rest. sec_index k \<noteq> i" using section_chunks_index rest(2) by fastforce+
    then show ?thesis by (simp add: chunks_at_def out filter_id_conv filter_empty_conv)
  qed
  consider "sec \<in> set ?new" | "sec \<in> set rest" using Cons.prems(3) by (auto simp: out)
  then show ?case
  proof cases
    case 1
    then have "sec_heading_path sec = (if path = [] then [src] else path)" by (auto simp: section_chunks_def)
    moreover have "sec_index sec = i" by (rule section_chunks_index [OF 1])
    ultimately show ?thesis using at_i new cs(2) by (intro exI [of _ path] exI [of _ ls]) (simp add: s)
  next
    case 2
    have "\<forall>k\<in>set ?new. sec_index k \<noteq> sec_index sec" using section_chunks_index [of _ src i path cs] rest(2) 2 by fastforce
    then have "chunks_at (sec_index sec) out = chunks_at (sec_index sec) rest"
      by (simp add: chunks_at_def out filter_empty_conv)
    moreover obtain path' body where "(path', body) \<in> set secs" "sec_heading_path sec = (if path' = [] then [src] else path')"
      "visible (concat (map sec_content (chunks_at (sec_index sec) rest))) = visible (concat body)"
      using Cons.IH [OF ok rest(1) 2] by blast
    ultimately show ?thesis by (intro exI [of _ path'] exI [of _ body]) simp
  qed
qed simp

text \<open>
  C23: splitting a Markdown text returns, for every bound the code admits (above 80), and loses nothing: the chunks hold
  the text's characters in order, blanks apart. Each chunk is a trimmed non-empty text within the bound, and belongs to
  a section of the text's lines, a heading and what follows it up to the next one: its heading path is the titles of the
  headings open there (a heading closes those before it of its level or deeper), or the source path when none is, and
  the section's chunks together hold the characters of its lines. The path has at most six parts, and the pairs of
  section and chunk index increase strictly.
\<close>

theorem split_markdown_total:
  assumes "80 < max_chars"
  shows "\<exists>out. split_markdown_sections s src max_chars = Some (Inr out)
    \<and> visible (concat (map sec_content out)) = visible s
    \<and> (\<forall>sec\<in>set out. sec_content sec \<noteq> [] \<and> trimmed (sec_content sec) \<and> int (length (sec_content sec)) \<le> max_chars
        \<and> sec_source_path sec = src \<and> 1 \<le> length (sec_heading_path sec) \<and> length (sec_heading_path sec) \<le> 6
        \<and> (\<exists>path body. section_of (py_splitlines s) path body
             \<and> sec_heading_path sec = (if path = [] then [src] else path)
             \<and> visible (concat (map sec_content (chunks_at (sec_index sec) out))) = visible (concat body)))
    \<and> sorted_wrt (<) (map (\<lambda>sec. (sec_index sec, sec_chunk sec)) out)"
proof -
  let ?secs = "raw_sections src s"
  have m: "0 < nat max_chars" and ok: "list_all section_ok ?secs" using assms raw_sections_spec [of src s] by simp_all
  from chunk_sections_spec [OF m ok, of src 0] raw_sections_spec [of src s] obtain out where
    out: "chunk_sections src (nat max_chars) 0 ?secs = Some out"
    "visible (concat (map sec_content out)) = visible s"
    "\<forall>sec\<in>set out. chunk_ok (nat max_chars) (sec_content sec) \<and> sec_source_path sec = src
        \<and> sec_heading_path sec \<noteq> [] \<and> length (sec_heading_path sec) \<le> 6"
    "sorted_wrt (<) (map (\<lambda>sec. (sec_index sec, sec_chunk sec)) out)" by auto
  have "\<forall>sec\<in>set out. \<exists>path body. section_of (py_splitlines s) path body
      \<and> sec_heading_path sec = (if path = [] then [src] else path)
      \<and> visible (concat (map sec_content (chunks_at (sec_index sec) out))) = visible (concat body)"
    using chunk_sections_from [OF m ok out(1)] raw_sections_of by blast
  moreover have "\<forall>sec\<in>set out. int (length (sec_content sec)) \<le> max_chars" using out(3) assms by (auto simp: chunk_ok_def)
  ultimately show ?thesis using out assms
    by (intro exI [of _ out]) (simp add: split_markdown_sections_def chunk_ok_def Suc_le_eq)
qed

text \<open>The loop that cuts a long paragraph does not return when the bound is zero, which the guard excludes.\<close>

lemma split_long_zero_diverges:
  assumes "start < length s"
  shows "split_long_from 0 s start = None"
proof -
  have e: "chunk_end 0 s start = start"
    using assms py_rfind_bound [of "CHR '' ''" s start start] by (auto simp: chunk_end_def Let_def)
  have "\<forall>cs. split_long_from 0 s start = Some cs \<longrightarrow> False" 
  proof (intro allI impI)
    fix cs assume "split_long_from 0 s start = Some cs"
    then show False using assms
    proof (induction cs)
      case Nil
      then show ?case by (subst (asm) split_long_from.simps) (auto simp: e split: bind_splits)
    next
      case (Cons c cs)
      then show ?case by (subst (asm) (2) split_long_from.simps) (auto simp: e split: bind_splits)
    qed
  qed
  then show ?thesis by auto
qed

lemma split_markdown_total_witness:
  "(80::int) < 81 \<and> (\<exists>out. split_markdown_sections ''# A'' ''a.md'' 81 = Some (Inr out) \<and> visible (concat (map sec_content out)) = ''#A'')"
proof -
  have "visible ''# A'' = ''#A''" by (simp add: visible_def is_space_def)
  then show ?thesis using split_markdown_total [of 81 "''# A''" "''a.md''"] by auto
qed

end
