(* ===== verification/Sif.thy ===== *)
theory Sif
  imports Context_Assembly Ingest
begin

text \<open>
  \<open>sif.py\<close>, the text frame of a recall (\<open>SIFContextAssembler\<close>): a header, and for each result either a line of
  metadata with a snippet of what a prompt may see, or a shorter line of metadata alone, or nothing, all within
  a token budget.
\<close>

section \<open>Lines\<close>

text \<open>\<open>f"{x:.2f}"\<close>.\<close>

definition format2 :: "real \<Rightarrow> string" where
  "format2 x =
     (let n = nat (round_even (\<bar>x\<bar> * 100)) in
      (if x < 0 then ''-'' else []) @ show_nat (n div 100) @ ''.'' @ show_digits 2 (n mod 100))"

definition join_lines :: "string list \<Rightarrow> string" where
  "join_lines ls = py_join [newline] ls"

definition one_line :: "string \<Rightarrow> int \<Rightarrow> string" where
  "one_line s max_chars =
     (if s = [] \<or> max_chars \<le> 0 then []
      else (let compact = py_strip (py_join '' '' (rx_split some_spaces s)) in
        if int (length compact) \<le> max_chars then compact
        else if max_chars \<le> 3 then py_take max_chars compact
        else py_rstrip (py_take (max_chars - 3) compact) @ ''...''))"

record sif_assembler =
  sa_max_tokens :: int
  sa_chars_per_token :: int
  sa_preserve_order :: bool

definition sif_new :: "int \<Rightarrow> int \<Rightarrow> bool \<Rightarrow> sif_assembler result" where
  "sif_new max_tokens chars_per_token preserve_order =
     (if max_tokens \<le> 0 then Inl (ValueError ''max_tokens must be positive'')
      else Inr \<lparr>sa_max_tokens = max_tokens, sa_chars_per_token = max 1 chars_per_token, sa_preserve_order = preserve_order\<rparr>)"

definition sif_tokens :: "int \<Rightarrow> string \<Rightarrow> int" where
  "sif_tokens chars_per_token s =
     (if s = [] then 0 else max 1 ((int (length s) + chars_per_token - 1) div chars_per_token))"

definition header_line :: "sif_assembler \<Rightarrow> string \<Rightarrow> string" where
  "header_line a query =
     (let base = ''LMV2_SIF v1 q='';
          max_query_chars = (if sa_max_tokens a < 80
            then max 0 (min 72 (sa_max_tokens a * sa_chars_per_token a - int (length base) - 52)) else 72)
      in base @ one_line query max_query_chars)"

definition source_part :: "envelope \<Rightarrow> int \<Rightarrow> string list" where
  "source_part m n =
     (let source = d_or (d_get (provenance m) ''source'') in
      if truthy source then [''src='' @ one_line (py_str source) n] else [])"

definition policy_part :: "py_dict \<Rightarrow> string list" where
  "policy_part gov =
     (let policy = d_or (d_get gov ''prompt_policy'') in
      if policy \<noteq> VStr ''inline'' then [''gov='' @ py_str policy] else [])"

definition inspect_part :: "envelope \<Rightarrow> string" where
  "inspect_part m = ''inspect_memory('' @ env_id m @ '')''"

definition meta_line :: "nat \<Rightarrow> recall_result \<Rightarrow> string result" where
  "meta_line index r =
     (let m = rr_memory r; mods = filter (\<lambda>x. x \<noteq> ''text'') (modality_names m) in
      res_bind (governance_for m) (\<lambda>gov.
        Inr (py_join '' ''
          ([''[M'' @ show_nat index @ '']'', ''id='' @ env_id m, ''type='' @ memory_type m,
            ''score='' @ format2 (rr_score r), ''conf='' @ format2 (rr_confidence r)]
           @ (if rr_why r \<noteq> [] then [''why='' @ py_join '','' (rr_why r)] else [])
           @ source_part m 36
           @ (if tags m \<noteq> [] then [''tags='' @ py_join '','' (take 4 (tags m))] else [])
           @ policy_part gov
           @ (if mods \<noteq> [] then [''mods='' @ py_join '','' (take 4 mods)] else [])
           @ [inspect_part m]))))"

definition fit_chars :: "string \<Rightarrow> int \<Rightarrow> string" where
  "fit_chars s budget =
     (let clean = one_line s (max budget 0) in
      if clean = [] \<or> budget \<le> 0 then []
      else if int (length clean) \<le> budget then clean
      else if budget \<le> 3 then []
      else py_rstrip (py_take (budget - 3) clean) @ ''...'')"

definition fits :: "sif_assembler \<Rightarrow> string list \<Rightarrow> bool" where
  "fits a ls = (sif_tokens (sa_chars_per_token a) (join_lines ls) \<le> sa_max_tokens a)"

text \<open>The extras of a micro line, each kept only if the frame still fits with it.\<close>

definition add_extra :: "sif_assembler \<Rightarrow> string list \<Rightarrow> string list \<Rightarrow> string \<Rightarrow> string list" where
  "add_extra a ls parts extra =
     (if fits a (ls @ [py_join '' '' (parts @ [extra])]) then parts @ [extra] else parts)"

definition micro_extras :: "recall_result \<Rightarrow> py_dict \<Rightarrow> string list" where
  "micro_extras r gov =
     (let m = rr_memory r in
      [''type='' @ memory_type m, ''score='' @ format2 (rr_score r), ''conf='' @ format2 (rr_confidence r)]
      @ (if rr_why r \<noteq> [] then [''why='' @ py_join '','' (take 2 (rr_why r))] else [])
      @ source_part m 24 @ policy_part gov @ [inspect_part m])"

definition micro_line :: "sif_assembler \<Rightarrow> nat \<Rightarrow> recall_result \<Rightarrow> string list \<Rightarrow> string result" where
  "micro_line a index r ls =
     (let m = rr_memory r; parts = [''M'' @ show_nat index, ''id='' @ env_id m] in
      if \<not> fits a (ls @ [py_join '' '' parts]) then Inr []
      else res_bind (governance_for m) (\<lambda>gov.
        Inr (py_join '' '' (foldl (add_extra a ls) parts (micro_extras r gov)))))"

section \<open>The frame\<close>

text \<open>The lines with a result's metadata and snippet, if they fit.\<close>

definition snippet_lines :: "sif_assembler \<Rightarrow> string list \<Rightarrow> string \<Rightarrow> recall_result \<Rightarrow> string list option result" where
  "snippet_lines a ls meta r =
     (let prefix = join_lines (ls @ [meta, []]);
          remaining = sa_max_tokens a - sif_tokens (sa_chars_per_token a) prefix in
      if remaining \<le> 0 then Inr None
      else res_bind (prompt_text_for (rr_memory r)) (\<lambda>safe_text.
        (let snippet = fit_chars safe_text (remaining * sa_chars_per_token a) in
         if snippet = [] then Inr None
         else
           (let shorter = fit_chars safe_text (sa_max_tokens a * sa_chars_per_token a - int (length prefix));
                candidate = ls @ [meta, if fits a (ls @ [meta, snippet]) \<or> shorter = [] then snippet else shorter]
            in Inr (if fits a candidate then Some candidate else None)))))"

record sif_state =
  sf_lines :: "string list"
  sf_ids :: "string list"
  sf_dropped :: nat

definition sif_step :: "sif_assembler \<Rightarrow> recall_result \<Rightarrow> sif_state \<Rightarrow> sif_state result" where
  "sif_step a r st =
     (let index = length (sf_ids st) + 1; i = env_id (rr_memory r) in
      res_bind (meta_line index r) (\<lambda>meta.
      res_bind (snippet_lines a (sf_lines st) meta r) (\<lambda>added.
        (case added of
           Some ls \<Rightarrow> Inr (st\<lparr>sf_lines := ls, sf_ids := sf_ids st @ [i]\<rparr>)
         | None \<Rightarrow>
             res_bind (micro_line a index r (sf_lines st)) (\<lambda>micro.
               Inr (if micro \<noteq> [] then st\<lparr>sf_lines := sf_lines st @ [micro], sf_ids := sf_ids st @ [i]\<rparr>
                    else st\<lparr>sf_dropped := sf_dropped st + 1\<rparr>))))))"

fun sif_fold :: "sif_assembler \<Rightarrow> recall_result list \<Rightarrow> sif_state \<Rightarrow> sif_state result" where
  "sif_fold a [] st = Inr st"
| "sif_fold a (r # rs) st = res_bind (sif_step a r st) (sif_fold a rs)"

definition sif_rank :: "recall_result \<Rightarrow> bool \<times> real \<times> real \<times> real \<times> real" where
  "sif_rank r =
     (95 / 100 \<le> importance (rr_memory r), rr_score r, importance (rr_memory r), confidence (rr_memory r),
      created_at (rr_memory r))"

record sif_frame =
  sif_format :: string
  sif_query :: string
  sif_budget :: int
  sif_estimated :: int
  sif_memory_ids :: "string list"
  sif_text :: string
  sif_dropped :: nat

definition sif_to_dict :: "sif_frame \<Rightarrow> py_dict" where
  "sif_to_dict f =
     [(''format'', VStr (sif_format f)), (''query'', VStr (sif_query f)), (''token_budget'', VInt (sif_budget f)),
      (''estimated_tokens'', VInt (sif_estimated f)), (''memory_ids'', str_list (sif_memory_ids f)),
      (''dropped_count'', VInt (int (sif_dropped f))), (''sif_text'', VStr (sif_text f))]"

definition sif_order :: "sif_assembler \<Rightarrow> recall_result list \<Rightarrow> recall_result list" where
  "sif_order a rs = (if sa_preserve_order a then rs else sort_desc sif_rank rs)"

definition sif_assemble :: "sif_assembler \<Rightarrow> string \<Rightarrow> recall_result list \<Rightarrow> sif_frame result" where
  "sif_assemble a query rs =
     res_bind (sif_fold a (sif_order a rs) \<lparr>sf_lines = [header_line a query], sf_ids = [], sf_dropped = 0\<rparr>) (\<lambda>st.
       (let shown = join_lines (sf_lines st) in
        Inr \<lparr>sif_format = ''lmv2-sif/1'', sif_query = query, sif_budget = sa_max_tokens a,
          sif_estimated = sif_tokens (sa_chars_per_token a) shown, sif_memory_ids = sf_ids st, sif_text = shown,
          sif_dropped = sf_dropped st\<rparr>))"

section \<open>The budget\<close>

lemma py_take_bound: "0 \<le> n \<Longrightarrow> int (length (py_take n xs)) \<le> n"
  using length_py_take [of n xs] by linarith

lemma one_line_bound: "int (length (one_line s n)) \<le> max 0 n"
proof -
  have "int (length (py_rstrip (py_take (n - 3) t) @ ''...'')) \<le> n" if "3 < n" for t
    using length_py_rstrip [of "py_take (n - 3) t"] py_take_bound [of "n - 3" t] that by simp
  moreover have "int (length (py_take n t)) \<le> n" if "0 < n" for t using py_take_bound [of n t] that by simp
  ultimately show ?thesis by (auto simp: one_line_def Let_def)
qed

lemma sif_tokens_bound:
  assumes "1 \<le> c" "0 < b" "int (length s) \<le> b * c"
  shows "sif_tokens c s \<le> b"
  using estimate_tokens_bound [of "\<lparr>ca_max_tokens = 1, ca_chars_per_token = c\<rparr>" b s] assms
  by (auto simp: sif_tokens_def estimate_tokens_def)

lemma header_fits:
  assumes "1 \<le> sa_chars_per_token a" "0 < sa_max_tokens a"
    and "14 \<le> sa_max_tokens a * sa_chars_per_token a"
    and "80 \<le> sa_max_tokens a \<Longrightarrow> 86 \<le> sa_max_tokens a * sa_chars_per_token a"
  shows "fits a [header_line a q]"
proof -
  let ?n = "if sa_max_tokens a < 80 then max 0 (min 72 (sa_max_tokens a * sa_chars_per_token a - 14 - 52)) else 72"
  have "int (length (header_line a q)) = 14 + int (length (one_line q ?n))"
    by (simp add: header_line_def Let_def)
  also have "\<dots> \<le> sa_max_tokens a * sa_chars_per_token a"
    using one_line_bound [of q ?n] assms(3,4) by (auto simp: max_def min_def split: if_splits)
  finally show ?thesis unfolding fits_def join_lines_def
    using sif_tokens_bound [OF assms(1,2)] by simp
qed

lemma micro_fits:
  assumes "micro_line a n r ls = Inr micro" "micro \<noteq> []"
  shows "fits a (ls @ [micro])"
proof -
  have keep: "fits a (ls @ [py_join '' '' ps]) \<Longrightarrow> fits a (ls @ [py_join '' '' (foldl (add_extra a ls) ps es)])" for ps es
    by (induction es arbitrary: ps) (simp_all add: add_extra_def)
  show ?thesis using assms keep unfolding micro_line_def Let_def by (auto simp: res_bind_eq_Inr split: if_splits)
qed

lemma snippet_fits: "snippet_lines a ls meta r = Inr (Some ls') \<Longrightarrow> fits a ls'"
  unfolding snippet_lines_def Let_def by (auto simp: res_bind_eq_Inr split: if_splits)

definition sif_ok :: "sif_assembler \<Rightarrow> string list \<Rightarrow> sif_state \<Rightarrow> bool" where
  "sif_ok a start st = (fits a (sf_lines st) \<or> (sf_ids st = [] \<and> sf_lines st = start))"

lemma sif_step_spec:
  assumes "sif_step a r st = Inr st'"
  shows "sif_ok a start st \<Longrightarrow> sif_ok a start st'"
    and "(sf_ids st' = sf_ids st @ [env_id (rr_memory r)] \<and> sf_dropped st' = sf_dropped st)
       \<or> (sf_ids st' = sf_ids st \<and> sf_dropped st' = Suc (sf_dropped st))"
proof -
  obtain meta added where m: "meta_line (length (sf_ids st) + 1) r = Inr meta"
    and s: "snippet_lines a (sf_lines st) meta r = Inr added"
    using assms unfolding sif_step_def Let_def by (auto simp: res_bind_eq_Inr)
  have "(sif_ok a start st \<longrightarrow> sif_ok a start st')
    \<and> ((sf_ids st' = sf_ids st @ [env_id (rr_memory r)] \<and> sf_dropped st' = sf_dropped st)
       \<or> (sf_ids st' = sf_ids st \<and> sf_dropped st' = Suc (sf_dropped st)))"
  proof (cases added)
    case (Some ls)
    then show ?thesis using assms m s snippet_fits by (auto simp: sif_step_def sif_ok_def)
  next
    case None
    then obtain micro where micro: "micro_line a (length (sf_ids st) + 1) r (sf_lines st) = Inr micro"
      using assms m s by (auto simp: sif_step_def Let_def res_bind_eq_Inr)
    then show ?thesis using assms m s None micro_fits [OF micro]
      by (cases "micro = []") (auto simp: sif_step_def sif_ok_def)
  qed
  then show "sif_ok a start st \<Longrightarrow> sif_ok a start st'"
    and "(sf_ids st' = sf_ids st @ [env_id (rr_memory r)] \<and> sf_dropped st' = sf_dropped st)
       \<or> (sf_ids st' = sf_ids st \<and> sf_dropped st' = Suc (sf_dropped st))" by blast+
qed

lemma sif_fold_spec:
  "sif_fold a rs st = Inr st' \<Longrightarrow> sif_ok a start st \<Longrightarrow>
    sif_ok a start st' \<and> length (sf_ids st') + sf_dropped st' = length (sf_ids st) + sf_dropped st + length rs
    \<and> (\<exists>is. sf_ids st' = sf_ids st @ is \<and> subseq is (map (\<lambda>r. env_id (rr_memory r)) rs))"
proof (induction rs arbitrary: st)
  case Nil
  then show ?case by simp
next
  case (Cons r rs)
  obtain st1 where st1: "sif_step a r st = Inr st1" "sif_fold a rs st1 = Inr st'"
    using Cons.prems(1) by (auto simp: res_bind_eq_Inr)
  note step = sif_step_spec [OF st1(1)]
  obtain js where "sif_ok a start st'" "length (sf_ids st') + sf_dropped st' = length (sf_ids st1) + sf_dropped st1 + length rs"
    "sf_ids st' = sf_ids st1 @ js" "subseq js (map (\<lambda>r. env_id (rr_memory r)) rs)"
    using Cons.IH [OF st1(2) step(1) [OF Cons.prems(2)]] by blast
  then show ?case using step(2) by auto
qed

lemma sif_assemble_ids:
  assumes "sif_assemble a query rs = Inr f"
  shows "subseq (sif_memory_ids f) (map (\<lambda>r. env_id (rr_memory r)) (sif_order a rs))"
  using assms sif_fold_spec [of a "sif_order a rs" _ _ "[header_line a query]"]
  by (fastforce simp: sif_assemble_def Let_def res_bind_eq_Inr sif_ok_def)

text \<open>
  C30: a text frame is within its token budget whenever the budget holds its header, which takes at most 14
  characters and, from 80 tokens on, at most 86; if the budget does not, the frame is the bare header. Every
  result is shown, in order, or counted as dropped.
\<close>

theorem sif_within_budget:
  assumes "sif_new max_tokens chars_per_token keep = Inr a" "sif_assemble a query rs = Inr f"
  shows "sif_estimated f = sif_tokens (sa_chars_per_token a) (sif_text f)
    \<and> (14 \<le> max_tokens * max 1 chars_per_token \<and> (80 \<le> max_tokens \<longrightarrow> 86 \<le> max_tokens * max 1 chars_per_token)
         \<longrightarrow> sif_estimated f \<le> max_tokens)
    \<and> (max_tokens < sif_estimated f \<longrightarrow> sif_memory_ids f = [] \<and> sif_text f = header_line a query)
    \<and> length (sif_memory_ids f) + sif_dropped f = length rs
    \<and> subseq (sif_memory_ids f) (map (\<lambda>r. env_id (rr_memory r)) (sif_order a rs))"
proof -
  let ?start = "[header_line a query]"
  have a: "sa_max_tokens a = max_tokens" "sa_chars_per_token a = max 1 chars_per_token" "0 < max_tokens"
    using assms(1) by (auto simp: sif_new_def split: if_splits)
  obtain st where st: "sif_fold a (sif_order a rs) \<lparr>sf_lines = ?start, sf_ids = [], sf_dropped = 0\<rparr> = Inr st"
    and f: "sif_estimated f = sif_tokens (sa_chars_per_token a) (join_lines (sf_lines st))" "sif_memory_ids f = sf_ids st"
      "sif_text f = join_lines (sf_lines st)" "sif_dropped f = sf_dropped st"
    using assms(2) by (auto simp: sif_assemble_def Let_def res_bind_eq_Inr)
  have "sif_ok a ?start \<lparr>sf_lines = ?start, sf_ids = [], sf_dropped = 0\<rparr>" by (simp add: sif_ok_def)
  note sp = sif_fold_spec [OF st this]
  have n: "length (sif_order a rs) = length rs" by (simp add: sif_order_def)
  have "sif_estimated f \<le> max_tokens" if "fits a (sf_lines st)" using that a f by (simp add: fits_def)
  moreover have "fits a ?start" if "14 \<le> max_tokens * max 1 chars_per_token"
    "80 \<le> max_tokens \<longrightarrow> 86 \<le> max_tokens * max 1 chars_per_token"
    using header_fits [of a query] a that by simp
  ultimately show ?thesis using sp f n by (auto simp: sif_ok_def join_lines_def)
qed

section \<open>Withheld memories\<close>

text \<open>Two results whose memories differ in payloads only, both withheld from prompts under the same labels.\<close>

definition hidden_variant :: "recall_result \<Rightarrow> recall_result \<Rightarrow> bool" where
  "hidden_variant r r' =
     (r' = r \<or> (\<exists>ms labels. r' = r\<lparr>rr_memory := (rr_memory r)\<lparr>modalities := ms\<rparr>\<rparr>
       \<and> modality_names (rr_memory r') = modality_names (rr_memory r)
       \<and> safety_labels_for (rr_memory r) = Inr labels \<and> safety_labels_for (rr_memory r') = Inr labels
       \<and> prompt_policy labels \<noteq> ''inline''))"

lemma hidden_same:
  assumes "hidden_variant r r'"
  shows "sif_step a r st = sif_step a r' st" "sif_rank r = sif_rank r'"
proof -
  have eqs: "prompt_text_for (rr_memory r') = prompt_text_for (rr_memory r)"
    "governance_for (rr_memory r') = governance_for (rr_memory r)"
    "modality_names (rr_memory r') = modality_names (rr_memory r)" "env_id (rr_memory r') = env_id (rr_memory r)"
    "memory_type (rr_memory r') = memory_type (rr_memory r)" "tags (rr_memory r') = tags (rr_memory r)"
    "provenance (rr_memory r') = provenance (rr_memory r)" "rr_score r' = rr_score r" "rr_confidence r' = rr_confidence r"
    "rr_why r' = rr_why r" "importance (rr_memory r') = importance (rr_memory r)"
    "confidence (rr_memory r') = confidence (rr_memory r)" "created_at (rr_memory r') = created_at (rr_memory r)"
    using assms by (auto simp: hidden_variant_def prompt_text_for_def governance_for_def lifecycle_for_def Let_def)
  have "meta_line n r' = meta_line n r" for n
    unfolding meta_line_def source_part_def inspect_part_def Let_def eqs ..
  moreover have "snippet_lines a ls meta r' = snippet_lines a ls meta r" for ls meta
    unfolding snippet_lines_def Let_def eqs ..
  moreover have "micro_line a n r' ls = micro_line a n r ls" for n ls
    unfolding micro_line_def micro_extras_def source_part_def inspect_part_def Let_def eqs ..
  ultimately show "sif_step a r st = sif_step a r' st" unfolding sif_step_def eqs by simp
  show "sif_rank r = sif_rank r'" unfolding sif_rank_def eqs ..
qed

lemma sort_key_same: "\<forall>z\<in>set zs. f z = g z \<Longrightarrow> sort_key f zs = sort_key g zs"
proof (induction zs)
  case (Cons z zs)
  have "\<forall>x\<in>insert z (set xs). f x = g x \<Longrightarrow> insort_key f z xs = insort_key g z xs" for xs
    by (induction xs) auto
  then show ?case using Cons by simp
qed simp

lemma sort_key_map: "map f (sort_key (\<lambda>z. k (f z)) zs) = sort_key k (map f zs)"
proof (induction zs)
  case (Cons z zs)
  have "map f (insort_key (\<lambda>z. k (f z)) z xs) = insort_key k (f z) (map f xs)" for xs
    by (induction xs) auto
  then show ?case using Cons by simp
qed simp

lemma sort_desc_map: "map f (sort_desc (\<lambda>z. k (f z)) zs) = sort_desc k (map f zs)"
  by (simp add: sort_desc_def sort_key_map rev_map [symmetric])

lemma list_all2_sort_desc:
  assumes "list_all2 R xs ys" "\<And>x y. R x y \<Longrightarrow> k x = k y"
  shows "list_all2 R (sort_desc k xs) (sort_desc k ys)"
proof -
  obtain zs where zs: "xs = map fst zs" "ys = map snd zs" "\<forall>z\<in>set zs. R (fst z) (snd z)"
    using assms(1) by (auto simp: list_all2_iff intro!: that [of "zip xs ys"])
  have key: "sort_key (\<lambda>z. k (fst z)) (rev zs) = sort_key (\<lambda>z. k (snd z)) (rev zs)"
    using zs(3) assms(2) by (intro sort_key_same) auto
  have "sort_desc k xs = map fst (sort_desc (\<lambda>z. k (fst z)) zs)" "sort_desc k ys = map snd (sort_desc (\<lambda>z. k (snd z)) zs)"
    by (simp_all add: sort_desc_map zs)
  then show ?thesis using zs(3) key by (simp add: list_all2_conv_all_nth sort_desc_def) (metis nth_mem set_rev set_sort length_rev length_sort)
qed

lemma sif_fold_variants: "list_all2 hidden_variant rs rs' \<Longrightarrow> sif_fold a rs st = sif_fold a rs' st"
proof (induction rs arbitrary: rs' st)
  case (Cons r rs)
  then obtain r' rest where "rs' = r' # rest" "hidden_variant r r'" "list_all2 hidden_variant rs rest"
    by (auto simp: list_all2_Cons1)
  then show ?case using hidden_same(1) [of r r' a st] Cons.IH [of rest] by (cases "sif_step a r' st") auto
qed simp

text \<open>
  C13: a text frame says nothing of what a withheld memory holds: replacing the payloads of any of the recalled
  memories that prompts may not see, under the same labels and kinds of payload, gives the same frame.
\<close>

theorem sif_noninterference:
  assumes "list_all2 hidden_variant rs rs'"
  shows "sif_assemble a query rs = sif_assemble a query rs'"
proof -
  have "list_all2 hidden_variant (sif_order a rs) (sif_order a rs')"
    using assms list_all2_sort_desc [OF assms, of sif_rank] hidden_same(2) by (auto simp: sif_order_def)
  then show ?thesis unfolding sif_assemble_def by (simp add: sif_fold_variants)
qed

section \<open>An example\<close>

definition demo_sif :: sif_assembler where
  "demo_sif = \<lparr>sa_max_tokens = 40, sa_chars_per_token = 4, sa_preserve_order = True\<rparr>"

lemma sif_step_total:
  assumes "governance_for (rr_memory r) = Inr gov"
  shows "\<exists>st'. sif_step a r st = Inr st'"
proof -
  obtain shown where shown: "prompt_text_for (rr_memory r) = Inr shown"
    using assms by (auto simp: governance_for_def prompt_text_for_def res_bind_eq_Inr)
  obtain meta where meta: "meta_line (length (sf_ids st) + 1) r = Inr meta" using assms by (simp add: meta_line_def Let_def)
  obtain added where added: "snippet_lines a (sf_lines st) meta r = Inr added"
    by (cases "snippet_lines a (sf_lines st) meta r") (auto simp: snippet_lines_def Let_def shown split: if_splits)
  obtain micro where "micro_line a (length (sf_ids st) + 1) r (sf_lines st) = Inr micro"
    by (cases "micro_line a (length (sf_ids st) + 1) r (sf_lines st)") (auto simp: micro_line_def Let_def assms split: if_splits)
  then show ?thesis using meta added by (cases added) (auto simp: sif_step_def)
qed

lemma sif_within_budget_witness:
  "\<exists>f. sif_new 40 4 True = Inr demo_sif \<and> sif_assemble demo_sif ''which CPF?'' [demo_result] = Inr f
    \<and> sif_estimated f \<le> 40 \<and> length (sif_memory_ids f) + sif_dropped f = 1"
proof -
  have new: "sif_new 40 4 True = Inr demo_sif" by (simp add: sif_new_def demo_sif_def)
  obtain labels where "safety_labels_for (rr_memory demo_result) = Inr labels"
    using demo_secret_prompt by (auto simp: prompt_text_for_def res_bind_eq_Inr demo_result_def recall_result_init_def)
  then obtain gov where "governance_for (rr_memory demo_result) = Inr gov" by (simp add: governance_for_def Let_def)
  note step = sif_step_total [OF this]
  obtain st where "sif_step demo_sif demo_result \<lparr>sf_lines = [header_line demo_sif ''which CPF?''], sf_ids = [], sf_dropped = 0\<rparr> = Inr st"
    using step by blast
  then obtain f where f: "sif_assemble demo_sif ''which CPF?'' [demo_result] = Inr f"
    by (simp add: sif_assemble_def sif_order_def demo_sif_def Let_def)
  show ?thesis using sif_within_budget [OF new f] new f by simp
qed

lemma demo_variant:
  "hidden_variant (demo_result\<lparr>rr_memory := demo_secret ''my password is x''\<rparr>)
    (demo_result\<lparr>rr_memory := demo_secret ''other password is y''\<rparr>)"
proof -
  let ?x = "demo_secret ''my password is x''" and ?y = "demo_secret ''other password is y''"
  have labels: "safety_labels_for ?x = Inr [''credential'']" "safety_labels_for ?y = Inr [''credential'']" by code_simp+
  have policy: "prompt_policy [''credential''] \<noteq> ''inline''" by code_simp
  have "modality_names (demo_secret s) = [''text'']" for s
    by (simp add: modality_names_def demo_secret_def text_modality_def)
  then have names: "modality_names ?y = modality_names ?x" by simp
  have swap: "?x\<lparr>modalities := [text_modality ''other password is y'']\<rparr> = ?y" by (simp add: demo_secret_def)
  show ?thesis
    unfolding hidden_variant_def
    by (intro disjI2 exI [of _ "[text_modality ''other password is y'']"] exI [of _ "[''credential'']"])
      (simp add: swap labels policy names)
qed

lemma sif_noninterference_witness:
  "sif_assemble demo_sif ''q'' [demo_result\<lparr>rr_memory := demo_secret ''my password is x''\<rparr>]
    = sif_assemble demo_sif ''q'' [demo_result\<lparr>rr_memory := demo_secret ''other password is y''\<rparr>]"
  by (rule sif_noninterference) (simp add: demo_variant)

end
