(* ===== verification/Scoring.thy ===== *)
theory Scoring
  imports Context_Assembly
begin

text \<open>
  \<open>scoring.py\<close> and \<open>answerability.py\<close>: the utility of a recalled memory for a query and a phase of work, and
  the judgement whether the scored memories support an answer. A memory whose governance withholds it is a
  risk, and a risk of one half or more makes the answer unsupported.
\<close>

section \<open>\<open>scoring.py\<close>\<close>

record feature_score =
  fs_memory_id :: string
  fs_utility :: real
  fs_features :: "(string \<times> real) list"
  fs_penalties :: "(string \<times> real) list"
  fs_reasons :: "string list"

definition rounded_items :: "(string \<times> real) list \<Rightarrow> py_dict" where
  "rounded_items d = map (\<lambda>(k, x). (k, VFloat (py_round 4 x))) (sort_key fst d)"

definition feature_score_to_dict :: "feature_score \<Rightarrow> py_dict" where
  "feature_score_to_dict s =
     [(''memory_id'', VStr (fs_memory_id s)),
      (''utility'', VFloat (py_round 4 (fs_utility s))),
      (''features'', VDict (rounded_items (fs_features s))),
      (''penalties'', VDict (rounded_items (fs_penalties s))),
      (''reasons'', str_list (fs_reasons s))]"

text \<open>A set of terms, as the list of its members without repetition.\<close>

definition scoring_terms :: "string list \<Rightarrow> string list" where
  "scoring_terms terms = remdups (map py_lower (filter (\<lambda>t. py_strip t \<noteq> []) terms))"

definition memory_terms :: "recall_result \<Rightarrow> string list" where
  "memory_terms r =
     (let m = rr_memory r in
      py_words (py_lower (py_join '' '' [text_content m, py_join '' '' (tags m), py_join '' '' (entities m), memory_type m])))"

definition coverage :: "string list \<Rightarrow> string list \<Rightarrow> real" where
  "coverage query_terms terms =
     (if query_terms = [] then 0
      else of_nat (length (filter (\<lambda>t. t \<in> set terms) query_terms)) / of_nat (length query_terms))"

definition graph_signal :: "recall_result \<Rightarrow> real" where
  "graph_signal r =
     (if ''mobius_graph'' \<in> set (rr_why r) then 1
      else if ''graph'' \<in> set (rr_why r) then 85 / 100
      else (case map_of (rr_signals r) ''graph'' of None \<Rightarrow> 0 | Some x \<Rightarrow> if x = 0 then 0 else min 1 x))"

definition activation :: "int \<Rightarrow> real option \<Rightarrow> real option \<Rightarrow> real" where
  "activation n last_used at_time =
     (let usage = min (65 / 100) (ln (1 + of_int (max 0 n)) / 5) in
      case (last_used, at_time) of
        (Some used, Some now) \<Rightarrow> clamp01 (usage + 35 / 100 * exp (- max 0 (now - used) / 86400))
      | _ \<Rightarrow> usage)"

definition phase_fit :: "string \<Rightarrow> string list \<Rightarrow> string \<Rightarrow> real" where
  "phase_fit mtype tgs phase0 =
     (let phase = (if phase0 = [] then ''work_start'' else phase0) in
      if phase = ''tool_preflight''
      then (if mtype = ''procedural'' \<or> ''lesson'' \<in> set tgs \<or> ''tool-use'' \<in> set tgs then 1 else 35 / 100)
      else if phase = ''planning''
      then (if mtype \<in> {''decision'', ''procedural'', ''artifact_section''} then 1 else 55 / 100)
      else if phase = ''final_verification''
      then (if mtype \<in> {''decision'', ''semantic'', ''artifact'', ''artifact_section''} then 1 else 45 / 100)
      else if phase = ''conflict_resolution'' then 1
      else 7 / 10)"

definition staleness_penalty :: "string \<Rightarrow> string list \<Rightarrow> real" where
  "staleness_penalty state terms =
     (if list_ex (\<lambda>t. t \<in> set HISTORICAL_QUERY_TERMS) terms then 0
      else if state = ''superseded'' then (if list_ex (\<lambda>t. t \<in> set CURRENT_QUERY_TERMS) terms then 6 / 10 else 45 / 100)
      else if state = ''contradicted'' then 5 / 10
      else if state = ''archival'' then 35 / 100
      else if state = ''historical'' then 25 / 100
      else 0)"

text \<open>Iterating over a value, as \<open>for x in v\<close> does.\<close>

definition py_iter :: "py_value \<Rightarrow> py_value list result" where
  "py_iter v =
     (case v of
        VList xs \<Rightarrow> Inr xs
      | VDict d \<Rightarrow> Inr (map (VStr \<circ> fst) d)
      | VStr s \<Rightarrow> Inr (map (\<lambda>c. VStr [c]) s)
      | VBytes b \<Rightarrow> Inr (map (\<lambda>c. VInt (int (code c))) b)
      | _ \<Rightarrow> Inl (TypeError ''object is not iterable''))"

definition iter_or_empty :: "py_value option \<Rightarrow> py_value list result" where
  "iter_or_empty v = (let x = d_or v in if truthy x then py_iter x else Inr [])"

definition risk_of :: "bool \<Rightarrow> bool \<Rightarrow> bool \<Rightarrow> real" where
  "risk_of withheld severe mild =
     (let r0 = (if withheld then max 0 (72 / 100) else 0);
          r1 = (if severe then max r0 (75 / 100) else r0)
      in if mild then max r1 (45 / 100) else r1)"

definition governance_risk :: "py_dict \<Rightarrow> real result" where
  "governance_risk gov =
     res_bind (iter_or_empty (d_get gov ''safety_labels'')) (\<lambda>items.
       (let labels = map (\<lambda>v. py_lower (py_str v)) items; any = list_ex (\<lambda>w. w \<in> set labels) in
        Inr (risk_of (d_get gov ''prompt_policy'' = Some (VStr ''inspect_only''))
          (any [''credential'', ''pii'', ''prompt_attack'', ''restricted'']) (any [''confidential'', ''sensitive'']))))"

record candidate_features =
  cf_retrieval :: real
  cf_lexical :: real
  cf_graph :: real
  cf_time :: real
  cf_importance :: real
  cf_confidence :: real
  cf_activation :: real
  cf_phase :: real

definition utility_of :: "candidate_features \<Rightarrow> real \<Rightarrow> real \<Rightarrow> real" where
  "utility_of f risk stale =
     clamp01 (18 / 100 * cf_retrieval f + 18 / 100 * cf_lexical f + 14 / 100 * cf_graph f + 12 / 100 * cf_time f
       + 12 / 100 * cf_importance f + 10 / 100 * cf_confidence f + 8 / 100 * cf_activation f + 8 / 100 * cf_phase f
       - 35 / 100 * risk - 25 / 100 * stale)"

definition features_of :: "recall_result \<Rightarrow> string list \<Rightarrow> string \<Rightarrow> real option \<Rightarrow> candidate_features" where
  "features_of r terms phase at_time =
     (let m = rr_memory r; v = lifecycle_for m in
      \<lparr>cf_retrieval = clamp01 (rr_score r), cf_lexical = coverage terms (memory_terms r), cf_graph = graph_signal r,
       cf_time = effective_importance v None terms at_time, cf_importance = importance m,
       cf_confidence = clamp01 (rr_confidence r),
       cf_activation = activation (usage_count v) (last_used_at v) at_time,
       cf_phase = phase_fit (memory_type m) (tags m) phase\<rparr>)"

definition features_dict :: "candidate_features \<Rightarrow> (string \<times> real) list" where
  "features_dict f =
     [(''retrieval'', cf_retrieval f), (''lexical'', cf_lexical f), (''graph'', cf_graph f), (''time'', cf_time f),
      (''importance'', cf_importance f), (''confidence'', cf_confidence f), (''activation'', cf_activation f),
      (''phase'', cf_phase f)]"

definition score_memory_candidate ::
  "recall_result \<Rightarrow> string list \<Rightarrow> string \<Rightarrow> real option \<Rightarrow> py_dict \<Rightarrow> feature_score result" where
  "score_memory_candidate r query_terms phase at_time gov =
     (let terms = scoring_terms query_terms; f = features_of r terms phase at_time;
          state = lc_state (lifecycle_for (rr_memory r)); stale = staleness_penalty state terms in
      res_bind (governance_risk gov) (\<lambda>risk.
        Inr \<lparr>fs_memory_id = env_id (rr_memory r), fs_utility = utility_of f risk stale,
          fs_features = features_dict f,
          fs_penalties = [(''risk'', risk), (''stale'', stale), (''scope'', 0)],
          fs_reasons = [state] @ (if 0 < cf_graph f then [''graph_supported''] else [])
            @ (if 0 < risk then [''risk''] else [])\<rparr>))"

section \<open>\<open>answerability.py\<close>\<close>

record assessment =
  as_score :: real
  as_status :: string
  as_reasons :: "string list"

definition assessment_to_dict :: "assessment \<Rightarrow> py_dict" where
  "assessment_to_dict a =
     [(''score'', VFloat (py_round 4 (as_score a))), (''status'', VStr (as_status a)), (''reasons'', str_list (as_reasons a))]"

definition threshold_for_phase :: "string \<Rightarrow> real" where
  "threshold_for_phase phase =
     (if phase = ''final_verification'' then 60 / 100
      else if phase = ''tool_preflight'' then 40 / 100
      else if phase = ''planning'' then 35 / 100
      else 25 / 100)"

text \<open>\<open>max\<close> over a list that is not empty.\<close>

definition greatest :: "real list \<Rightarrow> real" where
  "greatest xs = foldl max (hd xs) (tl xs)"

definition signal :: "string \<Rightarrow> (string \<times> real) list \<Rightarrow> real" where
  "signal k d = (case map_of d k of None \<Rightarrow> 0 | Some x \<Rightarrow> x)"

definition answer_feature :: "feature_score list \<Rightarrow> string \<Rightarrow> real" where
  "answer_feature scores k = greatest (map (\<lambda>s. signal k (fs_features s)) scores)"

definition answer_risk :: "feature_score list \<Rightarrow> real" where
  "answer_risk scores = greatest (map (\<lambda>s. signal ''risk'' (fs_penalties s)) scores)"

definition answer_stale :: "feature_score list \<Rightarrow> real" where
  "answer_stale scores = min 1 (sum_list (map (\<lambda>s. signal ''stale'' (fs_penalties s)) scores) / of_nat (length scores))"

definition answer_score :: "feature_score list \<Rightarrow> real" where
  "answer_score scores =
     clamp01 (34 / 100 * greatest (map fs_utility scores) + 22 / 100 * answer_feature scores ''lexical''
       + 14 / 100 * answer_feature scores ''graph'' + 12 / 100 * answer_feature scores ''confidence''
       + 10 / 100 * answer_feature scores ''time'' - 35 / 100 * answer_risk scores - 20 / 100 * answer_stale scores)"

definition answer_reasons :: "feature_score list \<Rightarrow> string list" where
  "answer_reasons scores =
     (if 5 / 10 \<le> answer_risk scores then [''risk_too_high''] else [])
     @ (if 5 / 10 \<le> answer_stale scores then [''stale_or_superseded''] else [])
     @ (if answer_feature scores ''lexical'' \<le> 0 \<and> answer_feature scores ''graph'' \<le> 0 then [''low_query_coverage''] else [])"

definition assess_answerability :: "string list \<Rightarrow> feature_score list \<Rightarrow> string \<Rightarrow> assessment" where
  "assess_answerability query_terms scores phase =
     (if scoring_terms query_terms = [] \<or> scores = []
      then \<lparr>as_score = 0, as_status = ''unsupported'', as_reasons = [''no_evidence'']\<rparr>
      else
        (let score = answer_score scores; reasons = answer_reasons scores in
         if threshold_for_phase phase \<le> score \<and> ''risk_too_high'' \<notin> set reasons \<and> ''low_query_coverage'' \<notin> set reasons
         then \<lparr>as_score = score, as_status = ''supported'', as_reasons = reasons @ [''sufficient_support'']\<rparr>
         else \<lparr>as_score = score, as_status = ''unsupported'', as_reasons = reasons @ [''insufficient_support'']\<rparr>))"

section \<open>The scores of a recall\<close>

text \<open>The facade scores each result under the governance of its memory.\<close>

definition score_results :: "string list \<Rightarrow> string \<Rightarrow> real option \<Rightarrow> recall_result list \<Rightarrow> feature_score list result" where
  "score_results query_terms phase at_time rs =
     res_each (\<lambda>r. res_bind (governance_for (rr_memory r)) (score_memory_candidate r query_terms phase at_time)) rs"

lemma res_each_mem: "res_each f xs = Inr ys \<Longrightarrow> x \<in> set xs \<Longrightarrow> \<exists>y\<in>set ys. f x = Inr y"
  by (induction xs arbitrary: ys) (auto simp: res_bind_eq_Inr)

lemma greatest_in: "xs \<noteq> [] \<Longrightarrow> greatest xs \<in> set xs"
proof -
  have "foldl max a ys \<in> insert a (set ys)" for a :: real and ys
    by (induction ys arbitrary: a) (auto simp: max_def split: if_splits)
  then show "xs \<noteq> [] \<Longrightarrow> greatest xs \<in> set xs" by (cases xs) (auto simp: greatest_def)
qed

lemma greatest_ge: "x \<in> set xs \<Longrightarrow> x \<le> greatest xs"
proof -
  have "a \<le> foldl max a ys \<and> (\<forall>y\<in>set ys. y \<le> foldl max a ys)" for a :: real and ys
  proof (induction ys arbitrary: a)
    case (Cons y ys)
    have "max a y \<le> foldl max (max a y) ys" using Cons.IH by blast
    then show ?case using Cons.IH [of "max a y"] by auto
  qed simp
  then show "x \<in> set xs \<Longrightarrow> x \<le> greatest xs" by (cases xs) (auto simp: greatest_def)
qed

lemma greatest_less: "xs \<noteq> [] \<Longrightarrow> greatest xs < c \<longleftrightarrow> (\<forall>x\<in>set xs. x < c)"
  using greatest_in greatest_ge by (meson le_less_trans)

lemma greatest_pos: "xs \<noteq> [] \<Longrightarrow> c < greatest xs \<longleftrightarrow> (\<exists>x\<in>set xs. c < x)"
  using greatest_in greatest_ge by (meson less_le_trans)

lemma assess_supported:
  "as_status (assess_answerability terms scores phase) = ''supported'' \<longleftrightarrow>
     scoring_terms terms \<noteq> [] \<and> scores \<noteq> [] \<and> (\<forall>s\<in>set scores. signal ''risk'' (fs_penalties s) < 5 / 10)
     \<and> (\<exists>s\<in>set scores. 0 < signal ''lexical'' (fs_features s) \<or> 0 < signal ''graph'' (fs_features s))
     \<and> threshold_for_phase phase \<le> as_score (assess_answerability terms scores phase)"
proof (cases "scoring_terms terms = [] \<or> scores = []")
  case True
  then show ?thesis by (auto simp: assess_answerability_def)
next
  case False
  have r: "''risk_too_high'' \<notin> set (answer_reasons scores) \<longleftrightarrow> (\<forall>s\<in>set scores. signal ''risk'' (fs_penalties s) < 5 / 10)"
    using False greatest_less [of "map (\<lambda>s. signal ''risk'' (fs_penalties s)) scores" "5 / 10"]
    by (auto simp: answer_reasons_def answer_risk_def)
  have pos: "0 < answer_feature scores k \<longleftrightarrow> (\<exists>s\<in>set scores. 0 < signal k (fs_features s))" for k
    using False greatest_pos [of "map (\<lambda>s. signal k (fs_features s)) scores" 0] by (auto simp: answer_feature_def)
  have "''low_query_coverage'' \<notin> set (answer_reasons scores)
      \<longleftrightarrow> 0 < answer_feature scores ''lexical'' \<or> 0 < answer_feature scores ''graph''"
    by (auto simp: answer_reasons_def)
  then have l: "''low_query_coverage'' \<notin> set (answer_reasons scores)
      \<longleftrightarrow> (\<exists>s\<in>set scores. 0 < signal ''lexical'' (fs_features s) \<or> 0 < signal ''graph'' (fs_features s))"
    unfolding pos by auto
  show ?thesis using False unfolding l [symmetric] r [symmetric] by (auto simp: assess_answerability_def Let_def)
qed

lemma score_unit: "0 \<le> as_score (assess_answerability terms scores phase) \<and> as_score (assess_answerability terms scores phase) \<le> 1"
  by (simp add: assess_answerability_def answer_score_def Let_def)

section \<open>Bounds\<close>

definition unit_features :: "candidate_features \<Rightarrow> bool" where
  "unit_features f = (\<forall>(k, x)\<in>set (features_dict f). 0 \<le> x \<and> x \<le> 1)"

lemma coverage_unit: "0 \<le> coverage q ts \<and> coverage q ts \<le> 1"
  by (simp add: coverage_def divide_le_eq_1 length_filter_le)

lemma activation_unit: "0 \<le> activation n u t \<and> activation n u t \<le> 1"
proof -
  have "0 \<le> ln (1 + of_int (max 0 n) :: real)" by simp
  then have "0 \<le> min (65 / 100) (ln (1 + of_int (max 0 n)) / 5 :: real)"
    and "min (65 / 100) (ln (1 + of_int (max 0 n)) / 5) \<le> (1 :: real)" by (simp_all add: min_def)
  then show ?thesis unfolding activation_def Let_def by (auto split: option.split)
qed

lemma phase_fit_unit: "0 \<le> phase_fit m ts p \<and> phase_fit m ts p \<le> 1"
  by (simp add: phase_fit_def Let_def)

lemma effective_importance_unit: "0 \<le> effective_importance v None ts t \<and> effective_importance v None ts t \<le> 1"
  by (simp add: effective_importance_def Let_def)

definition scored_result_ok :: "recall_result \<Rightarrow> bool" where
  "scored_result_ok r = (0 \<le> importance (rr_memory r) \<and> importance (rr_memory r) \<le> 1
     \<and> (\<forall>x. map_of (rr_signals r) ''graph'' = Some x \<longrightarrow> 0 \<le> x))"

lemma graph_signal_unit: "scored_result_ok r \<Longrightarrow> 0 \<le> graph_signal r \<and> graph_signal r \<le> 1"
  by (auto simp: graph_signal_def scored_result_ok_def split: option.split)

lemma features_unit: "scored_result_ok r \<Longrightarrow> unit_features (features_of r ts p t)"
  using coverage_unit activation_unit phase_fit_unit effective_importance_unit graph_signal_unit
  by (simp add: unit_features_def features_dict_def features_of_def Let_def scored_result_ok_def)

lemma utility_bound:
  assumes "unit_features f" "0 \<le> risk" "0 \<le> stale"
  shows "utility_of f risk stale \<le> max 0 (1 - 35 / 100 * risk - 25 / 100 * stale)"
proof -
  have "18 / 100 * cf_retrieval f + 18 / 100 * cf_lexical f + 14 / 100 * cf_graph f + 12 / 100 * cf_time f
      + 12 / 100 * cf_importance f + 10 / 100 * cf_confidence f + 8 / 100 * cf_activation f + 8 / 100 * cf_phase f \<le> 1"
    using assms(1) by (simp add: unit_features_def features_dict_def)
  then show ?thesis unfolding utility_of_def clamp01_def by linarith
qed

lemma staleness_bound: "0 \<le> staleness_penalty s ts \<and> staleness_penalty s ts \<le> 6 / 10"
  by (simp add: staleness_penalty_def)

lemma risk_of_bound: "0 \<le> risk_of w s m \<and> risk_of w s m \<le> 75 / 100" "72 / 100 \<le> risk_of True s m"
  by (cases w; cases s; cases m; simp add: risk_of_def) (cases s; cases m; simp add: risk_of_def)

lemma risk_bound: "governance_risk gov = Inr x \<Longrightarrow> 0 \<le> x \<and> x \<le> 75 / 100"
  using risk_of_bound(1) unfolding governance_risk_def res_bind_eq_Inr Let_def by blast

lemma risk_withheld:
  assumes "governance_risk gov = Inr x" "d_get gov ''prompt_policy'' = Some (VStr ''inspect_only'')"
  shows "72 / 100 \<le> x"
  using assms risk_of_bound(2) unfolding governance_risk_def res_bind_eq_Inr Let_def by (auto simp only: simp_thms)

text \<open>
  Every feature of a scored memory and its utility lie in [0, 1], its risk is at most 0.75 and its staleness
  at most 0.6, and both penalties bite: the utility is at most one less 0.35 of the risk and 0.25 of the
  staleness.
\<close>

theorem score_memory_bounds:
  assumes "score_memory_candidate r terms phase at_time gov = Inr s" "scored_result_ok r"
  shows "\<exists>risk stale. fs_penalties s = [(''risk'', risk), (''stale'', stale), (''scope'', 0)]
    \<and> 0 \<le> risk \<and> risk \<le> 75 / 100 \<and> 0 \<le> stale \<and> stale \<le> 6 / 10
    \<and> 0 \<le> fs_utility s \<and> fs_utility s \<le> 1 - 35 / 100 * risk - 25 / 100 * stale
    \<and> (\<forall>(k, x)\<in>set (fs_features s). 0 \<le> x \<and> x \<le> 1)"
proof -
  let ?f = "features_of r (scoring_terms terms) phase at_time"
  let ?stale = "staleness_penalty (lc_state (lifecycle_for (rr_memory r))) (scoring_terms terms)"
  obtain risk where risk: "governance_risk gov = Inr risk" and s: "fs_utility s = utility_of ?f risk ?stale"
    "fs_features s = features_dict ?f" "fs_penalties s = [(''risk'', risk), (''stale'', ?stale), (''scope'', 0)]"
    using assms(1) by (auto simp: score_memory_candidate_def res_bind_eq_Inr Let_def)
  note u = features_unit [OF assms(2), of "scoring_terms terms" phase at_time]
  have "0 \<le> risk" "risk \<le> 75 / 100" "0 \<le> ?stale" "?stale \<le> 6 / 10"
    using risk_bound [OF risk] staleness_bound by simp_all
  moreover have "0 \<le> utility_of ?f risk ?stale" by (simp add: utility_of_def)
  moreover have "utility_of ?f risk ?stale \<le> 1 - 35 / 100 * risk - 25 / 100 * ?stale"
    using utility_bound [OF u] calculation by fastforce
  ultimately show ?thesis using s u unfolding unit_features_def by (intro exI [of _ risk] exI [of _ ?stale]) simp
qed

lemma score_candidate_risk:
  "score_memory_candidate r terms phase at_time gov = Inr s \<Longrightarrow>
    \<exists>x. governance_risk gov = Inr x \<and> signal ''risk'' (fs_penalties s) = x"
  unfolding score_memory_candidate_def Let_def res_bind_eq_Inr by (auto simp: signal_def)

lemma scored_risk:
  assumes "governance_for m = Inr gov" "governance_risk gov = Inr x" "prompt_text_for m = Inr t" "t \<noteq> text_content m"
  shows "72 / 100 \<le> x"
proof -
  obtain labels where l: "safety_labels_for m = Inr labels" "prompt_policy labels \<noteq> ''inline''"
    using assms(3,4) by (auto simp: prompt_text_for_def res_bind_eq_Inr split: if_splits)
  then have "prompt_policy labels = ''inspect_only''" by (auto simp: prompt_policy_def split: if_splits)
  then have "d_get gov ''prompt_policy'' = Some (VStr ''inspect_only'')"
    using assms(1) l(1) by (auto simp: governance_for_def res_bind_eq_Inr Let_def)
  then show ?thesis by (rule risk_withheld [OF assms(2)])
qed

lemma withheld_facts:
  assumes "score_results terms phase at_time rs = Inr scores"
  shows "(\<forall>r\<in>set rs. prompt_text_for (rr_memory r) \<noteq> Inr (text_content (rr_memory r)) \<longrightarrow>
           as_status (assess_answerability terms scores phase) = ''unsupported''
           \<and> (scoring_terms terms \<noteq> [] \<longrightarrow> ''risk_too_high'' \<in> set (as_reasons (assess_answerability terms scores phase))))
    \<and> (as_status (assess_answerability terms scores phase) = ''supported'' \<longleftrightarrow>
         scoring_terms terms \<noteq> [] \<and> scores \<noteq> [] \<and> (\<forall>s\<in>set scores. signal ''risk'' (fs_penalties s) < 5 / 10)
         \<and> (\<exists>s\<in>set scores. 0 < signal ''lexical'' (fs_features s) \<or> 0 < signal ''graph'' (fs_features s))
         \<and> threshold_for_phase phase \<le> as_score (assess_answerability terms scores phase))"
proof (intro conjI ballI impI)
  fix r assume r: "r \<in> set rs" "prompt_text_for (rr_memory r) \<noteq> Inr (text_content (rr_memory r))"
  obtain s where s: "s \<in> set scores" "res_bind (governance_for (rr_memory r)) (score_memory_candidate r terms phase at_time) = Inr s"
    using res_each_mem [OF assms [unfolded score_results_def] r(1)] by blast
  then obtain gov where gov: "governance_for (rr_memory r) = Inr gov" "score_memory_candidate r terms phase at_time gov = Inr s"
    unfolding res_bind_eq_Inr by blast
  obtain x where x: "governance_risk gov = Inr x" "signal ''risk'' (fs_penalties s) = x"
    using score_candidate_risk [OF gov(2)] by blast
  obtain t where "prompt_text_for (rr_memory r) = Inr t"
    using gov(1) by (auto simp: governance_for_def prompt_text_for_def res_bind_eq_Inr)
  with scored_risk [OF gov(1) x(1)] r(2) x(2) have high: "72 / 100 \<le> signal ''risk'' (fs_penalties s)" by auto
  then have "5 / 10 \<le> answer_risk scores"
    using s(1) greatest_ge [of "signal ''risk'' (fs_penalties s)" "map (\<lambda>s. signal ''risk'' (fs_penalties s)) scores"]
    by (simp add: answer_risk_def)
  then have "''risk_too_high'' \<in> set (answer_reasons scores)" by (simp add: answer_reasons_def)
  then show "as_status (assess_answerability terms scores phase) = ''unsupported''"
    and "scoring_terms terms \<noteq> [] \<Longrightarrow> ''risk_too_high'' \<in> set (as_reasons (assess_answerability terms scores phase))"
    using s(1) by (auto simp: assess_answerability_def Let_def)
qed (rule assess_supported)

section \<open>An example\<close>

lemma demo_governance:
  "\<exists>gov x. governance_for (rr_memory demo_result) = Inr gov \<and> governance_risk gov = Inr x"
proof -
  obtain labels where l: "safety_labels_for (rr_memory demo_result) = Inr labels"
    using demo_secret_prompt by (auto simp: prompt_text_for_def res_bind_eq_Inr demo_result_def recall_result_init_def)
  then obtain gov where "governance_for (rr_memory demo_result) = Inr gov" "d_get gov ''safety_labels'' = Some (str_list labels)"
    by (simp add: governance_for_def Let_def)
  then show ?thesis
    by (auto simp: governance_risk_def iter_or_empty_def d_or_def str_list_def py_iter_def Let_def)
qed

text \<open>
  C28: as soon as one of the scored results is a memory that a prompt may not see in full, the assessment is
  unsupported; the risk is among its reasons if the query has terms that count (without any the reason is only that there
  is no evidence). An assessment is supported exactly if there are terms and scores,
  no risk reaches one half, some score has lexical or graph coverage and the score reaches the phase's threshold.
\<close>

theorem withheld_unsupported:
  assumes "score_results terms phase at_time rs = Inr scores"
  shows "(\<forall>r\<in>set rs. prompt_text_for (rr_memory r) \<noteq> Inr (text_content (rr_memory r)) \<longrightarrow>
           as_status (assess_answerability terms scores phase) = ''unsupported''
           \<and> (scoring_terms terms \<noteq> [] \<longrightarrow> ''risk_too_high'' \<in> set (as_reasons (assess_answerability terms scores phase))))
    \<and> (as_status (assess_answerability terms scores phase) = ''supported'' \<longleftrightarrow>
         scoring_terms terms \<noteq> [] \<and> scores \<noteq> [] \<and> (\<forall>s\<in>set scores. signal ''risk'' (fs_penalties s) < 5 / 10)
         \<and> (\<exists>s\<in>set scores. 0 < signal ''lexical'' (fs_features s) \<or> 0 < signal ''graph'' (fs_features s))
         \<and> threshold_for_phase phase \<le> as_score (assess_answerability terms scores phase))"
  using assms by (rule withheld_facts)

lemma demo_scored: "\<exists>gov s. governance_for (rr_memory demo_result) = Inr gov
    \<and> score_memory_candidate demo_result [''cpf''] ''planning'' None gov = Inr s"
  using demo_governance by (auto simp: score_memory_candidate_def Let_def)

lemma demo_result_scorable: "scored_result_ok demo_result"
  by (simp add: scored_result_ok_def demo_result_def recall_result_init_def demo_secret_def blank_envelope_def)

lemma score_memory_bounds_witness:
  "\<exists>gov s. score_memory_candidate demo_result [''cpf''] ''planning'' None gov = Inr s \<and> 0 \<le> fs_utility s \<and> fs_utility s \<le> 1"
proof -
  obtain gov s where s: "score_memory_candidate demo_result [''cpf''] ''planning'' None gov = Inr s"
    using demo_scored by blast
  show ?thesis using score_memory_bounds [OF s demo_result_scorable] s by fastforce
qed

lemma withheld_unsupported_witness:
  "\<exists>scores. score_results [''cpf''] ''planning'' None [demo_result] = Inr scores
    \<and> as_status (assess_answerability [''cpf''] scores ''planning'') = ''unsupported''"
proof -
  obtain s where s: "score_results [''cpf''] ''planning'' None [demo_result] = Inr [s]"
    using demo_scored by (auto simp: score_results_def)
  have "prompt_text_for (rr_memory demo_result) \<noteq> Inr (text_content (rr_memory demo_result))"
  proof -
    have "text_content (demo_secret ''CPF 123.456.789-09'') = ''CPF 123.456.789-09''" by code_simp
    then show ?thesis using demo_secret_prompt by (simp add: demo_result_def recall_result_init_def)
  qed
  then show ?thesis using withheld_unsupported [OF s] s by auto
qed

end
