(* ===== verification/Sif_Sections.thy ===== *)
theory Sif_Sections
  imports Sif Scoring "HOL-Library.While_Combinator"
begin

text \<open>
  \<open>sif.py\<close>, the structured frame (\<open>SIFContextAssemblerV2\<close>): evidence, facts, graph and governance as sections of
  a dict, shrunk from the least important end until its JSON text fits the token budget. The shrinking loop is
  a \<^const>\<open>while_option\<close>, so that its termination is a theorem.
\<close>

section \<open>The sections\<close>

definition or_empty_list :: "py_value option \<Rightarrow> py_value" where
  "or_empty_list v = (let x = d_or v in if truthy x then x else VList [])"

definition as_dict :: "py_value \<Rightarrow> py_dict result" where
  "as_dict v = (case v of VDict d \<Rightarrow> Inr d | _ \<Rightarrow> Inl (AttributeError ''object has no attribute get''))"

definition pick_keys :: "string list \<Rightarrow> py_dict \<Rightarrow> py_dict" where
  "pick_keys ks d = map (\<lambda>k. (k, d_or (d_get d k))) ks"

definition current_facts :: "py_dict \<Rightarrow> py_value list result" where
  "current_facts knowledge =
     res_bind (iter_or_empty (d_get knowledge ''assertions'')) (\<lambda>items.
     res_bind (res_each as_dict items) (\<lambda>ds.
       Inr (map (VDict \<circ> pick_keys [''assertion_id'', ''fact_id'', ''subject'', ''predicate'', ''object'',
              ''source_memory_id'', ''confidence'', ''valid_from'', ''valid_to''])
         (filter (\<lambda>a. d_get a ''status'' = Some (VStr ''active'')) ds))))"

definition is_decision :: "py_dict \<Rightarrow> bool result" where
  "is_decision item =
     res_bind (iter_or_empty (d_get item ''tags'')) (\<lambda>ts.
       Inr (d_get item ''memory_type'' = Some (VStr ''decision'')
         \<or> ''decision'' \<in> set (map (\<lambda>t. py_lower (py_str t)) ts)))"

fun decisions :: "py_dict list \<Rightarrow> py_value list result" where
  "decisions [] = Inr []"
| "decisions (item # items) =
     res_bind (is_decision item) (\<lambda>d.
     res_bind (decisions items) (\<lambda>rest.
       Inr (if d then VDict (pick_keys [''memory_id'', ''hint'', ''confidence'', ''source''] item) # rest else rest)))"

definition evidence_items :: "py_dict list \<Rightarrow> py_value list" where
  "evidence_items evidence =
     map (\<lambda>item. VDict (pick_keys [''memory_id'', ''memory_type'', ''score'', ''confidence''] item
       @ [(''validated_by'', or_empty_list (d_get item ''validated_by'')),
          (''why_retrieved'', or_empty_list (d_get item ''why_retrieved'')),
          (''hint'', d_or (d_get item ''hint''))])) evidence"

definition governed_item :: "py_dict \<Rightarrow> py_value list result" where
  "governed_item item =
     res_bind (read_dict (d_get item ''governance'')) (\<lambda>gov.
       Inr (if d_get gov ''prompt_policy'' \<in> {None, Some (VStr ''inline'')} then []
            else [VDict [(''memory_id'', d_or (d_get item ''memory_id'')),
                    (''prompt_policy'', d_or (d_get gov ''prompt_policy'')),
                    (''risk'', d_or (d_get gov ''risk'')),
                    (''labels'', or_empty_list (d_get gov ''labels''))]]))"

definition governed_items :: "py_dict list \<Rightarrow> py_value list result" where
  "governed_items evidence = res_bind (res_each governed_item evidence) (\<lambda>xs. Inr (concat xs))"

record frame_input =
  fi_evidence :: "py_dict list"
  fi_answerability :: py_dict
  fi_graph_hints :: "py_value list"
  fi_subgraphs :: "py_value list"
  fi_knowledge :: py_dict
  fi_task_state :: py_dict

definition sections_new :: "int \<Rightarrow> int \<Rightarrow> (int \<times> int) result" where
  "sections_new max_tokens chars_per_token =
     (if max_tokens \<le> 0 then Inl (ValueError ''max_tokens must be positive'')
      else Inr (max_tokens, max 1 chars_per_token))"

definition frame_sections :: "int \<Rightarrow> string list \<Rightarrow> frame_input \<Rightarrow> py_dict result" where
  "frame_sections max_tokens memory_ids inp =
     res_bind (current_facts (fi_knowledge inp)) (\<lambda>facts.
     res_bind (decisions (fi_evidence inp)) (\<lambda>decided.
     res_bind (governed_items (fi_evidence inp)) (\<lambda>governed.
     res_bind (iter_or_empty (d_get (fi_answerability inp) ''reasons'')) (\<lambda>reasons.
       Inr [(''answerability'', VDict (fi_answerability inp)),
            (''current_facts'', VList facts),
            (''decisions'', VList decided),
            (''task_state'', VDict (fi_task_state inp)),
            (''evidence'', VList (evidence_items (fi_evidence inp))),
            (''knowledge'', VDict (fi_knowledge inp)),
            (''graph'', VDict [(''hints'', VList (fi_graph_hints inp)), (''subgraphs'', VList (fi_subgraphs inp))]),
            (''governance'', VList governed),
            (''inspectable_ids'', str_list (dedupe memory_ids)),
            (''abstention'', VDict
               [(''status'', VStr (if memory_ids = [] then ''abstained_no_relevant_memory'' else ''not_abstained'')),
                (''reasons'', VList reasons)]),
            (''token_roi'', VDict
               [(''budget'', VInt max_tokens),
                (''policy'', VStr ''structured evidence only; inspect full memories by id'')])]))))"

section \<open>Shrinking\<close>

type_synonym section_path = "string \<times> string option"

definition shrink_order :: "section_path list" where
  "shrink_order = [(''knowledge'', Some ''assertions''), (''knowledge'', Some ''entities''), (''graph'', Some ''hints''),
     (''graph'', Some ''subgraphs''), (''evidence'', None), (''current_facts'', None), (''decisions'', None)]"

text \<open>The list a path leads to, and empty if it leads to none.\<close>

definition list_at :: "section_path \<Rightarrow> py_dict \<Rightarrow> py_value list" where
  "list_at p d =
     (case p of (sec, nested) \<Rightarrow>
        (case d_get d sec of
           Some (VDict t) \<Rightarrow>
             (case nested of
                Some k \<Rightarrow> (case d_get t k of Some (VList vs) \<Rightarrow> vs | _ \<Rightarrow> [])
              | None \<Rightarrow> [])
         | Some (VList vs) \<Rightarrow> vs
         | _ \<Rightarrow> []))"

definition set_list_at :: "section_path \<Rightarrow> py_value list \<Rightarrow> py_dict \<Rightarrow> py_dict" where
  "set_list_at p vs d =
     (case p of (sec, nested) \<Rightarrow>
        (case (d_get d sec, nested) of
           (Some (VDict t), Some k) \<Rightarrow> d_set sec (VDict (d_set k (VList vs) t)) d
         | _ \<Rightarrow> d_set sec (VList vs) d))"

text \<open>One round of the loop: the last element of the first list in the order that has one is popped.\<close>

fun shrink_once :: "section_path list \<Rightarrow> py_dict \<Rightarrow> py_dict option" where
  "shrink_once [] d = None"
| "shrink_once (p # ps) d =
     (if list_at p d \<noteq> [] then Some (set_list_at p (butlast (list_at p d)) d) else shrink_once ps d)"

definition over_budget :: "int \<Rightarrow> int \<Rightarrow> py_dict \<Rightarrow> bool" where
  "over_budget max_tokens chars_per_token d = (max_tokens < sif_tokens chars_per_token (dumps (VDict d)))"

definition shrink_loop :: "int \<Rightarrow> int \<Rightarrow> py_dict \<Rightarrow> (py_dict \<times> nat) option" where
  "shrink_loop max_tokens chars_per_token d =
     while_option (\<lambda>(d, n). over_budget max_tokens chars_per_token d \<and> shrink_once shrink_order d \<noteq> None)
       (\<lambda>(d, n). (the (shrink_once shrink_order d), Suc n)) (d, 0)"

definition note_estimate :: "int \<Rightarrow> py_dict \<Rightarrow> py_dict result" where
  "note_estimate chars_per_token d =
     (case d_get d ''token_roi'' of
        Some (VDict t) \<Rightarrow>
          Inr (d_set ''token_roi'' (VDict (d_set ''estimated_tokens'' (VInt (sif_tokens chars_per_token (dumps (VDict d)))) t)) d)
      | _ \<Rightarrow> Inl (KeyError ''token_roi''))"

definition fit_sections :: "int \<Rightarrow> int \<Rightarrow> py_dict \<Rightarrow> (py_dict \<times> nat) result option" where
  "fit_sections max_tokens chars_per_token sections =
     (case res_bind (stable_json (VDict sections)) (\<lambda>t. res_bind (loads t) as_dict) of
        Inl e \<Rightarrow> Some (Inl e)
      | Inr fitted \<Rightarrow>
          map_option (\<lambda>(d, n). res_bind (note_estimate chars_per_token d) (\<lambda>d'. Inr (d', n)))
            (shrink_loop max_tokens chars_per_token fitted))"

record sections_frame =
  sv_format :: string
  sv_query :: string
  sv_budget :: int
  sv_estimated :: int
  sv_memory_ids :: "string list"
  sv_sections :: py_dict
  sv_dropped :: nat

definition sections_to_dict :: "sections_frame \<Rightarrow> py_dict" where
  "sections_to_dict f =
     [(''format'', VStr (sv_format f)), (''query'', VStr (sv_query f)), (''token_budget'', VInt (sv_budget f)),
      (''estimated_tokens'', VInt (sv_estimated f)), (''memory_ids'', str_list (sv_memory_ids f)),
      (''dropped_count'', VInt (int (sv_dropped f))), (''sections'', VDict (sv_sections f))]"

definition sections_assemble ::
  "int \<Rightarrow> int \<Rightarrow> string \<Rightarrow> recall_result list \<Rightarrow> frame_input \<Rightarrow> sections_frame result option" where
  "sections_assemble max_tokens chars_per_token query results inp =
     (let memory_ids = dedupe (map (\<lambda>r. env_id (rr_memory r)) results) in
      case frame_sections max_tokens memory_ids inp of
        Inl e \<Rightarrow> Some (Inl e)
      | Inr sections \<Rightarrow>
          map_option (\<lambda>x. res_bind x (\<lambda>(fitted, dropped).
            Inr \<lparr>sv_format = ''lmv2-sif/2'', sv_query = query, sv_budget = max_tokens,
              sv_estimated = sif_tokens chars_per_token (dumps (VDict fitted)), sv_memory_ids = memory_ids,
              sv_sections = fitted, sv_dropped = dropped\<rparr>))
            (fit_sections max_tokens chars_per_token sections))"

section \<open>The loop ends\<close>

lemma set_list_at_other:
  "fst q \<noteq> fst p \<Longrightarrow> list_at q (set_list_at p vs d) = list_at q d"
  by (auto simp: list_at_def set_list_at_def split: prod.split option.split py_value.split)

lemma set_list_at_same: "list_at p d \<noteq> [] \<Longrightarrow> list_at p (set_list_at p vs d) = vs"
  by (cases p) (auto simp: list_at_def set_list_at_def split: option.splits py_value.splits)

lemma set_list_at_nested:
  "d_get d sec = Some (VDict t) \<Longrightarrow> k \<noteq> k' \<Longrightarrow> list_at (sec, Some k') (set_list_at (sec, Some k) vs d) = list_at (sec, Some k') d"
  by (auto simp: list_at_def set_list_at_def)

lemma length_list_at:
  assumes "list_at p d \<noteq> []"
  shows "length (list_at q (set_list_at p (butlast (list_at p d)) d)) \<le> length (list_at q d)"
  using assms
  by (cases p; cases q) (auto simp: list_at_def set_list_at_def split: option.splits py_value.splits if_splits)

definition shrink_size :: "py_dict \<Rightarrow> nat" where
  "shrink_size d = sum_list (map (\<lambda>p. length (list_at p d)) shrink_order)"

lemma shrink_once_Some:
  "shrink_once ps d = Some d' \<Longrightarrow> \<exists>i<length ps. list_at (ps ! i) d \<noteq> [] \<and> (\<forall>j<i. list_at (ps ! j) d = [])
     \<and> d' = set_list_at (ps ! i) (butlast (list_at (ps ! i) d)) d"
proof (induction ps)
  case (Cons p ps)
  show ?case
  proof (cases "list_at p d = []")
    case False
    then show ?thesis using Cons.prems by (intro exI [of _ 0]) auto
  next
    case True
    then obtain i where "i < length ps" "list_at (ps ! i) d \<noteq> []" "\<forall>j<i. list_at (ps ! j) d = []"
      "d' = set_list_at (ps ! i) (butlast (list_at (ps ! i) d)) d"
      using Cons by auto
    then show ?thesis using True by (intro exI [of _ "Suc i"]) (auto simp: less_Suc_eq_0_disj)
  qed
qed simp

lemma shrink_once_None: "shrink_once ps d = None \<longleftrightarrow> (\<forall>p\<in>set ps. list_at p d = [])"
  by (induction ps) auto

lemma sum_list_less:
  fixes f g :: "'a \<Rightarrow> nat"
  assumes "\<And>x. f x \<le> g x" "y \<in> set xs" "f y < g y"
  shows "sum_list (map f xs) < sum_list (map g xs)"
  using assms(2)
proof (induction xs)
  case (Cons x xs)
  have "sum_list (map f xs) \<le> sum_list (map g xs)" by (rule sum_list_mono) (rule assms(1))
  then show ?case using Cons assms(1) [of x] assms(3) by (cases "x = y") force+
qed simp

lemma shrink_size_less:
  assumes "shrink_once shrink_order d = Some d'"
  shows "shrink_size d' < shrink_size d"
proof -
  obtain p where p: "p \<in> set shrink_order" "list_at p d \<noteq> []" "d' = set_list_at p (butlast (list_at p d)) d"
    using shrink_once_Some [OF assms] by (metis nth_mem)
  have "list_at p d' = butlast (list_at p d)" using p(2,3) set_list_at_same by simp
  then have "length (list_at p d') < length (list_at p d)" using p(2) by simp
  then show ?thesis
    unfolding shrink_size_def using length_list_at [OF p(2)] p(1,3) by (intro sum_list_less [of _ _ p]) auto
qed

lemma shrink_loop_ends: "\<exists>r. shrink_loop m c d = Some r"
proof -
  have "\<exists>t. while_option (\<lambda>(d, n). over_budget m c d \<and> shrink_once shrink_order d \<noteq> None)
       (\<lambda>(d, n). (the (shrink_once shrink_order d), Suc n)) (d, 0 :: nat) = Some t"
    by (rule measure_while_option_Some [of "\<lambda>_. True" _ _ "\<lambda>(d, n). shrink_size d"]) (auto intro: shrink_size_less)
  then show ?thesis by (simp add: shrink_loop_def)
qed

section \<open>What is dropped\<close>

text \<open>The sections that hold nested lists are dicts.\<close>

definition nested_ok :: "py_dict \<Rightarrow> bool" where
  "nested_ok d = (\<exists>k g t. d_get d ''knowledge'' = Some (VDict k) \<and> d_get d ''graph'' = Some (VDict g)
     \<and> d_get d ''token_roi'' = Some (VDict t))"

lemma shrink_order_nth: "i < 7 \<Longrightarrow> shrink_order ! i \<in> set shrink_order"
  by (rule nth_mem) (simp add: shrink_order_def)

lemma shared_sections:
  "\<forall>p\<in>set shrink_order. \<forall>q\<in>set shrink_order. p \<noteq> q \<longrightarrow> fst q = fst p \<longrightarrow>
     snd p \<noteq> None \<and> snd q \<noteq> None \<and> fst p \<in> {''knowledge'', ''graph''}"
  by code_simp

lemma paths_differ:
  assumes "p \<in> set shrink_order" "q \<in> set shrink_order" "p \<noteq> q" "nested_ok d"
  shows "list_at q (set_list_at p vs d) = list_at q d"
proof (cases "fst q = fst p")
  case False
  then show ?thesis by (rule set_list_at_other)
next
  case True
  then obtain sec k k' where "p = (sec, Some k)" "q = (sec, Some k')" "k \<noteq> k'" "sec \<in> {''knowledge'', ''graph''}"
    using shared_sections assms(1,2,3) by (metis not_None_eq prod.collapse)
  then show ?thesis using assms(4) by (auto simp: nested_ok_def set_list_at_nested)
qed

lemma nested_ok_set:
  assumes "p \<in> set shrink_order" "nested_ok d"
  shows "nested_ok (set_list_at p vs d)"
  using assms by (auto simp: nested_ok_def set_list_at_def shrink_order_def split: option.split py_value.split)

text \<open>What was popped so far: from the ends only, and from no list before those that precede it are empty.\<close>

definition shrunk :: "py_dict \<Rightarrow> py_dict \<Rightarrow> nat \<Rightarrow> bool" where
  "shrunk d0 d n =
     ((\<forall>i<7. prefix (list_at (shrink_order ! i) d) (list_at (shrink_order ! i) d0))
      \<and> (\<forall>i j. i < j \<and> j < 7 \<and> list_at (shrink_order ! j) d \<noteq> list_at (shrink_order ! j) d0 \<longrightarrow> list_at (shrink_order ! i) d = [])
      \<and> n + shrink_size d = shrink_size d0)"

lemma sum_list_pred:
  assumes "distinct xs" "y \<in> set xs" "\<And>x. x \<in> set xs \<Longrightarrow> x \<noteq> y \<Longrightarrow> f x = g x" "Suc (f y) = (g y :: nat)"
  shows "Suc (sum_list (map f xs)) = sum_list (map g xs)"
  using assms
proof (induction xs)
  case (Cons x xs)
  show ?case
  proof (cases "x = y")
    case True
    then have "map f xs = map g xs" using Cons.prems by auto
    then show ?thesis using True Cons.prems(4) by (simp del: map_eq_conv)
  next
    case False
    then show ?thesis using Cons by auto
  qed
qed simp

lemma shrunk_step:
  assumes "shrunk d0 d n" "nested_ok d" "shrink_once shrink_order d = Some d'"
  shows "shrunk d0 d' (Suc n)" "nested_ok d'"
proof -
  have len: "length shrink_order = 7" "distinct shrink_order" by (simp_all add: shrink_order_def)
  obtain i where i: "i < 7" "list_at (shrink_order ! i) d \<noteq> []" "\<forall>j<i. list_at (shrink_order ! j) d = []"
    and d': "d' = set_list_at (shrink_order ! i) (butlast (list_at (shrink_order ! i) d)) d"
    using shrink_once_Some [OF assms(3)] len(1) by auto
  let ?p = "shrink_order ! i"
  have p: "?p \<in> set shrink_order" by (rule shrink_order_nth [OF i(1)])
  have at: "list_at ?p d' = butlast (list_at ?p d)" unfolding d' by (rule set_list_at_same [OF i(2)])
  have other: "list_at (shrink_order ! j) d' = list_at (shrink_order ! j) d" if "j < 7" "j \<noteq> i" for j
    unfolding d' using that i(1) len by (intro paths_differ [OF p _ _ assms(2)]) (auto simp: nth_eq_iff_index_eq)
  show "nested_ok d'" unfolding d' by (rule nested_ok_set [OF p assms(2)])
  have "prefix (list_at (shrink_order ! j) d') (list_at (shrink_order ! j) d0)" if "j < 7" for j
    using assms(1) other [OF that] at that prefixeq_butlast [of "list_at ?p d"] unfolding shrunk_def
    by (cases "j = i") (auto intro: prefix_order.trans)
  moreover have "list_at (shrink_order ! j) d' = []"
    if "j < k" "k < 7" "list_at (shrink_order ! k) d' \<noteq> list_at (shrink_order ! k) d0" for j k
  proof (cases "k = i")
    case True
    then show ?thesis using i(3) other that by simp
  next
    case False
    then have "list_at (shrink_order ! j) d = []" using assms(1) that other [of k] unfolding shrunk_def by auto
    then show ?thesis using i(2) other [of j] that by (cases "j = i") auto
  qed
  moreover have "Suc (shrink_size d') = shrink_size d"
    unfolding shrink_size_def
  proof (rule sum_list_pred [OF len(2) p])
    fix q assume "q \<in> set shrink_order" "q \<noteq> ?p"
    then show "length (list_at q d') = length (list_at q d)" unfolding d' using paths_differ [OF p _ _ assms(2)] by simp
  next
    show "Suc (length (list_at ?p d')) = length (list_at ?p d)" using at i(2) by simp
  qed
  ultimately show "shrunk d0 d' (Suc n)" using assms(1) unfolding shrunk_def by auto
qed

lemma shrink_loop_spec:
  assumes "nested_ok d0" "shrink_loop m c d0 = Some (d, n)"
  shows "shrunk d0 d n" "nested_ok d" "over_budget m c d \<Longrightarrow> \<forall>p\<in>set shrink_order. list_at p d = []"
proof -
  let ?b = "\<lambda>(d, n). over_budget m c d \<and> shrink_once shrink_order d \<noteq> None"
  let ?P = "\<lambda>(d, n). shrunk d0 d n \<and> nested_ok d"
  have w: "while_option ?b (\<lambda>(d, n). (the (shrink_once shrink_order d), Suc n)) (d0, 0) = Some (d, n)"
    using assms(2) by (simp add: shrink_loop_def)
  have "?P (d, n)"
  proof (rule while_option_rule [where P = ?P, OF _ w])
    show "?P (d0, 0)" using assms(1) by (simp add: shrunk_def)
  next
    fix s assume s: "?P s" "?b s"
    obtain e k where e: "s = (e, k)" by fastforce
    then obtain e' where "shrink_once shrink_order e = Some e'" using s(2) by auto
    then show "?P (case s of (d, n) \<Rightarrow> (the (shrink_once shrink_order d), Suc n))"
      using shrunk_step [of d0 e k e'] s(1) e by simp
  qed
  then show "shrunk d0 d n" "nested_ok d" by simp_all
  show "over_budget m c d \<Longrightarrow> \<forall>p\<in>set shrink_order. list_at p d = []"
    using while_option_stop [OF w] by (auto simp: shrink_once_None)
qed

lemma frame_sections_keys:
  assumes "frame_sections m ids inp = Inr secs"
  shows "distinct (map fst secs)" "nested_ok (canon_dict secs)"
proof -
  have d: "distinct (map fst secs)"
    using assms by (auto simp: frame_sections_def res_bind_eq_Inr)
  have "nested_ok secs" using assms by (auto simp: frame_sections_def res_bind_eq_Inr nested_ok_def)
  then show "nested_ok (canon_dict secs)"
    unfolding nested_ok_def by (auto simp: map_of_canon_dict [OF d] canon_VDict simp del: canon.simps)
  show "distinct (map fst secs)" by (rule d)
qed

lemma note_estimate_spec:
  assumes "nested_ok d"
  shows "\<exists>d'. note_estimate c d = Inr d' \<and> (\<forall>p\<in>set shrink_order. list_at p d' = list_at p d)"
proof -
  obtain t where t: "d_get d ''token_roi'' = Some (VDict t)" using assms by (auto simp: nested_ok_def)
  have "list_at p (d_set ''token_roi'' v d) = list_at p d" if "p \<in> set shrink_order" for p v
  proof -
    have "fst p \<noteq> ''token_roi''" using that by (auto simp: shrink_order_def)
    then show ?thesis by (cases p) (simp add: list_at_def)
  qed
  then show ?thesis using t by (simp add: note_estimate_def)
qed

text \<open>What \<open>round(x, 4)\<close> gives is printed and read back exactly.\<close>

lemma plain_float_round:
  assumes "\<bar>x\<bar> \<le> 1"
  shows "plain_float (py_round 4 x)"
proof -
  let ?k = "round_even (x * 10 ^ 4)"
  have "\<bar>x * 10 ^ 4\<bar> \<le> 10 ^ 4" using assms by (simp add: abs_mult)
  then have "\<bar>of_int ?k :: real\<bar> \<le> 10 ^ 4 + 1 / 2" using round_even_near [of "x * 10 ^ 4"] by linarith
  then have "of_int \<bar>?k\<bar> < (of_int (10 ^ 4 + 1) :: real)" by simp
  then have k: "\<bar>?k\<bar> \<le> 10 ^ 4" unfolding of_int_less_iff by simp
  have a: "\<bar>py_round 4 x\<bar> = of_int \<bar>?k\<bar> / 10 ^ 4" by (simp add: py_round_def)
  have "\<bar>py_round 4 x\<bar> * 10 ^ 25 = of_int (\<bar>?k\<bar> * 10 ^ 21)" by (simp add: a)
  then have "of_int \<lfloor>\<bar>py_round 4 x\<bar> * 10 ^ 25\<rfloor> = \<bar>py_round 4 x\<bar> * 10 ^ 25" by (simp only: floor_of_int)
  moreover have "py_round 4 x = 0 \<or> (1 / 10 ^ 4 \<le> \<bar>py_round 4 x\<bar> \<and> \<bar>py_round 4 x\<bar> < 10 ^ 16)"
  proof (cases "?k = 0")
    case False
    then have "1 \<le> \<bar>?k\<bar>" by linarith
    then have "(of_int 1 :: real) \<le> of_int \<bar>?k\<bar>" "(of_int \<bar>?k\<bar> :: real) \<le> of_int (10 ^ 4)"
      using k by (simp_all only: of_int_le_iff)
    then show ?thesis unfolding a by (simp add: field_simps)
  qed (simp add: py_round_def)
  ultimately show ?thesis by (simp add: plain_float_def)
qed

lemma sections_fitted:
  assumes "frame_sections max_tokens (dedupe (map (\<lambda>r. env_id (rr_memory r)) results)) inp = Inr secs"
    and "json_ok (VDict secs)"
  shows "\<exists>f d. sections_assemble max_tokens c query results inp = Some (Inr f)
    \<and> shrunk (canon_dict secs) (sv_sections f) (sv_dropped f)
    \<and> note_estimate c d = Inr (sv_sections f)
    \<and> (over_budget max_tokens c d \<longrightarrow> (\<forall>p\<in>set shrink_order. list_at p (sv_sections f) = []))
    \<and> sv_estimated f = sif_tokens c (dumps (VDict (sv_sections f)))"
proof -
  note keys = frame_sections_keys [OF assms(1)]
  have load: "res_bind (stable_json (VDict secs)) (\<lambda>t. res_bind (loads t) as_dict) = Inr (canon_dict secs)"
    using loads_dumps [OF assms(2)] json_ok_jsonable [OF assms(2)]
    by (simp add: stable_json_def canon_VDict as_dict_def del: canon.simps dumps.simps jsonable.simps)
  obtain d n where loop: "shrink_loop max_tokens c (canon_dict secs) = Some (d, n)"
    using shrink_loop_ends by (metis surj_pair)
  note sp = shrink_loop_spec [OF keys(2) loop]
  obtain d' where d': "note_estimate c d = Inr d'" "\<forall>p\<in>set shrink_order. list_at p d' = list_at p d"
    using note_estimate_spec [OF sp(2)] by blast
  have "shrunk (canon_dict secs) d' n"
  proof -
    have same: "list_at (shrink_order ! i) d' = list_at (shrink_order ! i) d" if "i < 7" for i
      using d'(2) shrink_order_nth [OF that] by blast
    have size: "shrink_size d' = shrink_size d"
      unfolding shrink_size_def by (rule arg_cong [where f = sum_list]) (simp add: d'(2))
    have zero: "list_at (shrink_order ! i) d' = []"
      if "i < j" "j < 7" "list_at (shrink_order ! j) d' \<noteq> list_at (shrink_order ! j) (canon_dict secs)" for i j
    proof -
      have "i < 7" using that by simp
      then show ?thesis using sp(1) that same unfolding shrunk_def by metis
    qed
    show ?thesis
      unfolding shrunk_def
    proof (intro conjI)
      show "\<forall>i<7. prefix (list_at (shrink_order ! i) d') (list_at (shrink_order ! i) (canon_dict secs))"
        using sp(1) same by (simp add: shrunk_def)
      show "n + shrink_size d' = shrink_size (canon_dict secs)" using sp(1) size by (simp add: shrunk_def)
    qed (use zero in blast)
  qed
  moreover have "fit_sections max_tokens c secs = Some (Inr (d', n))"
    unfolding fit_sections_def load using loop d'(1) by simp
  ultimately show ?thesis using assms(1) d' sp(3) by (auto simp: sections_assemble_def Let_def)
qed

lemma sections_assemble_ends: "sections_assemble b c query rs inp \<noteq> None"
proof -
  have "\<exists>d n. shrink_loop b c fitted = Some (d, n)" for fitted using shrink_loop_ends by (metis surj_pair)
  then show ?thesis
    by (auto simp: sections_assemble_def fit_sections_def Let_def split: sum.splits)
qed

text \<open>
  C14: building a structured frame ends, with a frame or an exception. If gathering its sections raises, that is the
  exception; if the sections are gathered, and are values that JSON text can hold, it returns a frame. Its lists are
  prefixes of the lists it was given, the number of elements left out is counted, no list lost an element before the lists
  that precede it in the order of shrinking were empty, and the shrinking stopped because the sections, before their
  estimate was noted in them, fit the budget or nothing was left to drop.
\<close>

theorem sections_total:
  fixes max_tokens results inp
  defines "parts \<equiv> frame_sections max_tokens (dedupe (map (\<lambda>r. env_id (rr_memory r)) results)) inp"
  shows "(\<exists>x. sections_assemble max_tokens c query results inp = Some x)
    \<and> (\<forall>err. parts = Inl err \<longrightarrow> sections_assemble max_tokens c query results inp = Some (Inl err))
    \<and> (\<forall>secs. parts = Inr secs \<and> json_ok (VDict secs) \<longrightarrow>
         (\<exists>f d. sections_assemble max_tokens c query results inp = Some (Inr f)
           \<and> shrunk (canon_dict secs) (sv_sections f) (sv_dropped f)
           \<and> note_estimate c d = Inr (sv_sections f)
           \<and> (over_budget max_tokens c d \<longrightarrow> (\<forall>p\<in>set shrink_order. list_at p (sv_sections f) = []))
           \<and> sv_estimated f = sif_tokens c (dumps (VDict (sv_sections f)))))"
proof (intro conjI allI impI)
  show "\<exists>x. sections_assemble max_tokens c query results inp = Some x"
    using sections_assemble_ends [of max_tokens c query results inp] by auto
  show "sections_assemble max_tokens c query results inp = Some (Inl err)" if "parts = Inl err" for err
    using that by (simp add: sections_assemble_def parts_def)
qed (use sections_fitted in \<open>auto simp: parts_def\<close>)

section \<open>An example\<close>

definition demo_input :: frame_input where
  "demo_input = \<lparr>fi_evidence = [], fi_answerability = [], fi_graph_hints = [VStr ''hint''], fi_subgraphs = [],
     fi_knowledge = [(''assertions'', VList [VDict [(''status'', VStr ''active'')]])], fi_task_state = []\<rparr>"

definition empty_input :: frame_input where
  "empty_input = \<lparr>fi_evidence = [], fi_answerability = [], fi_graph_hints = [], fi_subgraphs = [], fi_knowledge = [],
     fi_task_state = []\<rparr>"

lemma demo_sections:
  "\<exists>secs. frame_sections 60 (dedupe (map (\<lambda>r. env_id (rr_memory r)) ([] :: recall_result list))) demo_input = Inr secs
    \<and> json_ok (VDict secs)"
  by (simp add: frame_sections_def demo_input_def current_facts_def governed_items_def evidence_items_def
      iter_or_empty_def d_or_def py_iter_def as_dict_def pick_keys_def str_list_def Let_def)

lemma sections_total_witness:
  "\<exists>f d. sections_assemble 60 4 ''q'' [] demo_input = Some (Inr f) \<and> note_estimate 4 d = Inr (sv_sections f)"
proof -
  obtain secs where "frame_sections 60 (dedupe (map (\<lambda>r. env_id (rr_memory r)) ([] :: recall_result list))) demo_input = Inr secs"
    "json_ok (VDict secs)" using demo_sections by blast
  then show ?thesis using sections_total [of 60 4 "''q''" "[]" demo_input] by blast
qed

text \<open>
  The estimate is noted in the sections after they were fitted, and counts itself: a frame whose sections fit
  the budget of 85 tokens is returned with an estimate of 89.
\<close>

lemma noted_estimate_exceeds_budget:
  "map_option (map_sum id (\<lambda>f. (sv_budget f, sv_estimated f, sv_dropped f))) (sections_assemble 85 4 ''q'' [] empty_input)
    = Some (Inr (85, 89, 0))"
proof -
  obtain secs where secs: "frame_sections 85 [] empty_input = Inr secs" 
    and fit: "over_budget 85 4 (canon_dict secs) = False"
    and load: "res_bind (stable_json (VDict secs)) (\<lambda>t. res_bind (loads t) as_dict) = Inr (canon_dict secs)"
    and est: "res_bind (note_estimate 4 (canon_dict secs)) (\<lambda>d. Inr (sif_tokens 4 (dumps (VDict d)))) = Inr 89"
  proof
    show "frame_sections 85 [] empty_input = Inr (case frame_sections 85 [] empty_input of Inr s \<Rightarrow> s)" by code_simp
  qed code_simp+
  obtain d where d: "note_estimate 4 (canon_dict secs) = Inr d" "sif_tokens 4 (dumps (VDict d)) = 89"
    using est by (auto simp: res_bind_eq_Inr)
  have "shrink_loop 85 4 (canon_dict secs) = Some (canon_dict secs, 0)"
    using fit by (simp add: shrink_loop_def while_option_unfold)
  then have "fit_sections 85 4 secs = Some (Inr (d, 0))" unfolding fit_sections_def load using d(1) by simp
  then show ?thesis using secs d(2) by (simp add: sections_assemble_def Let_def)
qed

end
