(* ===== verification/Task_State.thy ===== *)
theory Task_State
  imports Schema Table
begin

text \<open>
  \<open>task_state.py\<close>: checkpointed working state of a task. \<open>_save\<close> writes \<open>json.dumps\<close> with sorted keys
  and the default separators; the column is represented by the value \<open>json.loads\<close> reads back. The
  clock is an argument: \<open>t0\<close> when a state is built, \<open>t1\<close> when \<open>updated_at\<close> is set.
\<close>

record task_state =
  ts_id :: string
  ts_scope :: py_dict
  objective :: string
  constraints :: "string list"
  current_plan :: "string list"
  open_subtasks :: "string list"
  completed_subtasks :: "string list"
  irreversible_decisions :: "string list"
  tool_evidence_ids :: "string list"
  conflict_markers :: "string list"
  ts_status :: string
  checkpoint_id :: string
  checkpoint_sequence :: int
  ts_created_at :: real
  ts_updated_at :: real

text \<open>\<open>_string_list\<close>: a string is one item, an empty item is dropped.\<close>

definition task_strings :: "py_value option \<Rightarrow> string list" where
  "task_strings x = (case d_or x of VNone \<Rightarrow> []
     | VStr s \<Rightarrow> if s = [] then [] else [s]
     | VList vs \<Rightarrow> filter (\<lambda>s. s \<noteq> []) (map py_str vs)
     | v \<Rightarrow> [py_str v])"

text \<open>\<open>str(x or default)\<close>, \<open>int(x or 0)\<close> and \<open>float(x or 0.0)\<close>.\<close>

definition or_str :: "string \<Rightarrow> py_value option \<Rightarrow> string" where
  "or_str dflt x = (case x of None \<Rightarrow> dflt | Some v \<Rightarrow> if truthy v then py_str v else dflt)"

definition or_int :: "py_value option \<Rightarrow> int result" where
  "or_int x = (case x of None \<Rightarrow> Inr 0 | Some v \<Rightarrow> if truthy v then py_int v else Inr 0)"

definition or_float :: "py_value option \<Rightarrow> real result" where
  "or_float x = (case x of None \<Rightarrow> Inr 0 | Some v \<Rightarrow> if truthy v then py_float v else Inr 0)"

definition drop_empty :: "string list \<Rightarrow> string list" where
  "drop_empty xs = filter (\<lambda>s. s \<noteq> []) xs"

definition task_init :: "real \<Rightarrow> task_state \<Rightarrow> task_state result" where
  "task_init now st =
     (let i = py_strip (ts_id st) in
      if i = [] then Inl (ValueError ''task_id is required'')
      else
        (let created = (if ts_created_at st = 0 then now else ts_created_at st) in
         Inr (st\<lparr>ts_id := i,
           constraints := drop_empty (constraints st), current_plan := drop_empty (current_plan st),
           open_subtasks := drop_empty (open_subtasks st), completed_subtasks := drop_empty (completed_subtasks st),
           irreversible_decisions := drop_empty (irreversible_decisions st),
           tool_evidence_ids := drop_empty (tool_evidence_ids st),
           conflict_markers := drop_empty (conflict_markers st),
           ts_status := (if ts_status st = [] then ''active'' else ts_status st),
           checkpoint_sequence := max 0 (checkpoint_sequence st),
           ts_created_at := created,
           ts_updated_at := (if ts_updated_at st = 0 then created else ts_updated_at st)\<rparr>)))"

definition task_new :: "real \<Rightarrow> string \<Rightarrow> py_dict \<Rightarrow> task_state result" where
  "task_new now i sc = task_init now
     \<lparr>ts_id = i, ts_scope = sc, objective = [], constraints = [], current_plan = [], open_subtasks = [],
      completed_subtasks = [], irreversible_decisions = [], tool_evidence_ids = [], conflict_markers = [],
      ts_status = ''active'', checkpoint_id = [], checkpoint_sequence = 0, ts_created_at = now, ts_updated_at = now\<rparr>"

definition task_to_dict :: "task_state \<Rightarrow> py_dict" where
  "task_to_dict st =
    [(''task_id'', VStr (ts_id st)), (''scope'', VDict (ts_scope st)), (''objective'', VStr (objective st)),
     (''constraints'', str_list (constraints st)), (''current_plan'', str_list (current_plan st)),
     (''open_subtasks'', str_list (open_subtasks st)), (''completed_subtasks'', str_list (completed_subtasks st)),
     (''irreversible_decisions'', str_list (irreversible_decisions st)),
     (''tool_evidence_ids'', str_list (tool_evidence_ids st)),
     (''conflict_markers'', str_list (conflict_markers st)),
     (''status'', VStr (ts_status st)), (''checkpoint_id'', VStr (checkpoint_id st)),
     (''checkpoint_sequence'', VInt (checkpoint_sequence st)),
     (''created_at'', VFloat (ts_created_at st)), (''updated_at'', VFloat (ts_updated_at st))]"

definition task_compact :: "int \<Rightarrow> task_state \<Rightarrow> py_dict" where
  "task_compact n st =
    [(''task_id'', VStr (ts_id st)), (''status'', VStr (ts_status st)), (''objective'', VStr (objective st)),
     (''constraints'', str_list (py_take n (constraints st))), (''current_plan'', str_list (py_take n (current_plan st))),
     (''open_subtasks'', str_list (py_take n (open_subtasks st))),
     (''completed_subtasks'', str_list (py_take n (completed_subtasks st))),
     (''irreversible_decisions'', str_list (py_take n (irreversible_decisions st))),
     (''tool_evidence_ids'', str_list (py_take n (tool_evidence_ids st))),
     (''conflict_markers'', str_list (py_take n (conflict_markers st))),
     (''checkpoint_id'', VStr (checkpoint_id st)), (''checkpoint_sequence'', VInt (checkpoint_sequence st)),
     (''updated_at'', VFloat (ts_updated_at st))]"

definition task_from_dict :: "real \<Rightarrow> py_dict \<Rightarrow> task_state result" where
  "task_from_dict now d =
     res_bind (read_dict (d_get d ''scope'')) (\<lambda>sc.
     res_bind (or_int (d_get d ''checkpoint_sequence'')) (\<lambda>sq.
     res_bind (or_float (d_get d ''created_at'')) (\<lambda>created.
     res_bind (or_float (d_get d ''updated_at'')) (\<lambda>upd.
       task_init now \<lparr>ts_id = or_str [] (d_get d ''task_id''), ts_scope = sc,
         objective = or_str [] (d_get d ''objective''),
         constraints = task_strings (d_get d ''constraints''),
         current_plan = task_strings (d_get d ''current_plan''),
         open_subtasks = task_strings (d_get d ''open_subtasks''),
         completed_subtasks = task_strings (d_get d ''completed_subtasks''),
         irreversible_decisions = task_strings (d_get d ''irreversible_decisions''),
         tool_evidence_ids = task_strings (d_get d ''tool_evidence_ids''),
         conflict_markers = task_strings (d_get d ''conflict_markers''),
         ts_status = or_str ''active'' (d_get d ''status''),
         checkpoint_id = or_str [] (d_get d ''checkpoint_id''),
         checkpoint_sequence = sq, ts_created_at = created, ts_updated_at = upd\<rparr>))))"

section \<open>The store\<close>

record task_row =
  tr_id :: string
  tr_scope :: py_value
  tr_state :: py_value
  tr_sequence :: int
  tr_created_at :: real
  tr_updated_at :: real

type_synonym task_table = "task_row list"

definition task_get :: "real \<Rightarrow> string \<Rightarrow> task_table \<Rightarrow> task_state option result" where
  "task_get now i t = (case tbl_find tr_id i t of
       None \<Rightarrow> Inr None
     | Some r \<Rightarrow> res_bind (read_dict_item (tr_state r)) (\<lambda>d. res_bind (task_from_dict now d) (\<lambda>st. Inr (Some st))))"

definition task_save :: "task_state \<Rightarrow> (task_table, task_state) action" where
  "task_save st t =
     (if jsonable (VDict (task_to_dict st)) then
        (tbl_put tr_id \<lparr>tr_id = ts_id st, tr_scope = canon (VDict (ts_scope st)),
           tr_state = canon (VDict (task_to_dict st)), tr_sequence = checkpoint_sequence st,
           tr_created_at = ts_created_at st, tr_updated_at = ts_updated_at st\<rparr> t, Inr st)
      else (t, Inl (TypeError ''not JSON serializable'')))"

definition next_sequence :: "py_dict \<Rightarrow> bool \<Rightarrow> task_state \<Rightarrow> int result" where
  "next_sequence patch existed st =
     (case d_or (d_get patch ''checkpoint_sequence'') of
        VNone \<Rightarrow> Inr (max 1 (checkpoint_sequence st + 1))
      | v \<Rightarrow> res_bind (py_int v) (\<lambda>n.
          if existed \<and> n < checkpoint_sequence st
          then Inl (ValueError (''stale checkpoint for task_id='' @ ts_id st)) else Inr n))"

definition patch_str :: "py_dict \<Rightarrow> string \<Rightarrow> string \<Rightarrow> string" where
  "patch_str patch k old = (case d_get patch k of None \<Rightarrow> old | Some v \<Rightarrow> or_str [] (Some v))"

definition patch_strings :: "py_dict \<Rightarrow> string \<Rightarrow> string list \<Rightarrow> string list" where
  "patch_strings patch k old = (case d_get patch k of None \<Rightarrow> old | Some v \<Rightarrow> task_strings (Some v))"

definition apply_patch :: "py_dict \<Rightarrow> py_dict \<Rightarrow> int \<Rightarrow> task_state \<Rightarrow> task_state" where
  "apply_patch patch sc sq st =
     (let cid = patch_str patch ''checkpoint_id'' (checkpoint_id st) in
      st\<lparr>ts_scope := sc, checkpoint_sequence := sq,
        objective := patch_str patch ''objective'' (objective st),
        ts_status := patch_str patch ''status'' (ts_status st),
        checkpoint_id := (if cid = [] then ''ckpt_'' @ show_int sq else cid),
        constraints := patch_strings patch ''constraints'' (constraints st),
        current_plan := patch_strings patch ''current_plan'' (current_plan st),
        open_subtasks := patch_strings patch ''open_subtasks'' (open_subtasks st),
        completed_subtasks := patch_strings patch ''completed_subtasks'' (completed_subtasks st),
        irreversible_decisions := patch_strings patch ''irreversible_decisions'' (irreversible_decisions st),
        tool_evidence_ids := patch_strings patch ''tool_evidence_ids'' (tool_evidence_ids st),
        conflict_markers := patch_strings patch ''conflict_markers'' (conflict_markers st)\<rparr>)"

text \<open>The row is looked up under the id as given and saved under the stripped id.\<close>

definition task_update ::
  "real \<Rightarrow> real \<Rightarrow> string \<Rightarrow> py_dict \<Rightarrow> py_dict \<Rightarrow> (task_table, task_state) action" where
  "task_update t0 t1 i sc patch t =
     (case res_bind (task_get t0 i t) (\<lambda>existing.
             res_bind (case existing of
                 None \<Rightarrow> task_new t0 i sc
               | Some st \<Rightarrow> res_bind (task_from_dict t0 (task_to_dict st)) (\<lambda>st'.
                   Inr (if sc = [] then st' else st'\<lparr>ts_scope := sc\<rparr>))) (\<lambda>st.
             res_bind (next_sequence patch (existing \<noteq> None) st) (\<lambda>sq.
             res_bind (case d_get patch ''scope'' of None \<Rightarrow> Inr (ts_scope st) | Some v \<Rightarrow> read_dict (Some v)) (\<lambda>sc'.
               Inr ((apply_patch patch sc' sq st)\<lparr>ts_updated_at := t1\<rparr>))))) of
        Inl err \<Rightarrow> (t, Inl err)
      | Inr st \<Rightarrow> task_save st t)"

definition task_count :: "task_table \<Rightarrow> int" where
  "task_count t = int (length t)"

section \<open>Reading back\<close>

interpretation tasks: checked_table "tbl_find tr_id" "tbl_put tr_id" tr_id "tbl_ok tr_id" "\<lambda>t. tr_id ` set t"
  by (rule checked_table_rows)

definition wf_task :: "task_state \<Rightarrow> bool" where
  "wf_task st =
     (ts_id st \<noteq> [] \<and> trimmed (ts_id st) \<and> ts_created_at st \<noteq> 0 \<and> ts_updated_at st \<noteq> 0
      \<and> (\<forall>xs\<in>{constraints st, current_plan st, open_subtasks st, completed_subtasks st,
           irreversible_decisions st, tool_evidence_ids st, conflict_markers st}. [] \<notin> set xs))"

text \<open>What a saved state is read back as: dicts in key order, a status and a sequence made valid.\<close>

definition task_read :: "task_state \<Rightarrow> task_state" where
  "task_read st = st\<lparr>ts_scope := canon_dict (ts_scope st),
     ts_status := (if ts_status st = [] then ''active'' else ts_status st),
     checkpoint_sequence := max 0 (checkpoint_sequence st)\<rparr>"

lemma drop_empty_id: "[] \<notin> set xs \<Longrightarrow> drop_empty xs = xs"
  by (auto simp: drop_empty_def filter_id_conv)

lemma empty_notin_drop [simp]: "[] \<notin> set (drop_empty xs)"
  by (simp add: drop_empty_def)

lemma task_strings_list [simp]: "task_strings (Some (VList (map VStr xs))) = drop_empty xs"
  by (simp add: task_strings_def d_or_def drop_empty_def comp_def)

lemma task_strings_str_list [simp]: "task_strings (Some (str_list xs)) = drop_empty xs"
  by (simp add: str_list_def)

lemma empty_notin_task_strings [simp]: "[] \<notin> set (task_strings x)"
proof -
  have "[] \<noteq> show_int i" "[] \<noteq> float_repr r" "[] \<noteq> repr_bytes b" for i r b
    by (simp_all add: show_int_def float_repr_def fixed_repr_def exp_repr_def Let_def repr_bytes_def
        show_nat_nonempty [THEN not_sym])
  then show ?thesis by (simp add: task_strings_def py_str_def split: py_value.split)
qed

lemma task_init_wf:
  assumes "task_init now st = Inr st'" "now \<noteq> 0"
  shows "wf_task st' \<and> 0 \<le> checkpoint_sequence st' \<and> ts_status st' \<noteq> [] \<and> ts_id st' = py_strip (ts_id st)"
  using assms by (auto simp: task_init_def wf_task_def Let_def split: if_splits)

lemma task_init_fixpoint:
  assumes "wf_task st"
  shows "task_init now st = Inr (st\<lparr>ts_status := (if ts_status st = [] then ''active'' else ts_status st),
     checkpoint_sequence := max 0 (checkpoint_sequence st)\<rparr>)"
  using assms by (cases st) (simp add: task_init_def wf_task_def drop_empty_id Let_def)

lemma distinct_task_keys [simp]: "distinct (map fst (task_to_dict st))"
  by (simp add: task_to_dict_def)

lemma task_from_dict_reads:
  assumes "wf_task st"
    and g: "\<And>k. map_of d k = map_option f (map_of (task_to_dict st) k)"
    and f: "\<And>s. f (VStr s) = VStr s" "\<And>xs. f (str_list xs) = str_list xs" "\<And>i. f (VInt i) = VInt i"
      "\<And>x. f (VFloat x) = VFloat x" "f (VDict (ts_scope st)) = VDict sc"
  shows "task_from_dict now d = Inr (st\<lparr>ts_scope := sc,
     ts_status := (if ts_status st = [] then ''active'' else ts_status st),
     checkpoint_sequence := max 0 (checkpoint_sequence st)\<rparr>)"
proof -
  have ne: "ts_id st \<noteq> []" "ts_created_at st \<noteq> 0" "ts_updated_at st \<noteq> 0" using assms(1) by (auto simp: wf_task_def)
  have lists: "drop_empty (constraints st) = constraints st" "drop_empty (current_plan st) = current_plan st"
    "drop_empty (open_subtasks st) = open_subtasks st" "drop_empty (completed_subtasks st) = completed_subtasks st"
    "drop_empty (irreversible_decisions st) = irreversible_decisions st"
    "drop_empty (tool_evidence_ids st) = tool_evidence_ids st" "drop_empty (conflict_markers st) = conflict_markers st"
    using assms(1) by (simp_all add: wf_task_def drop_empty_id)
  have os: "or_str dflt (Some (VStr s)) = (if s = [] then dflt else s)" for dflt s by (simp add: or_str_def)
  have oi: "or_int (Some (VInt i)) = Inr i" for i by (simp add: or_int_def py_int_def)
  have of': "or_float (Some (VFloat x)) = Inr x" for x by (simp add: or_float_def py_float_def)
  let ?st = "st\<lparr>ts_scope := sc, ts_status := (if ts_status st = [] then ''active'' else ts_status st)\<rparr>"
  have r: "\<lparr>ts_id = ts_id st, ts_scope = sc, objective = objective st, constraints = constraints st,
      current_plan = current_plan st, open_subtasks = open_subtasks st, completed_subtasks = completed_subtasks st,
      irreversible_decisions = irreversible_decisions st, tool_evidence_ids = tool_evidence_ids st,
      conflict_markers = conflict_markers st, ts_status = (if ts_status st = [] then ''active'' else ts_status st),
      checkpoint_id = checkpoint_id st, checkpoint_sequence = checkpoint_sequence st,
      ts_created_at = ts_created_at st, ts_updated_at = ts_updated_at st\<rparr> = ?st"
    by (cases st) simp
  have e: "(if s = [] then [] else s) = s" for s :: string by simp
  have "task_from_dict now d = task_init now ?st"
    unfolding task_from_dict_def g
    by (simp add: task_to_dict_def f os oi of' lists ne r e split del: if_split)
  also have "wf_task ?st" using assms(1) by (simp add: wf_task_def)
  then have "task_init now ?st = Inr (st\<lparr>ts_scope := sc,
     ts_status := (if ts_status st = [] then ''active'' else ts_status st),
     checkpoint_sequence := max 0 (checkpoint_sequence st)\<rparr>)"
    by (simp add: task_init_fixpoint)
  finally show ?thesis .
qed

lemma task_from_dict_same:
  "wf_task st \<Longrightarrow> task_from_dict now (task_to_dict st) = Inr (st\<lparr>
     ts_status := (if ts_status st = [] then ''active'' else ts_status st),
     checkpoint_sequence := max 0 (checkpoint_sequence st)\<rparr>)"
  using task_from_dict_reads [of st "task_to_dict st" "\<lambda>v. v" "ts_scope st" now] by (simp add: option.map_ident)

lemma task_from_dict_fixpoint:
  "wf_task st \<Longrightarrow> ts_status st \<noteq> [] \<Longrightarrow> 0 \<le> checkpoint_sequence st \<Longrightarrow>
    task_from_dict now (task_to_dict st) = Inr st"
  by (simp add: task_from_dict_same)

lemma task_from_dict_canon:
  "wf_task st \<Longrightarrow> task_from_dict now (canon_dict (task_to_dict st)) = Inr (task_read st)"
  using task_from_dict_reads [of st "canon_dict (task_to_dict st)" canon "canon_dict (ts_scope st)" now]
  by (simp add: map_of_canon_dict canon_VDict task_read_def str_list_def comp_def del: canon.simps(2))

lemma task_get_saved:
  assumes "wf_task st" "task_save st t = (t', Inr st')"
  shows "st' = st" "task_get now (ts_id st) t' = Inr (Some (task_read st))"
    "i \<noteq> ts_id st \<Longrightarrow> task_get now i t' = task_get now i t"
  using assms task_from_dict_canon [OF assms(1)]
  by (auto simp: task_save_def task_get_def tbl_find_put canon_VDict read_dict_item_def
      simp del: canon.simps(2) jsonable.simps split: if_splits)

section \<open>Updates\<close>

definition tasks_ok :: "task_table \<Rightarrow> bool" where
  "tasks_ok t = (tbl_ok tr_id t \<and> (\<forall>r\<in>set t. \<exists>st. wf_task st \<and> tr_id r = ts_id st
     \<and> tr_state r = canon (VDict (task_to_dict st))))"

lemma tasks_ok_Nil [simp]: "tasks_ok []"
  by (simp add: tasks_ok_def)

lemma wf_task_read [simp]: "wf_task (task_read st) = wf_task st"
  by (simp add: wf_task_def task_read_def)

lemma task_get_cases [consumes 1, case_names none some]:
  assumes "tasks_ok t"
  obtains (none) "\<And>now. task_get now i t = Inr None"
  | (some) st where "wf_task st" "ts_id st = i" "\<And>now. task_get now i t = Inr (Some (task_read st))"
proof (cases "tbl_find tr_id i t")
  case None
  then show ?thesis using none by (simp add: task_get_def)
next
  case (Some r)
  then have "tr_id r = i" "r \<in> set t" using tbl_find_SomeD by metis+
  then obtain st where st: "wf_task st" "ts_id st = i" "tr_state r = canon (VDict (task_to_dict st))"
    using assms unfolding tasks_ok_def by metis
  then have "task_get now i t = Inr (Some (task_read st))" for now
    using Some task_from_dict_canon [OF st(1)]
    by (simp add: task_get_def canon_VDict read_dict_item_def del: canon.simps(2))
  then show ?thesis using some st by blast
qed

lemma tasks_ok_save:
  assumes "tasks_ok t" "wf_task st"
  shows "tasks_ok (fst (task_save st t))"
  using assms set_tbl_put [of tr_id _ t] unfolding tasks_ok_def
  by (auto simp: task_save_def simp del: canon.simps(2) jsonable.simps dest!: subsetD [OF set_tbl_put])

lemma wf_apply_patch:
  "wf_task st \<Longrightarrow> t1 \<noteq> 0 \<Longrightarrow> wf_task ((apply_patch patch sc sq st)\<lparr>ts_updated_at := t1\<rparr>)"
  by (auto simp: wf_task_def apply_patch_def Let_def patch_strings_def split: option.splits)

lemma apply_patch_fields [simp]:
  "ts_id (apply_patch patch sc sq st) = ts_id st"
  "checkpoint_sequence (apply_patch patch sc sq st) = sq"
  by (simp_all add: apply_patch_def Let_def)

lemma next_sequence_cong:
  assumes "ts_id a = ts_id b" "checkpoint_sequence a = checkpoint_sequence b"
  shows "next_sequence patch x a = next_sequence patch x b"
  unfolding next_sequence_def assms ..

lemma next_sequence_ok:
  assumes "next_sequence patch existed st = Inr n"
  shows "existed \<Longrightarrow> checkpoint_sequence st \<le> n"
    and "d_or (d_get patch ''checkpoint_sequence'') = VNone \<Longrightarrow> n = max 1 (checkpoint_sequence st + 1)"
  using assms by (auto simp: next_sequence_def res_bind_eq_Inr split: py_value.splits if_splits)

text \<open>A successful update, taken apart.\<close>

lemma task_update_Inr:
  assumes "task_update t0 t1 i sc patch t = (t', Inr st)" and ok: "tasks_ok t" "t0 \<noteq> 0" "t1 \<noteq> 0"
  shows "wf_task st \<and> ts_id st = py_strip i \<and> task_save st t = (t', Inr st)
    \<and> (\<forall>now old. task_get now i t = Inr (Some old) \<longrightarrow>
         next_sequence patch True old = Inr (checkpoint_sequence st))
    \<and> (\<forall>now. task_get now i t = Inr None \<longrightarrow>
         (\<exists>fresh. task_new t0 i sc = Inr fresh \<and> next_sequence patch False fresh = Inr (checkpoint_sequence st)))"
proof -
  have finish: ?thesis
    if base: "wf_task b" "ts_id b = py_strip i"
      and st: "st = (apply_patch patch sc' sq b)\<lparr>ts_updated_at := t1\<rparr>"
      and save: "task_save st t = (t', Inr st)"
      and old: "\<forall>now old. task_get now i t = Inr (Some old) \<longrightarrow> next_sequence patch True old = Inr sq"
      and new: "\<forall>now. task_get now i t = Inr None \<longrightarrow>
         (\<exists>fresh. task_new t0 i sc = Inr fresh \<and> next_sequence patch False fresh = Inr sq)"
    for b sc' sq
    using wf_apply_patch [OF base(1) ok(3)] base(2) save old new by (simp add: st)
  have save: "st' = st" if "task_save st' t = (t', Inr st)" for st'
    using that by (auto simp: task_save_def split: if_splits)
  from ok(1) show ?thesis
  proof (cases rule: task_get_cases [where i = i])
    case none
    then obtain b sq sc' where b: "task_new t0 i sc = Inr b" "next_sequence patch False b = Inr sq"
      and s: "task_save ((apply_patch patch sc' sq b)\<lparr>ts_updated_at := t1\<rparr>) t = (t', Inr st)"
      using assms(1) by (auto simp: task_update_def res_bind_eq_Inr split: sum.splits option.splits)
    have "wf_task b \<and> ts_id b = py_strip i"
      using task_init_wf [of t0 _ b] b(1) ok(2) unfolding task_new_def by fastforce
    then show ?thesis using finish [of b sc' sq] save [OF s] s none b by simp
  next
    case (some e)
    let ?old = "task_read e"
    have same: "task_from_dict t0 (task_to_dict ?old) = Inr ?old"
      using some(1) by (intro task_from_dict_fixpoint) (simp_all, simp_all add: task_read_def)
    have i: "py_strip i = i" using some(1,2) by (auto simp: wf_task_def)
    from assms(1) obtain sq sc' b where b: "b = (if sc = [] then ?old else ?old\<lparr>ts_scope := sc\<rparr>)"
      "next_sequence patch True b = Inr sq"
      and s: "task_save ((apply_patch patch sc' sq b)\<lparr>ts_updated_at := t1\<rparr>) t = (t', Inr st)"
      by (auto simp: task_update_def some(3) same res_bind_eq_Inr split: sum.splits option.splits)
    have "wf_task b \<and> ts_id b = py_strip i"
      using some(1,2) i wf_task_read [of e] by (auto simp: b(1) wf_task_def task_read_def)
    moreover have "next_sequence patch True ?old = next_sequence patch True b"
      by (rule next_sequence_cong) (simp_all add: b(1))
    ultimately show ?thesis using finish [of b sc' sq] save [OF s] s some(3) b(2) by simp
  qed
qed

lemma task_update_Inl: "task_update t0 t1 i sc patch t = (t', Inl err) \<Longrightarrow> t' = t"
  by (auto simp: task_update_def task_save_def split: sum.splits if_splits)

lemma task_update_ok:
  assumes "tasks_ok t" "t0 \<noteq> 0" "t1 \<noteq> 0"
  shows "tasks_ok (fst (task_update t0 t1 i sc patch t))"
proof (cases "task_update t0 t1 i sc patch t")
  case (Pair t' r)
  show ?thesis
  proof (cases r)
    case (Inl err)
    then show ?thesis using Pair task_update_Inl assms(1) by fastforce
  next
    case (Inr st)
    then have "wf_task st" "task_save st t = (t', Inr st)"
      using task_update_Inr [OF _ assms] Pair by blast+
    then show ?thesis using tasks_ok_save [OF assms(1), of st] Pair by simp
  qed
qed

lemma task_update_effect:
  assumes "tasks_ok t" "t0 \<noteq> 0" "t1 \<noteq> 0"
    and "task_update t0 t1 i sc patch t = (t', Inr st)"
  shows "task_get now (py_strip i) t' = Inr (Some (task_read st))"
    and "j \<noteq> py_strip i \<Longrightarrow> task_get now j t' = task_get now j t"
    and "task_get now i t = Inr (Some old) \<Longrightarrow> checkpoint_sequence old \<le> checkpoint_sequence st"
    and "task_get now i t = Inr (Some old) \<Longrightarrow> d_or (d_get patch ''checkpoint_sequence'') = VNone \<Longrightarrow>
      checkpoint_sequence st = max 1 (checkpoint_sequence old + 1)"
proof -
  note u = task_update_Inr [OF assms(4,1-3)]
  have w: "wf_task st" "task_save st t = (t', Inr st)" "ts_id st = py_strip i" using u by blast+
  show "task_get now (py_strip i) t' = Inr (Some (task_read st))"
    and "j \<noteq> py_strip i \<Longrightarrow> task_get now j t' = task_get now j t"
    using task_get_saved(2,3) [OF w(1,2)] w(3) by simp_all
  show "task_get now i t = Inr (Some old) \<Longrightarrow> checkpoint_sequence old \<le> checkpoint_sequence st"
    and "task_get now i t = Inr (Some old) \<Longrightarrow> d_or (d_get patch ''checkpoint_sequence'') = VNone \<Longrightarrow>
      checkpoint_sequence st = max 1 (checkpoint_sequence old + 1)"
    using u next_sequence_ok by blast+
qed

text \<open>
  C32: take a well-formed task table and a clock that does not read 0. An update that returns is read back under the
  stripped id and changes no other task. If a task is stored under the id as given, the new checkpoint is not below the
  stored one, and is the next one if the caller asks for none; an id with blanks around it finds no task, and of the
  checkpoint nothing is claimed then (it starts again, see \<open>padded_id_restarts_sequence\<close>). An update that
  raises, a stale checkpoint among the reasons, changes nothing.
\<close>

theorem task_update_spec:
  assumes "tasks_ok t" "t0 \<noteq> 0" "t1 \<noteq> 0"
  shows "case task_update t0 t1 i sc patch t of
      (t', Inl err) \<Rightarrow> t' = t
    | (t', Inr st) \<Rightarrow> tasks_ok t' \<and> task_get now (py_strip i) t' = Inr (Some (task_read st))
        \<and> (\<forall>j. j \<noteq> py_strip i \<longrightarrow> task_get now j t' = task_get now j t)
        \<and> (\<forall>old. task_get now i t = Inr (Some old) \<longrightarrow> checkpoint_sequence old \<le> checkpoint_sequence st
            \<and> (d_or (d_get patch ''checkpoint_sequence'') = VNone \<longrightarrow>
                checkpoint_sequence st = max 1 (checkpoint_sequence old + 1)))"
proof (cases "task_update t0 t1 i sc patch t")
  case (Pair t' r)
  show ?thesis
  proof (cases r)
    case (Inl err)
    then show ?thesis using Pair task_update_Inl by auto
  next
    case (Inr st)
    then have u: "task_update t0 t1 i sc patch t = (t', Inr st)" using Pair by simp
    have "tasks_ok t'" using task_update_ok [OF assms, of i sc patch] u by simp
    then show ?thesis using task_update_effect [OF assms u] u by auto
  qed
qed

section \<open>Checkpoints over time\<close>

text \<open>One call of \<open>update\<close> with any arguments, its id given without surrounding blanks.\<close>

inductive task_step :: "task_table \<Rightarrow> task_table \<Rightarrow> bool" where
  update: "t0 \<noteq> 0 \<Longrightarrow> t1 \<noteq> 0 \<Longrightarrow> trimmed i \<Longrightarrow> task_step t (fst (task_update t0 t1 i sc patch t))"

inductive_simps task_step_iff: "task_step t t'"

lemma task_step_monotone:
  assumes "tasks_ok t" "task_step t t'" "task_get now i t = Inr (Some a)"
  shows "tasks_ok t' \<and> (\<exists>b. task_get now i t' = Inr (Some b) \<and> checkpoint_sequence a \<le> checkpoint_sequence b)"
proof -
  obtain t0 t1 j sc patch where nz: "t0 \<noteq> 0" "t1 \<noteq> 0" "trimmed j"
    and t': "t' = fst (task_update t0 t1 j sc patch t)"
    using assms(2) by (auto simp: task_step_iff)
  have ok: "tasks_ok t'" unfolding t' by (rule task_update_ok [OF assms(1) nz(1,2)])
  obtain t2 r where u: "task_update t0 t1 j sc patch t = (t2, r)" by fastforce
  show ?thesis
  proof (cases r)
    case (Inl err)
    then have "t' = t" using u task_update_Inl t' by auto
    then show ?thesis using ok assms(3) by auto
  next
    case (Inr st)
    then have u: "task_update t0 t1 j sc patch t = (t', Inr st)" using u t' by simp
    note e = task_update_effect [OF assms(1) nz(1,2) u]
    show ?thesis
    proof (cases "i = j")
      case True
      then have "checkpoint_sequence a \<le> checkpoint_sequence st" using e(3) assms(3) nz(3) by simp
      then show ?thesis using ok e(1) [of now] True nz(3) by (auto simp: task_read_def)
    next
      case False
      then show ?thesis using ok e(2) [of i now] nz(3) assms(3) by auto
    qed
  qed
qed

text \<open>
  C31: over any sequence of updates of a well-formed task table, failed ones among them, whose ids have no blanks around
  them and whose clock does not read 0, the checkpoint sequence of a task never decreases and the task stays
  readable. An id with blanks around it would start the sequence again, see \<open>padded_id_restarts_sequence\<close>.
\<close>

theorem checkpoints_never_decrease:
  assumes "task_step\<^sup>*\<^sup>* t t'" "tasks_ok t" "task_get now i t = Inr (Some a)"
  shows "\<exists>b. task_get now i t' = Inr (Some b) \<and> checkpoint_sequence a \<le> checkpoint_sequence b"
proof -
  have "tasks_ok t' \<and> (\<exists>b. task_get now i t' = Inr (Some b) \<and> checkpoint_sequence a \<le> checkpoint_sequence b)"
    using assms
  proof (induction rule: rtranclp_induct)
    case base
    then show ?case by auto
  next
    case (step u v)
    then obtain b where b: "tasks_ok u" "task_get now i u = Inr (Some b)" "checkpoint_sequence a \<le> checkpoint_sequence b"
      by blast
    then show ?case using task_step_monotone [OF b(1) step(2) b(2)] order_trans by blast
  qed
  then show ?thesis by blast
qed

text \<open>
  An id with surrounding blanks is not found but saved stripped: the stale-checkpoint check is skipped
  and the sequence of the stored task starts again.
\<close>

lemma padded_id_restarts_sequence:
  assumes "tasks_ok t" "t0 \<noteq> 0" "t1 \<noteq> 0" "\<not> trimmed i" "py_strip i \<noteq> []"
  shows "\<exists>t' st. task_update t0 t1 i [] [] t = (t', Inr st)
    \<and> task_get now (py_strip i) t' = Inr (Some (task_read st)) \<and> checkpoint_sequence st = 1"
proof -
  have none: "task_get n i t = Inr None" for n
    using assms(1)
    by (cases rule: task_get_cases [where i = i]) (use assms(4) in \<open>auto simp: wf_task_def\<close>)
  obtain t' st where u: "task_update t0 t1 i [] [] t = (t', Inr st)"
    using assms(5)
    by (auto simp: task_update_def none task_new_def task_init_def next_sequence_def d_or_def task_save_def
        apply_patch_def patch_str_def patch_strings_def task_to_dict_def str_list_def list_all_iff drop_empty_def Let_def)
  obtain fresh where "task_new t0 i [] = Inr fresh" "next_sequence [] False fresh = Inr (checkpoint_sequence st)"
    using task_update_Inr [OF u assms(1-3)] none by blast
  then have "checkpoint_sequence st = 1"
    by (auto simp: task_new_def task_init_def next_sequence_def d_or_def Let_def split: if_splits)
  then show ?thesis using u task_update_effect(1) [OF assms(1-3) u] by blast
qed

lemma task_update_spec_witness:
  "case task_update 1 2 '' job'' [(''box'', VNone)] [(''checkpoint_sequence'', VInt 7)] [] of
      (t', Inl err) \<Rightarrow> t' = []
    | (t', Inr st) \<Rightarrow> tasks_ok t' \<and> task_get 3 (py_strip '' job'') t' = Inr (Some (task_read st))
        \<and> (\<forall>j. j \<noteq> py_strip '' job'' \<longrightarrow> task_get 3 j t' = task_get 3 j [])
        \<and> (\<forall>old. task_get 3 '' job'' [] = Inr (Some old) \<longrightarrow> checkpoint_sequence old \<le> checkpoint_sequence st
            \<and> (d_or (d_get [(''checkpoint_sequence'', VInt 7)] ''checkpoint_sequence'') = VNone \<longrightarrow>
                checkpoint_sequence st = max 1 (checkpoint_sequence old + 1)))"
  by (rule task_update_spec) simp_all

lemma checkpoints_never_decrease_witness:
  "\<exists>t u a b. task_step\<^sup>*\<^sup>* t u \<and> task_get 9 ''job'' t = Inr (Some a) \<and> task_get 9 ''job'' u = Inr (Some b)
    \<and> checkpoint_sequence a = 1 \<and> 1 \<le> checkpoint_sequence b"
proof -
  have s: "\<not> trimmed '' job''" "py_strip '' job'' = ''job''" by code_simp+
  obtain t st where u: "task_update 1 2 '' job'' [] [] [] = (t, Inr st)"
    and g: "task_get 9 ''job'' t = Inr (Some (task_read st))" "checkpoint_sequence st = 1"
    using padded_id_restarts_sequence [of "[]" 1 2 "'' job''" 9] s by auto
  have ok: "tasks_ok t" using task_update_ok [of "[]" 1 2 "'' job''" "[]" "[]"] u by simp
  have tr: "trimmed ''job''" by code_simp
  have r: "task_step\<^sup>*\<^sup>* t (fst (task_update 3 4 ''job'' [] [] t))"
    by (rule r_into_rtranclp) (rule task_step.update, simp_all add: tr)
  have one: "checkpoint_sequence (task_read st) = 1" by (simp add: task_read_def g(2))
  obtain b where "task_get 9 ''job'' (fst (task_update 3 4 ''job'' [] [] t)) = Inr (Some b)"
    "1 \<le> checkpoint_sequence b"
    using checkpoints_never_decrease [OF r ok g(1)] one by auto
  then show ?thesis using r g(1) one by blast
qed

end
