(* ===== verification/Knowledge.thy ===== *)
theory Knowledge
  imports Facts
begin

text \<open>
  \<open>knowledge.py\<close>: entities and temporal assertions, derived from a memory's relations and from the
  ledger's facts. As in the ledger, a row is the value it is read back as (its JSON columns hold
  \<open>canon_dict\<close>). Each \<open>with self._connection()\<close> block commits on its own, so a call that raises keeps
  what its earlier blocks wrote. Every write is followed by the relation graph, when there is one
  (\<open>linked\<close>).
\<close>

record entity =
  en_id :: string
  en_name :: string
  en_type :: string
  en_aliases :: "string list"
  en_scope :: py_dict
  en_sources :: "string list"
  en_confidence :: real
  en_status :: string
  en_created_at :: real
  en_updated_at :: real

definition entity_to_dict :: "entity \<Rightarrow> py_dict" where
  "entity_to_dict e =
    [(''entity_id'', VStr (en_id e)), (''name'', VStr (en_name e)), (''entity_type'', VStr (en_type e)),
     (''aliases'', str_list (en_aliases e)), (''scope'', VDict (en_scope e)),
     (''source_memory_ids'', str_list (en_sources e)), (''confidence'', VFloat (en_confidence e)),
     (''status'', VStr (en_status e)), (''created_at'', VFloat (en_created_at e)),
     (''updated_at'', VFloat (en_updated_at e))]"

record assertion =
  as_id :: string
  as_subject :: string
  as_predicate :: string
  as_object :: string
  as_memory_id :: string
  as_subject_entity :: string
  as_object_entity :: "string option"
  as_object_kind :: string
  as_fact_id :: "string option"
  as_scope :: py_dict
  as_graph_name :: string
  as_valid_from :: "real option"
  as_valid_to :: "real option"
  as_observed_at :: real
  as_confidence :: real
  as_status :: string
  as_reason :: string
  as_supersedes :: "string list"
  as_superseded_by :: "string option"

definition assertion_to_dict :: "assertion \<Rightarrow> py_dict" where
  "assertion_to_dict a =
    [(''assertion_id'', VStr (as_id a)), (''subject'', VStr (as_subject a)), (''predicate'', VStr (as_predicate a)),
     (''object'', VStr (as_object a)), (''source_memory_id'', VStr (as_memory_id a)),
     (''subject_entity_id'', VStr (as_subject_entity a)), (''object_entity_id'', opt_str (as_object_entity a)),
     (''object_kind'', VStr (as_object_kind a)), (''fact_id'', opt_str (as_fact_id a)),
     (''scope'', VDict (as_scope a)), (''graph_name'', VStr (as_graph_name a)),
     (''valid_from'', opt_real (as_valid_from a)), (''valid_to'', opt_real (as_valid_to a)),
     (''observed_at'', VFloat (as_observed_at a)), (''confidence'', VFloat (as_confidence a)),
     (''status'', VStr (as_status a)), (''reason'', VStr (as_reason a)),
     (''supersedes'', str_list (as_supersedes a)), (''superseded_by'', opt_str (as_superseded_by a))]"

record kg_conflict =
  kc_superseding :: string
  kc_superseded :: string
  kc_reason :: string
  kc_created_at :: real

definition kc_key :: "kg_conflict \<Rightarrow> string \<times> string" where
  "kc_key c = (kc_superseding c, kc_superseded c)"

record kg =
  kg_entities :: "entity list"
  kg_assertions :: "assertion list"
  kg_conflicts :: "kg_conflict list"

definition kg_empty :: kg where
  "kg_empty = \<lparr>kg_entities = [], kg_assertions = [], kg_conflicts = []\<rparr>"

definition kg_clear :: "kg \<Rightarrow> kg" where
  "kg_clear k = k\<lparr>kg_conflicts := [], kg_assertions := [], kg_entities := []\<rparr>"

section \<open>Entities\<close>

definition clean_alias :: "string \<Rightarrow> string" where
  "clean_alias s = py_join '' '' (py_split (py_strip s))"

definition entity_id_of :: "string \<Rightarrow> py_dict \<Rightarrow> string result" where
  "entity_id_of name sc =
     res_bind (sha256_hex (VDict [(''name'', VStr (norm_key name)), (''scope'', VDict sc)]))
       (\<lambda>h. Inr (''ent_'' @ take 24 h))"

definition get_entity :: "string \<Rightarrow> kg \<Rightarrow> entity result" where
  "get_entity i k = (case tbl_find en_id i (kg_entities k) of None \<Rightarrow> Inl (KeyError i) | Some e \<Rightarrow> Inr e)"

text \<open>The row for a new entity, and what it becomes when the id is already filed.\<close>

definition merge_entity :: "entity \<Rightarrow> entity option \<Rightarrow> entity" where
  "merge_entity e found =
     (case found of
        None \<Rightarrow> e
      | Some old \<Rightarrow> e\<lparr>en_aliases := sorted_set (en_aliases old @ en_aliases e),
          en_sources := sorted_set (en_sources old @ en_sources e),
          en_updated_at := max (en_updated_at e) (en_updated_at old),
          en_confidence := max (en_confidence old) (en_confidence e),
          en_created_at := en_created_at old\<rparr>)"

definition upsert_entity ::
  "string \<Rightarrow> string \<Rightarrow> string list \<Rightarrow> py_dict \<Rightarrow> string option \<Rightarrow> real \<Rightarrow> real \<Rightarrow> string \<Rightarrow> (kg, entity) action" where
  "upsert_entity nm etype aliases sc src conf now status k =
     (let name = py_strip nm in
      if name = [] then (k, Inl (ValueError ''entity name is required''))
      else
        (case entity_id_of name sc of
           Inl err \<Rightarrow> (k, Inl err)
         | Inr i \<Rightarrow>
             (let e = \<lparr>en_id = i, en_name = name, en_type = (if etype = [] then ''entity'' else etype),
                    en_aliases = sorted_set (filter (\<lambda>s. s \<noteq> []) (map clean_alias aliases) @ [name]),
                    en_scope = canon_dict sc,
                    en_sources = (case src of None \<Rightarrow> [] | Some s \<Rightarrow> if s = [] then [] else [s]),
                    en_confidence = clamp01 conf, en_status = (if status = [] then ''active'' else status),
                    en_created_at = now, en_updated_at = now\<rparr>;
                  k' = k\<lparr>kg_entities := tbl_put en_id (merge_entity e (tbl_find en_id i (kg_entities k))) (kg_entities k)\<rparr>
              in (k', get_entity i k'))))"

section \<open>Assertions\<close>

text \<open>
  The digest an assertion's id is made of holds the bounds of its validity as the caller gave them, an \<open>int\<close> or a \<open>float\<close>;
  the row holds them as the \<open>REAL\<close> columns do.
\<close>

definition assertion_material :: "py_value \<times> py_value \<Rightarrow> assertion \<Rightarrow> py_value" where
  "assertion_material given a = VDict
    [(''subject'', VStr (norm_key (as_subject a))), (''predicate'', VStr (norm_key (as_predicate a))),
     (''object'', VStr (norm_key (as_object a))), (''source_memory_id'', VStr (as_memory_id a)),
     (''fact_id'', opt_str (as_fact_id a)), (''valid_from'', fst given), (''valid_to'', snd given)]"

definition assertion_id_given :: "py_value \<times> py_value \<Rightarrow> assertion \<Rightarrow> string result" where
  "assertion_id_given given a = res_bind (sha256_hex (assertion_material given a)) (\<lambda>h. Inr (''kg_'' @ take 24 h))"

text \<open>The id for bounds that are floats, as the ledger's facts have them.\<close>

definition float_bounds :: "assertion \<Rightarrow> py_value \<times> py_value" where
  "float_bounds a = (opt_real (as_valid_from a), opt_real (as_valid_to a))"

definition assertion_id_of :: "assertion \<Rightarrow> string result" where
  "assertion_id_of a = assertion_id_given (float_bounds a) a"

definition get_assertion :: "string \<Rightarrow> kg \<Rightarrow> assertion result" where
  "get_assertion i k = (case tbl_find as_id i (kg_assertions k) of None \<Rightarrow> Inl (KeyError i) | Some a \<Rightarrow> Inr a)"

definition assertion_relation :: "assertion \<Rightarrow> relation" where
  "assertion_relation a = \<lparr>rl_subject = as_subject a, rl_predicate = as_predicate a, rl_object = as_object a,
     rl_memory_id = as_memory_id a, rl_graph_name = [], rl_valid_from = as_valid_from a,
     rl_valid_to = as_valid_to a, rl_confidence = as_confidence a, rl_source = Some ''knowledge_graph'',
     rl_created_at = as_observed_at a\<rparr>"

definition supersedes_relation :: "assertion \<Rightarrow> string \<Rightarrow> relation" where
  "supersedes_relation a old = \<lparr>rl_subject = as_id a, rl_predicate = ''supersedes'', rl_object = old,
     rl_memory_id = as_memory_id a, rl_graph_name = [], rl_valid_from = None, rl_valid_to = None,
     rl_confidence = as_confidence a, rl_source = Some ''knowledge_graph'', rl_created_at = as_observed_at a\<rparr>"

definition index_assertion_graph :: "assertion \<Rightarrow> (graph, unit) action" where
  "index_assertion_graph a =
     act_bind (add_relation (Some (as_graph_name a)) (assertion_relation a)) (\<lambda>_.
     act_bind (act_each (\<lambda>old. add_relation (Some ''conflict'') (supersedes_relation a old)) (as_supersedes a)) (\<lambda>_.
       act_return ()))"

text \<open>The arguments of \<open>add_assertion\<close> come as a record whose ids, entities and status are not yet set.\<close>

definition clean_assertion :: "assertion \<Rightarrow> assertion" where
  "clean_assertion a = a\<lparr>as_subject := py_strip (as_subject a), as_predicate := py_strip (as_predicate a),
     as_object := py_strip (as_object a), as_memory_id := py_strip (as_memory_id a),
     as_object_kind := (if as_object_kind a = [] then ''entity'' else as_object_kind a),
     as_graph_name := (if as_graph_name a = [] then ''knowledge'' else as_graph_name a),
     as_confidence := clamp01 (as_confidence a),
     as_status := (if as_status a = [] then ''active'' else as_status a),
     as_supersedes := filter (\<lambda>s. s \<noteq> []) (as_supersedes a), as_superseded_by := None\<rparr>"

definition supersede_assertion :: "assertion \<Rightarrow> kg \<Rightarrow> string \<Rightarrow> kg" where
  "supersede_assertion a k old =
     k\<lparr>kg_assertions := map (\<lambda>x. if as_id x = old
           then x\<lparr>as_status := ''superseded'', as_superseded_by := Some (as_id a)\<rparr> else x) (kg_assertions k),
       kg_conflicts := tbl_put kc_key \<lparr>kc_superseding = as_id a, kc_superseded = old, kc_reason = as_reason a,
           kc_created_at = as_observed_at a\<rparr> (kg_conflicts k)\<rparr>"

definition write_assertion :: "assertion \<Rightarrow> kg \<Rightarrow> kg" where
  "write_assertion a k =
     foldl (supersede_assertion a)
       (k\<lparr>kg_assertions := tbl_put as_id (a\<lparr>as_scope := canon_dict (as_scope a)\<rparr>) (kg_assertions k)\<rparr>)
       (as_supersedes a)"

definition upsert_ends :: "assertion \<Rightarrow> (kg, string \<times> string option) action" where
  "upsert_ends a =
     act_bind (upsert_entity (as_subject a) ''subject'' [] (as_scope a) (Some (as_memory_id a)) (as_confidence a)
         (as_observed_at a) ''active'') (\<lambda>subj.
       if as_object_kind a = ''entity'' then
         act_bind (upsert_entity (as_object a) ''object'' [] (as_scope a) (Some (as_memory_id a)) (as_confidence a)
             (as_observed_at a) ''active'') (\<lambda>obj. act_return (en_id subj, Some (en_id obj)))
       else act_return (en_id subj, None))"

definition add_assertion_given :: "bool \<Rightarrow> py_value \<times> py_value \<Rightarrow> assertion \<Rightarrow> (graph \<times> kg, assertion) action" where
  "add_assertion_given linked given args w =
     (case w of (g, k) \<Rightarrow>
       (let a = clean_assertion args in
        if as_subject a = [] \<or> as_predicate a = [] \<or> as_object a = [] \<or> as_memory_id a = []
        then (w, Inl (ValueError ''subject, predicate, object, and source_memory_id are required''))
        else
          (case upsert_ends a k of
             (k1, Inl err) \<Rightarrow> ((g, k1), Inl err)
           | (k1, Inr (subj, obj)) \<Rightarrow>
               (case assertion_id_given given a of
                  Inl err \<Rightarrow> ((g, k1), Inl err)
                | Inr i \<Rightarrow>
                    (let r = a\<lparr>as_id := i, as_subject_entity := subj, as_object_entity := obj\<rparr>;
                         k2 = write_assertion r k1
                     in (case (if linked then index_assertion_graph r g else (g, Inr ())) of
                           (g', Inl err) \<Rightarrow> ((g', k2), Inl err)
                         | (g', Inr _) \<Rightarrow> ((g', k2), get_assertion i k2)))))))"

definition add_assertion :: "bool \<Rightarrow> assertion \<Rightarrow> (graph \<times> kg, assertion) action" where
  "add_assertion linked a = add_assertion_given linked (float_bounds a) a"

definition assertion_ids_for_facts :: "string list \<Rightarrow> kg \<Rightarrow> string list" where
  "assertion_ids_for_facts fact_ids k =
     (let ids = filter (\<lambda>i. i \<noteq> []) fact_ids in
      if ids = [] then []
      else map as_id (sort_key as_observed_at
             (filter (\<lambda>a. case as_fact_id a of None \<Rightarrow> False | Some i \<Rightarrow> i \<in> set ids) (kg_assertions k))))"

definition fact_assertion :: "fact \<Rightarrow> string list \<Rightarrow> assertion" where
  "fact_assertion f olds =
     \<lparr>as_id = [], as_subject = fc_subject f, as_predicate = fc_predicate f, as_object = fc_object f,
      as_memory_id = fc_memory_id f, as_subject_entity = [], as_object_entity = None, as_object_kind = ''literal'',
      as_fact_id = Some (fc_id f), as_scope = fc_scope f, as_graph_name = ''knowledge'',
      as_valid_from = fc_valid_from f, as_valid_to = fc_valid_to f, as_observed_at = fc_created_at f,
      as_confidence = fc_confidence f, as_status = fc_status f,
      as_reason = (if fc_reason f = [] then ''fact_ledger'' else fc_reason f), as_supersedes = olds,
      as_superseded_by = None\<rparr>"

definition index_fact :: "bool \<Rightarrow> fact \<Rightarrow> (graph \<times> kg, assertion) action" where
  "index_fact linked f w =
     add_assertion linked (fact_assertion f (assertion_ids_for_facts (fc_supersedes f) (snd w))) w"

definition assertion_of_item :: "envelope \<Rightarrow> py_dict \<Rightarrow> assertion result" where
  "assertion_of_item e d =
     res_bind (read_updated (d_get d ''valid_from'')) (\<lambda>vf.
     res_bind (read_updated (d_get d ''valid_to'')) (\<lambda>vt.
     res_bind (case d_get d ''confidence'' of None \<Rightarrow> Inr (confidence e) | Some v \<Rightarrow> py_float v) (\<lambda>c.
       Inr \<lparr>as_id = [], as_subject = item_str d ''subject'', as_predicate = item_str d ''predicate'',
         as_object = item_str d ''object'', as_memory_id = env_id e, as_subject_entity = [], as_object_entity = None,
         as_object_kind = ''entity'', as_fact_id = None, as_scope = scope e, as_graph_name = ''knowledge'',
         as_valid_from = vf, as_valid_to = vt, as_observed_at = created_at e, as_confidence = c,
         as_status = ''active'', as_reason = ''memory_relation'', as_supersedes = [], as_superseded_by = None\<rparr>)))"

definition given_bounds :: "py_dict \<Rightarrow> py_value \<times> py_value" where
  "given_bounds d = (d_or (d_get d ''valid_from''), d_or (d_get d ''valid_to''))"

definition kg_index_memory :: "bool \<Rightarrow> envelope \<Rightarrow> (graph \<times> kg, assertion list) action" where
  "kg_index_memory linked e =
     act_each (\<lambda>d w. case assertion_of_item e d of Inl err \<Rightarrow> (w, Inl err) | Inr a \<Rightarrow> add_assertion_given linked (given_bounds d) a w)
       (relations e)"

section \<open>Queries\<close>

definition assertion_rank :: "assertion \<Rightarrow> real \<times> real" where
  "assertion_rank a = (as_confidence a, as_observed_at a)"

definition opt_norm_match :: "string option \<Rightarrow> string \<Rightarrow> bool" where
  "opt_norm_match x s = (case x of None \<Rightarrow> True | Some v \<Rightarrow> norm_key s = norm_key v)"

text \<open>The \<open>WHERE\<close> clauses; a list of memory ids that is empty once blanks are dropped adds none.\<close>

definition assertion_where ::
  "string option \<Rightarrow> string option \<Rightarrow> string option \<Rightarrow> string option \<Rightarrow> real option \<Rightarrow> string list \<Rightarrow> assertion \<Rightarrow> bool" where
  "assertion_where subj pred obj status at_time memory_ids a =
     ((case status of None \<Rightarrow> True | Some s \<Rightarrow> s = [] \<or> as_status a = s)
      \<and> opt_norm_match subj (as_subject a) \<and> opt_norm_match pred (as_predicate a) \<and> opt_norm_match obj (as_object a)
      \<and> (let ids = filter (\<lambda>i. i \<noteq> []) memory_ids in ids = [] \<or> as_memory_id a \<in> set ids)
      \<and> date_active (as_valid_from a) (as_valid_to a) at_time)"

definition kg_query ::
  "string option \<Rightarrow> string option \<Rightarrow> string option \<Rightarrow> py_dict \<Rightarrow> string option \<Rightarrow> real option \<Rightarrow> string list
    \<Rightarrow> int option \<Rightarrow> kg \<Rightarrow> assertion list" where
  "kg_query subj pred obj sc status at_time memory_ids limit k =
     (let rows = sort_desc assertion_rank
            (filter (assertion_where subj pred obj status at_time memory_ids) (kg_assertions k));
          cut = (case limit of None \<Rightarrow> rows | Some n \<Rightarrow> sql_limit (max (n * 4) n) rows);
          matched = filter (\<lambda>a. scope_matches sc (as_scope a)) cut
      in case limit of None \<Rightarrow> matched | Some n \<Rightarrow> py_take n matched)"

definition assertions_for_memory :: "string \<Rightarrow> kg \<Rightarrow> assertion list" where
  "assertions_for_memory i k = kg_query None None None [] None None [i] None k"

record knowledge_summary =
  ks_memory_ids :: "string list"
  ks_entities :: "entity list"
  ks_assertions :: "assertion list"

definition entity_ids_of :: "assertion list \<Rightarrow> string list" where
  "entity_ids_of as = sorted_set (filter (\<lambda>i. i \<noteq> []) (map as_subject_entity as
     @ concat (map (\<lambda>a. case as_object_entity a of None \<Rightarrow> [] | Some i \<Rightarrow> [i]) as)))"

definition summary_for_memories :: "string list \<Rightarrow> py_dict \<Rightarrow> real option \<Rightarrow> int \<Rightarrow> kg \<Rightarrow> knowledge_summary" where
  "summary_for_memories memory_ids sc at_time limit k =
     (let ids = filter (\<lambda>i. i \<noteq> []) (dedupe memory_ids);
          as = kg_query None None None sc (Some ''active'') at_time ids (Some limit) k;
          es = concat (map (\<lambda>i. case get_entity i k of Inl _ \<Rightarrow> [] | Inr e \<Rightarrow> if scope_matches sc (en_scope e) then [e] else [])
                 (py_take limit (entity_ids_of as)))
      in \<lparr>ks_memory_ids = ids, ks_entities = es, ks_assertions = as\<rparr>)"

definition summary_to_dict :: "knowledge_summary \<Rightarrow> py_dict" where
  "summary_to_dict s =
    [(''format'', VStr ''living-memoryv2/knowledge-context-1''), (''memory_ids'', str_list (ks_memory_ids s)),
     (''entity_count'', VInt (int (length (ks_entities s)))), (''assertion_count'', VInt (int (length (ks_assertions s)))),
     (''entities'', VList (map (\<lambda>e. VDict (entity_to_dict e)) (ks_entities s))),
     (''assertions'', VList (map (\<lambda>a. VDict (assertion_to_dict a)) (ks_assertions s)))]"

definition kg_count :: "kg \<Rightarrow> int \<times> int \<times> int" where
  "kg_count k = (int (length (kg_entities k)), int (length (kg_assertions k)),
     int (length (filter (\<lambda>a. as_status a = ''active'') (kg_assertions k))))"

section \<open>The tables' invariant\<close>

interpretation kg_entity_rows: checked_table "tbl_find en_id" "tbl_put en_id" en_id "tbl_ok en_id"
    "\<lambda>rows. en_id ` set rows"
  by (rule checked_table_rows)

interpretation kg_assertion_rows: checked_table "tbl_find as_id" "tbl_put as_id" as_id "tbl_ok as_id"
    "\<lambda>rows. as_id ` set rows"
  by (rule checked_table_rows)

interpretation kg_conflict_rows: checked_table "tbl_find kc_key" "tbl_put kc_key" kc_key "tbl_ok kc_key"
    "\<lambda>rows. kc_key ` set rows"
  by (rule checked_table_rows)

definition entity_ok :: "entity \<Rightarrow> bool" where
  "entity_ok e =
     (entity_id_of (en_name e) (en_scope e) = Inr (en_id e) \<and> en_name e \<noteq> [] \<and> en_name e \<in> set (en_aliases e)
      \<and> sorted (en_aliases e) \<and> distinct (en_aliases e) \<and> sorted (en_sources e) \<and> distinct (en_sources e)
      \<and> 0 \<le> en_confidence e \<and> en_confidence e \<le> 1 \<and> en_created_at e \<le> en_updated_at e)"

text \<open>An assertion names entities that are filed, its subject the one its own text and scope name.\<close>

definition assertion_ok :: "string set \<Rightarrow> (string \<times> string) set \<Rightarrow> assertion \<Rightarrow> bool" where
  "assertion_ok ids cs a =
     (0 \<le> as_confidence a \<and> as_confidence a \<le> 1 \<and> as_subject a \<noteq> [] \<and> as_predicate a \<noteq> [] \<and> as_object a \<noteq> []
      \<and> as_memory_id a \<noteq> [] \<and> py_strip (as_id a) \<noteq> [] \<and> as_subject_entity a \<in> ids
      \<and> entity_id_of (as_subject a) (as_scope a) = Inr (as_subject_entity a)
      \<and> (as_object_kind a = ''entity'' \<longleftrightarrow> as_object_entity a \<noteq> None)
      \<and> (\<forall>i. as_object_entity a = Some i \<longrightarrow> i \<in> ids \<and> entity_id_of (as_object a) (as_scope a) = Inr i)
      \<and> (\<forall>new. as_superseded_by a = Some new \<longrightarrow> as_status a = ''superseded'' \<and> (new, as_id a) \<in> cs))"

definition kg_ok :: "kg \<Rightarrow> bool" where
  "kg_ok k =
     (tbl_ok en_id (kg_entities k) \<and> tbl_ok as_id (kg_assertions k) \<and> tbl_ok kc_key (kg_conflicts k)
      \<and> list_all entity_ok (kg_entities k)
      \<and> list_all (assertion_ok (en_id ` set (kg_entities k)) (kc_key ` set (kg_conflicts k))) (kg_assertions k))"

lemma kg_ok_empty [simp]: "kg_ok kg_empty"
  by (simp add: kg_ok_def kg_empty_def)

lemma kg_ok_clear [simp]: "kg_ok (kg_clear k)"
  by (simp add: kg_ok_def kg_clear_def)

lemma assertion_ok_mono:
  "assertion_ok ids cs a \<Longrightarrow> ids \<subseteq> ids' \<Longrightarrow> cs \<subseteq> cs' \<Longrightarrow> assertion_ok ids' cs' a"
  unfolding assertion_ok_def by blast

lemma assertion_id_nonblank: "assertion_id_given given a = Inr i \<Longrightarrow> py_strip i \<noteq> []"
  by (auto simp: assertion_id_given_def res_bind_eq_Inr py_strip_eq_Nil is_space_def)

lemma entity_id_of_canon [simp]: "entity_id_of nm (canon_dict sc) = entity_id_of nm sc"
proof -
  have "canon (VDict [(''name'', VStr (norm_key nm)), (''scope'', VDict (canon_dict sc))])
      = canon (VDict [(''name'', VStr (norm_key nm)), (''scope'', VDict sc)])"
    by (rule canon_VDict_cong) (simp del: canon.simps(2))
  then show ?thesis
    unfolding entity_id_of_def by (metis sha256_hex_canon)
qed

lemma entity_id_of_strip [simp]: "entity_id_of (py_strip nm) sc = entity_id_of nm sc"
  by (simp add: entity_id_of_def)

lemma merge_entity_id [simp]: "en_id (merge_entity e x) = en_id e"
  by (simp add: merge_entity_def split: option.split)

lemma merge_entity_ok:
  assumes "entity_ok e" "\<And>old. x = Some old \<Longrightarrow> entity_ok old"
  shows "entity_ok (merge_entity e x)"
proof (cases x)
  case None
  then show ?thesis using assms by (simp add: merge_entity_def)
next
  case (Some old)
  then show ?thesis using assms(1) assms(2) [OF Some] by (auto simp: merge_entity_def entity_ok_def max_def)
qed

lemma upsert_entity_Inl: "upsert_entity nm ty al sc src conf now st k = (k', Inl err) \<Longrightarrow> kg_ok k \<Longrightarrow> k' = k"
  by (auto simp: upsert_entity_def Let_def get_entity_def tbl_find_put simp del: jsonable.simps
      split: if_splits sum.splits option.splits)

lemma upsert_entity_Inr:
  assumes "upsert_entity nm ty al sc src conf now st k = (k', Inr e)" "kg_ok k"
  shows "k' = k\<lparr>kg_entities := tbl_put en_id e (kg_entities k)\<rparr>" "entity_ok e"
    "entity_id_of nm sc = Inr (en_id e)" "py_strip nm \<noteq> []"
proof -
  obtain i where i: "entity_id_of nm sc = Inr i" and n: "py_strip nm \<noteq> []"
    using assms(1) by (cases "entity_id_of nm sc") (auto simp: upsert_entity_def Let_def split: if_splits)
  let ?new = "\<lparr>en_id = i, en_name = py_strip nm, en_type = (if ty = [] then ''entity'' else ty),
     en_aliases = sorted_set (filter (\<lambda>s. s \<noteq> []) (map clean_alias al) @ [py_strip nm]), en_scope = canon_dict sc,
     en_sources = (case src of None \<Rightarrow> [] | Some s \<Rightarrow> if s = [] then [] else [s]), en_confidence = clamp01 conf,
     en_status = (if st = [] then ''active'' else st), en_created_at = now, en_updated_at = now\<rparr>"
  let ?e = "merge_entity ?new (tbl_find en_id i (kg_entities k))"
  have e: "e = ?e" and k': "k' = k\<lparr>kg_entities := tbl_put en_id ?e (kg_entities k)\<rparr>"
    using assms(1) by (auto simp: upsert_entity_def Let_def i n get_entity_def tbl_find_put simp del: sorted_set_def)
  have new: "entity_ok ?new"
    using n i by (auto simp: entity_ok_def split: option.split)
  have old: "entity_ok old" if "tbl_find en_id i (kg_entities k) = Some old" for old
    using assms(2) tbl_find_SomeD [OF that] by (simp add: kg_ok_def list_all_iff)
  show "k' = k\<lparr>kg_entities := tbl_put en_id e (kg_entities k)\<rparr>" unfolding e by (rule k')
  show "entity_ok e" unfolding e using new old by (rule merge_entity_ok)
  show "entity_id_of nm sc = Inr (en_id e)" unfolding e by (simp add: i)
  show "py_strip nm \<noteq> []" by (rule n)
qed

lemma kg_ok_put_entity:
  assumes "kg_ok k" "entity_ok e"
  shows "kg_ok (k\<lparr>kg_entities := tbl_put en_id e (kg_entities k)\<rparr>)"
proof -
  let ?es = "tbl_put en_id e (kg_entities k)"
  have "assertion_ok (en_id ` set ?es) (kc_key ` set (kg_conflicts k)) a" if "a \<in> set (kg_assertions k)" for a
    by (rule assertion_ok_mono [of "en_id ` set (kg_entities k)" "kc_key ` set (kg_conflicts k)"])
      (use assms(1) that in \<open>auto simp: kg_ok_def list_all_iff kg_entity_rows.keys_put\<close>)
  moreover have "list_all entity_ok ?es"
    using assms set_tbl_put [of en_id e "kg_entities k"] by (auto simp: kg_ok_def list_all_iff)
  ultimately show ?thesis using assms(1) by (simp add: kg_ok_def list_all_iff kg_entity_rows.ok_put)
qed

lemma upsert_entity_ok: "kg_ok k \<Longrightarrow> kg_ok (fst (upsert_entity nm ty al sc src conf now st k))"
proof (cases "upsert_entity nm ty al sc src conf now st k")
  case (Pair k' x)
  assume k: "kg_ok k"
  show ?thesis
  proof (cases x)
    case (Inl err)
    then show ?thesis using upsert_entity_Inl [of nm ty al sc src conf now st k k'] Pair k by auto
  next
    case (Inr e)
    then show ?thesis
      using upsert_entity_Inr(1,2) [of nm ty al sc src conf now st k k' e] Pair k kg_ok_put_entity by auto
  qed
qed

text \<open>The two entities of an assertion: filed, and never removed.\<close>

lemma upsert_ends_step:
  assumes "kg_ok k" "upsert_ends a k = (k', x)"
  shows "kg_ok k' \<and> kg_assertions k' = kg_assertions k \<and> kg_conflicts k' = kg_conflicts k
    \<and> en_id ` set (kg_entities k) \<subseteq> en_id ` set (kg_entities k')
    \<and> (\<forall>subj obj. x = Inr (subj, obj) \<longrightarrow> entity_id_of (as_subject a) (as_scope a) = Inr subj
         \<and> subj \<in> en_id ` set (kg_entities k') \<and> (as_object_kind a = ''entity'' \<longleftrightarrow> obj \<noteq> None)
         \<and> (\<forall>i. obj = Some i \<longrightarrow> entity_id_of (as_object a) (as_scope a) = Inr i \<and> i \<in> en_id ` set (kg_entities k')))"
proof -
  let ?up = "\<lambda>nm ty. upsert_entity nm ty [] (as_scope a) (Some (as_memory_id a)) (as_confidence a) (as_observed_at a) ''active''"
  obtain k1 y where s: "?up (as_subject a) ''subject'' k = (k1, y)" by fastforce
  show ?thesis
  proof (cases y)
    case (Inl err)
    then have "k1 = k" using upsert_entity_Inl s assms(1) by blast
    then show ?thesis using assms s Inl by (auto simp: upsert_ends_def act_bind_def)
  next
    case (Inr e)
    then have s': "?up (as_subject a) ''subject'' k = (k1, Inr e)" using s by simp
    note e = upsert_entity_Inr [OF s' assms(1)]
    have ok1: "kg_ok k1" unfolding e(1) by (rule kg_ok_put_entity [OF assms(1) e(2)])
    have ids: "en_id ` set (kg_entities k1) = insert (en_id e) (en_id ` set (kg_entities k))"
      by (simp add: e(1) kg_entity_rows.keys_put)
    show ?thesis
    proof (cases "as_object_kind a = ''entity''")
      case False
      then have "k' = k1" "x = Inr (en_id e, None)"
        using assms(2) s' by (simp_all add: upsert_ends_def act_bind_def act_return_def)
      then show ?thesis using ok1 ids e(1,3) False by auto
    next
      case True
      obtain k2 z where t: "?up (as_object a) ''object'' k1 = (k2, z)" by fastforce
      show ?thesis
      proof (cases z)
        case (Inl err)
        then have "k2 = k1" using upsert_entity_Inl t ok1 by blast
        then have "k' = k1" "x = Inl err" using assms(2) s' t Inl True by (simp_all add: upsert_ends_def act_bind_def)
        then show ?thesis using ok1 ids e(1) by auto
      next
        case (Inr o')
        then have t': "?up (as_object a) ''object'' k1 = (k2, Inr o')" using t by simp
        note o = upsert_entity_Inr [OF t' ok1]
        have "kg_ok k2" unfolding o(1) by (rule kg_ok_put_entity [OF ok1 o(2)])
        moreover have "k' = k2" "x = Inr (en_id e, Some (en_id o'))"
          using assms(2) s' t' True by (simp_all add: upsert_ends_def act_bind_def act_return_def)
        moreover have "en_id ` set (kg_entities k2) = insert (en_id o') (en_id ` set (kg_entities k1))"
          by (simp add: o(1) kg_entity_rows.keys_put)
        ultimately show ?thesis using ids e(1,3) o(1,3) True by auto
      qed
    qed
  qed
qed

definition kg_superseded_by :: "string \<Rightarrow> assertion \<Rightarrow> assertion" where
  "kg_superseded_by new a = a\<lparr>as_status := ''superseded'', as_superseded_by := Some new\<rparr>"

lemma conflict_keys_step:
  "kc_key ` set (kg_conflicts (supersede_assertion a k old)) = insert (as_id a, old) (kc_key ` set (kg_conflicts k))"
proof -
  have "kc_key \<lparr>kc_superseding = as_id a, kc_superseded = old, kc_reason = as_reason a,
      kc_created_at = as_observed_at a\<rparr> = (as_id a, old)"
    by (simp add: kc_key_def)
  then show ?thesis by (simp add: supersede_assertion_def kg_conflict_rows.keys_put)
qed

lemma supersede_assertions_effect:
  "kg_entities (foldl (supersede_assertion a) k olds) = kg_entities k"
  "kg_assertions (foldl (supersede_assertion a) k olds) =
     map (\<lambda>x. if as_id x \<in> set olds then kg_superseded_by (as_id a) x else x) (kg_assertions k)"
  "kc_key ` set (kg_conflicts (foldl (supersede_assertion a) k olds)) =
     (\<lambda>old. (as_id a, old)) ` set olds \<union> kc_key ` set (kg_conflicts k)"
  "tbl_ok kc_key (kg_conflicts k) \<Longrightarrow> tbl_ok kc_key (kg_conflicts (foldl (supersede_assertion a) k olds))"
proof (induction olds arbitrary: k)
  case Nil
  {
    case 1
    then show ?case by simp
  next
    case 2
    then show ?case by simp
  next
    case 3
    then show ?case by simp
  next
    case 4
    then show ?case by simp
  }
next
  case (Cons old olds)
  {
    case 1
    then show ?case by (simp add: Cons.IH(1)) (simp add: supersede_assertion_def)
  next
    case 2
    then show ?case
      by (simp add: Cons.IH(2)) (auto simp: supersede_assertion_def kg_superseded_by_def)
  next
    case 3
    then show ?case
      by (simp add: Cons.IH(3) conflict_keys_step)
  next
    case 4
    have "tbl_ok kc_key (kg_conflicts (supersede_assertion a k old))"
      unfolding supersede_assertion_def using 4 by (simp add: kg_conflict_rows.ok_put)
    then show ?case by (simp add: Cons.IH(4))
  }
qed

lemma write_assertion_effect:
  "kg_entities (write_assertion a k) = kg_entities k"
  "tbl_find as_id i (kg_assertions (write_assertion a k)) =
     map_option (\<lambda>x. if i \<in> set (as_supersedes a) then kg_superseded_by (as_id a) x else x)
       (if i = as_id a then Some (a\<lparr>as_scope := canon_dict (as_scope a)\<rparr>) else tbl_find as_id i (kg_assertions k))"
  "kc_key ` set (kg_conflicts (write_assertion a k)) =
     (\<lambda>old. (as_id a, old)) ` set (as_supersedes a) \<union> kc_key ` set (kg_conflicts k)"
proof -
  let ?put = "tbl_put as_id (a\<lparr>as_scope := canon_dict (as_scope a)\<rparr>) (kg_assertions k)"
  let ?f = "\<lambda>x. if as_id x \<in> set (as_supersedes a) then kg_superseded_by (as_id a) x else x"
  show "kg_entities (write_assertion a k) = kg_entities k"
    by (simp add: write_assertion_def supersede_assertions_effect(1))
  show "kc_key ` set (kg_conflicts (write_assertion a k)) =
     (\<lambda>old. (as_id a, old)) ` set (as_supersedes a) \<union> kc_key ` set (kg_conflicts k)"
    by (simp add: write_assertion_def supersede_assertions_effect(3))
  have "tbl_find as_id i (map ?f ?put) = map_option ?f (tbl_find as_id i ?put)"
    by (rule tbl_find_map) (simp add: kg_superseded_by_def)
  also have "\<dots> = map_option (\<lambda>x. if i \<in> set (as_supersedes a) then kg_superseded_by (as_id a) x else x)
       (tbl_find as_id i ?put)"
    using tbl_find_SomeD [of as_id i ?put] by (cases "tbl_find as_id i ?put") auto
  finally show "tbl_find as_id i (kg_assertions (write_assertion a k)) =
     map_option (\<lambda>x. if i \<in> set (as_supersedes a) then kg_superseded_by (as_id a) x else x)
       (if i = as_id a then Some (a\<lparr>as_scope := canon_dict (as_scope a)\<rparr>) else tbl_find as_id i (kg_assertions k))"
    by (simp add: write_assertion_def supersede_assertions_effect(2) tbl_find_put)
qed

lemma write_assertion_ok:
  assumes "kg_ok k" "assertion_ok (en_id ` set (kg_entities k)) (kc_key ` set (kg_conflicts k)) a"
  shows "kg_ok (write_assertion a k)"
proof -
  let ?k = "write_assertion a k"
  let ?put = "tbl_put as_id (a\<lparr>as_scope := canon_dict (as_scope a)\<rparr>) (kg_assertions k)"
  let ?f = "\<lambda>x. if as_id x \<in> set (as_supersedes a) then kg_superseded_by (as_id a) x else x"
  let ?ids = "en_id ` set (kg_entities k)" and ?cs = "kc_key ` set (kg_conflicts ?k)"
  note e = write_assertion_effect [where a = a and k = k]
  have rows: "kg_assertions ?k = map ?f ?put" by (simp add: write_assertion_def supersede_assertions_effect(2))
  have a': "assertion_ok ?ids (kc_key ` set (kg_conflicts k)) (a\<lparr>as_scope := canon_dict (as_scope a)\<rparr>)"
    using assms(2) by (simp add: assertion_ok_def)
  have "assertion_ok ?ids ?cs x" if x: "x \<in> set (kg_assertions ?k)" for x
  proof -
    obtain y where y: "y \<in> set ?put" "x = ?f y" using x unfolding rows by auto
    have "y = a\<lparr>as_scope := canon_dict (as_scope a)\<rparr> \<or> y \<in> set (kg_assertions k)"
      using y(1) set_tbl_put by fastforce
    then have "assertion_ok ?ids (kc_key ` set (kg_conflicts k)) y"
      using a' assms(1) by (auto simp: kg_ok_def list_all_iff)
    then have ok: "assertion_ok ?ids ?cs y" by (rule assertion_ok_mono) (auto simp: e(3))
    show ?thesis
    proof (cases "as_id y \<in> set (as_supersedes a)")
      case True
      then have "(as_id a, as_id y) \<in> ?cs" by (simp add: e(3))
      then show ?thesis using ok True unfolding y(2) assertion_ok_def by (simp add: kg_superseded_by_def)
    next
      case False
      then show ?thesis using ok y(2) by simp
    qed
  qed
  moreover have "tbl_ok as_id (kg_assertions ?k)"
    unfolding rows using assms(1) by (subst tbl_ok_map) (auto simp: kg_superseded_by_def kg_ok_def)
  moreover have "tbl_ok kc_key (kg_conflicts ?k)"
    using assms(1) by (simp add: write_assertion_def supersede_assertions_effect(4) kg_ok_def)
  ultimately show ?thesis using assms(1) by (simp add: kg_ok_def e(1) list_all_iff)
qed

text \<open>What one call of \<open>add_assertion\<close> does, raising or not.\<close>

definition cleaned_ok :: "assertion \<Rightarrow> bool" where
  "cleaned_ok a = (as_subject a \<noteq> [] \<and> as_predicate a \<noteq> [] \<and> as_object a \<noteq> [] \<and> as_memory_id a \<noteq> [])"

lemma add_assertion_given_cases [consumes 1, case_names refused half written]:
  assumes "add_assertion_given linked given args (g, k) = ((g', k'), x)"
  obtains err where "\<not> cleaned_ok (clean_assertion args)" "g' = g" "k' = k" "x = Inl err"
  | err y where "cleaned_ok (clean_assertion args)" "upsert_ends (clean_assertion args) k = (k', y)" "g' = g" "x = Inl err"
  | k1 subj obj i r z where "cleaned_ok (clean_assertion args)"
      "upsert_ends (clean_assertion args) k = (k1, Inr (subj, obj))"
      "assertion_id_given given (clean_assertion args) = Inr i"
      "r = (clean_assertion args)\<lparr>as_id := i, as_subject_entity := subj, as_object_entity := obj\<rparr>"
      "k' = write_assertion r k1" "(if linked then index_assertion_graph r g else (g, Inr ())) = (g', z)"
      "x = (case z of Inl err \<Rightarrow> Inl err | Inr _ \<Rightarrow> get_assertion i k')"
proof (cases "cleaned_ok (clean_assertion args)")
  case False
  then show ?thesis using assms that(1) by (auto simp: add_assertion_given_def Let_def cleaned_ok_def)
next
  case ok: True
  let ?a = "clean_assertion args"
  obtain k1 y where u: "upsert_ends ?a k = (k1, y)" by fastforce
  show ?thesis
  proof (cases y)
    case (Inl err)
    then show ?thesis using assms ok u that(2) by (auto simp: add_assertion_given_def Let_def cleaned_ok_def)
  next
    case (Inr p)
    obtain subj obj where p: "p = (subj, obj)" by fastforce
    show ?thesis
    proof (cases "assertion_id_given given ?a")
      case (Inl err)
      then have "((g', k'), x) = ((g, k1), Inl err)"
        using assms ok u Inr p by (auto simp: add_assertion_given_def Let_def cleaned_ok_def)
      then show ?thesis using that(2) [OF ok] u by auto
    next
      case i: (Inr i)
      let ?r = "?a\<lparr>as_id := i, as_subject_entity := subj, as_object_entity := obj\<rparr>"
      obtain g2 z where z: "(if linked then index_assertion_graph ?r g else (g, Inr ())) = (g2, z)" by fastforce
      have "add_assertion_given linked given args (g, k) = (case z of Inl err \<Rightarrow> ((g2, write_assertion ?r k1), Inl err)
          | Inr _ \<Rightarrow> ((g2, write_assertion ?r k1), get_assertion i (write_assertion ?r k1)))"
        unfolding add_assertion_given_def using ok u Inr p i z by (simp add: Let_def cleaned_ok_def split: sum.split)
      then have "g' = g2" "k' = write_assertion ?r k1"
        "x = (case z of Inl err \<Rightarrow> Inl err | Inr _ \<Rightarrow> get_assertion i (write_assertion ?r k1))"
        using assms by (auto split: sum.splits)
      then show ?thesis using that(3) [OF ok _ i refl] u Inr p z by auto
    qed
  qed
qed

lemma assertion_id_clean: "assertion_id_given (float_bounds a) (clean_assertion a) = assertion_id_of (clean_assertion a)"
  by (simp add: assertion_id_of_def float_bounds_def clean_assertion_def)

lemma index_assertion_graph_ok: "graph_ok g \<Longrightarrow> graph_ok (fst (index_assertion_graph a g))"
proof -
  assume g: "graph_ok g"
  obtain g1 x where 1: "add_relation (Some (as_graph_name a)) (assertion_relation a) g = (g1, x)" by fastforce
  then have ok1: "graph_ok g1" using add_relation_graph_ok [OF g] by (metis fst_conv)
  have "graph_ok (fst (act_each (\<lambda>old. add_relation (Some ''conflict'') (supersedes_relation a old)) (as_supersedes a) g1))"
    by (rule act_each_invariant [where I = graph_ok]) (use ok1 add_relation_graph_ok in auto)
  then show ?thesis
    using ok1 by (auto simp: index_assertion_graph_def act_bind_def act_return_def 1 split: sum.split prod.split)
qed

lemma cleaned_range: "0 \<le> as_confidence (clean_assertion a)" "as_confidence (clean_assertion a) \<le> 1"
    "as_superseded_by (clean_assertion a) = None"
  by (simp_all add: clean_assertion_def clamp01_def)

lemma add_assertion_given_keeps:
  assumes "graph_ok g" "kg_ok k" "add_assertion_given linked given args (g, k) = ((g', k'), x)"
  shows "graph_ok g' \<and> kg_ok k'"
  using assms(3)
proof (cases rule: add_assertion_given_cases)
  case (refused err)
  then show ?thesis using assms by simp
next
  case (half err y)
  then show ?thesis using assms upsert_ends_step [OF assms(2)] by blast
next
  case (written k1 subj obj i r z)
  note u = upsert_ends_step [OF assms(2) written(2)]
  have "graph_ok g'"
    using written(6) index_assertion_graph_ok [OF assms(1), of r] assms(1) by (auto split: if_splits)
  moreover have "assertion_ok (en_id ` set (kg_entities k1)) (kc_key ` set (kg_conflicts k1)) r"
    using u written(1) cleaned_range [of args] assertion_id_nonblank [OF written(3)] unfolding written(4) by (auto simp: assertion_ok_def cleaned_ok_def)
  then have "kg_ok k'" unfolding written(5) using u by (intro write_assertion_ok) auto
  ultimately show ?thesis by simp
qed

lemma add_assertion_given_invariant:
  "graph_ok (fst w) \<and> kg_ok (snd w) \<Longrightarrow>
     graph_ok (fst (fst (add_assertion_given linked given a w))) \<and> kg_ok (snd (fst (add_assertion_given linked given a w)))"
  by (cases w; cases "add_assertion_given linked given a w") (metis add_assertion_given_keeps fst_conv snd_conv surj_pair)

lemma add_assertion_invariant:
  "graph_ok (fst w) \<and> kg_ok (snd w) \<Longrightarrow>
     graph_ok (fst (fst (add_assertion linked a w))) \<and> kg_ok (snd (fst (add_assertion linked a w)))"
  unfolding add_assertion_def by (rule add_assertion_given_invariant)

text \<open>The ledger's listener: its calls keep both tables well formed.\<close>

interpretation knowledge_listener: fact_listener "index_fact linked" "\<lambda>w. graph_ok (fst w) \<and> kg_ok (snd w)"
  for linked
proof unfold_locales
  fix s f
  assume "graph_ok (fst s) \<and> kg_ok (snd s)"
  then show "graph_ok (fst (fst (index_fact linked f s))) \<and> kg_ok (snd (fst (index_fact linked f s)))"
    unfolding index_fact_def by (rule add_assertion_invariant)
next
  fix n r and g :: graph and k :: kg
  assume "graph_ok (fst (g, k)) \<and> kg_ok (snd (g, k))"
  then show "graph_ok (fst (fst (add_relation n r g), k)) \<and> kg_ok (snd (fst (add_relation n r g), k))"
    by (simp add: add_relation_graph_ok)
qed

lemma kg_index_memory_keeps:
  "graph_ok (fst w) \<and> kg_ok (snd w) \<Longrightarrow>
     graph_ok (fst (fst (kg_index_memory linked e w))) \<and> kg_ok (snd (fst (kg_index_memory linked e w)))"
  unfolding kg_index_memory_def
  by (rule act_each_invariant [where I = "\<lambda>w. graph_ok (fst w) \<and> kg_ok (snd w)"])
    (auto simp: add_assertion_given_invariant split: sum.split)

text \<open>
  Adding an assertion, indexing a memory and indexing a fact keep both the relations and the
  knowledge tables well formed, whether or not the call raises: every assertion names filed entities that
  are those of its text and scope, scores stay in \<open>[0, 1]\<close>, and a successor is recorded as a conflict.
\<close>

theorem knowledge_invariant:
  assumes "graph_ok g" "kg_ok k"
  shows "(\<lambda>(w, x). graph_ok (fst w) \<and> kg_ok (snd w)) (add_assertion linked a (g, k))
    \<and> (\<lambda>(w, x). graph_ok (fst w) \<and> kg_ok (snd w)) (kg_index_memory linked e (g, k))
    \<and> (\<lambda>(w, x). graph_ok (fst w) \<and> kg_ok (snd w)) (index_fact linked f (g, k))"
  using add_assertion_invariant [of "(g, k)" linked a] kg_index_memory_keeps [of "(g, k)" linked e]
    knowledge_listener.notify_keeps [of "(g, k)" linked f] assms
  by (simp add: case_prod_beta)

lemma knowledge_invariant_witness:
  "kg_ok (snd (fst (index_fact True (demo_fact ''Porto'' []) ([], kg_empty))))"
  using knowledge_invariant [of "[]" kg_empty True undefined undefined "demo_fact ''Porto'' []"]
  by (simp add: case_prod_beta)

section \<open>The ledger and its mirror\<close>

text \<open>An assertion is written and found when its fields are given, its scope is JSON and the graph takes it.\<close>

lemma entity_id_of_json: "jsonable (VDict sc) \<Longrightarrow> \<exists>i. entity_id_of nm sc = Inr i"
proof -
  assume "jsonable (VDict sc)"
  then have "jsonable (VDict [(''name'', VStr (norm_key nm)), (''scope'', VDict sc)])" by simp
  then obtain h where "sha256_hex (VDict [(''name'', VStr (norm_key nm)), (''scope'', VDict sc)]) = Inr h"
    using sha256_hex_jsonable by blast
  then show ?thesis by (simp add: entity_id_of_def)
qed

lemma upsert_entity_total:
  assumes "py_strip nm \<noteq> []" "jsonable (VDict sc)"
  shows "\<exists>k' e. upsert_entity nm ty al sc src conf now st k = (k', Inr e)"
  using assms(1) entity_id_of_json [OF assms(2), of "py_strip nm"]
  by (auto simp: upsert_entity_def Let_def get_entity_def tbl_find_put)

lemma upsert_ends_total:
  assumes "py_strip (as_subject a) \<noteq> []" "py_strip (as_object a) \<noteq> []" "jsonable (VDict (as_scope a))"
  shows "\<exists>k' p. upsert_ends a k = (k', Inr p)"
proof -
  let ?up = "\<lambda>nm ty. upsert_entity nm ty [] (as_scope a) (Some (as_memory_id a)) (as_confidence a) (as_observed_at a) ''active''"
  obtain k1 e where s: "?up (as_subject a) ''subject'' k = (k1, Inr e)"
    using upsert_entity_total [OF assms(1,3)] by blast
  obtain k2 o' where "?up (as_object a) ''object'' k1 = (k2, Inr o')"
    using upsert_entity_total [OF assms(2,3)] by blast
  then show ?thesis by (simp add: upsert_ends_def act_bind_def act_return_def s)
qed

lemma assertion_id_of_total: "\<exists>i. assertion_id_of a = Inr i"
proof -
  have "jsonable (assertion_material (float_bounds a) a)"
    by (simp add: assertion_material_def float_bounds_def opt_str_def opt_real_def split: option.split)
  then obtain h where "sha256_hex (assertion_material (float_bounds a) a) = Inr h" using sha256_hex_jsonable by blast
  then show ?thesis by (simp add: assertion_id_of_def assertion_id_given_def)
qed

lemma index_assertion_graph_total:
  assumes "py_strip (as_subject a) \<noteq> []" "py_strip (as_predicate a) \<noteq> []" "py_strip (as_object a) \<noteq> []"
    and "as_graph_name a = ''knowledge''" "py_strip (as_id a) \<noteq> []" "\<forall>old\<in>set (as_supersedes a). py_strip old \<noteq> []"
  shows "\<exists>g'. index_assertion_graph a g = (g', Inr ())"
proof -
  have names: "\<exists>n. graph_name_of (Some ''knowledge'') vf vt = Inr n" "\<exists>n. graph_name_of (Some ''conflict'') vf vt = Inr n" for vf vt
    using graph_name_of_known [of "''knowledge''"] graph_name_of_known [of "''conflict''"]
    by (auto simp: ALLOWED_GRAPH_NAMES_def)
  have sup: "py_strip ''supersedes'' \<noteq> []" by code_simp
  have "\<exists>g1 r. add_relation (Some (as_graph_name a)) (assertion_relation a) g = (g1, Inr r)"
    unfolding add_relation_ok_iff using assms names by (simp add: assertion_relation_def)
  then obtain g1 r where 1: "add_relation (Some (as_graph_name a)) (assertion_relation a) g = (g1, Inr r)" by blast
  have "\<exists>g2 rs. act_each (\<lambda>old. add_relation (Some ''conflict'') (supersedes_relation a old)) (as_supersedes a) g1 = (g2, Inr rs)
      \<and> length rs = length (as_supersedes a)"
  proof (rule act_each_ok)
    fix old and h :: graph
    assume "old \<in> set (as_supersedes a)"
    then show "\<exists>h' r. add_relation (Some ''conflict'') (supersedes_relation a old) h = (h', Inr r)"
      unfolding add_relation_ok_iff using assms(5,6) names sup by (simp add: supersedes_relation_def)
  qed
  then show ?thesis by (auto simp: index_assertion_graph_def act_bind_def act_return_def 1)
qed

lemma clean_fact_fields [simp]:
  "as_subject (clean_assertion (fact_assertion f olds)) = py_strip (fc_subject f)"
  "as_predicate (clean_assertion (fact_assertion f olds)) = py_strip (fc_predicate f)"
  "as_object (clean_assertion (fact_assertion f olds)) = py_strip (fc_object f)"
  "as_memory_id (clean_assertion (fact_assertion f olds)) = py_strip (fc_memory_id f)"
  "as_scope (clean_assertion (fact_assertion f olds)) = fc_scope f"
  "as_graph_name (clean_assertion (fact_assertion f olds)) = ''knowledge''"
  "as_fact_id (clean_assertion (fact_assertion f olds)) = Some (fc_id f)"
  "as_status (clean_assertion (fact_assertion f olds)) = (if fc_status f = [] then ''active'' else fc_status f)"
  "as_supersedes (clean_assertion (fact_assertion f olds)) = filter (\<lambda>s. s \<noteq> []) olds"
  "as_valid_from (clean_assertion (fact_assertion f olds)) = fc_valid_from f"
  "as_valid_to (clean_assertion (fact_assertion f olds)) = fc_valid_to f"
  by (simp_all add: clean_assertion_def fact_assertion_def)

text \<open>A fact whose fields are given is always indexed.\<close>

lemma index_fact_writes:
  assumes "fact_fields_given f" "jsonable (VDict (fc_scope f))" "kg_ok k"
    and "\<forall>old\<in>set (assertion_ids_for_facts (fc_supersedes f) k). old = [] \<or> py_strip old \<noteq> []"
  obtains g' k' a r k1 where "index_fact linked f (g, k) = ((g', k'), Inr a)"
    "r = (clean_assertion (fact_assertion f (assertion_ids_for_facts (fc_supersedes f) k)))
       \<lparr>as_id := as_id r, as_subject_entity := as_subject_entity r, as_object_entity := as_object_entity r\<rparr>"
    "assertion_id_of (clean_assertion (fact_assertion f (assertion_ids_for_facts (fc_supersedes f) k))) = Inr (as_id r)"
    "k' = write_assertion r k1" "kg_assertions k1 = kg_assertions k"
proof -
  let ?olds = "assertion_ids_for_facts (fc_supersedes f) k"
  let ?a = "clean_assertion (fact_assertion f ?olds)"
  have given: "cleaned_ok ?a" and sc: "as_scope ?a = fc_scope f"
    using assms(1) by (simp_all add: cleaned_ok_def fact_fields_given_def)
  have strip: "py_strip (as_subject ?a) = as_subject ?a" "py_strip (as_object ?a) = as_object ?a"
    "py_strip (as_predicate ?a) = as_predicate ?a"
    by simp_all
  obtain k1 subj obj where u: "upsert_ends ?a k = (k1, Inr (subj, obj))"
    using upsert_ends_total [of ?a k] given strip assms(2) sc by (auto simp: cleaned_ok_def)
  obtain i where i: "assertion_id_of ?a = Inr i" using assertion_id_of_total by blast
  define r where "r = ?a\<lparr>as_id := i, as_subject_entity := subj, as_object_entity := obj\<rparr>"
  have "\<exists>g'. (if linked then index_assertion_graph r g else (g, Inr ())) = (g', Inr ())"
  proof (cases linked)
    case True
    have "\<exists>g'. index_assertion_graph r g = (g', Inr ())"
      by (rule index_assertion_graph_total)
        (use given strip assertion_id_nonblank [OF i [unfolded assertion_id_of_def]] assms(4) in
          \<open>auto simp: r_def cleaned_ok_def\<close>)
    then show ?thesis using True by simp
  qed simp
  then obtain g' where g': "(if linked then index_assertion_graph r g else (g, Inr ())) = (g', Inr ())" by blast
  have "tbl_find as_id i (kg_assertions (write_assertion r k1)) \<noteq> None"
    by (simp add: write_assertion_effect(2)) (simp add: r_def)
  then obtain a where a: "get_assertion i (write_assertion r k1) = Inr a" by (auto simp: get_assertion_def)
  have "index_fact linked f (g, k) = ((g', write_assertion r k1), Inr a)"
    using given u i [folded assertion_id_clean] g' a unfolding index_fact_def add_assertion_def add_assertion_given_def
    by (cases linked) (simp_all add: Let_def cleaned_ok_def r_def)
  moreover have "kg_assertions k1 = kg_assertions k" using upsert_ends_step [OF assms(3) u] by blast
  ultimately show ?thesis using that [of g' "write_assertion r k1" a r k1] i by (simp add: r_def)
qed

text \<open>
  The ledger's facts and the assertions that carry their ids. Ids are truncated digests: \<open>no_collision\<close>
  says that the id of the fact's assertion is not already that of another fact's, nor the fact's id
  carried by an assertion of another id.
\<close>

definition mirrored :: "ledger \<Rightarrow> kg \<Rightarrow> bool" where
  "mirrored l k =
     list_all (\<lambda>f. list_ex (\<lambda>a. as_fact_id a = Some (fc_id f)) (kg_assertions k)
       \<and> list_all (\<lambda>a. as_fact_id a = Some (fc_id f) \<longrightarrow> as_status a = fc_status f) (kg_assertions k)) (lg_facts l)"

definition fact_assertion_id :: "fact \<Rightarrow> string result" where
  "fact_assertion_id f = assertion_id_of (clean_assertion (fact_assertion f []))"

definition no_collision :: "fact \<Rightarrow> kg \<Rightarrow> bool" where
  "no_collision f k =
     list_all (\<lambda>a. (Inr (as_id a) = fact_assertion_id f) = (as_fact_id a = Some (fc_id f))) (kg_assertions k)"

lemma fact_assertion_id_olds: "assertion_id_of (clean_assertion (fact_assertion f olds)) = fact_assertion_id f"
  by (simp add: fact_assertion_id_def assertion_id_of_def assertion_id_given_def float_bounds_def assertion_material_def)

lemma set_assertion_ids_for_facts:
  "set (assertion_ids_for_facts ids k) =
     {as_id a |a. a \<in> set (kg_assertions k) \<and> (\<exists>i\<in>set ids. i \<noteq> [] \<and> as_fact_id a = Some i)}"
  by (auto simp: assertion_ids_for_facts_def Let_def filter_empty_conv split: option.splits)

lemma write_rows:
  "set (kg_assertions (write_assertion r k)) =
     (\<lambda>x. if as_id x \<in> set (as_supersedes r) then kg_superseded_by (as_id r) x else x) `
       insert (r\<lparr>as_scope := canon_dict (as_scope r)\<rparr>) {x \<in> set (kg_assertions k). as_id x \<noteq> as_id r}"
  by (simp add: write_assertion_def supersede_assertions_effect(2) set_tbl_put_eq)

text \<open>Writing the assertion of a stored fact brings the mirror up to date.\<close>

lemma mirrored_write:
  assumes q: "q \<in> set (lg_facts l')" "fc_status q \<noteq> []" "fc_id q = fc_id f" "fc_supersedes q = fc_supersedes f"
    and rows: "\<And>x. x \<in> set (lg_facts l') \<Longrightarrow> fc_id x = fc_id f \<or> (\<exists>y\<in>set (lg_facts l). fc_id y = fc_id x
        \<and> fc_status x = (if fc_id x \<in> set (fc_supersedes f) then ''superseded'' else fc_status y))"
    and own: "\<And>x. x \<in> set (lg_facts l') \<Longrightarrow> fc_id x = fc_id f \<Longrightarrow> fc_status x = fc_status q"
    and self: "fc_id f \<in> set (fc_supersedes f) \<Longrightarrow> fc_status q = ''superseded''"
    and olds: "[] \<notin> set (fc_supersedes f)" "\<forall>a\<in>set (kg_assertions k). as_id a \<noteq> []"
    and nc: "no_collision q k" and ok: "tbl_ok as_id (kg_assertions k)"
    and r: "as_fact_id r = Some (fc_id q)" "as_status r = fc_status q" "Inr (as_id r) = fact_assertion_id q"
      "as_supersedes r = assertion_ids_for_facts (fc_supersedes q) k"
    and m: "mirrored l k"
  shows "mirrored l' (write_assertion r k)"
proof -
  let ?S = "set (as_supersedes r)" and ?A = "set (kg_assertions k)"
  let ?g = "\<lambda>x. if as_id x \<in> ?S then kg_superseded_by (as_id r) x else x"
  have S: "as_id a \<in> ?S \<longleftrightarrow> (\<exists>i\<in>set (fc_supersedes f). as_fact_id a = Some i)" if "a \<in> ?A" for a
  proof
    assume "as_id a \<in> ?S"
    then obtain b where b: "b \<in> ?A" "as_id a = as_id b" "\<exists>i\<in>set (fc_supersedes f). as_fact_id b = Some i"
      unfolding r(4) set_assertion_ids_for_facts q(4) by auto
    then have "b = a" using tbl_ok_inj [OF ok b(1) that] by simp
    then show "\<exists>i\<in>set (fc_supersedes f). as_fact_id a = Some i" using b(3) by simp
  next
    assume "\<exists>i\<in>set (fc_supersedes f). as_fact_id a = Some i"
    then obtain i where "i \<in> set (fc_supersedes f)" "as_fact_id a = Some i" "i \<noteq> []" using olds(1) by metis
    then show "as_id a \<in> ?S" unfolding r(4) set_assertion_ids_for_facts q(4) using that by blast
  qed
  have id: "as_id a = as_id r \<longleftrightarrow> as_fact_id a = Some (fc_id f)" if "a \<in> ?A" for a
  proof -
    have "(Inr (as_id a) = fact_assertion_id q) = (as_fact_id a = Some (fc_id q))"
      using nc that by (simp add: no_collision_def list_all_iff)
    then show ?thesis unfolding r(3) [symmetric] q(3) by simp
  qed
  have "list_ex (\<lambda>a. as_fact_id a = Some (fc_id x)) (kg_assertions (write_assertion r k))
      \<and> list_all (\<lambda>a. as_fact_id a = Some (fc_id x) \<longrightarrow> as_status a = fc_status x) (kg_assertions (write_assertion r k))"
    if x: "x \<in> set (lg_facts l')" for x
  proof (cases "fc_id x = fc_id f")
    case True
    have "as_fact_id (?g (r\<lparr>as_scope := canon_dict (as_scope r)\<rparr>)) = Some (fc_id x)"
      using r(1) True q(3) by (simp add: kg_superseded_by_def)
    then have 1: "list_ex (\<lambda>a. as_fact_id a = Some (fc_id x)) (kg_assertions (write_assertion r k))"
      unfolding list_ex_iff write_rows by blast
    have "as_status (?g y) = fc_status x"
      if "y \<in> insert (r\<lparr>as_scope := canon_dict (as_scope r)\<rparr>) {x \<in> ?A. as_id x \<noteq> as_id r}"
        "as_fact_id (?g y) = Some (fc_id x)" for y
    proof -
      have fid: "as_fact_id y = Some (fc_id f)" using that(2) True by (auto simp: kg_superseded_by_def split: if_splits)
      then have y: "y = r\<lparr>as_scope := canon_dict (as_scope r)\<rparr>" using that(1) id by auto
      show ?thesis
      proof (cases "as_id y \<in> ?S")
        case True
        then obtain a where a: "a \<in> ?A" "as_id a = as_id r" "as_id a \<in> ?S"
          unfolding y r(4) set_assertion_ids_for_facts by auto
        then have "fc_id f \<in> set (fc_supersedes f)" using S [OF a(1)] id [OF a(1)] by auto
        then show ?thesis using True self own [OF x \<open>fc_id x = fc_id f\<close>] by (simp add: kg_superseded_by_def)
      next
        case False
        then show ?thesis using y r(2) own [OF x \<open>fc_id x = fc_id f\<close>] by simp
      qed
    qed
    then show ?thesis using 1 unfolding list_all_iff write_rows by blast
  next
    case False
    then obtain y where y: "y \<in> set (lg_facts l)" "fc_id y = fc_id x"
      and st: "fc_status x = (if fc_id x \<in> set (fc_supersedes f) then ''superseded'' else fc_status y)"
      using rows [OF x] by blast
    have my: "\<exists>a\<in>?A. as_fact_id a = Some (fc_id x)" "\<forall>a\<in>?A. as_fact_id a = Some (fc_id x) \<longrightarrow> as_status a = fc_status y"
      using m y(1) unfolding mirrored_def list_all_iff list_ex_iff y(2) [symmetric] by blast+
    obtain a where a: "a \<in> ?A" "as_fact_id a = Some (fc_id x)" using my(1) by blast
    have "as_id a \<noteq> as_id r" using id [OF a(1)] a(2) False by simp
    then have "?g a \<in> set (kg_assertions (write_assertion r k))" unfolding write_rows using a(1) by blast
    moreover have "as_fact_id (?g a) = Some (fc_id x)" using a(2) by (simp add: kg_superseded_by_def)
    ultimately have 1: "list_ex (\<lambda>a. as_fact_id a = Some (fc_id x)) (kg_assertions (write_assertion r k))"
      unfolding list_ex_iff by blast
    have "as_status (?g b) = fc_status x"
      if "b \<in> insert (r\<lparr>as_scope := canon_dict (as_scope r)\<rparr>) {x \<in> ?A. as_id x \<noteq> as_id r}"
        "as_fact_id (?g b) = Some (fc_id x)" for b
    proof -
      have fid: "as_fact_id b = Some (fc_id x)" using that(2) by (auto simp: kg_superseded_by_def split: if_splits)
      then have b: "b \<in> ?A" using that(1) r(1) q(3) False by auto
      then have "as_id b \<in> ?S \<longleftrightarrow> fc_id x \<in> set (fc_supersedes f)" using S [OF b] fid by auto
      then show ?thesis using my(2) b fid st by (simp add: kg_superseded_by_def)
    qed
    then show ?thesis using 1 unfolding list_all_iff write_rows by blast
  qed
  then show ?thesis unfolding mirrored_def list_all_iff by blast
qed

lemma write_fact_rows:
  assumes "write_fact f (l, g) = ((l', g'), Inr u)" "tbl_ok fc_id (lg_facts l')" "x \<in> set (lg_facts l')"
    and "fc_id x \<noteq> fc_id f"
  shows "\<exists>y\<in>set (lg_facts l). fc_id y = fc_id x
        \<and> fc_status x = (if fc_id x \<in> set (fc_supersedes f) then ''superseded'' else fc_status y)"
proof -
  have "Some x = map_option (\<lambda>q. if fc_id x \<in> set (fc_supersedes f) then superseded_by (fc_id f) q else q)
      (tbl_find fc_id (fc_id x) (lg_facts l))"
    using write_fact_effect(1) [OF assms(1), of "fc_id x"] tbl_find_member [OF assms(2,3)] assms(4) by simp
  then obtain y where y: "tbl_find fc_id (fc_id x) (lg_facts l) = Some y"
    and x: "x = (if fc_id x \<in> set (fc_supersedes f) then superseded_by (fc_id f) y else y)"
    by (auto simp: map_option_case split: option.splits)
  have "fc_status x = (if fc_id x \<in> set (fc_supersedes f) then ''superseded'' else fc_status y)"
    by (subst x) (simp add: superseded_by_def)
  then show ?thesis using tbl_find_SomeD [OF y] by blast
qed

text \<open>What the listener is told: the stored row, so its own fields and its status after supersession.\<close>

lemma indexed_fact:
  assumes "fact_record a = Inr f" "write_fact f (l, g) = ((l', g'), Inr u)" "tbl_find fc_id (fc_id f) (lg_facts l') = Some q"
  shows "q = (if fc_id f \<in> set (fc_supersedes f) then superseded_by (fc_id f) (f\<lparr>fc_scope := canon_dict (fc_scope f)\<rparr>)
      else f\<lparr>fc_scope := canon_dict (fc_scope f)\<rparr>)"
  using write_fact_effect(1) [OF assms(2), of "fc_id f"] assms(3) by simp

lemma fact_record_given: "fact_record a = Inr f \<Longrightarrow> fact_fields_given f"
  using fact_record_ok_iff [of a] by (auto simp: fact_record_def fact_fields_given_def Let_def res_bind_eq_Inr split: if_splits)

lemma fact_assertion_id_cong:
  assumes "fc_subject q = fc_subject f" "fc_predicate q = fc_predicate f" "fc_object q = fc_object f"
    "fc_memory_id q = fc_memory_id f" "fc_id q = fc_id f" "fc_valid_from q = fc_valid_from f" "fc_valid_to q = fc_valid_to f"
  shows "fact_assertion_id q = fact_assertion_id f"
  using assms by (simp add: fact_assertion_id_def assertion_id_of_def assertion_id_given_def float_bounds_def assertion_material_def)

lemma kg_ids_nonblank: "kg_ok k \<Longrightarrow> a \<in> set (kg_assertions k) \<Longrightarrow> py_strip (as_id a) \<noteq> []"
  by (auto simp: kg_ok_def list_all_iff assertion_ok_def)

text \<open>What a call of \<open>add_fact\<close> does to ledger and graph: nothing, or one fact filed and its assertion written.\<close>

lemma add_fact_world [consumes 3, case_names refused filed]:
  assumes ok: "ledger_ok (fw_ledger w)" "kg_ok (fw_listener w)"
    and step: "add_fact (index_fact linked) a w = (w', x)"
  obtains "fw_ledger w' = fw_ledger w" "fw_listener w' = fw_listener w"
  | f g u q r k1 where "fact_record a = Inr f" "write_fact f (fw_ledger w, fw_graph w) = ((fw_ledger w', g), Inr u)"
      "ledger_ok (fw_ledger w')" "tbl_find fc_id (fc_id f) (lg_facts (fw_ledger w')) = Some q"
      "fc_id q = fc_id f" "fc_supersedes q = fc_supersedes f" "fact_assertion_id q = fact_assertion_id f"
      "fc_status q = (if fc_id f \<in> set (fc_supersedes f) then ''superseded'' else ''active'')"
      "fw_listener w' = write_assertion r k1" "kg_assertions k1 = kg_assertions (fw_listener w)"
      "as_fact_id r = Some (fc_id f)" "as_status r = fc_status q" "Inr (as_id r) = fact_assertion_id q"
      "as_supersedes r = assertion_ids_for_facts (fc_supersedes q) k1"
proof (cases "fact_record a")
  case (Inl err)
  then show ?thesis using step that(1) by (auto simp: add_fact_def)
next
  case f: (Inr f)
  obtain l g z where wr: "write_fact f (fw_ledger w, fw_graph w) = ((l, g), z)" by (metis surj_pair)
  show ?thesis
  proof (cases z)
    case (Inl err)
    then have "l = fw_ledger w" using write_fact_Inl [of f "fw_ledger w" "fw_graph w" l g err] wr by simp
    then have "w' = w\<lparr>fw_ledger := fw_ledger w, fw_graph := g\<rparr>" using step Inl wr by (simp add: add_fact_def f)
    then show ?thesis using that(1) by simp
  next
    case (Inr u)
    then have wr': "write_fact f (fw_ledger w, fw_graph w) = ((l, g), Inr u)" using wr by simp
    let ?k = "fw_listener w"
    have lok: "ledger_ok l"
      using ledger_ok_write [OF ok(1) fact_record_Inr(1) [OF f], of "fw_graph w"] wr' by simp
    have "tbl_find fc_id (fc_id f) (lg_facts l) \<noteq> None" using write_fact_effect(1) [OF wr', of "fc_id f"] by simp
    then obtain q where q: "tbl_find fc_id (fc_id f) (lg_facts l) = Some q" by blast
    note q' = indexed_fact [OF f wr' q]
    have same: "fc_id q = fc_id f" "fc_supersedes q = fc_supersedes f" "fc_scope q = canon_dict (fc_scope f)"
      "fact_assertion_id q = fact_assertion_id f" "fact_fields_given q"
      "fc_status q = (if fc_id f \<in> set (fc_supersedes f) then ''superseded'' else ''active'')"
      using fact_record_given [OF f] fact_record_Inr(2) [OF f] unfolding q'
      by (auto simp: superseded_by_def fact_fields_given_def intro!: fact_assertion_id_cong)
    have json: "jsonable (VDict (fc_scope q))"
    proof -
      have "jsonable (VDict (fc_scope f))" using wr' by (auto simp: write_fact_def simp del: jsonable.simps split: if_splits)
      then show ?thesis unfolding same(3) canon_VDict [symmetric] jsonable_canon .
    qed
    have blank: "\<forall>old\<in>set (assertion_ids_for_facts (fc_supersedes q) ?k). old = [] \<or> py_strip old \<noteq> []"
      using kg_ids_nonblank [OF ok(2)] unfolding set_assertion_ids_for_facts by blast
    obtain g' k' b r k1 where ix: "index_fact linked q (g, ?k) = ((g', k'), Inr b)"
      and r: "r = (clean_assertion (fact_assertion q (assertion_ids_for_facts (fc_supersedes q) ?k)))
        \<lparr>as_id := as_id r, as_subject_entity := as_subject_entity r, as_object_entity := as_object_entity r\<rparr>"
      and rid: "assertion_id_of (clean_assertion (fact_assertion q (assertion_ids_for_facts (fc_supersedes q) ?k))) = Inr (as_id r)"
      and k': "k' = write_assertion r k1" "kg_assertions k1 = kg_assertions ?k"
      using index_fact_writes [OF same(5) json ok(2) blank] .
    have w': "w' = w\<lparr>fw_ledger := l, fw_graph := g', fw_listener := k'\<rparr>"
      using step by (simp add: add_fact_def f wr' get_fact_def q Let_def ix)
    have "filter (\<lambda>s. s \<noteq> []) (assertion_ids_for_facts (fc_supersedes q) ?k) = assertion_ids_for_facts (fc_supersedes q) ?k"
      by (rule filter_True) (use kg_ids_nonblank [OF ok(2)] in \<open>fastforce simp: set_assertion_ids_for_facts\<close>)
    moreover have "assertion_ids_for_facts (fc_supersedes q) k1 = assertion_ids_for_facts (fc_supersedes q) ?k"
      unfolding assertion_ids_for_facts_def k'(2) ..
    ultimately have "as_supersedes r = assertion_ids_for_facts (fc_supersedes q) k1" by (subst r) simp
    moreover have "as_fact_id r = Some (fc_id f)" by (subst r) (simp add: same(1))
    moreover have "as_status r = fc_status q" by (subst r) (simp add: same(6))
    moreover have "Inr (as_id r) = fact_assertion_id q" using rid by (simp add: fact_assertion_id_olds)
    moreover have "fw_ledger w' = l" "fw_listener w' = k'" by (simp_all add: w')
    ultimately show ?thesis using that(2) [OF f, of g u q r k1] wr' lok q same(1,2,4,6) k' by simp
  qed
qed

lemma add_fact_mirrored:
  assumes ok: "ledger_ok (fw_ledger w)" "kg_ok (fw_listener w)"
    and m: "mirrored (fw_ledger w) (fw_listener w)"
    and nc: "\<And>f. fact_record a = Inr f \<Longrightarrow> no_collision f (fw_listener w)"
    and step: "add_fact (index_fact linked) a w = (w', x)"
  shows "mirrored (fw_ledger w') (fw_listener w')"
  using ok step
proof (cases rule: add_fact_world)
  case refused
  then show ?thesis using m by simp
next
  case (filed f g u q r k1)
  let ?l = "fw_ledger w'"
  have tl: "tbl_ok fc_id (lg_facts ?l)" using filed(3) by (simp add: ledger_ok_def)
  have "mirrored ?l (write_assertion r k1)"
  proof (rule mirrored_write [where q = q and f = f and l = "fw_ledger w"])
    show "q \<in> set (lg_facts ?l)" using tbl_find_SomeD [OF filed(4)] by simp
    show "fc_status q \<noteq> []" using filed(8) by simp
    show "fc_id q = fc_id f" "fc_supersedes q = fc_supersedes f" by (fact filed(5,6))+
    show "fc_id x = fc_id f \<or> (\<exists>y\<in>set (lg_facts (fw_ledger w)). fc_id y = fc_id x
        \<and> fc_status x = (if fc_id x \<in> set (fc_supersedes f) then ''superseded'' else fc_status y))"
      if "x \<in> set (lg_facts ?l)" for x
      using write_fact_rows [OF filed(2) tl that] by blast
    show "fc_status x = fc_status q" if "x \<in> set (lg_facts ?l)" "fc_id x = fc_id f" for x
      using tbl_ok_inj [OF tl that(1), of q] tbl_find_SomeD [OF filed(4)] that(2) by simp
    show "fc_status q = ''superseded''" if "fc_id f \<in> set (fc_supersedes f)" using that filed(8) by simp
    show "[] \<notin> set (fc_supersedes f)" using fact_record_Inr(5) [OF filed(1)] by simp
    show "\<forall>a\<in>set (kg_assertions k1). as_id a \<noteq> []" using kg_ids_nonblank [OF ok(2)] unfolding filed(10) by fastforce
    show "no_collision q k1" using nc [OF filed(1)] filed(5,7,10) by (simp add: no_collision_def)
    show "tbl_ok as_id (kg_assertions k1)" using ok(2) filed(10) by (simp add: kg_ok_def)
    show "mirrored (fw_ledger w) k1" using m by (simp add: mirrored_def filed(10))
  qed (use filed(5,11-14) in simp_all)
  then show ?thesis unfolding filed(9) .
qed

text \<open>Every assertion that carries a fact's id was filed for that fact: it stands under the id its fields give.\<close>

definition anchored :: "ledger \<Rightarrow> kg \<Rightarrow> bool" where
  "anchored l k = list_all (\<lambda>x. case as_fact_id x of None \<Rightarrow> True
     | Some i \<Rightarrow> list_ex (\<lambda>f. fc_id f = i \<and> fact_assertion_id f = Inr (as_id x)) (lg_facts l)) (kg_assertions k)"

lemma anchored_iff:
  "anchored l k \<longleftrightarrow> (\<forall>x\<in>set (kg_assertions k). \<forall>i. as_fact_id x = Some i \<longrightarrow>
     (\<exists>f\<in>set (lg_facts l). fc_id f = i \<and> fact_assertion_id f = Inr (as_id x)))"
  by (auto simp: anchored_def list_all_iff list_ex_iff split: option.splits)

lemma fact_assertion_id_material:
  "fact_material q = fact_material f \<Longrightarrow> fc_id q = fc_id f \<Longrightarrow> py_strip (fc_memory_id q) = py_strip (fc_memory_id f)
    \<Longrightarrow> fact_assertion_id q = fact_assertion_id f"
  by (simp add: fact_material_def fact_assertion_id_def assertion_id_of_def assertion_id_given_def float_bounds_def
      assertion_material_def)

text \<open>
  Digests are cut to 24 digits, so two ids can agree by accident. The new fact's and its assertion's do not: what stands
  under the same id was made of the same parts.
\<close>

definition fact_digests_ok :: "fact \<Rightarrow> kg fact_world \<Rightarrow> bool" where
  "fact_digests_ok a w = (case fact_record a of Inl _ \<Rightarrow> True
     | Inr f \<Rightarrow> list_all (\<lambda>x. fc_id x = fc_id f \<longrightarrow> fact_material x = fact_material f) (lg_facts (fw_ledger w))
         \<and> list_all (\<lambda>b. Inr (as_id b) = fact_assertion_id f \<longrightarrow> as_fact_id b = Some (fc_id f)) (kg_assertions (fw_listener w)))"

definition plain_digest_ok :: "py_value \<times> py_value \<Rightarrow> assertion \<Rightarrow> kg \<Rightarrow> bool" where
  "plain_digest_ok given b k =
     list_all (\<lambda>x. Inr (as_id x) = assertion_id_given given (clean_assertion b) \<longrightarrow> as_fact_id x = None) (kg_assertions k)"

lemma no_collision_anchored:
  assumes "anchored (fw_ledger w) (fw_listener w)" "fact_digests_ok a w" "fact_record a = Inr f"
  shows "no_collision f (fw_listener w)"
proof -
  have "Inr (as_id b) = fact_assertion_id f" if b: "b \<in> set (kg_assertions (fw_listener w))" "as_fact_id b = Some (fc_id f)" for b
  proof -
    obtain x where x: "x \<in> set (lg_facts (fw_ledger w))" "fc_id x = fc_id f" "fact_assertion_id x = Inr (as_id b)"
      using assms(1) b unfolding anchored_iff by blast
    then have "fact_material x = fact_material f" using assms(2,3) by (simp add: fact_digests_ok_def list_all_iff)
    then have "fact_assertion_id x = fact_assertion_id f"
      using x(2) by (intro fact_assertion_id_material) (simp_all add: fact_material_def)
    then show ?thesis using x(3) by simp
  qed
  then show ?thesis using assms(2,3) by (auto simp: no_collision_def fact_digests_ok_def list_all_iff)
qed

text \<open>A fact that is filed keeps, for each fact stored before, one under the same id that gives the same assertion id.\<close>

lemma write_fact_keeps_anchor:
  assumes "fact_record a = Inr f" "write_fact f (fw_ledger w, fw_graph w) = ((l', g), Inr u)" "ledger_ok (fw_ledger w)"
    and "fact_digests_ok a w" "y \<in> set (lg_facts (fw_ledger w))"
  shows "\<exists>x\<in>set (lg_facts l'). fc_id x = fc_id y \<and> fact_assertion_id x = fact_assertion_id y"
proof -
  have y: "tbl_find fc_id (fc_id y) (lg_facts (fw_ledger w)) = Some y"
    using tbl_find_member assms(3,5) by (auto simp: ledger_ok_def)
  let ?q = "if fc_id y = fc_id f then f\<lparr>fc_scope := canon_dict (fc_scope f)\<rparr> else y"
  let ?x = "if fc_id y \<in> set (fc_supersedes f) then superseded_by (fc_id f) ?q else ?q"
  have "tbl_find fc_id (fc_id y) (lg_facts l') = Some ?x"
    using write_fact_effect(1) [OF assms(2), of "fc_id y"] y by simp
  moreover have "fact_assertion_id ?x = fact_assertion_id y"
  proof (cases "fc_id y = fc_id f")
    case True
    then have "fact_material y = fact_material f" using assms(1,4,5) by (simp add: fact_digests_ok_def list_all_iff)
    then have "fact_assertion_id y = fact_assertion_id f"
      using True by (intro fact_assertion_id_material) (simp_all add: fact_material_def)
    moreover have "fact_assertion_id ?x = fact_assertion_id f"
      using True by (intro fact_assertion_id_cong) (simp_all add: superseded_by_def)
    ultimately show ?thesis by simp
  next
    case False
    then show ?thesis by (intro fact_assertion_id_cong) (simp_all add: superseded_by_def)
  qed
  ultimately show ?thesis using tbl_find_SomeD [of fc_id "fc_id y" "lg_facts l'" ?x] by blast
qed

lemma add_fact_anchored:
  assumes ok: "ledger_ok (fw_ledger w)" "kg_ok (fw_listener w)" and a: "anchored (fw_ledger w) (fw_listener w)"
    and dg: "fact_digests_ok a w" and step: "add_fact (index_fact linked) a w = (w', x)"
  shows "anchored (fw_ledger w') (fw_listener w')"
  using ok step
proof (cases rule: add_fact_world)
  case refused
  then show ?thesis using a by simp
next
  case (filed f g u q r k1)
  have "\<exists>h\<in>set (lg_facts (fw_ledger w')). fc_id h = i \<and> fact_assertion_id h = Inr (as_id z)"
    if z: "z \<in> set (kg_assertions (write_assertion r k1))" "as_fact_id z = Some i" for z i
  proof -
    obtain b where b: "b = r\<lparr>as_scope := canon_dict (as_scope r)\<rparr> \<or> b \<in> set (kg_assertions (fw_listener w))"
      "as_id z = as_id b" "as_fact_id b = Some i"
    proof -
      obtain b where "b \<in> insert (r\<lparr>as_scope := canon_dict (as_scope r)\<rparr>) {y \<in> set (kg_assertions k1). as_id y \<noteq> as_id r}"
        "z = (if as_id b \<in> set (as_supersedes r) then kg_superseded_by (as_id r) b else b)"
        using z(1) unfolding write_rows by blast
      then show ?thesis using that [of b] z(2) filed(10) by (auto simp: kg_superseded_by_def split: if_splits)
    qed
    show ?thesis
    proof (cases "b \<in> set (kg_assertions (fw_listener w))")
      case True
      then obtain y where y: "y \<in> set (lg_facts (fw_ledger w))" "fc_id y = i" "fact_assertion_id y = Inr (as_id b)"
        using a b(3) unfolding anchored_iff by blast
      then show ?thesis using write_fact_keeps_anchor [OF filed(1,2) ok(1) dg y(1)] b(2) by auto
    next
      case False
      then have "i = fc_id f" "Inr (as_id z) = fact_assertion_id q" using b filed(11,13) by auto
      then show ?thesis using tbl_find_SomeD [OF filed(4)] by (intro bexI [of _ q]) auto
    qed
  qed
  then show ?thesis unfolding anchored_iff filed(9) by blast
qed

text \<open>An assertion that names no fact and supersedes none changes no assertion that carries a fact's id.\<close>

lemma plain_assertion_rows:
  assumes "kg_ok k" "add_assertion_given linked given b (g, k) = ((g', k'), x)"
    and "as_fact_id b = None" "as_supersedes b = []" "plain_digest_ok given b k"
  shows "{y \<in> set (kg_assertions k'). as_fact_id y \<noteq> None} = {y \<in> set (kg_assertions k). as_fact_id y \<noteq> None}"
  using assms(2)
proof (cases rule: add_assertion_given_cases)
  case (refused err)
  then show ?thesis by simp
next
  case (half err y)
  then show ?thesis using upsert_ends_step [OF assms(1)] by metis
next
  case (written k1 subj obj i r z)
  have r: "as_id r = i" "as_fact_id r = None" "as_supersedes r = []"
    using assms(3,4) by (simp_all add: written(4) clean_assertion_def)
  have "kg_assertions k1 = kg_assertions k" using upsert_ends_step [OF assms(1) written(2)] by blast
  moreover have "\<forall>y\<in>set (kg_assertions k). as_id y = i \<longrightarrow> as_fact_id y = None"
    using assms(5) written(3) by (simp add: plain_digest_ok_def list_all_iff)
  ultimately show ?thesis unfolding written(5) using r by (auto simp: write_rows)
qed

lemma mirrored_rows:
  assumes "{y \<in> set (kg_assertions k'). as_fact_id y \<noteq> None} = {y \<in> set (kg_assertions k). as_fact_id y \<noteq> None}"
  shows "mirrored l k' = mirrored l k" "anchored l k' = anchored l k"
proof -
  have "y \<in> set (kg_assertions k') \<and> as_fact_id y = Some i \<longleftrightarrow> y \<in> set (kg_assertions k) \<and> as_fact_id y = Some i" for y i
    using assms by (auto simp: set_eq_iff)
  then show "mirrored l k' = mirrored l k" "anchored l k' = anchored l k"
    unfolding mirrored_def anchored_iff list_all_iff list_ex_iff by blast+
qed

text \<open>
  The calls the package makes: facts through the ledger, and assertions of a memory's relations and of the tools, which
  name no fact and supersede nothing. Each may raise half way.
\<close>

inductive mirror_step :: "kg fact_world \<Rightarrow> kg fact_world \<Rightarrow> bool" where
  fact_added: "fact_digests_ok a w \<Longrightarrow> mirror_step w (fst (add_fact (index_fact linked) a w))"
| plain_added: "as_fact_id b = None \<Longrightarrow> as_supersedes b = [] \<Longrightarrow> plain_digest_ok given b (fw_listener w)
    \<Longrightarrow> add_assertion_given linked given b (fw_graph w, fw_listener w) = ((g', k'), x)
    \<Longrightarrow> mirror_step w (w\<lparr>fw_graph := g', fw_listener := k'\<rparr>)"

definition mirror_ok :: "kg fact_world \<Rightarrow> bool" where
  "mirror_ok w = (ledger_ok (fw_ledger w) \<and> graph_ok (fw_graph w) \<and> kg_ok (fw_listener w)
     \<and> mirrored (fw_ledger w) (fw_listener w) \<and> anchored (fw_ledger w) (fw_listener w))"

lemma mirror_step_ok: "mirror_step w w' \<Longrightarrow> mirror_ok w \<Longrightarrow> mirror_ok w'"
proof (induction rule: mirror_step.induct)
  case (fact_added a w linked)
  obtain w' x where s: "add_fact (index_fact linked) a w = (w', x)" by fastforce
  have ok: "ledger_ok (fw_ledger w)" "kg_ok (fw_listener w)" using fact_added.prems by (simp_all add: mirror_ok_def)
  have "ledger_ok (fw_ledger w')" using add_fact_ledger_ok [of w "index_fact linked" a] ok s by simp
  moreover have "graph_ok (fw_graph w') \<and> kg_ok (fw_listener w')"
    using knowledge_listener.add_fact_keeps [of w linked a] fact_added.prems s by (simp add: mirror_ok_def)
  moreover have "mirrored (fw_ledger w') (fw_listener w')"
    by (rule add_fact_mirrored [OF ok _ _ s])
      (use fact_added no_collision_anchored in \<open>auto simp: mirror_ok_def\<close>)
  moreover have "anchored (fw_ledger w') (fw_listener w')"
    by (rule add_fact_anchored [OF ok _ _ s]) (use fact_added in \<open>auto simp: mirror_ok_def\<close>)
  ultimately show ?case by (simp add: mirror_ok_def s)
next
  case (plain_added b given w linked g' k' x)
  then have ok: "graph_ok (fw_graph w)" "kg_ok (fw_listener w)" by (simp_all add: mirror_ok_def)
  have "graph_ok g' \<and> kg_ok k'" by (rule add_assertion_given_keeps [OF ok plain_added(4)])
  then show ?case
    using mirrored_rows [OF plain_assertion_rows [OF ok(2) plain_added(4,1,2,3)]] plain_added.prems
    by (simp add: mirror_ok_def)
qed

text \<open>
  C26: the knowledge graph mirrors the fact ledger. Begin with an empty ledger and an empty knowledge graph beside any
  well-formed relation graph. After any sequence of \<open>add_fact\<close> calls, with the listener that indexes facts,
  and of assertions that name no fact and supersede nothing, refused or half-done calls among them, each fact of the
  ledger has an assertion that carries its id, and every assertion that carries a fact's id has that fact's status,
  superseded facts included. The ids are 24 digits of a digest, and along the sequence no two that are made of different
  parts agree.
\<close>

theorem facts_mirrored:
  assumes "mirror_step\<^sup>*\<^sup>* \<lparr>fw_ledger = ledger_empty, fw_graph = g, fw_listener = kg_empty\<rparr> w" "graph_ok g"
  shows "mirrored (fw_ledger w) (fw_listener w)"
proof -
  have "mirror_ok w"
    using assms(1)
  proof (induction rule: rtranclp_induct)
    case base
    show ?case using assms(2) by (simp add: mirror_ok_def mirrored_def anchored_def) (simp add: ledger_empty_def kg_empty_def)
  qed (rule mirror_step_ok)
  then show ?thesis by (simp add: mirror_ok_def)
qed

definition demo_kworld :: "kg fact_world" where
  "demo_kworld = \<lparr>fw_ledger = ledger_empty, fw_graph = [], fw_listener = kg_empty\<rparr>"

lemma facts_mirrored_witness:
  "mirrored (fw_ledger (fst (add_fact (index_fact True) (demo_fact ''Porto'' []) demo_kworld)))
     (fw_listener (fst (add_fact (index_fact True) (demo_fact ''Porto'' []) demo_kworld)))"
proof (rule facts_mirrored)
  have "fact_digests_ok (demo_fact ''Porto'' []) demo_kworld"
    by (simp add: fact_digests_ok_def demo_kworld_def ledger_empty_def kg_empty_def split: sum.split)
  then show "mirror_step\<^sup>*\<^sup>* \<lparr>fw_ledger = ledger_empty, fw_graph = [], fw_listener = kg_empty\<rparr>
      (fst (add_fact (index_fact True) (demo_fact ''Porto'' []) demo_kworld))"
    unfolding demo_kworld_def by (intro r_into_rtranclp mirror_step.fact_added)
qed simp

section \<open>Queries\<close>

text \<open>
  A query returns only assertions that meet every filter, best confidence first and then newest, and
  no more than \<open>limit\<close>; without a limit it returns all of them.
\<close>

theorem kg_query_spec:
  assumes "\<And>n. limit = Some n \<Longrightarrow> 0 \<le> n"
  shows "(\<forall>a\<in>set (kg_query subj pred obj sc status at_time ids limit k).
        a \<in> set (kg_assertions k) \<and> assertion_where subj pred obj status at_time ids a \<and> scope_matches sc (as_scope a))
    \<and> sorted_wrt (\<lambda>a b. assertion_rank b \<le> assertion_rank a) (kg_query subj pred obj sc status at_time ids limit k)
    \<and> (\<forall>n. limit = Some n \<longrightarrow> length (kg_query subj pred obj sc status at_time ids limit k) \<le> nat n)
    \<and> (limit = None \<longrightarrow> set (kg_query subj pred obj sc status at_time ids limit k) =
        {a \<in> set (kg_assertions k). assertion_where subj pred obj status at_time ids a \<and> scope_matches sc (as_scope a)})"
proof -
  let ?rows = "sort_desc assertion_rank (filter (assertion_where subj pred obj status at_time ids) (kg_assertions k))"
  let ?f = "filter (\<lambda>a. scope_matches sc (as_scope a))"
  have sorted: "sorted_wrt (\<lambda>a b. assertion_rank b \<le> assertion_rank a) ?rows" by (rule sort_desc_sorted)
  show ?thesis
  proof (cases limit)
    case None
    then show ?thesis using sorted by (auto simp: kg_query_def Let_def intro: sorted_wrt_filter)
  next
    case (Some n)
    have q: "kg_query subj pred obj sc status at_time ids limit k = py_take n (?f (sql_limit (max (n * 4) n) ?rows))"
      by (simp add: kg_query_def Let_def Some)
    have n: "0 \<le> n" using assms Some by blast
    have "set (py_take n (?f (sql_limit (max (n * 4) n) ?rows))) \<subseteq> set (?f ?rows)"
      using set_py_take [of n "?f (sql_limit (max (n * 4) n) ?rows)"] set_sql_limit [of "max (n * 4) n" ?rows] by auto
    moreover have "sorted_wrt (\<lambda>a b. assertion_rank b \<le> assertion_rank a) (py_take n (?f (sql_limit (max (n * 4) n) ?rows)))"
      using sorted_wrt_sql_limit [OF sorted] n by (simp add: py_take_def sorted_wrt_take sorted_wrt_filter)
    ultimately show ?thesis
      using length_py_take [OF n] unfolding q by (auto simp: Some)
  qed
qed

lemma kg_query_spec_witness:
  "set (kg_query None None None [] None None [''m1''] None kg_empty) = {}"
  using kg_query_spec [of None None None None "[]" None None "[''m1'']" kg_empty] by (simp add: kg_empty_def)

section \<open>Entities merge\<close>

text \<open>
  An entity is found under its name in any spelling that normalises alike; upserting it again keeps
  every alias and source it had and its first date, never lowers its confidence, and touches no other
  entity.
\<close>

theorem upsert_entity_merges:
  assumes "kg_ok k" "upsert_entity nm ty al sc src conf now st k = (k', Inr e)"
  shows "get_entity (en_id e) k' = Inr e \<and> py_strip nm \<in> set (en_aliases e)
    \<and> (\<forall>nm'. norm_key nm' = norm_key nm \<longrightarrow> entity_id_of nm' sc = Inr (en_id e))
    \<and> (\<forall>i. i \<noteq> en_id e \<longrightarrow> get_entity i k' = get_entity i k)
    \<and> (\<forall>old. get_entity (en_id e) k = Inr old \<longrightarrow> set (en_aliases old) \<subseteq> set (en_aliases e)
        \<and> set (en_sources old) \<subseteq> set (en_sources e) \<and> en_confidence old \<le> en_confidence e
        \<and> en_created_at e = en_created_at old \<and> en_updated_at old \<le> en_updated_at e)"
proof -
  note e = upsert_entity_Inr [OF assms(2,1)]
  have "get_entity (en_id e) k' = Inr e" by (simp add: e(1) get_entity_def tbl_find_put)
  moreover have "get_entity i k' = get_entity i k" if "i \<noteq> en_id e" for i
    using that by (simp add: e(1) get_entity_def tbl_find_put)
  moreover have "entity_id_of nm' sc = Inr (en_id e)" if "norm_key nm' = norm_key nm" for nm'
    using e(3) that by (simp add: entity_id_of_def)
  moreover obtain x where x: "e = merge_entity x (tbl_find en_id (en_id e) (kg_entities k))" "py_strip nm \<in> set (en_aliases x)"
  proof -
    have i: "entity_id_of (py_strip nm) sc = Inr (en_id e)" using e(3) by simp
    define x where "x = \<lparr>en_id = en_id e, en_name = py_strip nm, en_type = (if ty = [] then ''entity'' else ty),
      en_aliases = sorted_set (filter (\<lambda>s. s \<noteq> []) (map clean_alias al) @ [py_strip nm]), en_scope = canon_dict sc,
      en_sources = (case src of None \<Rightarrow> [] | Some s \<Rightarrow> if s = [] then [] else [s]), en_confidence = clamp01 conf,
      en_status = (if st = [] then ''active'' else st), en_created_at = now, en_updated_at = now\<rparr>"
    have "e = merge_entity x (tbl_find en_id (en_id e) (kg_entities k))"
      using assms(2) e(4) i by (auto simp: upsert_entity_def Let_def get_entity_def tbl_find_put x_def)
    then show thesis by (rule that) (simp add: x_def)
  qed
  moreover have "py_strip nm \<in> set (en_aliases e)"
    by (subst x(1)) (use x(2) in \<open>auto simp: merge_entity_def split: option.split\<close>)
  moreover have "set (en_aliases old) \<subseteq> set (en_aliases e) \<and> set (en_sources old) \<subseteq> set (en_sources e)
      \<and> en_confidence old \<le> en_confidence e \<and> en_created_at e = en_created_at old \<and> en_updated_at old \<le> en_updated_at e"
    if "get_entity (en_id e) k = Inr old" for old
  proof -
    have "tbl_find en_id (en_id e) (kg_entities k) = Some old"
      using that by (auto simp: get_entity_def split: option.splits)
    then have "e = merge_entity x (Some old)" using x(1) by simp
    then show ?thesis by (simp add: merge_entity_def)
  qed
  ultimately show ?thesis by blast
qed

lemma upsert_entity_merges_witness:
  "\<exists>k1 k2 a b. upsert_entity ''Ana'' ''person'' [] [] (Some ''m1'') 1 1 [] kg_empty = (k1, Inr a)
    \<and> upsert_entity ''ANA '' ''person'' [] [] (Some ''m2'') 1 2 [] k1 = (k2, Inr b)
    \<and> get_entity (en_id b) k2 = Inr b \<and> en_id a = en_id b \<and> set (en_aliases a) \<subseteq> set (en_aliases b)"
proof -
  have s: "py_strip ''Ana'' \<noteq> []" "py_strip ''ANA '' \<noteq> []" "norm_key ''ANA '' = norm_key ''Ana''" by code_simp+
  obtain k1 a where a: "upsert_entity ''Ana'' ''person'' [] [] (Some ''m1'') 1 1 [] kg_empty = (k1, Inr a)"
    using upsert_entity_total [OF s(1), of "[]"] by fastforce
  obtain k2 b where b: "upsert_entity ''ANA '' ''person'' [] [] (Some ''m2'') 1 2 [] k1 = (k2, Inr b)"
    using upsert_entity_total [OF s(2), of "[]"] by fastforce
  have k1: "kg_ok k1" using upsert_entity_ok [OF kg_ok_empty] a by (metis fst_conv)
  have "\<forall>nm'. norm_key nm' = norm_key ''ANA '' \<longrightarrow> entity_id_of nm' [] = Inr (en_id b)"
    using upsert_entity_merges [OF k1 b] by blast
  from this [THEN spec, THEN mp, OF s(3) [symmetric]] have "entity_id_of ''Ana'' [] = Inr (en_id b)" .
  then have id: "en_id a = en_id b" using upsert_entity_Inr(3) [OF a kg_ok_empty] by simp
  have g: "get_entity (en_id b) k1 = Inr a"
    using upsert_entity_Inr(1) [OF a kg_ok_empty] id by (simp add: get_entity_def tbl_find_put)
  note m = upsert_entity_merges [OF k1 b]
  have "get_entity (en_id b) k2 = Inr b" using m by (elim conjE)
  moreover have "set (en_aliases a) \<subseteq> set (en_aliases b)" using m g by (elim conjE) (drule spec, drule mp, assumption, elim conjE)
  ultimately show ?thesis using a b id by (intro exI conjI)
qed

text \<open>
  Asking for the knowledge behind no memories drops the memory clause: what comes back is about any memory.
\<close>

lemma summary_of_no_memories:
  assumes "kg_assertions k = [a]" "as_status a = ''active''" "as_valid_from a = None" "as_valid_to a = None"
  shows "ks_assertions (summary_for_memories [] [] at_time 8 k) = [a]"
proof -
  have "assertion_where None None None (Some ''active'') at_time [] a"
    using assms by (simp add: assertion_where_def opt_norm_match_def date_active_def split: option.split)
  then show ?thesis
    by (simp add: summary_for_memories_def kg_query_def Let_def assms(1) sort_desc_def sql_limit_def py_take_def
        scope_matches_def)
qed

end
