(* ===== verification/Vault.thy ===== *)
theory Vault
  imports Store Task_State Knowledge Fact_Extraction
begin

text \<open>
  \<open>vault.py\<close>: the memory vault, which keeps the store, the relation graph, the knowledge graph, the
  fact ledger and the task states together, and groups memories into boxes. Each component commits on its
  own, so a call that raises keeps what the components before it wrote. One call reads the clock once
  (\<open>now\<close>); \<open>zone\<close> is the local time zone of the fact extractor, and the id of a new box is an argument.
\<close>

record box_info =
  bx_id :: string
  bx_name :: string
  bx_scope :: py_dict
  bx_created_at :: real
  bx_closed_at :: "real option"
  bx_state :: string
  bx_memory_ids :: "string list"

record box_memory =
  bm_box :: string
  bm_memory :: string
  bm_sequence :: int

definition bm_key :: "box_memory \<Rightarrow> string \<times> string" where
  "bm_key m = (bm_box m, bm_memory m)"

record vault =
  vt_store :: store
  vt_graph :: graph
  vt_kg :: kg
  vt_ledger :: ledger
  vt_tasks :: task_table
  vt_boxes :: "box_info list"
  vt_box_memories :: "box_memory list"

definition vault_open :: vault where
  "vault_open = \<lparr>vt_store = store_open 65536 \<lparr>u_size = 32, v_size = 16, w_size = 8\<rparr> [] [], vt_graph = [],
     vt_kg = kg_empty, vt_ledger = ledger_empty, vt_tasks = [], vt_boxes = [], vt_box_memories = []\<rparr>"

section \<open>Calls on one component\<close>

definition on_store :: "(store, 'a) action \<Rightarrow> (vault, 'a) action" where
  "on_store m v = (case m (vt_store v) of (s, x) \<Rightarrow> (v\<lparr>vt_store := s\<rparr>, x))"

definition on_graph :: "(graph, 'a) action \<Rightarrow> (vault, 'a) action" where
  "on_graph m v = (case m (vt_graph v) of (g, x) \<Rightarrow> (v\<lparr>vt_graph := g\<rparr>, x))"

definition on_knowledge :: "(graph \<times> kg, 'a) action \<Rightarrow> (vault, 'a) action" where
  "on_knowledge m v = (case m (vt_graph v, vt_kg v) of ((g, k), x) \<Rightarrow> (v\<lparr>vt_graph := g, vt_kg := k\<rparr>, x))"

definition on_facts :: "(kg fact_world, 'a) action \<Rightarrow> (vault, 'a) action" where
  "on_facts m v =
     (case m \<lparr>fw_ledger = vt_ledger v, fw_graph = vt_graph v, fw_listener = vt_kg v\<rparr> of
        (w, x) \<Rightarrow> (v\<lparr>vt_ledger := fw_ledger w, vt_graph := fw_graph w, vt_kg := fw_listener w\<rparr>, x))"

definition vault_add_fact :: "fact \<Rightarrow> (vault, fact) action" where
  "vault_add_fact a = on_facts (add_fact (index_fact True) a)"

definition vault_update_task :: "real \<Rightarrow> real \<Rightarrow> string \<Rightarrow> py_dict \<Rightarrow> py_dict \<Rightarrow> (vault, task_state) action" where
  "vault_update_task t0 t1 i sc patch v =
     (case task_update t0 t1 i sc patch (vt_tasks v) of (t, x) \<Rightarrow> (v\<lparr>vt_tasks := t\<rparr>, x))"

section \<open>Boxes\<close>

definition open_box :: "string \<Rightarrow> real \<Rightarrow> string \<Rightarrow> py_dict \<Rightarrow> (vault, box_info) action" where
  "open_box uid now name sc v =
     (let info = \<lparr>bx_id = ''box_'' @ uid, bx_name = name, bx_scope = sc, bx_created_at = now,
                 bx_closed_at = None, bx_state = ''open'', bx_memory_ids = []\<rparr>
      in if \<not> jsonable (VDict sc) then (v, Inl (TypeError ''not JSON serializable''))
         else if tbl_find bx_id (bx_id info) (vt_boxes v) \<noteq> None
         then (v, Inl (IntegrityError ''UNIQUE constraint failed: boxes.id''))
         else (v\<lparr>vt_boxes := vt_boxes v @ [info\<lparr>bx_scope := canon_dict sc\<rparr>]\<rparr>, Inr info))"

definition close_box :: "real \<Rightarrow> string \<Rightarrow> vault \<Rightarrow> vault" where
  "close_box now i v =
     v\<lparr>vt_boxes := map (\<lambda>b. if bx_id b = i then b\<lparr>bx_state := ''closed'', bx_closed_at := Some now\<rparr> else b) (vt_boxes v)\<rparr>"

definition next_box_sequence :: "string \<Rightarrow> box_memory list \<Rightarrow> int" where
  "next_box_sequence i rows = fold max (map bm_sequence (filter (\<lambda>m. bm_box m = i) rows)) 0 + 1"

definition file_in_box :: "string option \<Rightarrow> string \<Rightarrow> vault \<Rightarrow> vault" where
  "file_in_box box mid v =
     (case box of None \<Rightarrow> v
      | Some i \<Rightarrow> v\<lparr>vt_box_memories := tbl_add bm_key
           \<lparr>bm_box = i, bm_memory = mid, bm_sequence = next_box_sequence i (vt_box_memories v)\<rparr> (vt_box_memories v)\<rparr>)"

definition box_memory_ids :: "string \<Rightarrow> vault \<Rightarrow> string list" where
  "box_memory_ids i v = map bm_memory (sort_key bm_sequence (filter (\<lambda>m. bm_box m = i) (vt_box_memories v)))"

definition get_box :: "string \<Rightarrow> vault \<Rightarrow> box_info result" where
  "get_box i v = (case tbl_find bx_id i (vt_boxes v) of None \<Rightarrow> Inl (KeyError i)
     | Some b \<Rightarrow> Inr (b\<lparr>bx_memory_ids := box_memory_ids i v\<rparr>))"

definition memories_in_box :: "real \<Rightarrow> string \<Rightarrow> vault \<Rightarrow> envelope list result" where
  "memories_in_box now i v =
     res_bind (get_box i v) (\<lambda>b. res_each (\<lambda>m. inspect now True m (vt_store v)) (bx_memory_ids b))"

section \<open>Remembering\<close>

definition fact_of_extracted :: "real \<Rightarrow> extracted \<Rightarrow> fact" where
  "fact_of_extracted now x =
     \<lparr>fc_id = [], fc_subject = ex_subject x, fc_predicate = ex_predicate x, fc_object = ex_object x,
      fc_memory_id = ex_memory_id x, fc_scope = ex_scope x, fc_status = [], fc_supersedes = [],
      fc_superseded_by = None, fc_reason = ex_reason x, fc_valid_from = ex_valid_from x,
      fc_valid_to = ex_valid_to x, fc_confidence = ex_confidence x, fc_created_at = now\<rparr>"

definition extract_into :: "(int \<Rightarrow> int) \<Rightarrow> real \<Rightarrow> envelope \<Rightarrow> (vault, unit) action" where
  "extract_into zone now e =
     act_bind (act_each (\<lambda>x. vault_add_fact (fact_of_extracted now x)) (extract_facts zone e)) (\<lambda>_. act_return ())"

definition vault_remember ::
  "(int \<Rightarrow> int) \<Rightarrow> real \<Rightarrow> string option \<Rightarrow> bool \<Rightarrow> bool \<Rightarrow> envelope \<Rightarrow> (vault, string) action" where
  "vault_remember zone now box append_log extract_them e =
     act_bind (on_store (remember now append_log e)) (\<lambda>mid.
     act_bind (on_graph (index_memory e)) (\<lambda>_.
     act_bind (on_knowledge (kg_index_memory True e)) (\<lambda>_.
     act_bind (if extract_them then extract_into zone now e else act_return ()) (\<lambda>_ v.
       (file_in_box box mid v, Inr mid)))))"

text \<open>
  \<open>MemoryBox.remember\<close>: the box's scope under the memory's, stamped with the box id, and the content
  hash computed again; \<open>info\<close> is the box as \<open>open_box\<close> returned it.
\<close>

definition box_scope :: "box_info \<Rightarrow> py_dict \<Rightarrow> py_dict" where
  "box_scope info sc =
     d_set ''box_id'' (VStr (bx_id info)) (d_set ''session_id'' (VStr (bx_id info)) (d_update (bx_scope info) sc))"

definition box_envelope :: "real \<Rightarrow> box_info \<Rightarrow> envelope \<Rightarrow> envelope result" where
  "box_envelope now info e =
     envelope_from_dict now (d_set ''content_hash'' (VStr [])
       (d_set ''scope'' (VDict (box_scope info (scope e))) (envelope_to_dict e)))"

definition box_remember :: "(int \<Rightarrow> int) \<Rightarrow> real \<Rightarrow> box_info \<Rightarrow> envelope \<Rightarrow> (vault, string) action" where
  "box_remember zone now info e v =
     (case box_envelope now info e of Inl err \<Rightarrow> (v, Inl err)
      | Inr scoped \<Rightarrow> vault_remember zone now (Some (bx_id info)) True False scoped v)"

definition box_remember_text :: "(int \<Rightarrow> int) \<Rightarrow> real \<Rightarrow> box_info \<Rightarrow> string \<Rightarrow> envelope \<Rightarrow> (vault, string) action" where
  "box_remember_text zone now info text args v =
     (case envelope_text text (args\<lparr>scope := bx_scope info, env_id := [], content_hash := [], created_at := now,
          sensitivity := ''normal'', metadata := [],
          provenance := (if provenance args = [] then [(''source'', VStr ''memory_box'')] else provenance args)\<rparr>) of
        Inl err \<Rightarrow> (v, Inl err)
      | Inr e \<Rightarrow> box_remember zone now info e v)"

section \<open>The log\<close>

text \<open>The file holds each payload and a newline; reading it splits on every line boundary of \<open>str\<close>.\<close>

definition log_lines :: "store \<Rightarrow> string list" where
  "log_lines s = py_splitlines (concat (map (\<lambda>p. p @ [CHR 0x0A]) (st_log s)))"

record integrity_report =
  ir_checked :: nat
  ir_tampered :: "string list"
  ir_invalid :: "nat list"

definition verify_line :: "real \<Rightarrow> store \<Rightarrow> nat \<times> string \<Rightarrow> integrity_report \<Rightarrow> integrity_report result" where
  "verify_line now s p rep =
     (case p of (n, line) \<Rightarrow>
        if py_strip line = [] then Inr rep
        else (case parse_envelope now line of
            Inl _ \<Rightarrow> Inr (rep\<lparr>ir_invalid := ir_invalid rep @ [n]\<rparr>)
          | Inr e \<Rightarrow>
              (let rep1 = rep\<lparr>ir_checked := Suc (ir_checked rep)\<rparr> in
               (case resolve_blobs now s e of
                  Inl _ \<Rightarrow> Inr (rep1\<lparr>ir_tampered := ir_tampered rep1 @ [env_id e]\<rparr>)
                | Inr r \<Rightarrow> res_bind (compute_content_hash r) (\<lambda>h.
                    Inr (if h = content_hash r then rep1
                         else rep1\<lparr>ir_tampered := ir_tampered rep1 @ [env_id e]\<rparr>))))))"

fun verify_lines :: "real \<Rightarrow> store \<Rightarrow> (nat \<times> string) list \<Rightarrow> integrity_report \<Rightarrow> integrity_report result" where
  "verify_lines now s [] rep = Inr rep"
| "verify_lines now s (p # ps) rep = res_bind (verify_line now s p rep) (verify_lines now s ps)"

definition verify_integrity :: "real \<Rightarrow> vault \<Rightarrow> integrity_report result" where
  "verify_integrity now v =
     (let ls = log_lines (vt_store v) in
      verify_lines now (vt_store v) (zip [1..<Suc (length ls)] ls)
        \<lparr>ir_checked = 0, ir_tampered = [], ir_invalid = []\<rparr>)"

text \<open>The log file exists once something was appended to it.\<close>

definition replay_line :: "(int \<Rightarrow> int) \<Rightarrow> real \<Rightarrow> string \<Rightarrow> (vault, unit) action" where
  "replay_line zone now line v =
     (if py_strip line = [] then (v, Inr ())
      else (case parse_envelope now line of
          Inl err \<Rightarrow> (v, Inl err)
        | Inr e \<Rightarrow> act_bind (vault_remember zone now None False False e) (\<lambda>_. act_return ()) v))"

definition cleared :: "vault \<Rightarrow> vault" where
  "cleared v = v\<lparr>vt_store := clear_indexes (vt_store v), vt_graph := [], vt_kg := kg_clear (vt_kg v)\<rparr>"

definition rebuild_indexes :: "(int \<Rightarrow> int) \<Rightarrow> real \<Rightarrow> (vault, unit) action" where
  "rebuild_indexes zone now v =
     (if st_log (vt_store v) = [] then (cleared v, Inr ())
      else
        act_bind (act_each (replay_line zone now) (log_lines (vt_store v))) (\<lambda>_.
        act_bind (\<lambda>v. on_graph (rebuild_graph_index (vt_ledger v)) v) (\<lambda>_.
        act_bind (\<lambda>v. act_each (\<lambda>f. on_knowledge (index_fact True f)) (list_facts [] None None (vt_ledger v)) v) (\<lambda>_.
          act_return ()))) (cleared v))"

section \<open>The invariant of the whole vault\<close>

text \<open>Within a box the rows carry increasing sequence numbers, in the order in which they were written.\<close>

definition members_ok :: "box_memory list \<Rightarrow> bool" where
  "members_ok rows =
     (tbl_ok bm_key rows \<and> sorted_wrt (\<lambda>a b. bm_box a = bm_box b \<longrightarrow> bm_sequence a < bm_sequence b) rows)"

definition vault_ok :: "vault \<Rightarrow> bool" where
  "vault_ok v =
     (store_ok (vt_store v) \<and> graph_ok (vt_graph v) \<and> kg_ok (vt_kg v) \<and> ledger_ok (vt_ledger v)
      \<and> tasks_ok (vt_tasks v) \<and> tbl_ok bx_id (vt_boxes v) \<and> members_ok (vt_box_memories v))"

lemma vault_ok_open [simp]: "vault_ok vault_open"
  by (simp add: vault_ok_def vault_open_def members_ok_def tbl_ok_def)

lemma fold_max_ge: "(x :: int) \<in> set xs \<Longrightarrow> x \<le> fold max xs a" "a \<le> fold max xs a" for a :: int
  by (simp_all add: Max.set_eq_fold [symmetric] del: Max_insert)

lemma next_box_sequence_greater: "m \<in> set rows \<Longrightarrow> bm_box m = i \<Longrightarrow> bm_sequence m < next_box_sequence i rows"
proof -
  assume "m \<in> set rows" "bm_box m = i"
  then have "bm_sequence m \<in> set (map bm_sequence (filter (\<lambda>m. bm_box m = i) rows))" by simp
  then show ?thesis unfolding next_box_sequence_def using fold_max_ge(1) by fastforce
qed

lemma members_ok_file:
  assumes "members_ok rows"
  shows "members_ok (tbl_add bm_key \<lparr>bm_box = i, bm_memory = mid, bm_sequence = next_box_sequence i rows\<rparr> rows)"
  using assms next_box_sequence_greater [of _ rows i]
  by (auto simp: members_ok_def tbl_add_def tbl_ok_def sorted_wrt_append)

lemma act_bind_invariant:
  assumes "I (fst (m s))" "\<And>a t. I t \<Longrightarrow> I (fst (f a t))"
  shows "I (fst (act_bind m f s))"
  using assms by (cases "m s") (auto simp: act_bind_def split: sum.split)

lemma act_return_state [simp]: "fst (act_return a s) = s"
  by (simp add: act_return_def)

lemma on_store_ok: "vault_ok v \<Longrightarrow> store_ok (fst (m (vt_store v))) \<Longrightarrow> vault_ok (fst (on_store m v))"
  by (cases "m (vt_store v)") (simp add: on_store_def vault_ok_def)

lemma on_graph_ok: "vault_ok v \<Longrightarrow> graph_ok (fst (m (vt_graph v))) \<Longrightarrow> vault_ok (fst (on_graph m v))"
  by (cases "m (vt_graph v)") (simp add: on_graph_def vault_ok_def)

lemma on_knowledge_ok:
  "vault_ok v \<Longrightarrow> graph_ok (fst (fst (m (vt_graph v, vt_kg v)))) \<and> kg_ok (snd (fst (m (vt_graph v, vt_kg v))))
     \<Longrightarrow> vault_ok (fst (on_knowledge m v))"
  by (auto simp: on_knowledge_def vault_ok_def split: prod.split)

lemma vault_add_fact_ok: "vault_ok v \<Longrightarrow> vault_ok (fst (vault_add_fact a v))"
proof -
  assume v: "vault_ok v"
  let ?w = "\<lparr>fw_ledger = vt_ledger v, fw_graph = vt_graph v, fw_listener = vt_kg v\<rparr>"
  obtain w x where w: "add_fact (index_fact True) a ?w = (w, x)" by fastforce
  have "ledger_ok (fw_ledger w)"
    using add_fact_ledger_ok [of ?w "index_fact True" a] v w by (simp add: vault_ok_def)
  moreover have "graph_ok (fw_graph w) \<and> kg_ok (fw_listener w)"
    using knowledge_listener.add_fact_keeps [of ?w True a] v w by (simp add: vault_ok_def)
  ultimately show ?thesis using v w by (simp add: vault_add_fact_def on_facts_def vault_ok_def)
qed

lemma extract_into_ok: "vault_ok v \<Longrightarrow> vault_ok (fst (extract_into zone now e v))"
  unfolding extract_into_def
  by (rule act_bind_invariant, rule act_each_invariant) (simp_all add: vault_add_fact_ok)

lemma file_in_box_ok: "vault_ok v \<Longrightarrow> vault_ok (file_in_box box mid v)"
  by (simp add: file_in_box_def vault_ok_def members_ok_file split: option.split)

lemma vault_remember_ok: "vault_ok v \<Longrightarrow> vault_ok (fst (vault_remember zone now box lg ex e v))"
  unfolding vault_remember_def
proof (rule act_bind_invariant)
  show "vault_ok (fst (on_store (remember now lg e) v))" if "vault_ok v"
    using that by (intro on_store_ok) (auto simp: vault_ok_def store_ok_remember)
next
  fix mid t
  assume t: "vault_ok t"
  show "vault_ok (fst (act_bind (on_graph (index_memory e)) (\<lambda>_. act_bind (on_knowledge (kg_index_memory True e))
      (\<lambda>_. act_bind (if ex then extract_into zone now e else act_return ()) (\<lambda>_ v. (file_in_box box mid v, Inr mid)))) t))"
  proof (rule act_bind_invariant)
    show "vault_ok (fst (on_graph (index_memory e) t))"
      using t by (intro on_graph_ok) (auto simp: vault_ok_def index_memory_graph_ok)
  next
    fix a u
    assume u: "vault_ok u"
    show "vault_ok (fst (act_bind (on_knowledge (kg_index_memory True e))
        (\<lambda>_. act_bind (if ex then extract_into zone now e else act_return ()) (\<lambda>_ v. (file_in_box box mid v, Inr mid))) u))"
    proof (rule act_bind_invariant)
      show "vault_ok (fst (on_knowledge (kg_index_memory True e) u))"
        using u kg_index_memory_keeps [of "(vt_graph u, vt_kg u)" True e] by (intro on_knowledge_ok) (auto simp: vault_ok_def)
    next
      fix b w
      assume w: "vault_ok w"
      show "vault_ok (fst (act_bind (if ex then extract_into zone now e else act_return ())
          (\<lambda>_ v. (file_in_box box mid v, Inr mid)) w))"
        by (rule act_bind_invariant [where I = vault_ok]) (use w extract_into_ok file_in_box_ok in auto)
    qed
  qed
qed

lemma box_remember_ok: "vault_ok v \<Longrightarrow> vault_ok (fst (box_remember zone now info e v))"
  by (simp add: box_remember_def vault_remember_ok split: sum.split)

lemma open_box_ok: "vault_ok v \<Longrightarrow> vault_ok (fst (open_box uid now name sc v))"
  by (auto simp: open_box_def vault_ok_def Let_def tbl_find_None_iff tbl_ok_def simp del: jsonable.simps)

lemma close_box_ok: "vault_ok v \<Longrightarrow> vault_ok (close_box now i v)"
  by (simp add: close_box_def vault_ok_def tbl_ok_map)

lemma cleared_ok: "vault_ok v \<Longrightarrow> vault_ok (cleared v)"
  by (simp add: cleared_def vault_ok_def)

lemma replay_line_ok: "vault_ok v \<Longrightarrow> vault_ok (fst (replay_line zone now line v))"
proof (cases "parse_envelope now line")
  case (Inr e)
  assume v: "vault_ok v"
  have "vault_ok (fst (act_bind (vault_remember zone now None False False e) (\<lambda>_. act_return ()) v))"
    by (rule act_bind_invariant [where I = vault_ok]) (simp_all add: vault_remember_ok [OF v])
  then show ?thesis using v Inr by (simp add: replay_line_def)
qed (simp add: replay_line_def)

lemma rebuild_graph_index_ok: "graph_ok g \<Longrightarrow> graph_ok (fst (rebuild_graph_index l g))"
proof -
  assume g: "graph_ok g"
  let ?conflicts = "act_each (\<lambda>c g. case tbl_find fc_id (cf_superseding c) (lg_facts l) of
                  None \<Rightarrow> (g, Inr None)
                | Some f \<Rightarrow> (case index_conflict_graph f (cf_superseded c) g of
                      (g', Inl err) \<Rightarrow> (g', Inl err) | (g', Inr r) \<Rightarrow> (g', Inr (Some r))))
                (sort_key cf_created_at (lg_conflicts l))"
  have 1: "graph_ok (fst (act_each index_fact_graph (sort_key fc_created_at (lg_facts l)) g))"
    by (rule act_each_invariant [where I = graph_ok]) (use g add_relation_graph_ok in \<open>auto simp: index_fact_graph_def\<close>)
  have c: "graph_ok (fst (index_conflict_graph f i h))" if "graph_ok h" for f i h
    unfolding index_conflict_graph_def by (rule add_relation_graph_ok [OF that])
  have 2: "graph_ok (fst (?conflicts h))" if "graph_ok h" for h
  proof (rule act_each_invariant [where I = graph_ok, OF _ that])
    fix x s
    assume s: "graph_ok s"
    show "graph_ok (fst (case tbl_find fc_id (cf_superseding x) (lg_facts l) of None \<Rightarrow> (s, Inr None)
        | Some f \<Rightarrow> (case index_conflict_graph f (cf_superseded x) s of
              (g', Inl err) \<Rightarrow> (g', Inl err) | (g', Inr r) \<Rightarrow> (g', Inr (Some r)))))"
    proof (cases "tbl_find fc_id (cf_superseding x) (lg_facts l)")
      case (Some f)
      obtain g' y where "index_conflict_graph f (cf_superseded x) s = (g', y)" by fastforce
      then show ?thesis using c [OF s, of f "cf_superseded x"] Some by (cases y) simp_all
    qed (simp add: s)
  qed
  obtain g1 y where y: "act_each index_fact_graph (sort_key fc_created_at (lg_facts l)) g = (g1, y)" by fastforce
  obtain g2 z where z: "?conflicts g1 = (g2, z)" by fastforce
  have "graph_ok g1" "graph_ok g2" using 1 y 2 [of g1] z by simp_all
  then show ?thesis using y z by (cases y; cases z) (simp_all add: rebuild_graph_index_def)
qed

lemma rebuild_indexes_ok: "vault_ok v \<Longrightarrow> vault_ok (fst (rebuild_indexes zone now v))"
proof (cases "st_log (vt_store v) = []")
  case True
  then show "vault_ok v \<Longrightarrow> ?thesis" by (simp add: rebuild_indexes_def cleared_ok)
next
  case False
  assume v: "vault_ok v"
  have g: "vault_ok (fst (on_graph (rebuild_graph_index (vt_ledger u)) u))" if "vault_ok u" for u
    by (rule on_graph_ok [OF that]) (use that rebuild_graph_index_ok in \<open>simp add: vault_ok_def\<close>)
  have f: "vault_ok (fst (on_knowledge (index_fact True x) u))" if "vault_ok u" for u x
    by (rule on_knowledge_ok [OF that])
      (use that knowledge_listener.notify_keeps [of "(vt_graph u, vt_kg u)" True x] in \<open>simp add: vault_ok_def\<close>)
  have fs: "vault_ok (fst (act_each (\<lambda>x. on_knowledge (index_fact True x)) xs u))" if "vault_ok u" for u xs
    by (rule act_each_invariant [where I = vault_ok, OF _ that]) (rule f)
  have "vault_ok (fst (act_bind (act_each (replay_line zone now) (log_lines (vt_store v))) (\<lambda>_.
        act_bind (\<lambda>v. on_graph (rebuild_graph_index (vt_ledger v)) v) (\<lambda>_.
        act_bind (\<lambda>v. act_each (\<lambda>f. on_knowledge (index_fact True f)) (list_facts [] None None (vt_ledger v)) v) (\<lambda>_.
          act_return ()))) (cleared v)))"
  proof (rule act_bind_invariant [where I = vault_ok])
    show "vault_ok (fst (act_each (replay_line zone now) (log_lines (vt_store v)) (cleared v)))"
      by (rule act_each_invariant [where I = vault_ok, OF _ cleared_ok [OF v]]) (rule replay_line_ok)
  next
    fix a t
    assume t: "vault_ok t"
    show "vault_ok (fst (act_bind (\<lambda>v. on_graph (rebuild_graph_index (vt_ledger v)) v) (\<lambda>_.
        act_bind (\<lambda>v. act_each (\<lambda>f. on_knowledge (index_fact True f)) (list_facts [] None None (vt_ledger v)) v) (\<lambda>_.
          act_return ())) t))"
    proof (rule act_bind_invariant [where I = vault_ok])
      show "vault_ok (fst (on_graph (rebuild_graph_index (vt_ledger t)) t))" by (rule g [OF t])
    next
      fix b u
      assume u: "vault_ok u"
      show "vault_ok (fst (act_bind (\<lambda>v. act_each (\<lambda>f. on_knowledge (index_fact True f))
          (list_facts [] None None (vt_ledger v)) v) (\<lambda>_. act_return ()) u))"
        by (rule act_bind_invariant [where I = vault_ok]) (use fs [OF u] in simp_all)
    qed
  qed
  then show ?thesis using False by (simp add: rebuild_indexes_def)
qed

text \<open>The vault's operations as steps; whatever raises is a step to the state it left behind.\<close>

inductive vault_step :: "vault \<Rightarrow> vault \<Rightarrow> bool" where
  remember_step: "vault_step v (fst (vault_remember zone now box lg ex e v))"
| box_remember_step: "vault_step v (fst (box_remember zone now info e v))"
| add_fact_step: "vault_step v (fst (vault_add_fact a v))"
| update_task_step: "t0 \<noteq> 0 \<Longrightarrow> t1 \<noteq> 0 \<Longrightarrow> vault_step v (fst (vault_update_task t0 t1 i sc patch v))"
| open_box_step: "vault_step v (fst (open_box uid now name sc v))"
| close_box_step: "vault_step v (close_box now i v)"
| rebuild_step: "vault_step v (fst (rebuild_indexes zone now v))"

inductive_cases vault_stepE: "vault_step v v'"

lemma vault_step_ok: "vault_step v v' \<Longrightarrow> vault_ok v \<Longrightarrow> vault_ok v'"
proof (induction rule: vault_step.induct)
  case (update_task_step t0 t1 v i sc patch)
  obtain t x where t: "task_update t0 t1 i sc patch (vt_tasks v) = (t, x)" by fastforce
  then have "tasks_ok t" using task_update_ok [of "vt_tasks v" t0 t1 i sc patch] update_task_step by (simp add: vault_ok_def)
  then show ?case using t update_task_step by (simp add: vault_update_task_def vault_ok_def)
qed (simp_all add: vault_remember_ok box_remember_ok vault_add_fact_ok open_box_ok close_box_ok rebuild_indexes_ok)

text \<open>
  C24: in every state a vault can reach from an empty one, by any sequence of remembers, box calls, facts, rebuilds and
  task updates (by a clock that does not read 0), some of which raise half way, its tables are well formed
  (\<open>vault_ok\<close>). Ids occur once in each table, and the store's three tables name the same memories. A
  relation has ends and a predicate that are not blank, a known graph name and a confidence from 0 to 1, and no two
  relations agree on what the table holds unique. An entity lists its own name among its aliases; an assertion names
  entities that are filed, those its own texts and scope name. A fact or an assertion that is marked as superseded by
  another has the status \<open>superseded\<close> and a conflict row for the pair; the confidences are from 0 to 1.
  Each task row holds a well-formed task under its own id. Within a box the sequence numbers increase in the order of
  filing. Nothing is claimed of the memories and facts that rows name: a conflict row can name a fact that is not filed.
\<close>

theorem vault_reachable_ok:
  assumes "vault_step\<^sup>*\<^sup>* vault_open v"
  shows "vault_ok v"
  using assms by (induction rule: rtranclp_induct) (simp_all add: vault_step_ok)

lemma vault_reachable_ok_witness:
  "vault_ok (close_box 2 ''box_1'' (fst (open_box ''1'' 1 ''notes'' [] vault_open)))"
proof -
  have "vault_step\<^sup>*\<^sup>* vault_open (close_box 2 ''box_1'' (fst (open_box ''1'' 1 ''notes'' [] vault_open)))"
    by (rule rtranclp_trans [of _ _ "fst (open_box ''1'' 1 ''notes'' [] vault_open)"])
      (rule r_into_rtranclp, rule vault_step.intros)+
  then show ?thesis by (rule vault_reachable_ok)
qed

section \<open>Boxes in order\<close>

lemma act_bind_Inr:
  "act_bind m f s = (s', Inr b) \<longleftrightarrow> (\<exists>t a. m s = (t, Inr a) \<and> f a t = (s', Inr b))"
  by (auto simp: act_bind_def split: prod.splits sum.splits)

text \<open>Facts are added without touching the store, the task states or the boxes.\<close>

definition outside_facts :: "vault \<Rightarrow> store \<times> task_table \<times> box_info list \<times> box_memory list" where
  "outside_facts v = (vt_store v, vt_tasks v, vt_boxes v, vt_box_memories v)"

lemma outside_calls [simp]:
  "outside_facts (fst (on_graph m v)) = outside_facts v"
  "outside_facts (fst (on_knowledge m' v)) = outside_facts v"
  "outside_facts (fst (on_facts m'' v)) = outside_facts v"
  by (auto simp: on_graph_def on_knowledge_def on_facts_def outside_facts_def split: prod.split)

lemma outside_extract: "outside_facts (fst (extract_into zone now e v)) = outside_facts v"
  unfolding extract_into_def
  by (rule act_bind_invariant [where I = "\<lambda>u. outside_facts u = outside_facts v"],
      rule act_each_invariant [where I = "\<lambda>u. outside_facts u = outside_facts v"])
    (simp_all add: vault_add_fact_def)

lemma vault_remember_outside:
  assumes "vault_remember zone now box lg ex e v = (v', x)"
  obtains s r u where "remember now lg e (vt_store v) = (s, r)" "outside_facts u = outside_facts (v\<lparr>vt_store := s\<rparr>)"
    "(\<exists>mid. r = Inr mid \<and> x = Inr mid \<and> v' = file_in_box box mid u) \<or> (\<exists>err. x = Inl err \<and> v' = u)"
proof -
  obtain s r where r: "remember now lg e (vt_store v) = (s, r)" by fastforce
  let ?v1 = "v\<lparr>vt_store := s\<rparr>"
  show ?thesis
  proof (cases r)
    case (Inl err)
    then have "v' = ?v1" "x = Inl err" using assms r by (simp_all add: vault_remember_def act_bind_def on_store_def)
    then show ?thesis using that [OF r, of ?v1] by auto
  next
    case (Inr mid)
    obtain v2 a where 2: "on_graph (index_memory e) ?v1 = (v2, a)" by fastforce
    obtain v3 b where 3: "on_knowledge (kg_index_memory True e) v2 = (v3, b)" by fastforce
    obtain v4 c where 4: "(if ex then extract_into zone now e else act_return ()) v3 = (v4, c)" by fastforce
    have o2: "outside_facts v2 = outside_facts ?v1" using outside_calls(1) [of "index_memory e" ?v1] 2 by simp
    have o3: "outside_facts v3 = outside_facts ?v1" using outside_calls(2) [of "kg_index_memory True e" v2] 3 o2 by simp
    have o4: "outside_facts v4 = outside_facts ?v1"
      using outside_extract [of zone now e v3] 4 o3 by (auto simp: act_return_def split: if_splits)
    have res: "(v', x) = (case a of Inl err \<Rightarrow> (v2, Inl err) | Inr _ \<Rightarrow> (case b of Inl err \<Rightarrow> (v3, Inl err)
        | Inr _ \<Rightarrow> (case c of Inl err \<Rightarrow> (v4, Inl err) | Inr _ \<Rightarrow> (file_in_box box mid v4, Inr mid))))"
      using assms r Inr 2 3 4 by (auto simp: vault_remember_def act_bind_def on_store_def split: sum.split)
    show ?thesis
      using that [OF r o2] that [OF r o3] that [OF r o4] res Inr by (cases a; cases b; cases c) auto
  qed
qed

lemma box_memory_ids_filter:
  "members_ok (vt_box_memories v) \<Longrightarrow>
     box_memory_ids i v = map bm_memory (filter (\<lambda>m. bm_box m = i) (vt_box_memories v))"
proof -
  assume ok: "members_ok (vt_box_memories v)"
  have "sorted_wrt (\<lambda>a b. bm_sequence a \<le> bm_sequence b) (filter (\<lambda>m. bm_box m = i) rows)"
    if "sorted_wrt (\<lambda>a b. bm_box a = bm_box b \<longrightarrow> bm_sequence a < bm_sequence b) rows" for rows
    using that by (induction rows) auto
  then have "sorted (map bm_sequence (filter (\<lambda>m. bm_box m = i) (vt_box_memories v)))"
    using ok unfolding members_ok_def sorted_map by blast
  then show ?thesis by (simp add: box_memory_ids_def sort_key_id_if_sorted)
qed

lemma in_box_memory_ids: "mid \<in> set (box_memory_ids i v) \<longleftrightarrow> (i, mid) \<in> bm_key ` set (vt_box_memories v)"
  by (auto simp: box_memory_ids_def bm_key_def image_iff)

text \<open>
  A memory remembered in a box comes last in that box, unless it is already there, when it keeps its
  place; the other boxes are as they were. A closed box is no exception.
\<close>

theorem box_keeps_order:
  assumes "members_ok (vt_box_memories v)" "vault_remember zone now (Some i) lg ex e v = (v', Inr mid)"
  shows "box_memory_ids i v' = (if mid \<in> set (box_memory_ids i v) then box_memory_ids i v else box_memory_ids i v @ [mid])
    \<and> (\<forall>j. j \<noteq> i \<longrightarrow> box_memory_ids j v' = box_memory_ids j v)"
proof -
  obtain s r u where "outside_facts u = outside_facts (v\<lparr>vt_store := s\<rparr>)" and v': "v' = file_in_box (Some i) mid u"
    by (rule vault_remember_outside [OF assms(2)]) auto
  then have rows: "vt_box_memories u = vt_box_memories v" by (simp add: outside_facts_def)
  let ?row = "\<lparr>bm_box = i, bm_memory = mid, bm_sequence = next_box_sequence i (vt_box_memories v)\<rparr>"
  have new: "vt_box_memories v' = tbl_add bm_key ?row (vt_box_memories v)"
    by (simp add: v' file_in_box_def rows)
  have ok: "members_ok (vt_box_memories v')" unfolding new by (rule members_ok_file [OF assms(1)])
  show ?thesis
  proof (cases "mid \<in> set (box_memory_ids i v)")
    case True
    then have "vt_box_memories v' = vt_box_memories v"
      using in_box_memory_ids [of mid i v] by (simp add: new tbl_add_def bm_key_def)
    then show ?thesis using True by (simp add: box_memory_ids_def)
  next
    case False
    then have "vt_box_memories v' = vt_box_memories v @ [?row]"
      using in_box_memory_ids [of mid i v] by (simp add: new tbl_add_def bm_key_def)
    then show ?thesis using False by (simp add: box_memory_ids_filter [OF ok] box_memory_ids_filter [OF assms(1)])
  qed
qed

lemma demo_stored: "storable_envelope 65536 (demo_memory ''m1'')"
  by (simp add: storable_envelope_def demo_memory_def blank_envelope_def wf_envelope_def storable_def
      wf_modality_def honest_modality_def payload_def demo_modality_def content_bytes_def demo_bytes
      blob_name_def envelope_to_dict_def modality_to_dict_def str_list_def opt_str_def opt_int_def plain_float_def
      trimmed_def py_lower_def lower_char_def is_space_def is_small_def)

text \<open>A memory without relations is remembered whenever the store takes it.\<close>

lemma vault_remember_plain:
  assumes "remember now lg e (vt_store v) = (s, Inr mid)" "relations e = []"
  shows "vault_remember zone now box lg False e v = (file_in_box box mid (v\<lparr>vt_store := s\<rparr>), Inr mid)"
  using assms
  by (simp add: vault_remember_def act_bind_def act_return_def on_store_def on_graph_def on_knowledge_def
      index_memory_def kg_index_memory_def)

lemma box_keeps_order_witness:
  "\<exists>v. vault_remember (\<lambda>_. 0) 1 (Some ''b'') True False (demo_memory ''m1'') vault_open = (v, Inr ''m1'')
    \<and> box_memory_ids ''b'' v = [''m1'']"
proof -
  have id: "env_id (demo_memory ''m1'') = ''m1''" "relations (demo_memory ''m1'') = []"
    by (simp_all add: demo_memory_def blank_envelope_def)
  have st: "blob_threshold (vt_store vault_open) = 65536" "st_blobs (vt_store vault_open) = []"
    by (simp_all add: vault_open_def store_open_def)
  obtain s where "remember 1 True (demo_memory ''m1'') (vt_store vault_open) = (s, Inr ''m1'')"
    using inspect_remembered [of "vt_store vault_open" "demo_memory ''m1''"] demo_stored demo_collision_free id st
    by fastforce
  then have r: "vault_remember (\<lambda>_. 0) 1 (Some ''b'') True False (demo_memory ''m1'') vault_open
      = (file_in_box (Some ''b'') ''m1'' (vault_open\<lparr>vt_store := s\<rparr>), Inr ''m1'')"
    using id(2) by (rule vault_remember_plain)
  have "members_ok (vt_box_memories vault_open)" "box_memory_ids ''b'' vault_open = []"
    by (simp_all add: vault_open_def members_ok_def box_memory_ids_def)
  then have "box_memory_ids ''b'' (file_in_box (Some ''b'') ''m1'' (vault_open\<lparr>vt_store := s\<rparr>)) = [''m1'']"
    using box_keeps_order [OF _ r] by simp
  then show ?thesis using r by blast
qed

end
