(* ===== verification/Facade.thy ===== *)
theory Facade
  imports Sif_Sections Vault
begin

text \<open>
  The ranking and filters of \<open>mcp_server.py\<close> behind the \<open>living_memory\<close> tool: the terms of a query and of a
  memory, the greedy ranking that trades score against diversity, and the two filters that take a memory
  out of the answer. The four caches of one call hold pure functions of their key: \<open>memo\<close> is the cache
  discipline, and the functions below are the cached values. A Python set is a duplicate-free list.
\<close>

section \<open>The terms of a text\<close>

definition STOPWORDS :: "string list" where
  "STOPWORDS = [''about'', ''after'', ''and'', ''antes'', ''are'', ''como'', ''com'', ''das'', ''deve'', ''does'', ''dos'',
     ''for'', ''from'', ''how'', ''into'', ''not'', ''para'', ''por'', ''que'', ''the'', ''this'', ''use'', ''what'', ''when'',
     ''where'', ''with'']"

definition GENERIC_ANSWER_TERMS :: "string list" where
  "GENERIC_ANSWER_TERMS = [''active'', ''answer'', ''current'', ''context'', ''latest'', ''memory'', ''memoria'', ''now'',
     ''policy'', ''pol'' @ [CHR 0xED] @ ''tica'']"

definition WEAK_MEMORY_TAGS :: "string list" where
  "WEAK_MEMORY_TAGS = [''distractor'', ''noise'']"

definition WEAK_MEMORY_MARKERS :: "string list" where
  "WEAK_MEMORY_MARKERS = [''wrong distractor'', ''hard noise record'', ''intentionally collides'',
     ''lacks the canonical answer'', ''unrelated'', ''scratchpad'']"

definition UNSAFE_MEDIA_TAGS :: "string list" where
  "UNSAFE_MEDIA_TAGS = [''prompt-injection'', ''prompt_injection'', ''unsafe-media'', ''unsafe_media'']"

definition UNSAFE_MEDIA_MARKERS :: "string list" where
  "UNSAFE_MEDIA_MARKERS = [''ignore previous instructions'', ''ignore all previous instructions'',
     ''disregard previous instructions'', ''export the memory vault'', ''reveal the memory vault'', ''reveal secrets'',
     ''show secrets'', ''exfiltrate'', ''system prompt'']"

definition UNSAFE_QUERY_TERMS :: "string list" where
  "UNSAFE_QUERY_TERMS = [''attack'', ''injection'', ''inject'', ''prompt'', ''safety'', ''security'', ''unsafe'']"

definition meets :: "string list \<Rightarrow> string list \<Rightarrow> bool" where
  "meets xs ys = list_ex (\<lambda>x. x \<in> set ys) xs"

definition common :: "string list \<Rightarrow> string list \<Rightarrow> nat" where
  "common xs ys = length (filter (\<lambda>x. x \<in> set ys) xs)"

definition term_forms :: "string \<Rightarrow> string list" where
  "term_forms t =
     (if length t < 3 \<or> t \<in> set STOPWORDS then []
      else t # (if 4 < length t \<and> last t = CHR ''s'' then [butlast t] else []))"

definition synonym_terms :: "string list \<Rightarrow> string list" where
  "synonym_terms raw =
     (if meets [''now'', ''latest'', ''active''] raw then [''current''] else [])
     @ (if ''current'' \<in> set raw then [''now''] else [])
     @ (if ''run'' \<in> set raw then [''command'', ''commands''] else [])
     @ (if ''missing'' \<in> set raw then [''gap'', ''gaps''] else [])
     @ (if meets [''gap'', ''gaps''] raw then [''missing''] else [])"

definition content_terms :: "string \<Rightarrow> string list" where
  "content_terms s =
     (let raw = py_words (py_lower s) in sorted_set (concat (map term_forms raw) @ synonym_terms raw))"

definition query_anchor_terms :: "string list \<Rightarrow> string list" where
  "query_anchor_terms terms = filter (\<lambda>t. t \<notin> set GENERIC_ANSWER_TERMS) terms"

text \<open>A cache of one call: the value is computed once per key; without a cache it is computed each time.\<close>

definition memo :: "(string \<Rightarrow> 'v) \<Rightarrow> string \<Rightarrow> (string \<times> 'v) list option \<Rightarrow> 'v \<times> (string \<times> 'v) list option" where
  "memo f k cache =
     (case cache of
        None \<Rightarrow> (f k, None)
      | Some c \<Rightarrow> (case map_of c k of Some v \<Rightarrow> (v, Some c) | None \<Rightarrow> (f k, Some (d_set k (f k) c))))"

definition content_terms_cached ::
  "string \<Rightarrow> (string \<times> string list) list option \<Rightarrow> string list \<times> (string \<times> string list) list option" where
  "content_terms_cached s cache = memo content_terms s cache"

definition relations_cached ::
  "graph \<Rightarrow> string \<Rightarrow> (string \<times> relation list) list option \<Rightarrow> relation list \<times> (string \<times> relation list) list option" where
  "relations_cached g i cache = memo (\<lambda>i. relations_for_memory i g) i cache"

definition memo_ok :: "(string \<Rightarrow> 'v) \<Rightarrow> (string \<times> 'v) list option \<Rightarrow> bool" where
  "memo_ok f cache = (case cache of None \<Rightarrow> True | Some c \<Rightarrow> \<forall>k v. map_of c k = Some v \<longrightarrow> v = f k)"

lemma memo_value: "memo_ok f cache \<Longrightarrow> fst (memo f k cache) = f k \<and> memo_ok f (snd (memo f k cache))"
  by (auto simp: memo_ok_def memo_def map_of_d_set split: option.splits)

section \<open>What is known of a memory\<close>

record facade_env =
  fe_graph :: graph
  fe_ledger :: ledger
  fe_now :: real
  fe_at_time :: "real option"

definition heading_path :: "envelope \<Rightarrow> string list result" where
  "heading_path m = res_bind (iter_or_empty (d_get (metadata m) ''heading_path'')) (\<lambda>vs. Inr (map py_str vs))"

definition facade_relation_text :: "graph \<Rightarrow> envelope \<Rightarrow> string" where
  "facade_relation_text g m =
     py_join '' '' (filter (\<lambda>p. p \<noteq> [])
       (concat (map (\<lambda>d. map (\<lambda>k. or_str [] (d_get d k)) [''subject'', ''predicate'', ''object'']) (relations m))
        @ concat (map (\<lambda>r. [rl_subject r, rl_predicate r, rl_object r]) (relations_for_memory (env_id m) g))))"

definition facade_terms :: "graph \<Rightarrow> envelope \<Rightarrow> string list result" where
  "facade_terms g m =
     res_bind (heading_path m) (\<lambda>hs.
       Inr (content_terms (py_join '' ''
         [text_content m, py_join '' '' (tags m), py_join '' '' (entities m), memory_type m,
          or_str [] (d_get (provenance m) ''source''), or_str [] (d_get (metadata m) ''source_path''),
          py_join '' '' hs, facade_relation_text g m])))"

definition heading_terms :: "envelope \<Rightarrow> string list result" where
  "heading_terms m = res_bind (heading_path m) (\<lambda>hs. Inr (content_terms (py_join '' '' hs)))"

definition dated :: "py_dict \<Rightarrow> bool" where
  "dated d = (d_or (d_get d ''valid_from'') \<noteq> VNone \<or> d_or (d_get d ''valid_to'') \<noteq> VNone)"

definition hashable :: "py_value \<Rightarrow> bool" where
  "hashable v = (case v of VList xs \<Rightarrow> False | VDict d \<Rightarrow> False | _ \<Rightarrow> True)"

definition relation_key :: "py_dict \<Rightarrow> py_value list" where
  "relation_key d = map (\<lambda>k. d_or (d_get d k)) [''subject'', ''predicate'', ''object'', ''valid_from'', ''valid_to'']"

definition same_relation_key :: "py_value list \<Rightarrow> py_value list \<Rightarrow> bool" where
  "same_relation_key a b = list_all (\<lambda>(x, y). py_eq x y) (zip a b)"

fun dedupe_relations :: "py_value list list \<Rightarrow> py_dict list \<Rightarrow> py_dict list result" where
  "dedupe_relations seen [] = Inr []"
| "dedupe_relations seen (d # ds) =
     (if \<not> list_all hashable (relation_key d) then Inl (TypeError ''unhashable type'')
      else if list_ex (same_relation_key (relation_key d)) seen then dedupe_relations seen ds
      else res_bind (dedupe_relations (relation_key d # seen) ds) (\<lambda>rest. Inr (d # rest)))"

definition temporal_relations :: "graph \<Rightarrow> envelope \<Rightarrow> py_dict list result" where
  "temporal_relations g m =
     dedupe_relations [] (filter dated (relations m @ map relation_to_dict (relations_for_memory (env_id m) g)))"

definition facade_float :: "py_value option \<Rightarrow> real option" where
  "facade_float x = (case d_or x of VNone \<Rightarrow> None | v \<Rightarrow> (case py_float v of Inr r \<Rightarrow> Some r | Inl _ \<Rightarrow> None))"

definition relation_is_active_at :: "real \<Rightarrow> py_dict \<Rightarrow> bool" where
  "relation_is_active_at t d =
     ((case facade_float (d_get d ''valid_from'') of None \<Rightarrow> True | Some a \<Rightarrow> a \<le> t)
      \<and> (case facade_float (d_get d ''valid_to'') of None \<Rightarrow> True | Some b \<Rightarrow> t \<le> b))"

definition memory_is_inactive_at :: "graph \<Rightarrow> envelope \<Rightarrow> real \<Rightarrow> bool result" where
  "memory_is_inactive_at g m t =
     res_bind (temporal_relations g m) (\<lambda>ds. Inr (ds \<noteq> [] \<and> \<not> list_ex (relation_is_active_at t) ds))"

fun filter_result :: "('a \<Rightarrow> bool result) \<Rightarrow> 'a list \<Rightarrow> 'a list result" where
  "filter_result P [] = Inr []"
| "filter_result P (x # xs) =
     res_bind (P x) (\<lambda>b. res_bind (filter_result P xs) (\<lambda>ys. Inr (if b then x # ys else ys)))"

definition filter_temporal_results :: "facade_env \<Rightarrow> recall_result list \<Rightarrow> recall_result list result" where
  "filter_temporal_results env rs =
     (case fe_at_time env of
        None \<Rightarrow> Inr rs
      | Some t \<Rightarrow> filter_result (\<lambda>r. res_bind (memory_is_inactive_at (fe_graph env) (rr_memory r) t) (\<lambda>b. Inr (\<not> b))) rs)"

section \<open>The weight of a result\<close>

definition facade_score :: "real \<Rightarrow> recall_result \<Rightarrow> real" where
  "facade_score now r =
     (let m = rr_memory r;
          critical_boost = (if 95 / 100 \<le> importance m \<or> ''critical'' \<in> set (rr_why r) then 5 / 100 else 0);
          recency = exp (- (max 0 ((now - created_at m) / 86400) / 45))
      in clamp01 (rr_score r * (45 / 100) + effective_importance (lifecycle_for m) None [] None * (25 / 100)
           + rr_confidence r * (20 / 100) + recency * (10 / 100) + critical_boost))"

definition answerability_bonus :: "string list \<Rightarrow> string list \<Rightarrow> real" where
  "answerability_bonus query_terms terms =
     (let anchors = query_anchor_terms query_terms in
      if anchors = [] then 0 else of_nat (common anchors terms) / of_nat (length anchors))"

definition facade_relevance :: "recall_result \<Rightarrow> string list \<Rightarrow> string list \<Rightarrow> string list \<Rightarrow> real" where
  "facade_relevance r query_terms terms headings =
     (if terms = [] then 0
      else
        (let n = max 1 (of_nat (length query_terms)); matched = of_nat (common query_terms terms);
             coverage = matched / n; density = matched / max 1 (sqrt (of_nat (length terms)));
             heading_coverage = (if headings = [] then 0 else of_nat (common query_terms headings) / n);
             reason_bonus = (if meets [''fts'', ''graph'', ''engram''] (rr_why r) then 8 / 100 else 0);
             section_bonus = (if memory_type (rr_memory r) = ''artifact_section'' then 6 / 100 else 0)
         in min 1 (coverage * (42 / 100) + heading_coverage * (22 / 100) + density * (10 / 100) + rr_score r * (22 / 100)
              + reason_bonus + section_bonus + importance (rr_memory r) * (8 / 100)
              + answerability_bonus query_terms terms * (14 / 100))))"

definition temporal_relevance_bonus :: "facade_env \<Rightarrow> recall_result \<Rightarrow> string list \<Rightarrow> real result" where
  "temporal_relevance_bonus env r query_terms =
     (case fe_at_time env of
        None \<Rightarrow> Inr 0
      | Some t \<Rightarrow>
          if \<not> meets query_terms [''now'', ''current'', ''latest'', ''active''] then Inr 0
          else res_bind (temporal_relations (fe_graph env) (rr_memory r)) (\<lambda>ds.
            Inr (if ds = [] then 0 else if list_ex (relation_is_active_at t) ds then 18 / 100 else - 40 / 100)))"

definition lifecycle_relevance_adjustment :: "facade_env \<Rightarrow> recall_result \<Rightarrow> string list \<Rightarrow> real" where
  "lifecycle_relevance_adjustment env r query_terms =
     max (- 35 / 100) (min (20 / 100)
       (adjusted_score (lifecycle_for (rr_memory r)) (rr_score r) query_terms (fe_at_time env) - rr_score r))"

definition empty_fact_status :: py_dict where
  "empty_fact_status = [(''active_fact_count'', VInt 0), (''superseded_fact_count'', VInt 0), (''fact_ids'', VList []),
     (''active_fact_ids'', VList []), (''superseded_fact_ids'', VList [])]"

definition fact_status_for_memory :: "int option \<Rightarrow> string \<Rightarrow> ledger \<Rightarrow> py_dict" where
  "fact_status_for_memory active_fact_count i l =
     (if active_fact_count = Some 0 then empty_fact_status else memory_fact_status i l)"

definition fact_relevance_adjustment :: "ledger \<Rightarrow> recall_result \<Rightarrow> string list \<Rightarrow> real" where
  "fact_relevance_adjustment l r query_terms =
     (let status = fact_status_for_memory (Some (fact_count l)) (env_id (rr_memory r)) l;
          has = (\<lambda>k. truthy (d_or (d_get status k)));
          current = meets query_terms CURRENT_QUERY_TERMS
      in if \<not> has ''fact_ids'' then 0
         else if current \<and> has ''superseded_fact_count'' \<and> \<not> has ''active_fact_count'' then - 55 / 100
         else if current \<and> has ''superseded_fact_count'' then - 35 / 100
         else if has ''active_fact_count'' then 8 / 100
         else 0)"

definition heading_intent_bonus :: "string list \<Rightarrow> string list \<Rightarrow> real" where
  "heading_intent_bonus query_terms headings =
     (if headings = [] then 0
      else
        (let anchors = query_anchor_terms query_terms;
             coverage = of_nat (common anchors headings) / max 1 (of_nat (length anchors));
             bonus = min (16 / 100) (coverage * (20 / 100))
         in if meets [''run'', ''command'', ''commands''] query_terms \<and> meets [''command'', ''commands''] headings
            then bonus + 22 / 100 else bonus))"

text \<open>
  A result as the ranking sees it: what of its key does not depend on the memories chosen before it, its terms, its
  relevance.
\<close>

record facade_view =
  fv_result :: recall_result
  fv_terms :: "string list"
  fv_base :: real
  fv_relevance :: real

definition facade_view_of :: "facade_env \<Rightarrow> string list \<Rightarrow> recall_result \<Rightarrow> facade_view result" where
  "facade_view_of env query_terms r =
     res_bind (facade_terms (fe_graph env) (rr_memory r)) (\<lambda>terms.
     res_bind (heading_terms (rr_memory r)) (\<lambda>headings.
     res_bind (temporal_relevance_bonus env r query_terms) (\<lambda>temporal.
       (let relevance = facade_relevance r query_terms terms headings in
        Inr \<lparr>fv_result = r, fv_terms = terms,
          fv_base = facade_score (fe_now env) r * (52 / 100) + relevance * (48 / 100) + temporal
            + lifecycle_relevance_adjustment env r query_terms + fact_relevance_adjustment (fe_ledger env) r query_terms
            + answerability_bonus query_terms terms * (20 / 100) + heading_intent_bonus query_terms headings,
          fv_relevance = relevance\<rparr>))))"

definition jaccard :: "string list \<Rightarrow> string list \<Rightarrow> real" where
  "jaccard xs ys =
     (if xs = [] \<or> ys = [] then 0 else of_nat (common xs ys) / of_nat (length (dedupe (xs @ ys))))"

definition diversity_penalty :: "string list \<Rightarrow> facade_view list \<Rightarrow> facade_view \<Rightarrow> real" where
  "diversity_penalty query_terms selected v =
     (let item_terms = dedupe (fv_terms v @ query_terms) in
      if selected = [] \<or> item_terms = [] then 0
      else greatest (map (\<lambda>w. jaccard item_terms (fv_terms w)) selected))"

definition facade_key :: "string list \<Rightarrow> facade_view list \<Rightarrow> facade_view \<Rightarrow> real" where
  "facade_key query_terms selected v = fv_base v - 18 / 100 * diversity_penalty query_terms selected v"

definition first_max :: "('a \<Rightarrow> real) \<Rightarrow> 'a list \<Rightarrow> 'a" where
  "first_max f xs = foldl (\<lambda>b x. if f b < f x then x else b) (hd xs) (tl xs)"

lemma first_max_fold:
  "foldl (\<lambda>b x. if f b < f x then x else b) a xs \<in> insert a (set xs)
    \<and> (\<forall>x\<in>insert a (set xs). f x \<le> (f (foldl (\<lambda>b x. if f b < f x then x else b) a xs) :: real))"
  by (induction xs arbitrary: a) (fastforce split: if_splits)+

lemma first_max_in: "xs \<noteq> [] \<Longrightarrow> first_max f xs \<in> set xs"
  using first_max_fold [of f "hd xs" "tl xs"] by (cases xs) (auto simp: first_max_def)

lemma first_max_ge: "x \<in> set xs \<Longrightarrow> f x \<le> f (first_max f xs)"
  using first_max_fold [of f "hd xs" "tl xs"] by (cases xs) (auto simp: first_max_def)

function rank_views :: "string list \<Rightarrow> facade_view list \<Rightarrow> facade_view list \<Rightarrow> facade_view list" where
  "rank_views query_terms selected remaining =
     (if remaining = [] then selected
      else (let best = first_max (facade_key query_terms selected) remaining in
        rank_views query_terms (selected @ [best]) (remove1 best remaining)))"
  by pat_completeness auto
termination
  by (relation "measure (\<lambda>(q, s, r). length r)") (auto simp: length_remove1 first_max_in)

declare rank_views.simps [simp del]

definition rank_for_facade :: "facade_env \<Rightarrow> string \<Rightarrow> recall_result list \<Rightarrow> facade_view list result" where
  "rank_for_facade env query rs =
     (let query_terms = content_terms query in
      res_bind (res_each (facade_view_of env query_terms) rs) (\<lambda>vs. Inr (rank_views query_terms [] vs)))"

section \<open>What is not shown\<close>

definition is_unsafe_media_memory :: "envelope \<Rightarrow> bool" where
  "is_unsafe_media_memory m =
     (meets (map py_lower (tags m)) UNSAFE_MEDIA_TAGS
      \<or> list_ex (\<lambda>x. modality x \<notin> {''text'', ''structured''}) (modalities m)
        \<and> list_ex (\<lambda>k. py_contains k (py_lower (text_content m))) UNSAFE_MEDIA_MARKERS)"

definition is_weak_memory :: "envelope \<Rightarrow> string list \<Rightarrow> bool" where
  "is_weak_memory m query_terms =
     (if meets query_terms [''noise'', ''distractor'', ''scratchpad'', ''draft''] then False
      else if is_unsafe_media_memory m \<and> \<not> meets query_terms UNSAFE_QUERY_TERMS then True
      else if meets (map py_lower (tags m)) WEAK_MEMORY_TAGS then True
      else list_ex (\<lambda>k. py_contains k (py_lower (py_join '' ''
             [text_content m, py_join '' '' (tags m), or_str [] (d_get (provenance m) ''source'')]))) WEAK_MEMORY_MARKERS)"

definition candidate_can_answer :: "string list \<Rightarrow> facade_view \<Rightarrow> bool" where
  "candidate_can_answer query_terms v =
     (if is_weak_memory (rr_memory (fv_result v)) query_terms then False
      else (let anchors = query_anchor_terms query_terms in
        if length anchors < 2 then meets query_terms (fv_terms v)
        else 50 / 100 \<le> (of_nat (common anchors (fv_terms v)) :: real) / of_nat (length anchors)))"

definition apply_abstention_filter :: "string \<Rightarrow> facade_view list \<Rightarrow> facade_view list" where
  "apply_abstention_filter query vs =
     (let query_terms = content_terms query in
      if query_terms = [] then vs
      else filter (\<lambda>v. 45 / 100 \<le> fv_relevance v \<and> candidate_can_answer query_terms v) vs)"

section \<open>The ranking is greedy\<close>

text \<open>Each result is, of those not yet chosen, one whose key against the chosen ones is greatest.\<close>

definition greedy :: "('a list \<Rightarrow> 'a \<Rightarrow> real) \<Rightarrow> nat \<Rightarrow> 'a list \<Rightarrow> bool" where
  "greedy key n xs =
     (\<forall>i. n \<le> i \<and> i < length xs \<longrightarrow> (\<forall>x\<in>set (drop i xs). key (take i xs) x \<le> key (take i xs) (xs ! i)))"

lemma rank_views_spec:
  "mset (rank_views q sel rem) = mset sel + mset rem \<and> take (length sel) (rank_views q sel rem) = sel
    \<and> greedy (facade_key q) (length sel) (rank_views q sel rem)"
proof (induction q sel rem rule: rank_views.induct)
  case (1 q sel rem)
  show ?case
  proof (cases "rem = []")
    case True
    then show ?thesis by (simp add: rank_views.simps [of q sel] greedy_def)
  next
    case False
    let ?b = "first_max (facade_key q sel) rem"
    let ?out = "rank_views q (sel @ [?b]) (remove1 ?b rem)"
    have out: "rank_views q sel rem = ?out" using False by (simp add: rank_views.simps [of q sel] Let_def)
    have ih: "mset ?out = mset (sel @ [?b]) + mset (remove1 ?b rem)" "take (Suc (length sel)) ?out = sel @ [?b]"
      "greedy (facade_key q) (Suc (length sel)) ?out"
      using "1.IH" [OF False refl] by auto
    have b: "?b \<in> set rem" using False by (rule first_max_in)
    have ms: "mset ?out = mset sel + mset rem" using ih(1) b by simp
    have "length ?out = length sel + length rem" using arg_cong [OF ms, of size] by simp
    then have long: "length sel < length ?out" using False by (cases rem) auto
    have tk: "take (length sel) ?out = sel" using arg_cong [OF ih(2), of "take (length sel)"] by (simp add: take_take min_def)
    have nth: "?out ! length sel = ?b" using arg_cong [OF ih(2), of "\<lambda>xs. xs ! length sel"] by simp
    have "mset (take (length sel) ?out) + mset (drop (length sel) ?out) = mset ?out"
      by (simp only: mset_append [symmetric] append_take_drop_id)
    then have "mset (drop (length sel) ?out) = mset rem" using ms tk by simp
    then have rest: "set (drop (length sel) ?out) = set rem" by (rule mset_eq_setD)
    have "facade_key q sel x \<le> facade_key q sel ?b" if "x \<in> set rem" for x using that by (rule first_max_ge)
    then have "greedy (facade_key q) (length sel) ?out"
      using ih(3) tk nth rest unfolding greedy_def by (metis Suc_leI le_neq_implies_less)
    then show ?thesis using ms tk out by simp
  qed
qed

lemma res_each_views:
  "res_each (facade_view_of env q) rs = Inr vs \<Longrightarrow>
    map fv_result vs = rs \<and> (\<forall>v\<in>set vs. facade_view_of env q (fv_result v) = Inr v)"
proof (induction rs arbitrary: vs)
  case (Cons r rs)
  then obtain v ws where v: "facade_view_of env q r = Inr v" and ws: "res_each (facade_view_of env q) rs = Inr ws"
    and vs: "vs = v # ws" by (auto simp: res_bind_eq_Inr)
  have "fv_result v = r" using v by (auto simp: facade_view_of_def Let_def res_bind_eq_Inr)
  then show ?case using Cons.IH [OF ws] v vs by simp
qed simp

text \<open>
  C16: The facade's ranking loses and invents nothing: what it returns is a permutation of the recalled results, each
  with its terms and weight, and every position holds a result of greatest key, its weight less the penalty for
  overlapping what stands before it, among those from there on.
\<close>

theorem rank_for_facade_spec:
  assumes "rank_for_facade env query rs = Inr out"
  shows "mset (map fv_result out) = mset rs
    \<and> (\<forall>v\<in>set out. facade_view_of env (content_terms query) (fv_result v) = Inr v)
    \<and> greedy (facade_key (content_terms query)) 0 out"
proof -
  obtain vs where vs: "res_each (facade_view_of env (content_terms query)) rs = Inr vs"
    and out: "out = rank_views (content_terms query) [] vs"
    using assms by (auto simp: rank_for_facade_def Let_def res_bind_eq_Inr)
  have "mset out = mset vs" "greedy (facade_key (content_terms query)) 0 out"
    using rank_views_spec [of "content_terms query" "[]" vs] out by auto
  then show ?thesis using res_each_views [OF vs] mset_eq_setD [of out vs] by auto
qed

lemma filter_result_spec: "filter_result P xs = Inr ys \<Longrightarrow> ys = filter (\<lambda>x. P x = Inr True) xs"
  by (induction xs arbitrary: ys) (auto simp: res_bind_eq_Inr split: if_splits)

lemma filter_temporal_spec:
  assumes "filter_temporal_results env rs = Inr out"
  shows "set out \<subseteq> set rs" "distinct (map f rs) \<Longrightarrow> distinct (map f out)"
    "\<forall>t r. fe_at_time env = Some t \<and> r \<in> set out \<longrightarrow> memory_is_inactive_at (fe_graph env) (rr_memory r) t = Inr False"
  using assms
  by (auto simp: filter_temporal_results_def res_bind_eq_Inr distinct_map_filter split: option.splits
      dest!: filter_result_spec)

lemma abstention_spec:
  assumes "v \<in> set (apply_abstention_filter query vs)"
  shows "v \<in> set vs" "content_terms query \<noteq> [] \<Longrightarrow> \<not> is_weak_memory (rr_memory (fv_result v)) (content_terms query)"
    "content_terms query \<noteq> [] \<Longrightarrow> 45 / 100 \<le> fv_relevance v"
  using assms by (auto simp: apply_abstention_filter_def candidate_can_answer_def Let_def split: if_splits)

lemma fact_status_count: "fact_status_for_memory (Some (fact_count l)) i l = memory_fact_status i l"
  by (auto simp: fact_status_for_memory_def fact_count_def memory_fact_status_def facts_for_memory_def empty_fact_status_def
      str_list_def sort_desc_def)

text \<open>A query of stop words has no content term, and the filter then passes every memory, the unsafe ones too.\<close>

lemma stop_words_pass_unsafe:
  "content_terms ''what is the'' = [] \<and> apply_abstention_filter ''what is the'' vs = vs"
proof -
  have "content_terms ''what is the'' = []" by code_simp
  then show ?thesis by (simp add: apply_abstention_filter_def Let_def)
qed

definition demo_env0 :: facade_env where
  "demo_env0 = \<lparr>fe_graph = [], fe_ledger = ledger_empty, fe_now = 1, fe_at_time = None\<rparr>"

lemma rank_for_facade_spec_witness: "\<exists>out. rank_for_facade demo_env0 ''phone'' [demo_result] = Inr out \<and> length out = 1"
proof -
  have t: "heading_path (rr_memory demo_result) = Inr []"
    by (simp add: heading_path_def demo_result_def recall_result_init_def demo_secret_def blank_envelope_def
        iter_or_empty_def d_or_def)
  obtain v where "facade_view_of demo_env0 (content_terms ''phone'') demo_result = Inr v"
    by (simp add: facade_view_of_def facade_terms_def heading_terms_def t temporal_relevance_bonus_def demo_env0_def Let_def)
  then obtain out where out: "rank_for_facade demo_env0 ''phone'' [demo_result] = Inr out"
    by (simp add: rank_for_facade_def Let_def)
  have "mset (map fv_result out) = mset [demo_result]" using rank_for_facade_spec [OF out] by blast
  then have "length out = 1" using mset_eq_length by fastforce
  then show ?thesis using out by blast
qed

end
