(* ===== verification/Vault_Log.thy ===== *)
theory Vault_Log
  imports Vault
begin

text \<open>
  The vault's log: which payloads stay on one line, what \<open>verify_integrity\<close> says of remembered memories,
  and that \<open>rebuild_indexes\<close> gives the memories back.
\<close>

section \<open>Payloads on one line\<close>

definition unbroken :: "string \<Rightarrow> bool" where
  "unbroken l = list_all (\<lambda>c. \<not> is_break c) l"

lemma unbroken_simps [simp]:
  "unbroken []" "unbroken (c # l) = (\<not> is_break c \<and> unbroken l)" "unbroken (l @ r) = (unbroken l \<and> unbroken r)"
  by (simp_all add: unbroken_def)

lemma unbroken_join: "unbroken sep \<Longrightarrow> \<forall>w\<in>set ws. unbroken w \<Longrightarrow> unbroken (py_join sep ws)"
  by (induction sep ws rule: py_join.induct) auto

lemma digit_no_break: "is_digit c \<Longrightarrow> \<not> is_break c"
  by (simp add: is_digit_def is_break_def Let_def)

lemma unbroken_digits: "\<forall>c\<in>set s. is_digit c \<Longrightarrow> unbroken s"
  using digit_no_break by (auto simp: unbroken_def list_all_iff)

lemma unbroken_show [simp]: "unbroken (show_nat n)" "unbroken (show_digits k n)"
  by (simp_all add: unbroken_digits digits_show_nat digits_show_digits)

lemma unbroken_drop_zeros: "unbroken s \<Longrightarrow> unbroken (drop_zeros s)"
  by (auto simp: unbroken_def drop_zeros_def list_all_iff dest: set_dropWhileD)

lemma unbroken_float [simp]: "unbroken (float_repr x)"
proof -
  have chars: "\<not> is_break (CHR ''.'')" "\<not> is_break (CHR ''-'')" "\<not> is_break (CHR ''+'')" "\<not> is_break (CHR ''e'')"
    "\<not> is_break (CHR ''0'')"
    by (simp_all add: is_break_def)
  have "unbroken (fixed_repr a)" for a by (simp add: fixed_repr_def Let_def chars)
  moreover have "unbroken (exp_repr a)" for a
  proof -
    have "unbroken (case sig of [] \<Rightarrow> ''0'' | [d] \<Rightarrow> [d] | d # rest \<Rightarrow> d # ''.'' @ rest)" if "unbroken sig" for sig
      using that chars by (auto split: list.split)
    then show ?thesis by (simp add: exp_repr_def Let_def chars unbroken_drop_zeros)
  qed
  ultimately show ?thesis by (simp add: float_repr_def Let_def chars)
qed

text \<open>The one line boundary JSON leaves as it is: the next-line character.\<close>

fun no_next_line :: "py_value \<Rightarrow> bool" where
  "no_next_line (VStr s) = (CHR 0x85 \<notin> set s)"
| "no_next_line (VList xs) = list_all no_next_line xs"
| "no_next_line (VDict d) = list_all (\<lambda>(k, v). CHR 0x85 \<notin> set k \<and> no_next_line v) d"
| "no_next_line _ = True"

lemma unbroken_escape:
  assumes "c \<noteq> CHR 0x85"
  shows "unbroken (json_escape_char c)"
proof -
  have hex: "\<not> is_break (hex_digit d)" if "d < 16" for d
    using that by (simp add: hex_digit_def is_break_def Let_def)
  have lits: "unbroken ''u00nrtbf''" "\<not> is_break backslash" "\<not> is_break quote_char"
    by (simp_all add: is_break_def backslash_def quote_char_def)
  have "code c \<noteq> 133"
  proof
    assume "code c = 133"
    then have "char_of (133 :: nat) = c" by (metis char_of_char)
    moreover have "char_of (133 :: nat) = CHR 0x85" by code_simp
    ultimately show False using assms by simp
  qed
  then have plain: "\<not> code c < 32 \<Longrightarrow> \<not> is_break c" by (simp add: is_break_def Let_def)
  have n: "code c < 32 \<Longrightarrow> code c div 16 < 16" "code c mod 16 < 16" by simp_all
  show ?thesis
    unfolding json_escape_char_def Let_def using lits plain hex n by simp
qed

lemma unbroken_json_string: "CHR 0x85 \<notin> set s \<Longrightarrow> unbroken (json_string s)"
proof -
  assume s: "CHR 0x85 \<notin> set s"
  have "unbroken (concat (map json_escape_char s))" using s by (induction s) (auto simp: unbroken_escape)
  moreover have "\<not> is_break quote_char" by (simp add: quote_char_def is_break_def)
  ultimately show ?thesis by (simp add: json_string_def)
qed

lemma unbroken_dumps: "no_next_line v \<Longrightarrow> unbroken (dumps v)"
proof (induction v rule: dumps.induct)
  case (3 i)
  have "\<not> is_break (CHR ''-'')" by (simp add: is_break_def)
  then show ?case by (simp add: show_int_def)
next
  case (5 s)
  then show ?case by (simp add: unbroken_json_string)
next
  case (7 xs)
  have "unbroken (py_join '','' (map dumps xs))"
    by (rule unbroken_join) (use 7 in \<open>auto simp: list_all_iff is_break_def\<close>)
  then show ?case by (simp add: is_break_def)
next
  case (8 d)
  have colon: "\<not> is_break (CHR '':'')" by (simp add: is_break_def)
  have "unbroken (json_string k @ '':'' @ t)" if m: "(k, t) \<in> set (sort_key fst (map (\<lambda>(k, v). (k, dumps v)) d))" for k t
  proof -
    obtain v where v: "(k, v) \<in> set d" "t = dumps v" using m by auto
    then have "unbroken t" "CHR 0x85 \<notin> set k" using 8 by (auto simp: list_all_iff)
    then show ?thesis using colon by (simp add: unbroken_json_string)
  qed
  then have "\<forall>w\<in>set (map (\<lambda>(k, t). json_string k @ '':'' @ t) (sort_key fst (map (\<lambda>(k, v). (k, dumps v)) d))). unbroken w"
    by (force simp del: set_sort)
  then have "unbroken (py_join '','' (map (\<lambda>(k, t). json_string k @ '':'' @ t) (sort_key fst (map (\<lambda>(k, v). (k, dumps v)) d))))"
    by (rule unbroken_join [rotated]) (simp add: is_break_def)
  then show ?case by (simp add: is_break_def)
qed (simp_all add: is_break_def)

lemma log_lines_unbroken: "list_all unbroken (st_log s) \<Longrightarrow> log_lines s = st_log s"
  unfolding log_lines_def by (rule py_splitlines_unlines) (auto simp: unbroken_def list_all_iff)

text \<open>
  The next-line character is a line boundary for \<open>str.splitlines\<close>, and \<open>json.dumps\<close> leaves it as it is: a
  payload that contains it is read back as two lines.
\<close>

lemma next_line_breaks_log:
  "py_splitlines (dumps (VStr [CHR ''a'', CHR 0x85, CHR ''b'']) @ [CHR 0x0A]) = [[CHR 0x22, CHR ''a''], [CHR ''b'', CHR 0x22]]"
  by code_simp


section \<open>Logged memories\<close>

text \<open>
  A memory whose payload stays on one log line and whose content hash is its own; and the state of a store
  after a series of such memories: one line each, their blobs in place, and for each id the row of the last.
\<close>

definition recordable :: "int \<Rightarrow> envelope \<Rightarrow> bool" where
  "recordable th e =
     (storable_envelope th e \<and> unbroken (stored_text th e) \<and> compute_content_hash e = Inr (content_hash e))"

definition last_logged :: "string \<Rightarrow> envelope list \<Rightarrow> envelope option" where
  "last_logged i es = map_of (rev (map (\<lambda>e. (env_id e, e)) es)) i"

definition row_texts :: "store \<Rightarrow> string \<Rightarrow> string option" where
  "row_texts s i = map_option row_envelope_json (tbl_find row_id i (st_memories s))"

definition rows_logged :: "store \<Rightarrow> envelope list \<Rightarrow> bool" where
  "rows_logged s es = (row_texts s = (\<lambda>i. map_option (stored_text (blob_threshold s)) (last_logged i es)))"

definition logged :: "store \<Rightarrow> envelope list \<Rightarrow> bool" where
  "logged s es =
     (st_log s = map (stored_text (blob_threshold s)) es \<and> rows_logged s es
      \<and> (\<forall>e\<in>set es. recordable (blob_threshold s) e
           \<and> list_all (has_blob (blob_threshold s) (st_blobs s)) (modalities e)))"

lemma last_logged_snoc: "last_logged i (es @ [e]) = (if i = env_id e then Some e else last_logged i es)"
  by (simp add: last_logged_def)

lemma row_texts_put: "row_texts (s\<lparr>st_memories := tbl_put row_id r (st_memories s)\<rparr>) i
    = (if i = row_id r then Some (row_envelope_json r) else row_texts s i)"
  using memories.lookup_own [of r] memories.lookup_other [of i r] by (simp add: row_texts_def)

lemma row_texts_cong: "st_memories s' = st_memories s \<Longrightarrow> row_texts s' = row_texts s"
  by (simp add: row_texts_def fun_eq_iff)

lemma rows_logged_put:
  assumes "rows_logged s es" "blob_threshold s' = blob_threshold s" "st_memories s' = tbl_put row_id r (st_memories s)"
    and "row_id r = env_id e" "row_envelope_json r = stored_text (blob_threshold s) e"
  shows "rows_logged s' (es @ [e])"
proof -
  have "row_texts s' = row_texts (s\<lparr>st_memories := tbl_put row_id r (st_memories s)\<rparr>)"
    by (rule row_texts_cong) (simp add: assms(3))
  then show ?thesis
    using assms(1) by (auto simp: rows_logged_def row_texts_put last_logged_snoc fun_eq_iff assms(2,4,5))
qed

lemma logged_remember:
  assumes "logged s es" "recordable (blob_threshold s) e" "honest_blobs (st_blobs s)" "collision_free (st_blobs s) e"
    and "remember now True e s = (s', x)"
  shows "logged s' (es @ [e])" "x = Inr (env_id e)" "honest_blobs (st_blobs s')" "blob_threshold s' = blob_threshold s"
proof -
  have e: "storable_envelope (blob_threshold s) e" using assms(2) by (simp add: recordable_def)
  obtain b a r where r: "remember now True e s =
       (s\<lparr>st_blobs := b, st_memories := tbl_put row_id r (st_memories s),
          st_fts := filter (\<lambda>p. fst p \<noteq> env_id e) (st_fts s) @ [(env_id e, text_content e)],
          st_mobius := tbl_put fst (env_id e, a) (st_mobius s),
          st_log := st_log s @ [row_envelope_json r]\<rparr>, Inr (env_id e))"
      "honest_blobs b" "list_all (has_blob (blob_threshold s) b) (modalities e)" "row_id r = env_id e"
      "row_envelope_json r = stored_text (blob_threshold s) e"
    using remember_ok [OF e assms(3,4), where lg = True, unfolded if_True] by blast
  have s': "blob_threshold s' = blob_threshold s" "st_blobs s' = b" "st_log s' = st_log s @ [stored_text (blob_threshold s) e]"
      "st_memories s' = tbl_put row_id r (st_memories s)"
    using assms(5) r(1,5) by auto
  show "x = Inr (env_id e)" "honest_blobs (st_blobs s')" "blob_threshold s' = blob_threshold s"
    using assms(5) r(1,2) s' by auto
  have "map_of (st_blobs s) \<subseteq>\<^sub>m map_of b" using remember_blobs_mono [of s now True e] by (simp add: r(1))
  then have "list_all (has_blob (blob_threshold s) b) (modalities f)" if "f \<in> set es" for f
    using assms(1) that has_blob_mono by (fastforce simp: logged_def list_all_iff)
  moreover have "rows_logged s' (es @ [e])"
    using assms(1) s' r(4,5) by (intro rows_logged_put [of s es s' r e]) (auto simp: logged_def)
  ultimately show "logged s' (es @ [e])"
    using assms(1,2) r(3) s' by (auto simp: logged_def)
qed

lemma stored_text_visible: "py_strip (stored_text th e) \<noteq> []"
proof -
  have "\<not> is_space (CHR ''{'')" by (simp add: is_space_def)
  then show ?thesis by (auto simp: stored_text_def py_strip_eq_Nil)
qed

section \<open>The integrity check\<close>

lemma verify_logged_line:
  assumes "recordable (blob_threshold s) e" "list_all (has_blob (blob_threshold s) (st_blobs s)) (modalities e)"
  shows "verify_line now s (n, stored_text (blob_threshold s) e) rep = Inr (rep\<lparr>ir_checked := Suc (ir_checked rep)\<rparr>)"
proof -
  have e: "storable_envelope (blob_threshold s) e" "compute_content_hash e = Inr (content_hash e)"
    using assms(1) by (simp_all add: recordable_def)
  have "content_hash (canon_envelope e) = content_hash e" by (simp add: canon_envelope_def)
  then show ?thesis
    using parse_stored [OF e(1), of now] resolve_stored [OF e(1) assms(2), of now] e(2)
    by (simp add: verify_line_def stored_text_visible Let_def)
qed

lemma verify_logged_lines:
  assumes "\<forall>e\<in>set es. recordable (blob_threshold s) e \<and> list_all (has_blob (blob_threshold s) (st_blobs s)) (modalities e)"
    and "map snd ps = map (stored_text (blob_threshold s)) es"
  shows "verify_lines now s ps rep = Inr (rep\<lparr>ir_checked := ir_checked rep + length es\<rparr>)"
  using assms
proof (induction es arbitrary: ps rep)
  case Nil
  then show ?case by simp
next
  case (Cons e es)
  then obtain n qs where ps: "ps = (n, stored_text (blob_threshold s) e) # qs"
    "map snd qs = map (stored_text (blob_threshold s)) es"
    by (cases ps) (auto simp: prod_eq_iff)
  then show ?case using Cons by (simp add: verify_logged_line)
qed

lemma verify_logged:
  assumes "logged (vt_store v) es"
  shows "verify_integrity now v = Inr \<lparr>ir_checked = length es, ir_tampered = [], ir_invalid = []\<rparr>"
proof -
  let ?s = "vt_store v"
  have "list_all unbroken (st_log ?s)" using assms by (auto simp: logged_def recordable_def list_all_iff)
  then have "log_lines ?s = map (stored_text (blob_threshold ?s)) es"
    using assms by (simp add: log_lines_unbroken logged_def)
  moreover have "map snd (zip [1..<Suc n] xs) = xs" if "length xs = n" for n and xs :: "string list"
    using that by simp
  ultimately show ?thesis
    using assms verify_logged_lines [of es ?s] by (simp add: verify_integrity_def logged_def Let_def del: upt_Suc)
qed

text \<open>
  C25: take a vault whose log holds memories that are storable (as for \<open>remember_inspect\<close>), carry the hash
  of their own content and are written without a line boundary, and whose rows and blobs are theirs; an empty vault is
  one. The integrity check of its log counts every memory and finds none tampered with and no line invalid. Remembering
  one more such memory, with no digest collision, keeps the vault so and is one more that verifies, whatever becomes of
  its relations and facts, even if the call raises for them.
\<close>

theorem remembered_verifies:
  assumes "logged (vt_store v) es" "honest_blobs (st_blobs (vt_store v))"
    and "recordable (blob_threshold (vt_store v)) e" "collision_free (st_blobs (vt_store v)) e"
    and "vault_remember zone now box True ex e v = (v', x)"
  shows "logged (vt_store v') (es @ [e])
    \<and> verify_integrity now' v = Inr \<lparr>ir_checked = length es, ir_tampered = [], ir_invalid = []\<rparr>
    \<and> verify_integrity now' v' = Inr \<lparr>ir_checked = Suc (length es), ir_tampered = [], ir_invalid = []\<rparr>"
proof -
  obtain s r u where r: "remember now True e (vt_store v) = (s, r)" "outside_facts u = outside_facts (v\<lparr>vt_store := s\<rparr>)"
    and "(\<exists>mid. r = Inr mid \<and> x = Inr mid \<and> v' = file_in_box box mid u) \<or> (\<exists>err. x = Inl err \<and> v' = u)"
    by (rule vault_remember_outside [OF assms(5)])
  then have "vt_store v' = s" by (auto simp: outside_facts_def file_in_box_def split: option.splits)
  then have "logged (vt_store v') (es @ [e])" using logged_remember(1) [OF assms(1,3,2,4) r(1)] by simp
  then show ?thesis using verify_logged [OF assms(1)] verify_logged [of v' "es @ [e]"] by simp
qed

section \<open>Rebuilding\<close>

text \<open>A log line read back is a memory whose payloads are small or already references to blobs.\<close>

lemma externalize_stored_form:
  assumes "storable th m"
  shows "externalize_modality th (canon_modality (stored_form th m)) blobs = (blobs, Inr (canon_modality (stored_form th m)))"
proof (cases "content m = VNone \<or> \<not> is_small th m")
  case True
  then have "content (canon_modality (stored_form th m)) = VNone"
    by (auto simp: canon_modality_def stored_form_def external_form_def is_small_def)
  then show ?thesis by (simp add: externalize_modality_def)
next
  case False
  then have "content_bytes (content m) = Inr (payload m)" "int (length (payload m)) \<le> th" "stored_form th m = m"
    using assms by (auto simp: storable_def honest_modality_def is_small_def stored_form_def)
  then show ?thesis by (simp add: externalize_modality_def canon_modality_def)
qed

lemma remember_line:
  assumes e: "storable_envelope (blob_threshold s) e"
  defines "f \<equiv> canon_envelope (stored_envelope (blob_threshold s) e)"
  shows "\<exists>a r. remember now lg f s =
       (s\<lparr>st_memories := tbl_put row_id r (st_memories s),
          st_fts := filter (\<lambda>p. fst p \<noteq> env_id f) (st_fts s) @ [(env_id f, text_content f)],
          st_mobius := tbl_put fst (env_id f, a) (st_mobius s),
          st_log := (if lg then st_log s @ [row_envelope_json r] else st_log s)\<rparr>, Inr (env_id e))
     \<and> row_id r = env_id e \<and> row_envelope_json r = stored_text (blob_threshold s) e"
proof -
  let ?th = "blob_threshold s" and ?g = "stored_envelope (blob_threshold s) e"
  have id: "env_id f = env_id e" by (simp add: f_def canon_envelope_def stored_envelope_def)
  have ms: "modalities f = map (\<lambda>m. canon_modality (stored_form ?th m)) (modalities e)"
    by (simp add: f_def canon_envelope_def stored_envelope_def)
  have w: "wf_envelope f" "list_all wf_modality (modalities f)" "created_at f \<noteq> 0"
    using stored_envelope_ok(1,2) [OF e] e
    by (simp_all add: f_def storable_envelope_def canon_envelope_def stored_envelope_def list_all_iff
        del: wf_canon_envelope) (simp add: wf_envelope_def)
  have init: "envelope_from_dict now (envelope_to_dict f) = Inr f" by (rule envelope_from_dict_same [OF w])
  have "act_each (externalize_modality ?th) (map (\<lambda>m. canon_modality (stored_form ?th m)) xs) b
      = (b, Inr (map (\<lambda>m. canon_modality (stored_form ?th m)) xs))" if "list_all (storable ?th) xs" for xs b
    using that by (induction xs) (simp_all add: externalize_stored_form)
  moreover have "with_modalities now f (modalities f) = Inr f"
    using with_modalities_wf [OF w(1,3,2)] by simp
  ultimately have ext: "externalize_large_payloads now f s = (s, Inr f)"
    using e by (simp add: externalize_large_payloads_def ms storable_envelope_def)
  have j: "jsonable (VDict (envelope_to_dict f))"
    unfolding f_def jsonable_canon_envelope by (rule json_ok_jsonable [OF stored_envelope_ok(3) [OF e]])
  then have sc: "jsonable (VDict (scope f))" by (simp add: envelope_to_dict_def)
  have st: "jsonable (str_list xs)" for xs by (simp add: str_list_def list_all_iff)
  have "jsonable (address_material f)" using sc by (simp add: address_material_def str_list_def list_all_iff)
  then obtain a where a: "address_for (st_index s) f = Inr a" by (auto simp: address_for_def stable_json_def Let_def)
  obtain r where r: "memory_row_of f = Inr r" "row_id r = env_id f" "row_envelope_json r = dumps (VDict (envelope_to_dict f))"
    using j sc by (simp add: memory_row_of_def stable_json_def st del: dumps.simps jsonable.simps)
  have "row_envelope_json r = stored_text ?th e" unfolding r(3) stored_text_def f_def by (rule dumps_canon_envelope)
  moreover have "remember now lg f s =
       (s\<lparr>st_memories := tbl_put row_id r (st_memories s),
          st_fts := filter (\<lambda>p. fst p \<noteq> env_id f) (st_fts s) @ [(env_id f, text_content f)],
          st_mobius := tbl_put fst (env_id f, a) (st_mobius s),
          st_log := (if lg then st_log s @ [row_envelope_json r] else st_log s)\<rparr>, Inr (env_id e))"
    by (simp add: remember_def init ext a r(1) id)
  ultimately show ?thesis using r(2) id by metis
qed

text \<open>What no graph, knowledge or store call touches.\<close>

definition kept :: "vault \<Rightarrow> ledger \<times> task_table \<times> box_info list \<times> box_memory list" where
  "kept v = (vt_ledger v, vt_tasks v, vt_boxes v, vt_box_memories v)"

lemma kept_calls [simp]:
  "kept (fst (on_graph m v)) = kept v" "kept (fst (on_knowledge m' v)) = kept v" "kept (fst (on_store m'' v)) = kept v"
  by (auto simp: on_graph_def on_knowledge_def on_store_def kept_def split: prod.split)

lemma kept_remember: "kept (fst (vault_remember zone now None lg False e v)) = kept v"
  unfolding vault_remember_def
  by (intro act_bind_invariant [where I = "\<lambda>u. kept u = kept v"]) (simp_all add: file_in_box_def)

lemma replay_line_stored:
  assumes "storable_envelope (blob_threshold (vt_store v)) e" "rows_logged (vt_store v) es"
    and "replay_line zone now (stored_text (blob_threshold (vt_store v)) e) v = (v', Inr ())"
  shows "rows_logged (vt_store v') (es @ [e]) \<and> kept v' = kept v
    \<and> blob_threshold (vt_store v') = blob_threshold (vt_store v) \<and> st_blobs (vt_store v') = st_blobs (vt_store v)
    \<and> st_log (vt_store v') = st_log (vt_store v)"
proof -
  let ?th = "blob_threshold (vt_store v)"
  let ?f = "canon_envelope (stored_envelope ?th e)"
  have "act_bind (vault_remember zone now None False False ?f) (\<lambda>_. act_return ()) v = (v', Inr ())"
    using assms(3) parse_stored [OF assms(1), of now] by (simp add: replay_line_def stored_text_visible)
  then obtain mid where m: "vault_remember zone now None False False ?f v = (v', Inr mid)"
    by (auto simp: act_bind_Inr act_return_def)
  obtain a r where r: "remember now False ?f (vt_store v) =
       ((vt_store v)\<lparr>st_memories := tbl_put row_id r (st_memories (vt_store v)),
          st_fts := filter (\<lambda>p. fst p \<noteq> env_id ?f) (st_fts (vt_store v)) @ [(env_id ?f, text_content ?f)],
          st_mobius := tbl_put fst (env_id ?f, a) (st_mobius (vt_store v)), st_log := st_log (vt_store v)\<rparr>, Inr (env_id e))"
    "row_id r = env_id e" "row_envelope_json r = stored_text ?th e"
    using remember_line [OF assms(1), of now False, unfolded if_False] by blast
  obtain s u where "remember now False ?f (vt_store v) = (s, Inr mid)" "outside_facts u = outside_facts (v\<lparr>vt_store := s\<rparr>)"
    "v' = file_in_box None mid u"
    by (rule vault_remember_outside [OF m]) auto
  then have "vt_store v' = fst (remember now False ?f (vt_store v))"
    by (simp add: outside_facts_def file_in_box_def)
  then have s: "st_memories (vt_store v') = tbl_put row_id r (st_memories (vt_store v))"
    "blob_threshold (vt_store v') = ?th" "st_blobs (vt_store v') = st_blobs (vt_store v)" "st_log (vt_store v') = st_log (vt_store v)"
    by (simp_all add: r(1))
  have "rows_logged (vt_store v') (es @ [e])" by (rule rows_logged_put [OF assms(2) s(2,1) r(2,3)])
  moreover have "kept v' = kept v" using kept_remember [of zone now False ?f v] by (simp add: m)
  ultimately show ?thesis using s by simp
qed

lemma replay_lines_stored:
  assumes "\<forall>e\<in>set es. storable_envelope (blob_threshold (vt_store v)) e" "rows_logged (vt_store v) ds"
    and "act_each (replay_line zone now) (map (stored_text (blob_threshold (vt_store v))) es) v = (v', Inr xs)"
  shows "rows_logged (vt_store v') (ds @ es) \<and> kept v' = kept v
    \<and> blob_threshold (vt_store v') = blob_threshold (vt_store v) \<and> st_blobs (vt_store v') = st_blobs (vt_store v)
    \<and> st_log (vt_store v') = st_log (vt_store v)"
  using assms
proof (induction es arbitrary: v ds xs)
  case Nil
  then show ?case by simp
next
  case (Cons e es)
  let ?th = "blob_threshold (vt_store v)"
  obtain u y where u: "replay_line zone now (stored_text ?th e) v = (u, Inr ())"
    "act_each (replay_line zone now) (map (stored_text ?th) es) u = (v', Inr y)"
    using Cons.prems(3) by (auto split: prod.splits sum.splits)
  have 1: "rows_logged (vt_store u) (ds @ [e])" "kept u = kept v" "blob_threshold (vt_store u) = ?th"
    "st_blobs (vt_store u) = st_blobs (vt_store v)" "st_log (vt_store u) = st_log (vt_store v)"
    using replay_line_stored [OF _ Cons.prems(2) u(1)] Cons.prems(1) by simp_all
  show ?case using Cons.IH [of u "ds @ [e]" y] Cons.prems(1) u(2) 1 by simp
qed

lemma stores_kept_calls [simp]:
  "vt_store (fst (on_graph m v)) = vt_store v" "vt_store (fst (on_knowledge m' v)) = vt_store v"
  by (auto simp: on_graph_def on_knowledge_def split: prod.split)

lemma rebuild_indexes_stages:
  assumes "rebuild_indexes zone now v = (v', Inr ())" "st_log (vt_store v) \<noteq> []"
  obtains u xs where "act_each (replay_line zone now) (log_lines (vt_store v)) (cleared v) = (u, Inr xs)"
    "vt_store v' = vt_store u" "kept v' = kept u"
proof -
  let ?facts = "\<lambda>w. act_each (\<lambda>f. on_knowledge (index_fact True f)) (list_facts [] None None (vt_ledger w)) w"
  obtain u xs w a t b where u: "act_each (replay_line zone now) (log_lines (vt_store v)) (cleared v) = (u, Inr xs)"
    and w: "on_graph (rebuild_graph_index (vt_ledger u)) u = (w, Inr a)" and t: "?facts w = (t, Inr b)" and v': "v' = t"
    using assms by (auto simp: rebuild_indexes_def act_bind_Inr act_return_def)
  have "vt_store w = vt_store u" "kept w = kept u"
    using stores_kept_calls(1) [of "rebuild_graph_index (vt_ledger u)" u] kept_calls(1) [of "rebuild_graph_index (vt_ledger u)" u]
    by (simp_all add: w)
  moreover have "vt_store (fst (?facts w)) = vt_store w \<and> kept (fst (?facts w)) = kept w"
    by (rule act_each_invariant [where I = "\<lambda>z. vt_store z = vt_store w \<and> kept z = kept w"]) simp_all
  ultimately show ?thesis using that [OF u] t v' by simp
qed

lemma rebuild_restores:
  assumes "logged (vt_store v) es" "rebuild_indexes zone now v = (v', Inr ())"
  shows "logged (vt_store v') es \<and> (\<forall>now' res i. inspect now' res i (vt_store v') = inspect now' res i (vt_store v))
    \<and> vt_ledger v' = vt_ledger v \<and> vt_tasks v' = vt_tasks v \<and> vt_boxes v' = vt_boxes v
    \<and> vt_box_memories v' = vt_box_memories v"
proof -
  let ?s = "vt_store v" and ?th = "blob_threshold (vt_store v)"
  have cl: "blob_threshold (vt_store (cleared v)) = ?th" "st_blobs (vt_store (cleared v)) = st_blobs ?s"
    "st_log (vt_store (cleared v)) = st_log ?s" "kept (cleared v) = kept v"
    by (simp_all add: cleared_def clear_indexes_def kept_def)
  have c0: "rows_logged (vt_store (cleared v)) []"
    by (simp add: rows_logged_def row_texts_def cleared_def clear_indexes_def last_logged_def fun_eq_iff)
  have lines: "log_lines ?s = map (stored_text ?th) es"
    using assms(1) log_lines_unbroken [of ?s] by (auto simp: logged_def recordable_def list_all_iff)
  have r: "rows_logged (vt_store v') es \<and> kept v' = kept v \<and> blob_threshold (vt_store v') = ?th
    \<and> st_blobs (vt_store v') = st_blobs ?s \<and> st_log (vt_store v') = st_log ?s"
  proof (cases "st_log ?s = []")
    case True
    then have "v' = cleared v" "es = []" using assms by (simp_all add: rebuild_indexes_def logged_def)
    then show ?thesis using c0 cl by simp
  next
    case False
    obtain u xs where u: "act_each (replay_line zone now) (log_lines ?s) (cleared v) = (u, Inr xs)"
      "vt_store v' = vt_store u" "kept v' = kept u"
      by (rule rebuild_indexes_stages [OF assms(2) False])
    then show ?thesis
      using replay_lines_stored [of es "cleared v" "[]" zone now u xs] c0 cl assms(1) lines
      by (simp add: logged_def recordable_def)
  qed
  then have l: "logged (vt_store v') es" using assms(1) by (simp add: logged_def)
  have "row_texts (vt_store v') = row_texts ?s" using r assms(1) by (simp add: rows_logged_def logged_def)
  then have t: "map_option row_envelope_json (tbl_find row_id i (st_memories (vt_store v')))
      = map_option row_envelope_json (tbl_find row_id i (st_memories ?s))" for i
    by (metis row_texts_def)
  have "resolve_blobs now' (vt_store v') e = resolve_blobs now' ?s e" for now' e
  proof -
    have "read_blob (vt_store v') sha = read_blob ?s sha" for sha using r by (simp add: read_blob_def)
    then have "resolve_modality (vt_store v') = resolve_modality ?s"
      by (simp add: resolve_modality_def fun_eq_iff split: option.split)
    then show ?thesis by (simp add: resolve_blobs_def)
  qed
  then have "inspect now' res i (vt_store v') = inspect now' res i ?s" for now' res i
    using t [of i] by (cases res) (auto simp: inspect_def split: option.split)
  then show ?thesis using l r by (simp add: kept_def)
qed

text \<open>Without relations and facts nothing can refuse the replay.\<close>

lemma replay_plain:
  assumes "storable_envelope (blob_threshold (vt_store v)) e" "relations e = []"
  shows "\<exists>u. replay_line zone now (stored_text (blob_threshold (vt_store v)) e) v = (u, Inr ())
    \<and> blob_threshold (vt_store u) = blob_threshold (vt_store v) \<and> vt_ledger u = vt_ledger v"
proof -
  let ?f = "canon_envelope (stored_envelope (blob_threshold (vt_store v)) e)"
  obtain s where s: "remember now False ?f (vt_store v) = (s, Inr (env_id e))"
    "blob_threshold s = blob_threshold (vt_store v)"
    using remember_line [OF assms(1), of now False] by auto
  have "relations ?f = []" using assms(2) by (simp add: canon_envelope_def stored_envelope_def)
  then have "vault_remember zone now None False False ?f v = (v\<lparr>vt_store := s\<rparr>, Inr (env_id e))"
    using vault_remember_plain [OF s(1)] by (simp add: file_in_box_def)
  then show ?thesis
    using parse_stored [OF assms(1), of now] s(2)
    by (simp add: replay_line_def stored_text_visible act_bind_def act_return_def)
qed

lemma replay_all_plain:
  assumes "\<forall>e\<in>set es. storable_envelope (blob_threshold (vt_store v)) e \<and> relations e = []"
  shows "\<exists>u xs. act_each (replay_line zone now) (map (stored_text (blob_threshold (vt_store v))) es) v = (u, Inr xs)
    \<and> vt_ledger u = vt_ledger v"
  using assms
proof (induction es arbitrary: v)
  case (Cons e es)
  let ?th = "blob_threshold (vt_store v)"
  obtain u where u: "replay_line zone now (stored_text ?th e) v = (u, Inr ())" "blob_threshold (vt_store u) = ?th"
    "vt_ledger u = vt_ledger v"
    using replay_plain [of v e zone now] Cons.prems by auto
  then show ?case using Cons.IH [of u] Cons.prems by fastforce
qed simp

lemma rebuild_plain:
  assumes "logged (vt_store v) es" "\<forall>e\<in>set es. relations e = []" "vt_ledger v = ledger_empty"
  shows "\<exists>v'. rebuild_indexes zone now v = (v', Inr ())"
proof -
  let ?s = "vt_store v" and ?th = "blob_threshold (vt_store v)"
  have lines: "log_lines ?s = map (stored_text ?th) es"
    using assms(1) log_lines_unbroken [of ?s] by (auto simp: logged_def recordable_def list_all_iff)
  have "blob_threshold (vt_store (cleared v)) = ?th" "vt_ledger (cleared v) = ledger_empty"
    using assms(3) by (simp_all add: cleared_def clear_indexes_def)
  then obtain u xs where "act_each (replay_line zone now) (map (stored_text ?th) es) (cleared v) = (u, Inr xs)"
    "vt_ledger u = ledger_empty"
    using replay_all_plain [of es "cleared v" zone now] assms(1,2) by (auto simp: logged_def recordable_def)
  then show ?thesis
    by (simp add: rebuild_indexes_def lines act_bind_def act_return_def rebuild_graph_index_def ledger_empty_def
        on_graph_def list_facts_def sort_desc_def)
qed

text \<open>
  C11: take a vault whose log has one line for each of a series of memories (\<open>logged\<close>): the row of each id is that of the
  last line with the id, the blobs of the payloads are in place, and the memories are storable (as for \<open>remember_inspect\<close>),
  carry their own hash and are written without a line boundary. If the rebuild of its indexes from the
  log returns, each id is inspected with the same result as before, resolved or not, and the facts, tasks and boxes are as
  they were. It does return if the memories have no relations and the ledger no facts; otherwise it may raise, for a relation
  that the graph refuses. (The full-text index is not as it was: a payload that went to a blob has no text in the log.)
\<close>

theorem rebuild_restores_memories:
  assumes "logged (vt_store v) es" "rebuild_indexes zone now v = (v', x)"
  shows "(x = Inr () \<longrightarrow>
        logged (vt_store v') es \<and> (\<forall>now' res i. inspect now' res i (vt_store v') = inspect now' res i (vt_store v))
        \<and> vt_ledger v' = vt_ledger v \<and> vt_tasks v' = vt_tasks v \<and> vt_boxes v' = vt_boxes v
        \<and> vt_box_memories v' = vt_box_memories v)
    \<and> ((\<forall>e\<in>set es. relations e = []) \<and> vt_ledger v = ledger_empty \<longrightarrow> x = Inr ())"
proof (intro conjI impI)
  assume "(\<forall>e\<in>set es. relations e = []) \<and> vt_ledger v = ledger_empty"
  then show "x = Inr ()" using rebuild_plain [OF assms(1), of zone now] assms(2) by auto
qed (use rebuild_restores [OF assms(1)] assms(2) in blast)+

section \<open>An example\<close>

definition signed :: "envelope \<Rightarrow> envelope" where
  "signed e = (case compute_content_hash e of Inr h \<Rightarrow> e\<lparr>content_hash := h\<rparr> | Inl err \<Rightarrow> e)"

definition demo_signed :: envelope where
  "demo_signed = signed (demo_memory ''m1'')"

lemma demo_signed_hash:
  obtains d where "demo_signed = (demo_memory ''m1'')\<lparr>content_hash := sha256_hexdigest d\<rparr>"
    "compute_content_hash demo_signed = Inr (sha256_hexdigest d)"
proof -
  have "jsonable (hash_material (demo_memory ''m1''))"
    by (simp add: hash_material_def demo_memory_def demo_modality_def blank_envelope_def modality_to_dict_def
        str_list_def opt_str_def opt_int_def)
  then obtain d where d: "compute_content_hash (demo_memory ''m1'') = Inr (sha256_hexdigest d)"
    by (auto simp: compute_content_hash_def sha256_hex_def content_bytes_def stable_json_def hash_material_def
        simp del: dumps.simps)
  moreover have "compute_content_hash (demo_memory ''m1''\<lparr>content_hash := h\<rparr>) = compute_content_hash (demo_memory ''m1'')" for h
    by (simp add: compute_content_hash_def hash_material_def)
  ultimately show ?thesis by (intro that [of d]) (simp_all add: demo_signed_def signed_def)
qed

lemma demo_recordable: "recordable 65536 demo_signed"
proof -
  obtain d where d: "demo_signed = (demo_memory ''m1'')\<lparr>content_hash := sha256_hexdigest d\<rparr>"
    and hash: "compute_content_hash demo_signed = Inr (sha256_hexdigest d)"
    by (rule demo_signed_hash)
  have ne: "sha256_hexdigest x \<noteq> []" for x using length_sha256_hexdigest [of x] by force
  have st: "storable_envelope 65536 demo_signed"
    using demo_stored ne [of d] by (simp add: d storable_envelope_def wf_envelope_def envelope_to_dict_def)
  have no: "CHR 0x85 \<notin> set (sha256_hexdigest x)" for x
    using sha256_hexdigest_hex [of x] by (auto simp: is_hex_lower_def)
  have "stored_envelope 65536 demo_signed = demo_signed"
    by (simp add: d stored_envelope_def demo_memory_def stored_form_def is_small_def payload_def demo_modality_def
        content_bytes_def demo_bytes)
  moreover have "no_next_line (VDict (envelope_to_dict demo_signed))"
    using no by (simp add: d envelope_to_dict_def demo_memory_def demo_modality_def blank_envelope_def
        modality_to_dict_def str_list_def opt_str_def opt_int_def)
  ultimately have "unbroken (stored_text 65536 demo_signed)"
    by (simp add: stored_text_def unbroken_dumps del: dumps.simps)
  then show ?thesis using st hash by (simp add: recordable_def d)
qed

lemma vault_open_store: "blob_threshold (vt_store vault_open) = 65536" "st_blobs (vt_store vault_open) = []"
    "logged (vt_store vault_open) []"
  by (simp_all add: vault_open_def store_open_def logged_def rows_logged_def row_texts_def last_logged_def fun_eq_iff)

lemma demo_free: "honest_blobs []" "collision_free [] demo_signed"
  using demo_collision_free [of "''m1''"] by (auto simp: collision_free_def demo_signed_def signed_def split: sum.split)

lemma demo_logged:
  obtains v where "vault_remember (\<lambda>_. 0) 1 None True False demo_signed vault_open = (v, Inr ''m1'')"
    "logged (vt_store v) [demo_signed]" "vt_ledger v = ledger_empty" "relations demo_signed = []"
proof -
  have id: "env_id demo_signed = ''m1''" "relations demo_signed = []"
    by (auto simp: demo_signed_def signed_def demo_memory_def blank_envelope_def split: sum.split)
  have "storable_envelope 65536 demo_signed" using demo_recordable by (simp add: recordable_def)
  then obtain s where s: "remember 1 True demo_signed (vt_store vault_open) = (s, Inr ''m1'')"
    using inspect_remembered [of "vt_store vault_open" demo_signed] demo_free id vault_open_store by fastforce
  then have r: "vault_remember (\<lambda>_. 0) 1 None True False demo_signed vault_open
      = (vault_open\<lparr>vt_store := s\<rparr>, Inr ''m1'')"
    using vault_remember_plain [OF _ id(2), of 1 True vault_open s "''m1''" "\<lambda>_. 0" None] by (simp add: file_in_box_def)
  have "logged s [demo_signed]"
    using logged_remember(1) [OF vault_open_store(3) _ _ _ s] demo_free demo_recordable vault_open_store by simp
  then show ?thesis using that [OF r] id(2) by (simp add: vault_open_def)
qed

lemma remembered_verifies_witness:
  "\<exists>v. vault_remember (\<lambda>_. 0) 1 None True False demo_signed vault_open = (v, Inr ''m1'')
    \<and> verify_integrity 2 v = Inr \<lparr>ir_checked = 1, ir_tampered = [], ir_invalid = []\<rparr>"
proof -
  obtain v where r: "vault_remember (\<lambda>_. 0) 1 None True False demo_signed vault_open = (v, Inr ''m1'')"
    by (rule demo_logged)
  then show ?thesis
    using remembered_verifies [OF vault_open_store(3) _ _ _ r, of 2] demo_free demo_recordable vault_open_store by auto
qed

lemma rebuild_restores_memories_witness:
  "\<exists>v v'. vault_remember (\<lambda>_. 0) 1 None True False demo_signed vault_open = (v, Inr ''m1'')
    \<and> rebuild_indexes (\<lambda>_. 0) 2 v = (v', Inr ())
    \<and> inspect 3 True ''m1'' (vt_store v') = inspect 3 True ''m1'' (vt_store v)"
proof -
  obtain v where r: "vault_remember (\<lambda>_. 0) 1 None True False demo_signed vault_open = (v, Inr ''m1'')"
    and l: "logged (vt_store v) [demo_signed]" "vt_ledger v = ledger_empty" "relations demo_signed = []"
    by (rule demo_logged)
  obtain v' where v': "rebuild_indexes (\<lambda>_. 0) 2 v = (v', Inr ())"
    using rebuild_plain [OF l(1) _ l(2)] l(3) by fastforce
  then show ?thesis using r rebuild_restores_memories [OF l(1) v'] by auto
qed

end
