(* ===== verification/Agents.thy ===== *)
theory Agents
  imports Vault_Log
begin

text \<open>
  \<open>agents.py\<close>: memories that an agent proposes and a reviewer approves or rejects. A proposal in hand
  carries its candidate envelope; a row of the table carries the dict its JSON column denotes. Approving
  acts on the table and on the vault, in this order: the memory is remembered, then the row is updated.
\<close>

record 'c proposal =
  pr_id :: string
  pr_type :: string
  pr_candidate :: 'c
  pr_rationale :: string
  pr_created_by :: string
  pr_created_at :: real
  pr_status :: string
  pr_reviewed_by :: "string option"
  pr_reviewed_at :: "real option"
  pr_review_reason :: "string option"
  pr_memory_id :: "string option"

type_synonym proposal_row = "py_dict proposal"
type_synonym proposal_table = "proposal_row list"

definition with_candidate :: "'d \<Rightarrow> 'c proposal \<Rightarrow> 'd proposal" where
  "with_candidate c p =
     \<lparr>pr_id = pr_id p, pr_type = pr_type p, pr_candidate = c, pr_rationale = pr_rationale p,
      pr_created_by = pr_created_by p, pr_created_at = pr_created_at p, pr_status = pr_status p,
      pr_reviewed_by = pr_reviewed_by p, pr_reviewed_at = pr_reviewed_at p,
      pr_review_reason = pr_review_reason p, pr_memory_id = pr_memory_id p\<rparr>"

section \<open>The operations\<close>

definition new_proposal :: "string \<Rightarrow> real \<Rightarrow> envelope \<Rightarrow> string \<Rightarrow> string \<Rightarrow> string \<Rightarrow> envelope proposal" where
  "new_proposal uid now candidate kind rationale created_by =
     \<lparr>pr_id = ''prop_'' @ uid, pr_type = kind, pr_candidate = candidate, pr_rationale = rationale,
      pr_created_by = created_by, pr_created_at = now, pr_status = ''pending'', pr_reviewed_by = None,
      pr_reviewed_at = None, pr_review_reason = None, pr_memory_id = None\<rparr>"

definition propose_memory ::
  "string \<Rightarrow> real \<Rightarrow> envelope \<Rightarrow> string \<Rightarrow> string \<Rightarrow> string \<Rightarrow> (proposal_table, envelope proposal) action" where
  "propose_memory uid now candidate kind rationale created_by rows =
     (let p = new_proposal uid now candidate kind rationale created_by; d = envelope_to_dict candidate in
      if \<not> jsonable (VDict d) then (rows, Inl (TypeError ''not JSON serializable''))
      else if tbl_find pr_id (pr_id p) rows \<noteq> None
      then (rows, Inl (IntegrityError ''UNIQUE constraint failed: proposals.id''))
      else (rows @ [with_candidate (canon_dict d) p], Inr p))"

definition get_proposal :: "real \<Rightarrow> string \<Rightarrow> proposal_table \<Rightarrow> envelope proposal result" where
  "get_proposal now pid rows =
     (case tbl_find pr_id pid rows of
        None \<Rightarrow> Inl (KeyError pid)
      | Some r \<Rightarrow> res_bind (envelope_from_dict now (pr_candidate r)) (\<lambda>c. Inr (with_candidate c r)))"

definition reviewed :: "string \<Rightarrow> string \<Rightarrow> real \<Rightarrow> string option \<Rightarrow> string option \<Rightarrow> 'c proposal \<Rightarrow> 'c proposal" where
  "reviewed status reviewer now reason mid p =
     p\<lparr>pr_status := status, pr_reviewed_by := Some reviewer, pr_reviewed_at := Some now,
       pr_review_reason := reason, pr_memory_id := mid\<rparr>"

definition review ::
  "string \<Rightarrow> string \<Rightarrow> string \<Rightarrow> real \<Rightarrow> string option \<Rightarrow> string option \<Rightarrow> proposal_table \<Rightarrow> proposal_table" where
  "review pid status reviewer now reason mid rows =
     map (\<lambda>r. if pr_id r = pid then reviewed status reviewer now reason mid r else r) rows"

text \<open>Only a pending proposal may be reviewed.\<close>

definition get_pending :: "real \<Rightarrow> string \<Rightarrow> proposal_table \<Rightarrow> envelope proposal result" where
  "get_pending now pid rows =
     res_bind (get_proposal now pid rows) (\<lambda>p.
       if pr_status p \<noteq> ''pending'' then Inl (ValueError (''proposal '' @ pid @ '' is not pending'')) else Inr p)"

definition approval_provenance :: "envelope proposal \<Rightarrow> string \<Rightarrow> py_dict" where
  "approval_provenance p reviewer =
     d_update (provenance (pr_candidate p))
       [(''proposal_id'', VStr (pr_id p)), (''proposal_type'', VStr (pr_type p)),
        (''proposed_by'', VStr (pr_created_by p)), (''approved_by'', VStr reviewer)]"

definition approved_envelope :: "real \<Rightarrow> envelope proposal \<Rightarrow> string \<Rightarrow> envelope result" where
  "approved_envelope now p reviewer =
     envelope_from_dict now (d_set ''content_hash'' (VStr [])
       (d_set ''provenance'' (VDict (approval_provenance p reviewer)) (envelope_to_dict (pr_candidate p))))"

definition approve :: "(int \<Rightarrow> int) \<Rightarrow> real \<Rightarrow> string \<Rightarrow> string \<Rightarrow> (proposal_table \<times> vault, string) action" where
  "approve zone now pid reviewer rv =
     (case rv of (rows, v) \<Rightarrow>
        (case res_bind (get_pending now pid rows) (\<lambda>p. approved_envelope now p reviewer) of
           Inl err \<Rightarrow> (rv, Inl err)
         | Inr m \<Rightarrow>
             (case vault_remember zone now None True False m v of
                (v', Inl err) \<Rightarrow> ((rows, v'), Inl err)
              | (v', Inr mid) \<Rightarrow> ((review pid ''approved'' reviewer now None (Some mid) rows, v'), Inr mid))))"

definition reject :: "real \<Rightarrow> string \<Rightarrow> string \<Rightarrow> string \<Rightarrow> (proposal_table, unit) action" where
  "reject now pid reviewer reason rows =
     (case get_pending now pid rows of
        Inl err \<Rightarrow> (rows, Inl err)
      | Inr p \<Rightarrow> (review pid ''rejected'' reviewer now (Some reason) None rows, Inr ()))"

section \<open>A proposal read back\<close>

lemma tbl_find_append [simp]:
  "tbl_find key k (rows @ [r]) = (case tbl_find key k rows of Some x \<Rightarrow> Some x | None \<Rightarrow> if key r = k then Some r else None)"
  by (simp add: tbl_find_def find_append split: option.split)

lemma with_candidate_simps [simp]:
  "pr_id (with_candidate c p) = pr_id p" "pr_status (with_candidate c p) = pr_status p"
  "pr_type (with_candidate c p) = pr_type p" "pr_created_by (with_candidate c p) = pr_created_by p"
  "pr_candidate (with_candidate c p) = c" "with_candidate d (with_candidate c p) = with_candidate d p"
  by (simp_all add: with_candidate_def)

lemma reviewed_simps [simp]:
  "pr_id (reviewed s r t q m p) = pr_id p" "pr_status (reviewed s r t q m p) = s"
  by (simp_all add: reviewed_def)

lemma propose_get_lemma:
  assumes "propose_memory uid now c kind why who rows = (rows', Inr p)"
    and "wf_envelope c" "list_all wf_modality (modalities c)" "created_at c \<noteq> 0"
  shows "get_proposal now' (pr_id p) rows' = Inr (with_candidate (canon_envelope c) p)"
  using assms(1) envelope_from_dict_to_dict [OF assms(2-4)]
  by (auto simp: propose_memory_def get_proposal_def Let_def simp del: jsonable.simps split: if_split_asm)

section \<open>The life of a proposal\<close>

definition review_state_ok :: "'c proposal \<Rightarrow> bool" where
  "review_state_ok r =
     (pr_status r = ''pending'' \<and> pr_reviewed_by r = None \<and> pr_reviewed_at r = None \<and> pr_review_reason r = None
        \<and> pr_memory_id r = None
      \<or> pr_status r = ''approved'' \<and> pr_reviewed_by r \<noteq> None \<and> pr_reviewed_at r \<noteq> None \<and> pr_review_reason r = None
        \<and> pr_memory_id r \<noteq> None
      \<or> pr_status r = ''rejected'' \<and> pr_reviewed_by r \<noteq> None \<and> pr_reviewed_at r \<noteq> None \<and> pr_review_reason r \<noteq> None
        \<and> pr_memory_id r = None)"

definition proposals_ok :: "proposal_table \<Rightarrow> bool" where
  "proposals_ok rows = (tbl_ok pr_id rows \<and> list_all review_state_ok rows)"

text \<open>The table and the vault as one state: the operations above, and anything the vault does by itself.\<close>

inductive review_step :: "proposal_table \<times> vault \<Rightarrow> proposal_table \<times> vault \<Rightarrow> bool" where
  propose_step: "review_step (rows, v) (fst (propose_memory uid now c kind why who rows), v)"
| approve_step: "review_step rv (fst (approve zone now pid reviewer rv))"
| reject_step: "review_step (rows, v) (fst (reject now pid reviewer reason rows), v)"
| vault_moves: "vault_step v v' \<Longrightarrow> review_step (rows, v) (rows, v')"

inductive_cases review_stepE: "review_step rv rv'"

lemma get_pending_Inr:
  "get_pending now pid rows = Inr p \<Longrightarrow>
     \<exists>r. tbl_find pr_id pid rows = Some r \<and> pr_status r = ''pending'' \<and> envelope_from_dict now (pr_candidate r) = Inr (pr_candidate p)
       \<and> p = with_candidate (pr_candidate p) r"
  by (auto simp: get_pending_def get_proposal_def res_bind_eq_Inr split: option.splits if_splits)

lemma approve_cases:
  obtains (refused) err where "approve zone now pid reviewer (rows, v) = ((rows, v), Inl err)"
      "res_bind (get_pending now pid rows) (\<lambda>p. approved_envelope now p reviewer) = Inl err"
  | (failed) v' err p m where "get_pending now pid rows = Inr p" "approved_envelope now p reviewer = Inr m"
      "vault_remember zone now None True False m v = (v', Inl err)"
      "approve zone now pid reviewer (rows, v) = ((rows, v'), Inl err)"
  | (approved) v' mid p m where "get_pending now pid rows = Inr p" "approved_envelope now p reviewer = Inr m"
      "vault_remember zone now None True False m v = (v', Inr mid)"
      "approve zone now pid reviewer (rows, v) = ((review pid ''approved'' reviewer now None (Some mid) rows, v'), Inr mid)"
proof (cases "res_bind (get_pending now pid rows) (\<lambda>p. approved_envelope now p reviewer)")
  case (Inl err)
  then show ?thesis using refused [of err] by (simp add: approve_def)
next
  case (Inr m)
  then obtain p where p: "get_pending now pid rows = Inr p" "approved_envelope now p reviewer = Inr m"
    by (auto simp: res_bind_eq_Inr)
  obtain v' x where v': "vault_remember zone now None True False m v = (v', x)" by fastforce
  show ?thesis
    using failed [OF p] approved [OF p] v' Inr by (cases x) (simp_all add: approve_def)
qed

lemma tbl_find_review:
  "tbl_find pr_id i (review pid s reviewer now reason mid rows) =
     map_option (\<lambda>r. if i = pid then reviewed s reviewer now reason mid r else r) (tbl_find pr_id i rows)"
proof -
  have "tbl_find pr_id i (review pid s reviewer now reason mid rows)
      = map_option (\<lambda>r. if pr_id r = pid then reviewed s reviewer now reason mid r else r) (tbl_find pr_id i rows)"
    unfolding review_def by (rule tbl_find_map) simp
  then show ?thesis by (cases "tbl_find pr_id i rows") (auto dest: tbl_find_SomeD)
qed

lemma proposals_ok_review:
  assumes "proposals_ok rows" "\<And>r :: proposal_row. review_state_ok (reviewed s reviewer now reason mid r)"
  shows "proposals_ok (review pid s reviewer now reason mid rows)"
  using assms by (auto simp: proposals_ok_def review_def tbl_ok_map list_all_iff)

lemma propose_ok: "proposals_ok rows \<Longrightarrow> proposals_ok (fst (propose_memory uid now c kind why who rows))"
  by (auto simp: propose_memory_def Let_def proposals_ok_def tbl_find_None_iff tbl_ok_def new_proposal_def
      with_candidate_def review_state_ok_def simp del: jsonable.simps)

lemma review_step_ok: "review_step rv rv' \<Longrightarrow> proposals_ok (fst rv) \<and> vault_ok (snd rv) \<Longrightarrow> proposals_ok (fst rv') \<and> vault_ok (snd rv')"
proof (induction rule: review_step.induct)
  case (approve_step rv zone now pid reviewer)
  obtain rows v where rv: "rv = (rows, v)" by fastforce
  have st: "review_state_ok (reviewed ''approved'' reviewer now None (Some mid) r)" for mid and r :: proposal_row
    by (simp add: review_state_ok_def reviewed_def)
  show ?case
  proof (cases rule: approve_cases [of zone now pid reviewer rows v])
    case (refused err)
    then show ?thesis using approve_step rv by simp
  next
    case (failed v' err p m)
    then show ?thesis using approve_step rv vault_remember_ok [of v zone now None True False m] by simp
  next
    case (approved v' mid p m)
    then show ?thesis
      using approve_step rv vault_remember_ok [of v zone now None True False m] proposals_ok_review [OF _ st] by simp
  qed
next
  case (reject_step rows v now pid reviewer reason)
  have st: "review_state_ok (reviewed ''rejected'' reviewer now (Some reason) None r)" for r :: proposal_row
    by (simp add: review_state_ok_def reviewed_def)
  show ?case using reject_step proposals_ok_review [OF _ st] by (auto simp: reject_def split: sum.split)
qed (simp_all add: propose_ok vault_step_ok)

text \<open>
  In every state that proposals, reviews and the vault's own operations can reach, a proposal is pending
  and carries no review, or approved with a reviewer and the id of its memory, or rejected with a reviewer and
  a reason; and the vault's tables are well formed.
\<close>

theorem proposals_reachable_ok:
  assumes "review_step\<^sup>*\<^sup>* ([], vault_open) (rows, v)"
  shows "proposals_ok rows \<and> vault_ok v"
proof -
  have "proposals_ok (fst rv) \<and> vault_ok (snd rv)" if "review_step\<^sup>*\<^sup>* ([], vault_open) rv" for rv
    using that
  proof (induction rule: rtranclp_induct)
    case base
    show ?case by (simp add: proposals_ok_def)
  next
    case (step y z)
    then show ?case using review_step_ok by blast
  qed
  then show ?thesis using assms by fastforce
qed

text \<open>What a step does to one proposal: nothing, or its one review.\<close>

definition same_proposal :: "proposal_row \<Rightarrow> proposal_row \<Rightarrow> bool" where
  "same_proposal r r' =
     (if pr_status r = ''pending''
      then r' = r \<or> (\<exists>reviewer now mid. r' = reviewed ''approved'' reviewer now None (Some mid) r)
        \<or> (\<exists>reviewer now reason. r' = reviewed ''rejected'' reviewer now (Some reason) None r)
      else r' = r)"

lemma review_step_same:
  "review_step rv rv' \<Longrightarrow> tbl_find pr_id pid (fst rv) = Some r \<Longrightarrow>
     \<exists>r'. tbl_find pr_id pid (fst rv') = Some r' \<and> same_proposal r r'"
proof (induction rule: review_step.induct)
  case (propose_step rows v uid now c kind why who)
  then show ?case by (auto simp: propose_memory_def Let_def same_proposal_def simp del: jsonable.simps)
next
  case (approve_step rv zone now i reviewer)
  obtain rows v where rv: "rv = (rows, v)" by fastforce
  show ?case
  proof (cases rule: approve_cases [of zone now i reviewer rows v])
    case (approved v' mid p m)
    obtain q where q: "tbl_find pr_id i rows = Some q" "pr_status q = ''pending''"
      using get_pending_Inr [OF approved(1)] by blast
    show ?thesis
      using approved(4) approve_step.prems q by (auto simp: rv tbl_find_review same_proposal_def)
  qed (use approve_step rv in \<open>auto simp: same_proposal_def\<close>)
next
  case (reject_step rows v now i reviewer reason)
  show ?case
  proof (cases "get_pending now i rows")
    case (Inl err)
    then show ?thesis using reject_step by (auto simp: reject_def same_proposal_def)
  next
    case (Inr p)
    obtain q where q: "tbl_find pr_id i rows = Some q" "pr_status q = ''pending''"
      using get_pending_Inr [OF Inr] by blast
    then have "same_proposal q (reviewed ''rejected'' reviewer now (Some reason) None q)"
      unfolding same_proposal_def using q(2) by (simp only: if_True simp_thms) blast
    then show ?thesis
      using reject_step.prems Inr q(1)
      by (cases "pid = i") (simp_all add: reject_def tbl_find_review, simp add: same_proposal_def)
  qed
qed (auto simp: same_proposal_def)

text \<open>
  C22: a proposal is decided at most once. Whatever happens later, it stays in the table with its candidate,
  type, rationale and author; while it is pending it may receive one decision, and a decision is final, with
  its reviewer, time, reason and memory.
\<close>

theorem decisions_are_final:
  assumes "review_step\<^sup>*\<^sup>* (rows, v) (rows', v')" "tbl_find pr_id pid rows = Some r"
  shows "\<exists>r'. tbl_find pr_id pid rows' = Some r' \<and> same_proposal r r'"
proof -
  have "\<exists>r'. tbl_find pr_id pid (fst rv') = Some r' \<and> same_proposal r r'"
    if "review_step\<^sup>*\<^sup>* (rows, v) rv'" for rv'
    using that
  proof (induction rule: rtranclp_induct)
    case base
    then show ?case using assms(2) by (simp add: same_proposal_def)
  next
    case (step rv1 rv2)
    then obtain r1 where r1: "tbl_find pr_id pid (fst rv1) = Some r1" "same_proposal r r1" by blast
    obtain r2 where r2: "tbl_find pr_id pid (fst rv2) = Some r2" "same_proposal r1 r2"
      using review_step_same [OF step(2) r1(1)] by blast
    have "same_proposal r r2"
      using r1(2) r2(2) by (auto simp: same_proposal_def split: if_split_asm)
    then show ?case using r2(1) by blast
  qed
  then show ?thesis using assms(1) by fastforce
qed

section \<open>Approving\<close>

lemma envelope_from_dict_provenance:
  assumes "envelope_from_dict now d = Inr m" "d_get d ''provenance'' = Some (VDict p)"
  shows "provenance m = p"
  using assms unfolding envelope_from_dict_def res_bind_eq_Inr
  by (auto simp: read_dict_VDict dest!: envelope_init_fields(10))

lemma envelope_from_dict_id:
  assumes "envelope_from_dict now d = Inr m" "d_get d ''id'' = Some (VStr i)" "i \<noteq> []"
  shows "env_id m = i"
  using assms unfolding envelope_from_dict_def res_bind_eq_Inr
  by (auto simp: read_str_def dest!: envelope_init_fields(14))

lemma approved_envelope_fields:
  assumes "approved_envelope now p reviewer = Inr m" "env_id (pr_candidate p) \<noteq> []"
  shows "provenance m = approval_provenance p reviewer" "env_id m = env_id (pr_candidate p)"
    "compute_content_hash m = Inr (content_hash m)"
proof -
  let ?d = "d_set ''content_hash'' (VStr [])
    (d_set ''provenance'' (VDict (approval_provenance p reviewer)) (envelope_to_dict (pr_candidate p)))"
  have m: "envelope_from_dict now ?d = Inr m" using assms(1) by (simp add: approved_envelope_def)
  have d: "d_get ?d ''provenance'' = Some (VDict (approval_provenance p reviewer))"
    "d_get ?d ''id'' = Some (VStr (env_id (pr_candidate p)))" "d_get ?d ''content_hash'' = Some (VStr [])"
    by (simp_all add: envelope_to_dict_def)
  show "provenance m = approval_provenance p reviewer" by (rule envelope_from_dict_provenance [OF m d(1)])
  show "env_id m = env_id (pr_candidate p)" by (rule envelope_from_dict_id [OF m d(2) assms(2)])
  show "compute_content_hash m = Inr (content_hash m)" by (rule envelope_from_dict_rehash [OF m d(3)])
qed

lemma approval_provenance_names:
  "map_of (approval_provenance p reviewer) ''proposal_id'' = Some (VStr (pr_id p))"
  "map_of (approval_provenance p reviewer) ''proposed_by'' = Some (VStr (pr_created_by p))"
  "map_of (approval_provenance p reviewer) ''approved_by'' = Some (VStr reviewer)"
  by (simp_all add: approval_provenance_def map_of_d_update)

lemma decided_refused:
  assumes "tbl_find pr_id pid rows = Some r" "pr_status r \<noteq> ''pending''"
  shows "\<exists>err. approve zone now pid reviewer (rows, v) = ((rows, v), Inl err)"
    "\<exists>err. reject now pid reviewer reason rows = (rows, Inl err)"
proof -
  have "\<exists>err. get_pending now pid rows = Inl err"
    using assms get_pending_Inr [of now pid rows] by (cases "get_pending now pid rows") auto
  then show "\<exists>err. approve zone now pid reviewer (rows, v) = ((rows, v), Inl err)"
    "\<exists>err. reject now pid reviewer reason rows = (rows, Inl err)"
    by (auto simp: approve_def reject_def)
qed

text \<open>
  C21: approve a pending proposal whose candidate has an id and gives, with the provenance of the approval in place of its
  own, a memory that is storable, in a store whose blobs are filed under their digests and without a digest collision.
  Then that memory is stored under the candidate's id and inspected back whole; its provenance names the proposal, its
  author and the reviewer, and its content hash is that of its content. If the call returns, the proposal is approved with
  the memory's id, and a second decision, to approve or to reject, raises and changes nothing. If the vault refuses the
  memory's relations the call raises and the proposal stays pending, but the memory is stored all the same.
\<close>

theorem approve_spec:
  assumes "get_proposal now pid rows = Inr p" "pr_status p = ''pending''" "env_id (pr_candidate p) \<noteq> []"
    and "approved_envelope now p reviewer = Inr m" "storable_envelope (blob_threshold (vt_store v)) m"
    and "honest_blobs (st_blobs (vt_store v))" "collision_free (st_blobs (vt_store v)) m"
    and "approve zone now pid reviewer (rows, v) = ((rows', v'), x)"
  shows "inspect now' True (env_id (pr_candidate p)) (vt_store v') = Inr (canon_envelope m)
    \<and> compute_content_hash m = Inr (content_hash m)
    \<and> map_of (provenance m) ''proposal_id'' = Some (VStr pid)
    \<and> map_of (provenance m) ''proposed_by'' = Some (VStr (pr_created_by p))
    \<and> map_of (provenance m) ''approved_by'' = Some (VStr reviewer)
    \<and> (case x of
         Inl err \<Rightarrow> rows' = rows
       | Inr mid \<Rightarrow> mid = env_id (pr_candidate p)
           \<and> (\<exists>r. tbl_find pr_id pid rows' = Some r \<and> pr_status r = ''approved'' \<and> pr_memory_id r = Some mid)
           \<and> (\<forall>t who w. \<exists>err. approve zone t pid who (rows', w) = ((rows', w), Inl err))
           \<and> (\<forall>t who why. \<exists>err. reject t pid who why rows' = (rows', Inl err)))"
proof -
  note f = approved_envelope_fields [OF assms(4,3)]
  have g: "get_pending now pid rows = Inr p" using assms(1,2) by (simp add: get_pending_def)
  obtain r where r: "tbl_find pr_id pid rows = Some r" and p: "p = with_candidate (pr_candidate p) r"
    using get_pending_Inr [OF g] by blast
  have pid: "pr_id p = pid" using tbl_find_SomeD [OF r] arg_cong [OF p, of pr_id] by simp
  obtain u y where u: "vault_remember zone now None True False m v = (u, y)" by fastforce
  have "v' = u \<and> x = y \<and> rows' = (case y of Inl err \<Rightarrow> rows
      | Inr mid \<Rightarrow> review pid ''approved'' reviewer now None (Some mid) rows)"
    using assms(8) g assms(4) u by (cases y) (auto simp: approve_def)
  then have v': "v' = u" and x: "x = y" and rows': "rows' = (case y of Inl err \<Rightarrow> rows
      | Inr mid \<Rightarrow> review pid ''approved'' reviewer now None (Some mid) rows)"
    by auto
  obtain s z w where s: "remember now True m (vt_store v) = (s, z)" "outside_facts w = outside_facts (v\<lparr>vt_store := s\<rparr>)"
    and y: "(\<exists>mid. z = Inr mid \<and> y = Inr mid \<and> u = file_in_box None mid w) \<or> (\<exists>err. y = Inl err \<and> u = w)"
    by (rule vault_remember_outside [OF u])
  have "vt_store u = s" using s(2) y by (auto simp: outside_facts_def file_in_box_def)
  moreover obtain s' where "remember now True m (vt_store v) = (s', Inr (env_id m))"
    "inspect now' True (env_id m) s' = Inr (canon_envelope m)"
    using inspect_remembered [OF assms(5-7)] by blast
  ultimately have i: "inspect now' True (env_id m) (vt_store u) = Inr (canon_envelope m)" "z = Inr (env_id m)"
    using s(1) by simp_all
  have dec: "case x of Inl err \<Rightarrow> rows' = rows
       | Inr mid \<Rightarrow> mid = env_id (pr_candidate p)
           \<and> (\<exists>r. tbl_find pr_id pid rows' = Some r \<and> pr_status r = ''approved'' \<and> pr_memory_id r = Some mid)
           \<and> (\<forall>t who w. \<exists>err. approve zone t pid who (rows', w) = ((rows', w), Inl err))
           \<and> (\<forall>t who why. \<exists>err. reject t pid who why rows' = (rows', Inl err))"
  proof (cases y)
    case (Inl err)
    then show ?thesis using rows' x by simp
  next
    case (Inr mid)
    then have q: "tbl_find pr_id pid rows' = Some (reviewed ''approved'' reviewer now None (Some mid) r)"
      using rows' r by (simp add: tbl_find_review)
    have "mid = env_id (pr_candidate p)" using Inr y i(2) f(2) by auto
    then show ?thesis using q decided_refused [OF q] x Inr by (simp add: reviewed_def)
  qed
  show ?thesis
  proof (intro conjI)
    show "inspect now' True (env_id (pr_candidate p)) (vt_store v') = Inr (canon_envelope m)"
      using i(1) by (simp only: f(2) v')
    show "map_of (provenance m) ''proposal_id'' = Some (VStr pid)"
      "map_of (provenance m) ''proposed_by'' = Some (VStr (pr_created_by p))"
      "map_of (provenance m) ''approved_by'' = Some (VStr reviewer)"
      using approval_provenance_names [of p reviewer] by (simp_all only: f(1) pid)
  qed (rule f(3), rule dec)
qed

text \<open>A proposal that was filed is read back with its candidate, whose dicts come back in key order.\<close>

theorem propose_get:
  assumes "propose_memory uid now c kind why who rows = (rows', Inr p)"
    and "wf_envelope c" "list_all wf_modality (modalities c)" "created_at c \<noteq> 0"
  shows "get_proposal now' (pr_id p) rows' = Inr (with_candidate (canon_envelope c) p)"
  by (rule propose_get_lemma [OF assms])

section \<open>An example\<close>

lemma approved_envelope_again:
  assumes "list_all wf_modality (modalities (pr_candidate p))" "memory_type (pr_candidate p) \<noteq> []"
    "created_at (pr_candidate p) \<noteq> 0"
  shows "approved_envelope now p reviewer = envelope_init
    ((pr_candidate p)\<lparr>provenance := approval_provenance p reviewer, content_hash := []\<rparr>) (Some (updated_at (pr_candidate p)))"
proof -
  let ?c = "(pr_candidate p)\<lparr>provenance := approval_provenance p reviewer, content_hash := []\<rparr>"
  have "d_set ''content_hash'' (VStr []) (d_set ''provenance'' (VDict (approval_provenance p reviewer))
      (envelope_to_dict (pr_candidate p))) = envelope_to_dict ?c"
    by (simp add: envelope_to_dict_def)
  then show ?thesis
    using envelope_from_dict_again [of ?c now] assms by (simp add: approved_envelope_def)
qed

lemma demo_wf: "wf_envelope (demo_memory ''m1'')" "list_all wf_modality (modalities (demo_memory ''m1''))"
    "created_at (demo_memory ''m1'') \<noteq> 0"
  using demo_stored storable_wf [OF demo_stored] by (simp_all add: storable_envelope_def)

lemma demo_canon: "canon_envelope (demo_memory ''m1'') = demo_memory ''m1''"
  by (simp add: canon_envelope_def demo_memory_def blank_envelope_def canon_modality_def demo_modality_def canon_dict_def)

lemma demo_proposed:
  obtains rows p where "propose_memory ''1'' 1 (demo_memory ''m1'') ''note'' ''why'' ''agent'' [] = (rows, Inr p)"
    "pr_id p = ''prop_1''" "pr_status p = ''pending''" "pr_candidate p = demo_memory ''m1''"
proof -
  have "json_ok (VDict (envelope_to_dict (demo_memory ''m1'')))" using demo_stored by (simp add: storable_envelope_def)
  then have "jsonable (VDict (envelope_to_dict (demo_memory ''m1'')))" by (rule json_ok_jsonable)
  then have "propose_memory ''1'' 1 (demo_memory ''m1'') ''note'' ''why'' ''agent'' []
      = ([with_candidate (canon_dict (envelope_to_dict (demo_memory ''m1'')))
            (new_proposal ''1'' 1 (demo_memory ''m1'') ''note'' ''why'' ''agent'')],
         Inr (new_proposal ''1'' 1 (demo_memory ''m1'') ''note'' ''why'' ''agent''))"
    by (simp add: propose_memory_def Let_def del: jsonable.simps)
  then show ?thesis using that by (simp add: new_proposal_def)
qed

lemma propose_get_witness:
  "\<exists>rows p. propose_memory ''1'' 1 (demo_memory ''m1'') ''note'' ''why'' ''agent'' [] = (rows, Inr p)
    \<and> get_proposal 2 ''prop_1'' rows = Inr (with_candidate (demo_memory ''m1'') p)"
proof -
  obtain rows p where p: "propose_memory ''1'' 1 (demo_memory ''m1'') ''note'' ''why'' ''agent'' [] = (rows, Inr p)"
    "pr_id p = ''prop_1''"
    by (rule demo_proposed)
  then show ?thesis using propose_get [OF p(1) demo_wf, of 2] by (simp add: demo_canon)
qed

lemma proposals_reachable_ok_witness:
  "proposals_ok (fst (reject 2 ''prop_1'' ''ann'' ''no''
     (fst (propose_memory ''1'' 1 (demo_memory ''m1'') ''note'' ''why'' ''agent'' []))))"
proof -
  let ?r1 = "fst (propose_memory ''1'' 1 (demo_memory ''m1'') ''note'' ''why'' ''agent'' [])"
  have "review_step\<^sup>*\<^sup>* ([], vault_open) (fst (reject 2 ''prop_1'' ''ann'' ''no'' ?r1), vault_open)"
    by (rule rtranclp_trans [of _ _ "(?r1, vault_open)"]) (rule r_into_rtranclp, rule review_step.intros)+
  then show ?thesis using proposals_reachable_ok by blast
qed

lemma decisions_are_final_witness:
  "\<exists>r r'. tbl_find pr_id ''prop_1'' (fst (propose_memory ''1'' 1 (demo_memory ''m1'') ''note'' ''why'' ''agent'' [])) = Some r
    \<and> tbl_find pr_id ''prop_1'' (fst (reject 2 ''prop_1'' ''ann'' ''no''
         (fst (propose_memory ''1'' 1 (demo_memory ''m1'') ''note'' ''why'' ''agent'' [])))) = Some r'
    \<and> same_proposal r r'"
proof -
  let ?r1 = "fst (propose_memory ''1'' 1 (demo_memory ''m1'') ''note'' ''why'' ''agent'' [])"
  have "review_step\<^sup>*\<^sup>* (?r1, vault_open) (fst (reject 2 ''prop_1'' ''ann'' ''no'' ?r1), vault_open)"
    by (rule r_into_rtranclp, rule review_step.intros)
  moreover obtain rows p where p: "propose_memory ''1'' 1 (demo_memory ''m1'') ''note'' ''why'' ''agent'' [] = (rows, Inr p)"
    "pr_id p = ''prop_1''"
    by (rule demo_proposed)
  then have "get_proposal 2 ''prop_1'' rows \<noteq> Inl (KeyError ''prop_1'')"
    using propose_get_lemma [OF p(1) demo_wf, of 2] by simp
  then obtain r where "tbl_find pr_id ''prop_1'' ?r1 = Some r"
    using p(1) by (cases "tbl_find pr_id ''prop_1'' rows") (simp_all add: get_proposal_def)
  ultimately show ?thesis using decisions_are_final by blast
qed

lemma approve_spec_witness:
  "\<exists>rows p m rows' v. propose_memory ''1'' 1 (demo_memory ''m1'') ''note'' ''why'' ''agent'' [] = (rows, Inr p)
    \<and> approve (\<lambda>_. 0) 2 ''prop_1'' ''ann'' (rows, vault_open) = ((rows', v), Inr ''m1'')
    \<and> inspect 3 True ''m1'' (vt_store v) = Inr (canon_envelope m)
    \<and> map_of (provenance m) ''approved_by'' = Some (VStr ''ann'')"
proof -
  let ?c = "demo_memory ''m1''"
  obtain rows p where p: "propose_memory ''1'' 1 ?c ''note'' ''why'' ''agent'' [] = (rows, Inr p)"
    "pr_id p = ''prop_1''" "pr_status p = ''pending''" "pr_candidate p = ?c"
    by (rule demo_proposed)
  have g: "get_proposal 2 ''prop_1'' rows = Inr (with_candidate ?c p)"
    using propose_get_lemma [OF p(1) demo_wf, of 2] p(2) by (simp add: demo_canon)
  let ?p = "with_candidate ?c p"
  let ?e = "?c\<lparr>provenance := approval_provenance ?p ''ann'', content_hash := []\<rparr>"
  have prov: "approval_provenance ?p ''ann'' = [(''proposal_id'', VStr (pr_id p)), (''proposal_type'', VStr (pr_type p)),
      (''proposed_by'', VStr (pr_created_by p)), (''approved_by'', VStr ''ann'')]"
    by (simp add: approval_provenance_def demo_memory_def blank_envelope_def d_update_Nil)
  have "jsonable (hash_material ?e)"
    by (simp add: jsonable_hash_material prov) (simp add: demo_memory_def blank_envelope_def demo_modality_def)
  then obtain m where m: "envelope_init ?e (Some (updated_at ?c)) = Inr m"
    using envelope_init_ok_iff [of ?e "Some (updated_at ?c)"] demo_wf(1) by (auto simp: wf_envelope_def)
  have a: "approved_envelope 2 ?p ''ann'' = Inr m"
    using approved_envelope_again [of ?p 2 "''ann''"] demo_wf m by (simp add: wf_envelope_def)
  note f = envelope_init_fields [OF m]
  have mods: "modalities m = modalities ?c" "created_at m = created_at ?c" "relations m = []" "env_id m = ''m1''"
    using f(2,3,6,14) by (simp_all add: demo_memory_def blank_envelope_def)
  have st: "storable_envelope 65536 m"
    using demo_stored envelope_init_wf [OF m] f mods(1,2) unfolding storable_envelope_def json_ok_envelope
    by (simp add: prov)
  have v: "blob_threshold (vt_store vault_open) = 65536" "st_blobs (vt_store vault_open) = []"
    by (simp_all add: vault_open_def store_open_def)
  have free: "honest_blobs []" "collision_free [] m"
    using demo_collision_free [of "''m1''"] by (simp_all add: collision_free_def mods(1))
  obtain s where "remember 2 True m (vt_store vault_open) = (s, Inr ''m1'')"
    using inspect_remembered [of "vt_store vault_open" m] st free v mods(4) by fastforce
  then have "vault_remember (\<lambda>_. 0) 2 None True False m vault_open = (vault_open\<lparr>vt_store := s\<rparr>, Inr ''m1'')"
    using vault_remember_plain [OF _ mods(3)] by (simp add: file_in_box_def)
  then have ap: "\<exists>rows'. approve (\<lambda>_. 0) 2 ''prop_1'' ''ann'' (rows, vault_open) = ((rows', vault_open\<lparr>vt_store := s\<rparr>), Inr ''m1'')"
    using g a p(3) by (simp add: approve_def get_pending_def)
  then obtain rows' where r: "approve (\<lambda>_. 0) 2 ''prop_1'' ''ann'' (rows, vault_open) = ((rows', vault_open\<lparr>vt_store := s\<rparr>), Inr ''m1'')"
    by blast
  have "env_id ?c = ''m1''" by (simp add: demo_memory_def)
  then have "inspect 3 True ''m1'' (vt_store (vault_open\<lparr>vt_store := s\<rparr>)) = Inr (canon_envelope m)
      \<and> map_of (provenance m) ''approved_by'' = Some (VStr ''ann'')"
    using approve_spec [OF g _ _ a _ _ _ r, of 3] p(3) st free v by simp
  then show ?thesis using p(1) r by blast
qed

end
