(* ===== verification/Tool_Curriculum.thy ===== *)
theory Tool_Curriculum
  imports Schema
begin

text \<open>
  \<open>tool_curriculum.py\<close>: the registered tools, the choice of tools for a query at a stage of the curriculum, the
  traces of their use, and the feedback read off the failed ones.
\<close>

record tool_spec =
  tool_name :: string
  tool_task :: string
  tool_description :: string
  tool_parameters :: "string list"
  tool_difficulty :: int
  tool_tags :: "string list"

definition prompt_line :: "tool_spec \<Rightarrow> string" where
  "prompt_line t =
     (let params = py_join '', '' (tool_parameters t) in
      (if params \<noteq> [] then tool_name t @ ''('' @ params @ '')'' else tool_name t @ ''()'') @ '': '' @ tool_description t)"

record tool_trace =
  tr_query :: string
  tr_selected :: "string list"
  tr_success :: bool
  tr_stage :: string
  tr_expected :: "string list"
  tr_error_type :: string
  tr_feedback :: string
  tr_created_at :: real
  tr_metadata :: py_dict

record feedback =
  fb_tool :: string
  fb_failures :: nat
  fb_errors :: "string list"
  fb_notes :: "string list"

record curriculum =
  cu_tools :: "(string \<times> tool_spec) list"
  cu_traces :: "tool_trace list"

definition VALID_STAGES :: "string list" where
  "VALID_STAGES = [''warmup'', ''in_category'', ''cross_category'']"

definition register_tool :: "tool_spec \<Rightarrow> (curriculum, unit) action" where
  "register_tool t c =
     (if tool_name t = [] then (c, Inl (ValueError ''tool name is required''))
      else if tool_difficulty t < 1 then (c, Inl (ValueError ''tool difficulty must be >= 1''))
      else (c\<lparr>cu_tools := d_set (tool_name t) t (cu_tools c)\<rparr>, Inr ()))"

definition curriculum_new :: "tool_spec list \<Rightarrow> curriculum result" where
  "curriculum_new ts =
     (case act_each register_tool ts \<lparr>cu_tools = [], cu_traces = []\<rparr> of
        (c, Inl e) \<Rightarrow> Inl e
      | (c, Inr _) \<Rightarrow> Inr c)"

definition unknown_stage :: "string \<Rightarrow> py_error" where
  "unknown_stage stage = ValueError (''unknown curriculum stage: '' @ stage)"

definition record_trace :: "tool_trace \<Rightarrow> (curriculum, unit) action" where
  "record_trace tr c =
     (if tr_stage tr \<notin> set VALID_STAGES then (c, Inl (unknown_stage (tr_stage tr)))
      else (c\<lparr>cu_traces := cu_traces c @ [tr]\<rparr>, Inr ()))"

text \<open>The tools a trace blames.\<close>

definition trace_tools :: "tool_trace \<Rightarrow> string list" where
  "trace_tools tr = (if tr_expected tr \<noteq> [] then tr_expected tr else tr_selected tr)"

section \<open>Choosing tools\<close>

definition failure_count :: "curriculum \<Rightarrow> string \<Rightarrow> nat" where
  "failure_count c name = length (filter (\<lambda>tr. \<not> tr_success tr \<and> name \<in> set (trace_tools tr)) (cu_traces c))"

definition tool_terms :: "string \<Rightarrow> string list" where
  "tool_terms s = py_words (py_lower s)"

definition score_tool :: "curriculum \<Rightarrow> string \<Rightarrow> string option \<Rightarrow> tool_spec \<Rightarrow> real" where
  "score_tool c query task t =
     (let query_terms = remdups (tool_terms query);
          terms = tool_terms (py_join '' '' [tool_name t, tool_task t, tool_description t, py_join '' '' (tool_tags t)]);
          lexical = of_nat (length (filter (\<lambda>q. q \<in> set terms) query_terms)) / of_nat (max 1 (length query_terms));
          task_boost = (if task = Some (tool_task t) then 25 / 100 else 0);
          difficulty_penalty = of_int (min (tool_difficulty t) 10) * (1 / 100);
          failure_boost = min (20 / 100) (of_nat (failure_count c (tool_name t)) * (4 / 100))
      in lexical + task_boost + failure_boost - difficulty_penalty)"

definition for_task :: "string option \<Rightarrow> tool_spec \<Rightarrow> bool" where
  "for_task task t = (case task of None \<Rightarrow> True | Some k \<Rightarrow> tool_task t = k)"

definition select_tools :: "curriculum \<Rightarrow> string \<Rightarrow> string option \<Rightarrow> string \<Rightarrow> int \<Rightarrow> int \<Rightarrow> tool_spec list result" where
  "select_tools c query task stage top_k distractors =
     (if stage \<notin> set VALID_STAGES then Inl (unknown_stage stage)
      else if top_k \<le> 0 then Inr []
      else
        (let ranked = sort_desc (score_tool c query task) (map snd (cu_tools c));
             relevant = filter (for_task task) ranked in
         if stage = ''warmup'' then Inr (py_take top_k relevant)
         else
           (let selected = py_take (max 1 (top_k - distractors)) relevant;
                pool = (if stage = ''in_category'' then filter (\<lambda>t. t \<notin> set selected) relevant
                        else filter (\<lambda>t. t \<notin> set selected \<and> (task = None \<or> \<not> for_task task t)) ranked)
            in Inr (py_take top_k (selected @ py_take (max 0 (min distractors (top_k - int (length selected)))) pool)))))"

section \<open>Learning from failures\<close>

definition blame :: "tool_trace \<Rightarrow> (string \<times> tool_trace list) list \<Rightarrow> string \<Rightarrow> (string \<times> tool_trace list) list" where
  "blame tr d name = d_set name ((case map_of d name of None \<Rightarrow> [] | Some trs \<Rightarrow> trs) @ [tr]) d"

definition failures_by_tool :: "tool_trace list \<Rightarrow> (string \<times> tool_trace list) list" where
  "failures_by_tool trs =
     foldl (\<lambda>d tr. if tr_success tr then d else foldl (blame tr) d (trace_tools tr)) [] trs"

definition feedback_for :: "string \<times> tool_trace list \<Rightarrow> feedback" where
  "feedback_for p =
     \<lparr>fb_tool = fst p, fb_failures = length (snd p),
      fb_errors = sorted_set (filter (\<lambda>e. e \<noteq> []) (map tr_error_type (snd p))),
      fb_notes = filter (\<lambda>n. n \<noteq> []) (map tr_feedback (snd p))\<rparr>"

definition introspect_failures :: "curriculum \<Rightarrow> int \<Rightarrow> feedback list" where
  "introspect_failures c min_failures =
     sort_desc (\<lambda>f. (fb_failures f, fb_tool f))
       (map feedback_for (filter (\<lambda>(name, trs). min_failures \<le> int (length trs)) (failures_by_tool (cu_traces c))))"

definition lesson_text :: "feedback \<Rightarrow> tool_spec option \<Rightarrow> string" where
  "lesson_text f t =
     (let description = (case t of None \<Rightarrow> ''tool not registered'' | Some s \<Rightarrow> tool_description s);
          errors = (if fb_errors f \<noteq> [] then py_join '', '' (fb_errors f) else ''unknown'')
      in ''Tool '' @ fb_tool f @ '' has repeated failures ('' @ show_nat (fb_failures f) @ ''). Purpose: ''
         @ description @ ''. Common error types: '' @ errors @ ''.'')"

definition lesson_memories :: "curriculum \<Rightarrow> int \<Rightarrow> py_dict list" where
  "lesson_memories c min_failures =
     map (\<lambda>f. (let t = map_of (cu_tools c) (fb_tool f) in
       [(''memory_type'', VStr ''procedural''),
        (''tool_name'', VStr (fb_tool f)),
        (''task'', case t of None \<Rightarrow> VNone | Some s \<Rightarrow> VStr (tool_task s)),
        (''lesson'', VStr (lesson_text f t)),
        (''failures'', VInt (int (fb_failures f))),
        (''error_types'', str_list (fb_errors f)),
        (''source'', VStr ''confucius_style_introspection'')]))
      (introspect_failures c min_failures)"

section \<open>The registered tools\<close>

definition curriculum_ok :: "curriculum \<Rightarrow> bool" where
  "curriculum_ok c =
     (distinct (map fst (cu_tools c)) \<and> (\<forall>p\<in>set (cu_tools c). tool_name (snd p) = fst p \<and> fst p \<noteq> [] \<and> 1 \<le> tool_difficulty (snd p))
      \<and> (\<forall>tr\<in>set (cu_traces c). tr_stage tr \<in> set VALID_STAGES))"

lemma d_set_members: "p \<in> set (d_set k v d) \<Longrightarrow> p = (k, v) \<or> p \<in> set d"
  by (induction d) (auto split: if_splits)

lemma register_ok:
  assumes "curriculum_ok c"
  shows "curriculum_ok (fst (register_tool t c))"
proof (cases "tool_name t = [] \<or> tool_difficulty t < 1")
  case True
  then show ?thesis using assms by (auto simp: register_tool_def)
next
  case False
  have "tool_name (snd p) = fst p \<and> fst p \<noteq> [] \<and> 1 \<le> tool_difficulty (snd p)"
    if "p \<in> set (d_set (tool_name t) t (cu_tools c))" for p
    using d_set_members [OF that] assms False by (auto simp: curriculum_ok_def)
  then show ?thesis using assms False by (simp add: curriculum_ok_def register_tool_def distinct_d_set)
qed

lemma record_trace_ok: "curriculum_ok c \<Longrightarrow> curriculum_ok (fst (record_trace tr c))"
  by (auto simp: curriculum_ok_def record_trace_def)

lemma curriculum_new_ok:
  assumes "curriculum_new ts = Inr c"
  shows "curriculum_ok c"
proof -
  let ?r = "act_each register_tool ts \<lparr>cu_tools = [], cu_traces = []\<rparr>"
  have "curriculum_ok (fst ?r)"
    by (rule act_each_invariant) (simp_all add: register_ok, simp add: curriculum_ok_def)
  moreover have "c = fst ?r" using assms by (simp add: curriculum_new_def split: prod.splits sum.splits)
  ultimately show ?thesis by simp
qed

lemma tools_distinct:
  assumes "curriculum_ok c"
  shows "distinct (map tool_name (map snd (cu_tools c)))"
proof -
  have "map (tool_name \<circ> snd) (cu_tools c) = map fst (cu_tools c)" using assms by (simp add: curriculum_ok_def)
  then show ?thesis using assms unfolding map_map by (simp only: curriculum_ok_def)
qed

section \<open>The choice\<close>

lemma distinct_names_part: "distinct (map f xs) \<Longrightarrow> set ys \<subseteq> set xs \<Longrightarrow> distinct ys \<Longrightarrow> distinct (map f ys)"
  by (meson distinct_map inj_on_subset)

lemma py_take_nonneg: "0 \<le> n \<Longrightarrow> py_take n xs = take (nat n) xs"
  by (simp add: py_take_def)

lemma sorted_wrt_hd: "sorted_wrt P xs \<Longrightarrow> x \<in> set xs \<Longrightarrow> x = hd xs \<or> P (hd xs) x"
  by (cases xs) auto

lemma distinct_part: "distinct xs \<Longrightarrow> distinct (py_take n xs)"
  by (simp add: py_take_def)

lemma relevant_choice:
  assumes "distinct ranked" "rel = filter P ranked" "ts = py_take k rel" "0 < k" "sorted_wrt R rel"
  shows "distinct ts \<and> set ts \<subseteq> set rel \<and> int (length ts) \<le> k \<and> (rel \<noteq> [] \<longrightarrow> ts \<noteq> [] \<and> hd ts = hd rel)
    \<and> (\<forall>t\<in>set ts. \<forall>u\<in>set rel. u \<notin> set ts \<longrightarrow> R t u)"
proof -
  have ts: "ts = take (nat k) rel" using assms(3,4) by (simp add: py_take_nonneg)
  have "R t u" if "t \<in> set ts" "u \<in> set rel" "u \<notin> set ts" for t u
    using sorted_wrt_take_drop [OF assms(5), of t "nat k" u] that ts by (metis Un_iff append_take_drop_id set_append)
  moreover have "distinct ts" using assms(1,2) ts by (simp add: distinct_take)
  moreover have "set ts \<subseteq> set rel" using ts by (simp add: set_take_subset)
  ultimately show ?thesis using ts assms(4) by (auto simp: hd_take)
qed

lemma mixed_choice:
  assumes "distinct ranked" "rel = filter P ranked" "sel = py_take (max 1 (k - d)) rel"
    and "distinct pool" "set pool \<subseteq> set ranked - set sel"
    and "extra = py_take (max 0 (min d (k - int (length sel)))) pool" "ts = py_take k (sel @ extra)" "0 < k"
  shows "distinct ts \<and> set ts \<subseteq> set ranked \<and> int (length ts) \<le> k \<and> (rel \<noteq> [] \<longrightarrow> ts \<noteq> [] \<and> hd ts = hd rel)
    \<and> int (length (filter (\<lambda>t. \<not> P t) ts)) \<le> max 0 d \<and> (set pool \<subseteq> set rel \<longrightarrow> (\<forall>t\<in>set ts. P t))"
proof -
  have ts: "ts = take (nat k) (sel @ extra)" using assms(7,8) by (simp add: py_take_nonneg)
  have subs: "set sel \<subseteq> set rel" "set extra \<subseteq> set pool" unfolding assms(3,6) by (rule set_py_take)+
  have "distinct sel" unfolding assms(2,3) using assms(1) by (intro distinct_part) simp
  moreover have "distinct extra" unfolding assms(6) by (rule distinct_part [OF assms(4)])
  ultimately have "distinct (sel @ extra)" using assms(5) subs(2) by auto
  then have dist: "distinct ts" unfolding ts by (rule distinct_take)
  have sub: "set ts \<subseteq> set sel \<union> set extra" unfolding ts using set_take_subset [of "nat k" "sel @ extra"] by simp
  have "length (filter (\<lambda>t. \<not> P t) ts) \<le> length (filter (\<lambda>t. \<not> P t) (sel @ extra))"
    unfolding ts by (metis append_take_drop_id filter_append le_add1 length_append)
  moreover have "filter (\<lambda>t. \<not> P t) sel = []" using subs(1) assms(2) by (auto simp: filter_empty_conv)
  moreover have "int (length extra) \<le> max 0 d"
    using length_py_take [of "max 0 (min d (k - int (length sel)))" pool] unfolding assms(6) by linarith
  ultimately have foreign: "int (length (filter (\<lambda>t. \<not> P t) ts)) \<le> max 0 d"
    using length_filter_le [of "\<lambda>t. \<not> P t" extra] by (simp only: filter_append append_Nil)
  have "ts \<noteq> [] \<and> hd ts = hd rel" if "rel \<noteq> []"
  proof -
    have "sel \<noteq> [] \<and> hd sel = hd rel" using that assms(3) by (cases rel) (auto simp: py_take_nonneg take_Cons split: nat.split)
    then show ?thesis using ts assms(8) by (cases sel) (auto simp: take_Cons split: nat.split)
  qed
  moreover have "set ts \<subseteq> set ranked" using sub subs assms(2,5) by auto
  moreover have "int (length ts) \<le> k" using length_py_take [of k "sel @ extra"] assms(7,8) by simp
  moreover have "\<forall>t\<in>set ts. P t" if "set pool \<subseteq> set rel" using sub subs that assms(2) by auto
  ultimately show ?thesis using dist foreign by blast
qed

text \<open>
  C34: a choice of tools takes registered tools, each once and at most \<open>top_k\<close> of them, led by a best scored tool
  of the task if there is one. Within the category all are of the task; across categories at most
  \<open>distractors\<close> are not. At the warm-up no tool of the task that is left out scores higher than one chosen.
\<close>

theorem select_tools_spec:
  assumes "curriculum_ok c" "select_tools c query task stage top_k distractors = Inr ts"
  shows "distinct (map tool_name ts) \<and> set ts \<subseteq> snd ` set (cu_tools c) \<and> int (length ts) \<le> max 0 top_k
    \<and> (stage \<noteq> ''cross_category'' \<longrightarrow> (\<forall>t\<in>set ts. for_task task t))
    \<and> int (length (filter (\<lambda>t. \<not> for_task task t) ts)) \<le> max 0 distractors
    \<and> (\<forall>u\<in>snd ` set (cu_tools c). 0 < top_k \<and> for_task task u \<longrightarrow>
         ts \<noteq> [] \<and> for_task task (hd ts) \<and> score_tool c query task u \<le> score_tool c query task (hd ts))
    \<and> (stage = ''warmup'' \<longrightarrow> (\<forall>t\<in>set ts. \<forall>u\<in>snd ` set (cu_tools c). for_task task u \<and> u \<notin> set ts \<and> 0 < top_k \<longrightarrow>
         score_tool c query task u \<le> score_tool c query task t))"
proof (cases "top_k \<le> 0")
  case True
  then show ?thesis using assms(2) by (auto simp: select_tools_def split: if_splits)
next
  case False
  let ?score = "score_tool c query task" and ?tools = "snd ` set (cu_tools c)"
  obtain ranked rel where ranked: "ranked = sort_desc ?score (map snd (cu_tools c))" and rel: "rel = filter (for_task task) ranked"
    by blast
  have names: "distinct (map tool_name ranked)" and all: "set ranked = ?tools"
    using tools_distinct [OF assms(1)] by (simp_all add: ranked distinct_map_sort_desc)
  then have dist: "distinct ranked" by (simp add: distinct_map)
  have relevant: "u \<in> set rel \<longleftrightarrow> u \<in> ?tools \<and> for_task task u" for u using all rel by auto
  have sorted: "sorted_wrt (\<lambda>x y. ?score y \<le> ?score x) rel" unfolding rel ranked by (intro sorted_wrt_filter sort_desc_sorted)
  have best: "for_task task (hd rel) \<and> ?score u \<le> ?score (hd rel)" if "u \<in> set rel" for u
    using sorted_wrt_hd [OF sorted that] that relevant by (metis empty_iff hd_in_set list.set(1) order_refl)
  have lead: "\<forall>u\<in>?tools. 0 < top_k \<and> for_task task u \<longrightarrow> ts \<noteq> [] \<and> for_task task (hd ts) \<and> ?score u \<le> ?score (hd ts)"
    if "rel \<noteq> [] \<longrightarrow> ts \<noteq> [] \<and> hd ts = hd rel"
  proof (intro ballI impI)
    fix u assume "u \<in> ?tools" "0 < top_k \<and> for_task task u"
    then have u: "u \<in> set rel" using relevant by blast
    then have "rel \<noteq> []" by auto
    then show "ts \<noteq> [] \<and> for_task task (hd ts) \<and> ?score u \<le> ?score (hd ts)" using that best [OF u] by simp
  qed
  show ?thesis
  proof (cases "stage = ''warmup''")
    case True
    then have "ts = py_take top_k rel" using assms(2) False ranked rel by (simp add: select_tools_def Let_def split: if_splits)
    from relevant_choice [OF dist rel this _ sorted] False
    have "distinct ts" "set ts \<subseteq> set rel" "int (length ts) \<le> top_k" "rel \<noteq> [] \<longrightarrow> ts \<noteq> [] \<and> hd ts = hd rel"
      "\<forall>t\<in>set ts. \<forall>u\<in>set rel. u \<notin> set ts \<longrightarrow> ?score u \<le> ?score t" by auto
    moreover have "filter (\<lambda>t. \<not> for_task task t) ts = []" using calculation(2) relevant by (auto simp: filter_empty_conv)
    moreover have "distinct (map tool_name ts)"
      using distinct_names_part [OF names, of ts] calculation(1,2) rel by auto
    moreover have "\<forall>t\<in>set ts. \<forall>u\<in>?tools. for_task task u \<and> u \<notin> set ts \<and> 0 < top_k \<longrightarrow> ?score u \<le> ?score t"
      using calculation(5) relevant by blast
    moreover have "set ts \<subseteq> ?tools" "\<forall>t\<in>set ts. for_task task t" using calculation(2) relevant by blast+
    ultimately show ?thesis using lead False by simp
  next
    case cold: False
    obtain sel pool where sel: "sel = py_take (max 1 (top_k - distractors)) rel"
      and pool: "pool = (if stage = ''in_category'' then filter (\<lambda>t. t \<notin> set sel) rel
        else filter (\<lambda>t. t \<notin> set sel \<and> (task = None \<or> \<not> for_task task t)) ranked)" by blast
    have ts: "ts = py_take top_k (sel @ py_take (max 0 (min distractors (top_k - int (length sel)))) pool)"
      using assms(2) False cold ranked rel sel pool by (simp add: select_tools_def Let_def split: if_splits)
    have "distinct pool" "set pool \<subseteq> set ranked - set sel" using pool dist rel by auto
    from mixed_choice [OF dist rel sel this refl ts] False
    have "distinct ts" "set ts \<subseteq> set ranked" "int (length ts) \<le> top_k" "rel \<noteq> [] \<longrightarrow> ts \<noteq> [] \<and> hd ts = hd rel"
      "int (length (filter (\<lambda>t. \<not> for_task task t) ts)) \<le> max 0 distractors"
      "set pool \<subseteq> set rel \<longrightarrow> (\<forall>t\<in>set ts. for_task task t)" by auto
    moreover have "stage = ''in_category''" if "stage \<noteq> ''cross_category''"
      using that cold assms(2) by (auto simp: select_tools_def VALID_STAGES_def split: if_splits)
    moreover have "distinct (map tool_name ts)"
      using distinct_names_part [OF names, of ts] calculation(1,2) by auto
    moreover have "set pool \<subseteq> set rel" if "stage = ''in_category''" using that pool by auto
    ultimately show ?thesis using lead False cold all by auto
  qed
qed

section \<open>Introspection\<close>

text \<open>The failed traces that blame a tool, one copy for each time they name it.\<close>

definition mentions :: "string \<Rightarrow> tool_trace list \<Rightarrow> tool_trace list" where
  "mentions name trs =
     concat (map (\<lambda>tr. if tr_success tr then [] else replicate (count_list (trace_tools tr) name) tr) trs)"

definition blamed :: "string \<Rightarrow> (string \<times> tool_trace list) list \<Rightarrow> tool_trace list" where
  "blamed name d = (case map_of d name of None \<Rightarrow> [] | Some trs \<Rightarrow> trs)"

lemma blame_step: "blamed n (blame tr d m) = (if n = m then blamed n d @ [tr] else blamed n d)"
  "map_of (blame tr d m) n = None \<longleftrightarrow> n \<noteq> m \<and> map_of d n = None"
  by (auto simp: blame_def blamed_def)

lemma blame_fold:
  "blamed n (foldl (blame tr) d names) = blamed n d @ replicate (count_list names n) tr"
  "map_of (foldl (blame tr) d names) n = None \<longleftrightarrow> n \<notin> set names \<and> map_of d n = None"
proof (induction names rule: rev_induct)
  case (snoc m names)
  { case 1 then show ?case using snoc by (auto simp: blame_step replicate_append_same [symmetric]) }
  { case 2 then show ?case using snoc by (auto simp: blame_step) }
qed simp_all

lemma failures_by_tool_snoc:
  "failures_by_tool (trs @ [tr]) =
     (if tr_success tr then failures_by_tool trs else foldl (blame tr) (failures_by_tool trs) (trace_tools tr))"
  by (simp add: failures_by_tool_def)

lemma failures_blamed:
  "blamed n (failures_by_tool trs) = mentions n trs"
  "map_of (failures_by_tool trs) n = None \<longleftrightarrow> mentions n trs = []"
proof (induction trs rule: rev_induct)
  case Nil
  { case 1 show ?case by (simp add: failures_by_tool_def blamed_def mentions_def) }
  { case 2 show ?case by (simp add: failures_by_tool_def mentions_def) }
next
  case (snoc tr trs)
  have m: "mentions n (trs @ [tr]) = mentions n trs @ (if tr_success tr then [] else replicate (count_list (trace_tools tr) n) tr)"
    by (simp add: mentions_def)
  { case 1 show ?case using snoc by (simp add: failures_by_tool_snoc blame_fold m) }
  { case 2 show ?case using snoc by (auto simp: failures_by_tool_snoc blame_fold m count_list_0_iff) }
qed

lemma failures_map: "map_of (failures_by_tool trs) n = (if mentions n trs = [] then None else Some (mentions n trs))"
  using failures_blamed [where n = n and trs = trs] by (auto simp: blamed_def split: option.splits)

lemma failures_distinct: "distinct (map fst (failures_by_tool trs))"
proof (induction trs rule: rev_induct)
  case (snoc tr trs)
  have "distinct (map fst d) \<Longrightarrow> distinct (map fst (foldl (blame tr) d names))" for d names
    by (induction names arbitrary: d) (simp_all add: blame_def distinct_d_set)
  then show ?case using snoc by (simp add: failures_by_tool_snoc)
qed (simp add: failures_by_tool_def)

lemma failures_member: "(n, trs') \<in> set (failures_by_tool trs) \<longleftrightarrow> mentions n trs \<noteq> [] \<and> trs' = mentions n trs"
  by (auto simp: map_of_eq_Some_iff [OF failures_distinct, symmetric] failures_map)

text \<open>
  The feedback on failures has one item for each tool blamed at least \<open>min_failures\<close> times, with the
  number of times, the kinds of error, sorted and without repetition, and the notes in order; most blamed first,
  and by name downwards among equals.
\<close>

theorem introspection_spec:
  "distinct (map fb_tool (introspect_failures c k))
    \<and> (\<forall>name. name \<in> fb_tool ` set (introspect_failures c k)
         \<longleftrightarrow> mentions name (cu_traces c) \<noteq> [] \<and> k \<le> int (length (mentions name (cu_traces c))))
    \<and> (\<forall>f\<in>set (introspect_failures c k). fb_failures f = length (mentions (fb_tool f) (cu_traces c))
         \<and> set (fb_errors f) = tr_error_type ` set (mentions (fb_tool f) (cu_traces c)) - {[]}
         \<and> sorted (fb_errors f) \<and> distinct (fb_errors f)
         \<and> fb_notes f = filter (\<lambda>x. x \<noteq> []) (map tr_feedback (mentions (fb_tool f) (cu_traces c))))
    \<and> sorted_wrt (\<lambda>f g. (fb_failures g, fb_tool g) \<le> (fb_failures f, fb_tool f)) (introspect_failures c k)"
proof (intro conjI allI)
  let ?d = "failures_by_tool (cu_traces c)"
  let ?kept = "filter (\<lambda>(name, trs). k \<le> int (length trs)) ?d"
  have set: "set (introspect_failures c k) = feedback_for ` set ?kept" by (simp add: introspect_failures_def)
  have "map fb_tool (map feedback_for ?kept) = map fst ?kept" by (simp add: feedback_for_def)
  moreover have "distinct (map fst ?kept)" using failures_distinct by (rule distinct_map_filter)
  ultimately have "distinct (map fb_tool (map feedback_for ?kept))" by (simp only:)
  then show "distinct (map fb_tool (introspect_failures c k))"
    unfolding introspect_failures_def distinct_map_sort_desc .
  show "name \<in> fb_tool ` set (introspect_failures c k)
      \<longleftrightarrow> mentions name (cu_traces c) \<noteq> [] \<and> k \<le> int (length (mentions name (cu_traces c)))" for name
  proof -
    have "fb_tool ` set (introspect_failures c k) = fst ` set ?kept" unfolding set image_image by (simp add: feedback_for_def)
    moreover have "name \<in> fst ` set ?kept \<longleftrightarrow> (\<exists>trs. (name, trs) \<in> set ?d \<and> k \<le> int (length trs))"
      by (auto simp: image_iff)
    ultimately show ?thesis by (simp add: failures_member)
  qed
  show "\<forall>f\<in>set (introspect_failures c k). fb_failures f = length (mentions (fb_tool f) (cu_traces c))
         \<and> set (fb_errors f) = tr_error_type ` set (mentions (fb_tool f) (cu_traces c)) - {[]}
         \<and> sorted (fb_errors f) \<and> distinct (fb_errors f)
         \<and> fb_notes f = filter (\<lambda>x. x \<noteq> []) (map tr_feedback (mentions (fb_tool f) (cu_traces c)))"
    unfolding set by (auto simp: failures_member feedback_for_def)
  show "sorted_wrt (\<lambda>f g. (fb_failures g, fb_tool g) \<le> (fb_failures f, fb_tool f)) (introspect_failures c k)"
    unfolding introspect_failures_def by (rule sort_desc_sorted)
qed

section \<open>An example\<close>

definition demo_tool :: "string \<Rightarrow> string \<Rightarrow> tool_spec" where
  "demo_tool n k = \<lparr>tool_name = n, tool_task = k, tool_description = [], tool_parameters = [], tool_difficulty = 1, tool_tags = []\<rparr>"

definition demo_curriculum :: curriculum where
  "demo_curriculum = \<lparr>cu_tools = [(''cal'', demo_tool ''cal'' ''math''), (''sky'', demo_tool ''sky'' ''weather'')], cu_traces = []\<rparr>"

text \<open>A trace that names a tool twice is one failure for the score and two for the feedback.\<close>

lemma repeated_name_counts_twice:
  assumes "cu_traces c = [\<lparr>tr_query = q, tr_selected = [], tr_success = False, tr_stage = ''warmup'', tr_expected = [x, x],
    tr_error_type = e, tr_feedback = t, tr_created_at = now, tr_metadata = m\<rparr>]"
  shows "failure_count c x = 1" "map fb_failures (introspect_failures c 2) = [2]"
  by (simp_all add: assms failure_count_def trace_tools_def introspect_failures_def failures_by_tool_def blame_def
      feedback_for_def sort_desc_def)

lemma select_tools_spec_witness:
  "\<exists>ts. select_tools demo_curriculum ''cal'' (Some ''math'') ''cross_category'' 2 1 = Inr ts
    \<and> distinct (map tool_name ts) \<and> ts \<noteq> [] \<and> tool_task (hd ts) = ''math''"
proof -
  have ok: "curriculum_ok demo_curriculum" by (simp add: curriculum_ok_def demo_curriculum_def demo_tool_def)
  obtain ts where ts: "select_tools demo_curriculum ''cal'' (Some ''math'') ''cross_category'' 2 1 = Inr ts"
    by (simp add: select_tools_def VALID_STAGES_def Let_def)
  have u: "demo_tool ''cal'' ''math'' \<in> snd ` set (cu_tools demo_curriculum)" "for_task (Some ''math'') (demo_tool ''cal'' ''math'')"
    by (simp_all add: demo_curriculum_def for_task_def demo_tool_def)
  show ?thesis using select_tools_spec [OF ok ts] u ts by (fastforce simp: for_task_def)
qed

definition demo_failed :: curriculum where
  "demo_failed = demo_curriculum\<lparr>cu_traces := [\<lparr>tr_query = ''add'', tr_selected = [''cal''], tr_success = False,
     tr_stage = ''warmup'', tr_expected = [], tr_error_type = ''timeout'', tr_feedback = [], tr_created_at = 1, tr_metadata = []\<rparr>]\<rparr>"

lemma introspection_spec_witness:
  "\<exists>f\<in>set (introspect_failures demo_failed 1). fb_tool f = ''cal'' \<and> set (fb_errors f) = {''timeout''}"
proof -
  have m: "mentions ''cal'' (cu_traces demo_failed) = cu_traces demo_failed"
    by (simp add: mentions_def demo_failed_def trace_tools_def)
  have e: "tr_error_type ` set (cu_traces demo_failed) - {[]} = {''timeout''}" "cu_traces demo_failed \<noteq> []"
    "1 \<le> int (length (cu_traces demo_failed))" by (simp_all add: demo_failed_def)
  then have "''cal'' \<in> fb_tool ` set (introspect_failures demo_failed 1)"
    using introspection_spec [of demo_failed 1] m by metis
  then obtain f where "f \<in> set (introspect_failures demo_failed 1)" "fb_tool f = ''cal''" by auto
  then show ?thesis using introspection_spec [of demo_failed 1] m e(1) by metis
qed

end
