(* ===== verification/Consolidation.thy ===== *)
theory Consolidation
  imports Agents
begin

text \<open>
  \<open>consolidation.py\<close>: the facts that can be extracted from recent memories and that the ledger does not have
  yet, filed as pending proposals. The vault is only read. A fresh identifier for the \<open>n\<close>-th proposal of a
  run is \<open>uid n\<close>.
\<close>

definition ledger_key :: "fact \<Rightarrow> string \<times> string \<times> string \<times> string" where
  "ledger_key f = (py_lower (fc_subject f), py_lower (fc_predicate f), py_lower (fc_object f), fc_memory_id f)"

definition key_text :: "string \<times> string \<times> string \<times> string \<Rightarrow> string" where
  "key_text k = (case k of (s, p, ob, m) \<Rightarrow> py_join ''|'' [s, p, ob, m])"

definition derived_candidate :: "real \<Rightarrow> extracted \<Rightarrow> envelope result" where
  "derived_candidate now x =
     envelope_structured (extracted_to_dict x)
       ((blank_envelope (ex_scope x) now)
         \<lparr>memory_type := ''semantic_fact'', tags := [''derived'', ''fact'', ''consolidation''], entities := ex_entities x,
           importance := 64 / 100, confidence := ex_confidence x,
           provenance := [(''source'', VStr ''background_consolidation''), (''derived_from'', VStr (ex_memory_id x)),
             (''extractor'', VStr ''rule_based'')],
           metadata := [(''review_status'', VStr ''pending''), (''fact_signature'', VStr (key_text (extracted_key x)))]\<rparr>)"

definition derived_rationale :: "envelope \<Rightarrow> extracted \<Rightarrow> string" where
  "derived_rationale m x =
     ''Derived '' @ ex_subject x @ '' '' @ ex_predicate x @ '' '' @ ex_object x @ '' from '' @ env_id m @ ''.''"

fun propose_facts ::
  "real \<Rightarrow> (nat \<Rightarrow> string) \<Rightarrow> (envelope \<times> extracted) list \<Rightarrow> (string \<times> string \<times> string \<times> string) list \<Rightarrow> string list
    \<Rightarrow> (proposal_table, string list) action" where
  "propose_facts now uid [] seen ids rows = (rows, Inr ids)"
| "propose_facts now uid ((m, x) # rest) seen ids rows =
     (if extracted_key x \<in> set seen then propose_facts now uid rest seen ids rows
      else (case derived_candidate now x of
          Inl e \<Rightarrow> (rows, Inl e)
        | Inr c \<Rightarrow>
            (case propose_memory (uid (length ids)) now c ''derived_fact'' (derived_rationale m x) ''consolidation_runner'' rows of
               (rows', Inl e) \<Rightarrow> (rows', Inl e)
             | (rows', Inr p) \<Rightarrow> propose_facts now uid rest (extracted_key x # seen) (ids @ [pr_id p]) rows')))"

definition extractions :: "(int \<Rightarrow> int) \<Rightarrow> envelope list \<Rightarrow> (envelope \<times> extracted) list" where
  "extractions zone ms = concat (map (\<lambda>m. map (Pair m) (extract_facts zone m)) ms)"

definition known_keys :: "py_dict \<Rightarrow> int \<Rightarrow> vault \<Rightarrow> (string \<times> string \<times> string \<times> string) list" where
  "known_keys sc limit v = map ledger_key (list_facts sc None (Some (max (limit * 4) 100)) (vt_ledger v))"

definition propose_from_recent ::
  "(int \<Rightarrow> int) \<Rightarrow> real \<Rightarrow> (nat \<Rightarrow> string) \<Rightarrow> py_dict \<Rightarrow> int \<Rightarrow> vault \<Rightarrow> (proposal_table, string list) action" where
  "propose_from_recent zone now uid sc limit v rows =
     (case list_memories now sc [] None (Some limit) (vt_store v) of
        Inl e \<Rightarrow> (rows, Inl e)
      | Inr ms \<Rightarrow> propose_facts now uid (extractions zone ms) (known_keys sc limit v) [] rows)"

definition consolidation_report :: "string list \<Rightarrow> py_dict" where
  "consolidation_report ids = [(''proposal_count'', VInt (int (length ids))), (''proposal_ids'', str_list ids)]"

section \<open>What is proposed\<close>

definition derived_row :: "real \<Rightarrow> proposal_row \<Rightarrow> envelope \<times> extracted \<Rightarrow> bool" where
  "derived_row now r mx =
     (\<exists>c. derived_candidate now (snd mx) = Inr c \<and> pr_candidate r = canon_dict (envelope_to_dict c)
       \<and> pr_status r = ''pending'' \<and> pr_type r = ''derived_fact'' \<and> pr_created_by r = ''consolidation_runner''
       \<and> pr_rationale r = derived_rationale (fst mx) (snd mx) \<and> pr_memory_id r = None)"

definition keys_of :: "(envelope \<times> extracted) list \<Rightarrow> (string \<times> string \<times> string \<times> string) list" where
  "keys_of mxs = map (extracted_key \<circ> snd) mxs"

lemma propose_memory_cases:
  assumes "propose_memory u now c k why who rows = (rows', r)"
  shows "(\<exists>e. r = Inl e \<and> rows' = rows)
    \<or> (r = Inr (new_proposal u now c k why who)
       \<and> rows' = rows @ [with_candidate (canon_dict (envelope_to_dict c)) (new_proposal u now c k why who)])"
  using assms by (auto simp: propose_memory_def Let_def split: if_splits)

lemma propose_facts_spec:
  assumes "propose_facts now uid mxs seen ids rows = (rows', r)"
  shows "\<exists>new used. rows' = rows @ new \<and> list_all2 (derived_row now) new used \<and> set used \<subseteq> set mxs
    \<and> distinct (keys_of used) \<and> set (keys_of used) \<inter> set seen = {}
    \<and> (\<forall>out. r = Inr out \<longrightarrow> out = ids @ map pr_id new \<and> set (keys_of used) \<union> set seen = set (keys_of mxs) \<union> set seen)"
  using assms
proof (induction now uid mxs seen ids rows rule: propose_facts.induct)
  case (1 now uid seen ids rows)
  then show ?case by (intro exI [of _ "[]"]) (auto simp: keys_of_def)
next
  case (2 now uid m x rest seen ids rows)
  let ?k = "extracted_key x"
  show ?case
  proof (cases "?k \<in> set seen")
    case True
    then have "propose_facts now uid rest seen ids rows = (rows', r)" using "2.prems" by simp
    from "2.IH"(1) [OF True this] obtain more used where IH: "rows' = rows @ more" "list_all2 (derived_row now) more used"
      "set used \<subseteq> set rest" "distinct (keys_of used)" "set (keys_of used) \<inter> set seen = {}"
      "\<forall>out. r = Inr out \<longrightarrow> out = ids @ map pr_id more \<and> set (keys_of used) \<union> set seen = set (keys_of rest) \<union> set seen"
      by blast
    have "set (keys_of ((m, x) # rest)) \<union> set seen = set (keys_of rest) \<union> set seen" using True by (auto simp: keys_of_def)
    moreover have "set used \<subseteq> set ((m, x) # rest)" using IH(3) by auto
    ultimately show ?thesis using IH by (intro exI [of _ more] exI [of _ used]) simp
  next
    case new: False
    show ?thesis
    proof (cases "derived_candidate now x")
      case (Inl e)
      then show ?thesis using "2.prems" new by (intro exI [of _ "[]"]) (auto simp: keys_of_def)
    next
      case (Inr c)
      let ?p = "new_proposal (uid (length ids)) now c ''derived_fact'' (derived_rationale m x) ''consolidation_runner''"
      obtain rows1 y where y: "propose_memory (uid (length ids)) now c ''derived_fact'' (derived_rationale m x)
          ''consolidation_runner'' rows = (rows1, y)" by fastforce
      show ?thesis
      proof (cases y)
        case (Inl e)
        then have "rows' = rows" "r = Inl e" using "2.prems" new Inr y propose_memory_cases [OF y] by auto
        then show ?thesis by (intro exI [of _ "[]"]) (auto simp: keys_of_def)
      next
        case ok: (Inr p)
        let ?row = "with_candidate (canon_dict (envelope_to_dict c)) ?p"
        have p: "p = ?p" "rows1 = rows @ [?row]" using propose_memory_cases [OF y] ok by auto
        have rest: "propose_facts now uid rest (?k # seen) (ids @ [pr_id ?p]) rows1 = (rows', r)"
          using "2.prems" new Inr y ok p(1) by simp
        obtain more used where IH: "rows' = rows1 @ more" "list_all2 (derived_row now) more used" "set used \<subseteq> set rest"
          "distinct (keys_of used)" "set (keys_of used) \<inter> set (?k # seen) = {}"
          "\<forall>out. r = Inr out \<longrightarrow> out = (ids @ [pr_id ?p]) @ map pr_id more
             \<and> set (keys_of used) \<union> set (?k # seen) = set (keys_of rest) \<union> set (?k # seen)"
          using "2.IH"(2) [OF new Inr y [symmetric] ok] p(1) rest by blast
        have "derived_row now ?row (m, x)" using Inr by (simp add: derived_row_def new_proposal_def with_candidate_def)
        then show ?thesis
          using IH p new by (intro exI [of _ "?row # more"] exI [of _ "(m, x) # used"]) (auto simp: keys_of_def)
      qed
    qed
  qed
qed

lemma propose_facts_ok: "proposals_ok rows \<Longrightarrow> proposals_ok (fst (propose_facts now uid mxs seen ids rows))"
proof (induction now uid mxs seen ids rows rule: propose_facts.induct)
  case (2 now uid m x rest seen ids rows)
  then show ?case
    using propose_ok [of rows "uid (length ids)" now _ "''derived_fact''" "derived_rationale m x" "''consolidation_runner''"]
    by (auto split: sum.splits prod.splits) (metis fst_conv)+
qed simp

text \<open>The extracted facts a run looks at: those of the memories it lists, none when listing them raises.\<close>

definition recent_extractions :: "(int \<Rightarrow> int) \<Rightarrow> real \<Rightarrow> py_dict \<Rightarrow> int \<Rightarrow> vault \<Rightarrow> (envelope \<times> extracted) list" where
  "recent_extractions zone now sc limit v =
     (case list_memories now sc [] None (Some limit) (vt_store v) of Inl e \<Rightarrow> [] | Inr ms \<Rightarrow> extractions zone ms)"

text \<open>
  C33: a consolidation only adds pending proposals at the end of the table, whether it returns or raises. In either case
  each new row is derived from a fact extracted from one of the memories that \<open>list_memories\<close> gives for the
  scope and the limit, no two from facts with the same subject, predicate, object and memory, and none from a fact the
  ledger lists for the scope (at most four times the limit, and at least a hundred, are listed). When it returns, every
  other extracted fact has its proposal and the identifiers returned are the new ones, in order. A table that is well
  formed stays so.
\<close>

theorem consolidation_spec:
  assumes "propose_from_recent zone now uid sc limit v rows = (rows', r)"
  shows "\<exists>new used. rows' = rows @ new \<and> list_all2 (derived_row now) new used
    \<and> set used \<subseteq> set (recent_extractions zone now sc limit v)
    \<and> distinct (keys_of used) \<and> set (keys_of used) \<inter> set (known_keys sc limit v) = {}
    \<and> (proposals_ok rows \<longrightarrow> proposals_ok rows')
    \<and> (\<forall>ids. r = Inr ids \<longrightarrow> ids = map pr_id new
         \<and> set (keys_of used) = set (keys_of (recent_extractions zone now sc limit v)) - set (known_keys sc limit v))"
proof (cases "list_memories now sc [] None (Some limit) (vt_store v)")
  case (Inl e)
  then show ?thesis using assms
    by (intro exI [of _ "[]"]) (auto simp: propose_from_recent_def keys_of_def)
next
  case (Inr ms)
  then have run: "propose_facts now uid (extractions zone ms) (known_keys sc limit v) [] rows = (rows', r)"
    and seen: "recent_extractions zone now sc limit v = extractions zone ms"
    using assms by (simp_all add: propose_from_recent_def recent_extractions_def)
  have ok: "proposals_ok rows \<longrightarrow> proposals_ok rows'"
    using propose_facts_ok [of rows now uid "extractions zone ms" "known_keys sc limit v" "[]"] run by simp
  obtain new used where sp: "rows' = rows @ new" "list_all2 (derived_row now) new used" "set used \<subseteq> set (extractions zone ms)"
    "distinct (keys_of used)" "set (keys_of used) \<inter> set (known_keys sc limit v) = {}"
    "\<forall>out. r = Inr out \<longrightarrow> out = [] @ map pr_id new
      \<and> set (keys_of used) \<union> set (known_keys sc limit v) = set (keys_of (extractions zone ms)) \<union> set (known_keys sc limit v)"
    using propose_facts_spec [OF run] by blast
  have "set (keys_of used) = set (keys_of (extractions zone ms)) - set (known_keys sc limit v)" if "r = Inr ids" for ids
    using sp(5,6) that by blast
  then show ?thesis using sp seen ok by (intro exI [of _ new] exI [of _ used]) simp
qed

section \<open>An example\<close>

text \<open>A vault whose one memory states a fact in a line of its own.\<close>

definition demo_statement :: envelope where
  "demo_statement = (blank_envelope [] 1)\<lparr>env_id := ''m1'', content_hash := ''h'', memory_type := ''fact'',
     modalities := [\<lparr>modality = ''text'', content = VStr ''ab:c'', uri = None, mime_type = None, mod_sha256 = Some ''d'',
        size_bytes = Some 4, mod_metadata = []\<rparr>]\<rparr>"
definition demo_statement_row :: memory_row where
  "demo_statement_row = demo_row\<lparr>row_memory_type := ''fact'',
     row_envelope_json := dumps (VDict (envelope_to_dict demo_statement))\<rparr>"

lemma demo_content: "trimmed ''text'' \<and> py_lower ''text'' = ''text''" "content_bytes (VStr ''ab:c'') = Inr ''ab:c''"
  by code_simp+

lemma demo_statement_parsed: "parse_envelope now (row_envelope_json demo_statement_row) = Inr demo_statement"
proof -
  have "canon_envelope demo_statement = demo_statement"
    by (simp add: canon_envelope_def demo_statement_def blank_envelope_def canon_modality_def canon_dict_def)
  moreover have "parse_envelope now (dumps (VDict (envelope_to_dict demo_statement))) = Inr (canon_envelope demo_statement)"
    by (rule parse_dumped_envelope)
      (simp_all add: demo_statement_def blank_envelope_def wf_envelope_def envelope_to_dict_def str_list_def plain_float_def
        wf_modality_def modality_to_dict_def opt_str_def opt_int_def demo_content)
  ultimately show ?thesis by (simp add: demo_statement_row_def)
qed


lemma demo_rx: "py_splitlines ''ab:c'' = [''ab:c'']" "rx_finditer should_use_re ''ab:c'' = []" "rx_finditer is_re ''ab:c'' = []"
  "map_option (\<lambda>(_, c). (clean_subject (capture 1 c), py_strip (capture 2 c))) (rx_match key_value_re ''ab:c'' 0) = Some (''ab'', ''c'')"
  "clean_subject ''ab'' = ''ab''"
  by code_simp+

lemma demo_extracted:
  "extract_facts (\<lambda>t. 0) demo_statement = [extracted_fact demo_statement (extract_entities demo_statement ''ab:c'') ''ab'' ''is'' ''c'' (82 / 100) None]"
proof -
  have t: "text_content demo_statement = ''ab:c''"
    by (simp add: text_content_def demo_statement_def searchable_text_def TEXT_BRIDGE_METADATA_KEYS_def bridge_text_def)
  have "key_value_fact (\<lambda>t. 0) e ents ''ab:c'' = [extracted_fact e ents ''ab'' ''is'' ''c'' (82 / 100) None]" for e ents
    using demo_rx(4) by (auto simp: key_value_fact_def Let_def py_replace_char_def)
  then show ?thesis by (simp add: extract_facts_def t demo_rx clause_facts_def Let_def)
qed

lemma derived_candidate_ok:
  assumes "jsonable (VDict (extracted_to_dict x))" "jsonable (VDict (ex_scope x))" "0 \<le> ex_confidence x" "ex_confidence x \<le> 1"
  shows "\<exists>c. derived_candidate now x = Inr c \<and> jsonable (VDict (envelope_to_dict c))"
proof -
  let ?base = "(blank_envelope (ex_scope x) now)
         \<lparr>memory_type := ''semantic_fact'', tags := [''derived'', ''fact'', ''consolidation''], entities := ex_entities x,
           importance := 64 / 100, confidence := ex_confidence x,
           provenance := [(''source'', VStr ''background_consolidation''), (''derived_from'', VStr (ex_memory_id x)),
             (''extractor'', VStr ''rule_based'')],
           metadata := [(''review_status'', VStr ''pending''), (''fact_signature'', VStr (key_text (extracted_key x)))]\<rparr>"
  let ?m = "\<lparr>modality = ''structured'', content = VDict (extracted_to_dict x), uri = None, mime_type = Some ''application/json'',
      mod_sha256 = None, size_bytes = None, mod_metadata = []\<rparr>"
  have n: "py_lower (py_strip ''structured'') = ''structured''" by code_simp
  obtain b where "content_bytes (VDict (extracted_to_dict x)) = Inr b" using assms(1) by (auto simp: content_bytes_def stable_json_def)
  then obtain m where m: "modality_init ?m = Inr m" by (simp add: modality_init_def n Let_def)
  have c: "content m = VDict (extracted_to_dict x)" "mod_metadata m = []" using modality_init_content [OF m] by simp_all
  let ?e = "?base\<lparr>modalities := [m]\<rparr>"
  have "jsonable (hash_material ?e)" using assms c by (simp add: jsonable_hash_material blank_envelope_def)
  then obtain e where e: "envelope_init ?e None = Inr e"
    using envelope_init_ok_iff [of ?e None] assms(3,4) by (simp add: blank_envelope_def) blast
  then have "derived_candidate now x = Inr e" using m by (simp add: derived_candidate_def envelope_structured_def envelope_of_modality_def)
  moreover have "jsonable (VDict (envelope_to_dict e))"
    using assms c by (simp add: envelope_to_dict_def envelope_init_fields [OF e] blank_envelope_def modality_to_dict_def
        str_list_def list_all_iff opt_str_def opt_int_def split: option.split)
  ultimately show ?thesis by blast
qed

definition demo_statement_vault :: vault where
  "demo_statement_vault = vault_open\<lparr>vt_store := demo_store\<lparr>st_memories := [demo_statement_row]\<rparr>\<rparr>"

lemma demo_recent: "list_memories 9 [] [] None (Some 10) (vt_store demo_statement_vault) = Inr [demo_statement]"
proof -
  have "list_rows None (Some 10) (vt_store demo_statement_vault) = [demo_statement_row]"
    by (simp add: list_rows_def demo_statement_vault_def sort_desc_def sql_limit_def)
  then show ?thesis
    by (simp add: list_memories_def demo_statement_parsed filter_memories_def matches_filter_def py_take_def)
qed

lemma consolidation_spec_witness:
  "\<exists>rows' i. propose_from_recent (\<lambda>t. 0) 9 show_nat [] 10 demo_statement_vault [] = (rows', Inr [i]) \<and> map pr_id rows' = [i]"
proof -
  let ?f = "extracted_fact demo_statement (extract_entities demo_statement ''ab:c'') ''ab'' ''is'' ''c'' (82 / 100) None"
  obtain x where x: "x = ?f" by blast
  have ex: "extractions (\<lambda>t. 0) [demo_statement] = [(demo_statement, x)]" 
    by (simp only: extractions_def x demo_extracted list.map concat.simps append.simps)
  have known: "known_keys [] 10 demo_statement_vault = []"
    by (simp add: known_keys_def list_facts_def demo_statement_vault_def vault_open_def ledger_empty_def sort_desc_def sql_limit_def py_take_def)
  obtain c where c: "derived_candidate 9 x = Inr c" "jsonable (VDict (envelope_to_dict c))"
    using derived_candidate_ok [of x 9]
    by (auto simp: x extracted_fact_def extracted_to_dict_def demo_statement_def blank_envelope_def opt_real_def str_list_def list_all_iff)
  obtain rows' i where run: "propose_from_recent (\<lambda>t. 0) 9 show_nat [] 10 demo_statement_vault [] = (rows', Inr [i])"
    using c(2) by (simp add: propose_from_recent_def demo_recent ex known c(1) propose_memory_def Let_def)
  then show ?thesis using consolidation_spec [OF run] by auto
qed
end
