(* ===== verification/Connectors.thy ===== *)
theory Connectors
  imports Schema
begin

text \<open>\<open>connectors.py\<close>: a record of an external system made into a memory envelope.\<close>

record connector_record =
  cr_type :: string
  cr_external_id :: string
  cr_title :: string
  cr_body :: string
  cr_source_uri :: string
  cr_updated_at :: "real option"
  cr_metadata :: py_dict

definition opt_float :: "real option \<Rightarrow> py_value" where
  "opt_float x = (case x of None \<Rightarrow> VNone | Some t \<Rightarrow> VFloat t)"

definition connector_content :: "connector_record \<Rightarrow> string \<Rightarrow> string \<Rightarrow> string" where
  "connector_content r ctype external =
     (let title = py_strip (cr_title r); body = py_strip (cr_body r);
          content = py_strip (py_join [CHR 0x0A]
            (filter (\<lambda>p. p \<noteq> []) [if title \<noteq> [] then ''title: '' @ title else [], body]))
      in if content = [] then ctype @ '' record '' @ external else content)"

definition connector_metadata :: "connector_record \<Rightarrow> string \<Rightarrow> string \<Rightarrow> py_dict" where
  "connector_metadata r ctype external =
     d_update (cr_metadata r)
       [(''connector_type'', VStr ctype), (''external_id'', VStr external), (''source_uri'', VStr (cr_source_uri r)),
        (''title'', VStr (py_strip (cr_title r)))]"

definition connector_envelope :: "real \<Rightarrow> connector_record \<Rightarrow> string \<Rightarrow> string \<Rightarrow> py_dict \<Rightarrow> string list \<Rightarrow> string \<Rightarrow> envelope" where
  "connector_envelope now r ctype external sc tgs mtype =
     (blank_envelope sc (case cr_updated_at r of None \<Rightarrow> now | Some t \<Rightarrow> t))
       \<lparr>memory_type := mtype, tags := sorted_set (tgs @ [''connector'', ctype]), importance := 62 / 100,
         confidence := 9 / 10,
         provenance := [(''source'', VStr (''connector:'' @ ctype)), (''connector_type'', VStr ctype),
           (''external_id'', VStr external), (''source_uri'', VStr (cr_source_uri r)),
           (''updated_at'', opt_float (cr_updated_at r))],
         metadata := connector_metadata r ctype external\<rparr>"

definition connector_to_memory ::
  "real \<Rightarrow> connector_record \<Rightarrow> py_dict \<Rightarrow> string list \<Rightarrow> string \<Rightarrow> envelope result" where
  "connector_to_memory now r sc tgs mtype =
     (let ctype = py_lower (py_strip (cr_type r)); external = py_strip (cr_external_id r) in
      if ctype = [] then Inl (ValueError ''connector_type is required'')
      else if external = [] then Inl (ValueError ''external_id is required'')
      else envelope_text (connector_content r ctype external) (connector_envelope now r ctype external sc tgs mtype))"

section \<open>What is made of a record\<close>

lemma text_modality_content: "modality_init (text_modality s) = Inr m \<Longrightarrow> content m = VStr s"
  by (auto simp: modality_init_def text_modality_def Let_def res_bind_eq_Inr split: if_splits)

text \<open>
  A record that names its connector and its external id becomes a memory tagged with the connector, whose
  metadata and provenance carry both ids, and whose text is never empty.
\<close>

lemma connector_memory:
  assumes "connector_to_memory now r sc tgs mtype = Inr m"
  shows "\<exists>c x. c = py_lower (py_strip (cr_type r)) \<and> x = py_strip (cr_external_id r) \<and> c \<noteq> [] \<and> x \<noteq> []
    \<and> map content (modalities m) = [VStr (connector_content r c x)] \<and> connector_content r c x \<noteq> []
    \<and> set (tags m) = set tgs \<union> {''connector'', c} \<and> scope m = sc
    \<and> d_get (metadata m) ''external_id'' = Some (VStr x) \<and> d_get (provenance m) ''external_id'' = Some (VStr x)"
proof -
  let ?c = "py_lower (py_strip (cr_type r))" and ?x = "py_strip (cr_external_id r)"
  have ne: "?c \<noteq> []" "?x \<noteq> []" using assms by (auto simp: connector_to_memory_def Let_def split: if_splits)
  let ?e = "connector_envelope now r ?c ?x sc tgs mtype"
  have e: "tags ?e = sorted_set (tgs @ [''connector'', ?c])" "scope ?e = sc" "metadata ?e = connector_metadata r ?c ?x"
    "d_get (provenance ?e) ''external_id'' = Some (VStr ?x)"
    by (simp_all add: connector_envelope_def blank_envelope_def)
  have "envelope_text (connector_content r ?c ?x) ?e = Inr m" using assms ne by (simp add: connector_to_memory_def Let_def)
  then obtain md where md: "modality_init (text_modality (connector_content r ?c ?x)) = Inr md"
    and init: "envelope_init (?e\<lparr>modalities := [md]\<rparr>) None = Inr m"
    unfolding envelope_text_def envelope_of_modality_def res_bind_eq_Inr by blast
  have "d_get (connector_metadata r ?c ?x) ''external_id'' = Some (VStr ?x)"
    by (simp add: connector_metadata_def map_of_d_update)
  moreover have "connector_content r ?c ?x \<noteq> []" using ne(1) by (simp add: connector_content_def Let_def)
  ultimately show ?thesis
    using envelope_init_fields [OF init] text_modality_content [OF md] ne e by auto
qed

end
