(* ===== verification/Tool_Calls.thy ===== *)
theory Tool_Calls
  imports Work_Mode Consolidation Connectors
begin

text \<open>
  The tools of \<open>LivingMemoryTools\<close> (\<open>mcp_server.py\<close>) but the facade: each reads its arguments from a dict, calls one
  component of the state and makes the result a dict. What the tools share, reading an envelope's fields and filing it,
  comes first. An argument of another kind than the tool's schema names is a \<open>TypeError\<close>.
\<close>

section \<open>The environment and the state\<close>

text \<open>
  A call's clock and full text index, the local time zone, the ids \<open>uuid4\<close> draws, the
  vault's directory as text, the milliseconds a rebuild takes, the variable \<open>LIVING_MEMORY_COMPACT_TOOLS\<close> (empty if unset), and
  the text Python gives an exception.
\<close>

record tool_env =
  te_recall :: recall_env
  te_zone :: "int \<Rightarrow> int"
  te_uid :: "nat \<Rightarrow> string"
  te_root :: string
  te_elapsed :: int
  te_compact :: string
  te_error_text :: "py_error \<Rightarrow> string"

abbreviation te_now :: "tool_env \<Rightarrow> real" where
  "te_now env \<equiv> re_now (te_recall env)"

type_synonym 'a call = "(tools, 'a) action"

definition act_of :: "'a result \<Rightarrow> ('s, 'a) action" where
  "act_of x s = (s, x)"

definition on_vault :: "(vault, 'a) action \<Rightarrow> 'a call" where
  "on_vault m t = (case m (tl_vault t) of (v, x) \<Rightarrow> (t\<lparr>tl_vault := v\<rparr>, x))"

definition on_proposals :: "(proposal_table, 'a) action \<Rightarrow> 'a call" where
  "on_proposals m t = (case m (tl_proposals t) of (p, x) \<Rightarrow> (t\<lparr>tl_proposals := p\<rparr>, x))"

definition on_review :: "(proposal_table \<times> vault, 'a) action \<Rightarrow> 'a call" where
  "on_review m t =
     (case m (tl_proposals t, tl_vault t) of ((p, v), x) \<Rightarrow> (t\<lparr>tl_proposals := p, tl_vault := v\<rparr>, x))"

definition on_curriculum :: "(curriculum, 'a) action \<Rightarrow> 'a call" where
  "on_curriculum m t = (case m (tl_curriculum t) of (c, x) \<Rightarrow> (t\<lparr>tl_curriculum := c\<rparr>, x))"

section \<open>Arguments\<close>

definition required :: "py_dict \<Rightarrow> string \<Rightarrow> py_value result" where
  "required d k = (case d_get d k of None \<Rightarrow> Inl (KeyError k) | Some v \<Rightarrow> Inr v)"

definition required_string :: "py_dict \<Rightarrow> string \<Rightarrow> string result" where
  "required_string d k = res_bind (required d k) read_string"

definition string_or :: "string \<Rightarrow> py_value option \<Rightarrow> string result" where
  "string_or dflt v = read_string (or_chain [v] (VStr dflt))"

definition int_or :: "int \<Rightarrow> py_value option \<Rightarrow> int result" where
  "int_or dflt v = py_int (or_chain [v] (VInt dflt))"

definition float_arg :: "real \<Rightarrow> py_value option \<Rightarrow> real result" where
  "float_arg dflt v = (case v of None \<Rightarrow> Inr dflt | Some w \<Rightarrow> py_float w)"

definition bool_arg :: "bool \<Rightarrow> py_value option \<Rightarrow> bool" where
  "bool_arg dflt v = (case v of None \<Rightarrow> dflt | Some w \<Rightarrow> truthy w)"

definition dict_or :: "py_dict \<Rightarrow> py_value option \<Rightarrow> py_dict result" where
  "dict_or dflt v = (if truthy (d_or v) then read_dict v else Inr dflt)"

definition read_dicts :: "py_value option \<Rightarrow> py_dict list result" where
  "read_dicts v = res_bind (iter_or_empty v) (res_each read_dict_item)"

text \<open>The fields of an envelope that the writing tools read alike; the defaults differ.\<close>

definition envelope_args :: "real \<Rightarrow> string \<Rightarrow> py_dict \<Rightarrow> py_dict \<Rightarrow> envelope result" where
  "envelope_args now mtype prov d =
     res_bind (read_dict (d_get d ''scope'')) (\<lambda>sc.
     res_bind (string_or mtype (d_get d ''memory_type'')) (\<lambda>mt.
     res_bind (read_strings (d_get d ''tags'')) (\<lambda>tgs.
     res_bind (read_strings (d_get d ''entities'')) (\<lambda>ents.
     res_bind (read_dicts (d_get d ''relations'')) (\<lambda>rels.
     res_bind (float_arg (1 / 2) (d_get d ''importance'')) (\<lambda>imp.
     res_bind (float_arg 1 (d_get d ''confidence'')) (\<lambda>conf.
     (let sens = or_str ''normal'' (d_get d ''sensitivity'') in
     res_bind (dict_or prov (d_get d ''provenance'')) (\<lambda>pr.
     res_bind (read_dict (d_get d ''metadata'')) (\<lambda>meta.
       Inr ((blank_envelope sc now)\<lparr>memory_type := mt, tags := tgs, entities := ents, relations := rels, importance := imp,
         confidence := conf, sensitivity := sens, provenance := pr, metadata := meta\<rparr>)))))))))))"

section \<open>Writing\<close>

definition remember_in :: "tool_env \<Rightarrow> py_dict \<Rightarrow> bool \<Rightarrow> envelope \<Rightarrow> string call" where
  "remember_in env d dflt_extract e =
     act_bind (act_of (read_opt_str (d_get d ''box_id''))) (\<lambda>box.
       on_vault (vault_remember (te_zone env) (te_now env) box True (bool_arg dflt_extract (d_get d ''extract_facts'')) e))"

definition remembered :: "envelope \<Rightarrow> string \<Rightarrow> py_dict" where
  "remembered e i = [(''memory_id'', VStr i), (''content_hash'', VStr (content_hash e))]"

definition remember_made :: "tool_env \<Rightarrow> py_dict \<Rightarrow> envelope result \<Rightarrow> py_dict call" where
  "remember_made env d made =
     act_bind (act_of made) (\<lambda>e. act_bind (remember_in env d False e) (\<lambda>i. act_return (remembered e i)))"

definition mcp_source :: py_dict where
  "mcp_source = [(''source'', VStr ''mcp'')]"

definition remember_text :: "tool_env \<Rightarrow> py_dict \<Rightarrow> py_dict call" where
  "remember_text env d = remember_made env d
     (res_bind (required_string d ''content'') (\<lambda>c.
      res_bind (envelope_args (te_now env) ''episodic'' mcp_source d) (envelope_text c)))"

definition remember_structured :: "tool_env \<Rightarrow> py_dict \<Rightarrow> py_dict call" where
  "remember_structured env d = remember_made env d
     (res_bind (required d ''content'') (\<lambda>v. res_bind (read_dict_item v) (\<lambda>c.
      res_bind (envelope_args (te_now env) ''semantic'' mcp_source d) (envelope_structured c))))"

definition remember_file_ref :: "tool_env \<Rightarrow> py_dict \<Rightarrow> py_dict call" where
  "remember_file_ref env d = remember_made env d
     (res_bind (required_string d ''uri'') (\<lambda>u. res_bind (required_string d ''mime_type'') (\<lambda>mime.
      res_bind (envelope_args (te_now env) ''artifact'' mcp_source d)
        (envelope_file_ref u mime (or_str ''file'' (d_get d ''modality''))))))"

text \<open>One envelope per section of a Markdown text.\<close>

definition section_content :: "string \<Rightarrow> markdown_section \<Rightarrow> string" where
  "section_content src sec =
     py_strip (py_join [CHR 0x0A] [''source: '' @ src, ''heading: '' @ py_join '' > '' (sec_heading_path sec), [], sec_content sec])"

definition section_envelope :: "real \<Rightarrow> py_dict \<Rightarrow> string \<Rightarrow> envelope \<Rightarrow> markdown_section \<Rightarrow> envelope result" where
  "section_envelope now d src base sec =
     (let hs = sec_heading_path sec in
      res_bind (read_dict (d_get d ''metadata'')) (\<lambda>meta.
      res_bind (string_or ''artifact_section'' (d_get d ''memory_type'')) (\<lambda>mt.
      res_bind (read_dicts (d_get d ''relations'')) (\<lambda>rels.
      res_bind (float_arg (62 / 100) (d_get d ''importance'')) (\<lambda>imp.
      res_bind (float_arg (95 / 100) (d_get d ''confidence'')) (\<lambda>conf.
        envelope_text (section_content src sec)
          (base\<lparr>memory_type := mt, tags := tags base @ [''markdown'', ''artifact-section''],
             entities := entities base @ [src, if hs \<noteq> [] then last hs else src], relations := rels, importance := imp,
             confidence := conf, sensitivity := or_str ''normal'' (d_get d ''sensitivity''),
             metadata := d_update meta [(''source_path'', VStr src), (''heading_path'', str_list hs),
               (''section_index'', VInt (int (sec_index sec))), (''chunk_index'', VInt (int (sec_chunk sec)))]\<rparr>)))))))"

definition section_row :: "string \<Rightarrow> markdown_section \<Rightarrow> string \<Rightarrow> py_dict" where
  "section_row src sec i =
     [(''memory_id'', VStr i), (''source_path'', VStr src), (''heading_path'', str_list (sec_heading_path sec)),
      (''section_index'', VInt (int (sec_index sec))), (''chunk_index'', VInt (int (sec_chunk sec)))]"

definition remember_section :: "tool_env \<Rightarrow> py_dict \<Rightarrow> string \<Rightarrow> envelope \<Rightarrow> markdown_section \<Rightarrow> (string \<times> py_dict) call" where
  "remember_section env d src base sec =
     act_bind (act_of (section_envelope (te_now env) d src base sec)) (\<lambda>e.
     act_bind (remember_in env d False e) (\<lambda>i. act_return (i, section_row src sec i)))"

definition markdown_base :: "real \<Rightarrow> py_dict \<Rightarrow> string \<Rightarrow> envelope result" where
  "markdown_base now d src =
     res_bind (read_dict (d_get d ''scope'')) (\<lambda>sc.
     res_bind (read_strings (d_get d ''tags'')) (\<lambda>tgs.
     res_bind (read_strings (d_get d ''entities'')) (\<lambda>ents.
     res_bind (dict_or [(''source'', VStr src)] (d_get d ''provenance'')) (\<lambda>prov.
       Inr ((blank_envelope sc now)\<lparr>tags := tgs, entities := ents, provenance := prov\<rparr>)))))"

definition markdown_report :: "string \<Rightarrow> (string \<times> py_dict) list \<Rightarrow> py_dict" where
  "markdown_report src rows =
     [(''source_path'', VStr src), (''section_count'', VInt (int (length rows))), (''section_memory_ids'', str_list (map fst rows)),
      (''sections'', VList (map (VDict \<circ> snd) rows))]"

text \<open>\<open>None\<close> if the splitting did not end.\<close>

definition remember_markdown :: "tool_env \<Rightarrow> py_dict \<Rightarrow> tools \<Rightarrow> (tools \<times> py_dict result) option" where
  "remember_markdown env d t =
     (case res_bind (required d ''source_path'') (\<lambda>p. res_bind (required d ''content'') (\<lambda>c.
             res_bind (int_or 2400 (d_get d ''max_section_chars'')) (\<lambda>n. Inr (py_str p, py_str c, n)))) of
        Inl err \<Rightarrow> Some (t, Inl err)
      | Inr (src, body, n) \<Rightarrow>
          map_option (\<lambda>split. act_bind (act_of split) (\<lambda>secs.
              act_bind (act_of (markdown_base (te_now env) d src)) (\<lambda>base.
              act_bind (act_each (remember_section env d src base) secs) (\<lambda>rows.
                act_return (markdown_report src rows)))) t)
            (split_markdown_sections body src n))"

definition connector_record_of :: "py_dict \<Rightarrow> connector_record result" where
  "connector_record_of d =
     res_bind (required d ''connector_type'') (\<lambda>ctype. res_bind (required d ''external_id'') (\<lambda>external.
     res_bind (read_updated (d_get d ''updated_at'')) (\<lambda>upd. res_bind (read_dict (d_get d ''metadata'')) (\<lambda>meta.
       Inr \<lparr>cr_type = py_str ctype, cr_external_id = py_str external, cr_title = or_str [] (d_get d ''title''),
         cr_body = or_str [] (d_get d ''body''), cr_source_uri = or_str [] (d_get d ''source_uri''), cr_updated_at = upd,
         cr_metadata = meta\<rparr>))))"

definition connector_envelope_of :: "real \<Rightarrow> py_dict \<Rightarrow> envelope result" where
  "connector_envelope_of now d =
     res_bind (connector_record_of d) (\<lambda>r. res_bind (read_dict (d_get d ''scope'')) (\<lambda>sc.
     res_bind (read_strings (d_get d ''tags'')) (\<lambda>tgs. connector_to_memory now r sc tgs ''artifact'')))"

definition ingest_connector_record :: "tool_env \<Rightarrow> py_dict \<Rightarrow> py_dict call" where
  "ingest_connector_record env d =
     act_bind (act_of (connector_envelope_of (te_now env) d)) (\<lambda>e.
     act_bind (remember_in env d True e) (\<lambda>i t.
       (t, Inr (remembered e i @
         [(''facts'', VList (map (VDict \<circ> fact_to_dict) (facts_for_memory i (vt_ledger (tl_vault t)))))]))))"

definition consolidate_memory :: "tool_env \<Rightarrow> py_dict \<Rightarrow> py_dict call" where
  "consolidate_memory env d t =
     act_bind (act_of (res_bind (read_dict (d_get d ''scope'')) (\<lambda>sc. res_bind (int_or 50 (d_get d ''limit'')) (\<lambda>n. Inr (sc, n)))))
       (\<lambda>(sc, n). act_bind (on_proposals (propose_from_recent (te_zone env) (te_now env)
            (\<lambda>k. te_uid env (length (tl_proposals t) + k)) sc n (tl_vault t)))
          (\<lambda>ids. act_return (consolidation_report ids))) t"

section \<open>Reading\<close>

definition fact_status_args :: "py_dict \<Rightarrow> (py_dict \<times> string option \<times> int) result" where
  "fact_status_args d =
     res_bind (read_dict (d_get d ''scope'')) (\<lambda>sc. res_bind (read_opt_str (d_get d ''status'')) (\<lambda>status.
     res_bind (int_or 100 (d_get d ''limit'')) (\<lambda>n. Inr (sc, status, n))))"

definition fact_status :: "py_dict \<Rightarrow> py_dict call" where
  "fact_status d t =
     (let l = vt_ledger (tl_vault t); i = py_strip (or_str [] (d_get d ''memory_id'')) in
      (t, if i \<noteq> []
          then Inr [(''memory_id'', VStr i), (''status'', VDict (memory_fact_status i l)),
                    (''facts'', VList (map (VDict \<circ> fact_to_dict) (facts_for_memory i l)))]
          else res_bind (fact_status_args d) (\<lambda>(sc, status, n).
            (let fs = list_facts sc status (Some n) l in
             Inr [(''facts'', VList (map (VDict \<circ> fact_to_dict) fs)), (''count'', VInt (int (length fs)))]))))"

definition recall_args_of :: "int \<Rightarrow> py_dict \<Rightarrow> recall_args result" where
  "recall_args_of top_k d =
     res_bind (required_string d ''query'') (\<lambda>q. res_bind (read_dict (d_get d ''scope'')) (\<lambda>sc.
     res_bind (read_strings (d_get d ''tags'')) (\<lambda>tgs. res_bind (int_or top_k (d_get d ''top_k'')) (\<lambda>k.
     res_bind (read_updated (d_get d ''at_time'')) (\<lambda>at_time. res_bind (int_or 1 (d_get d ''graph_hops'')) (\<lambda>hops.
       Inr \<lparr>ra_query = q, ra_scope = sc, ra_tags = tgs, ra_top_k = k, ra_use_engram = True, ra_at_time = at_time,
         ra_hops = hops\<rparr>))))))"

definition context_response :: "string \<Rightarrow> int \<Rightarrow> evidence_packet list \<Rightarrow> py_dict" where
  "context_response q max_tokens ps =
     [(''query'', VStr q), (''token_budget'', VInt max_tokens), (''estimated_tokens'', VInt (sum_list (map ep_tokens ps))),
      (''evidence'', VList (map (VDict \<circ> packet_to_dict) ps))]"

definition recall_context :: "tool_env \<Rightarrow> py_dict \<Rightarrow> py_dict call" where
  "recall_context env d =
     act_bind (act_of (res_bind (int_or 700 (d_get d ''max_tokens'')) (\<lambda>n. res_bind (recall_args_of 8 d) (\<lambda>a. Inr (n, a)))))
       (\<lambda>(n, a). act_bind (tools_recall (te_recall env) a) (\<lambda>rs. act_of (res_bind (assembler_new n 4) (\<lambda>asm.
          res_bind (assemble asm rs) (\<lambda>ps. Inr (context_response (ra_query a) n ps))))))"

definition recall_sif :: "tool_env \<Rightarrow> py_dict \<Rightarrow> py_dict call" where
  "recall_sif env d =
     act_bind (act_of (res_bind (int_or 700 (d_get d ''max_tokens'')) (\<lambda>n. res_bind (recall_args_of 8 d) (\<lambda>a. Inr (n, a)))))
       (\<lambda>(n, a). act_bind (tools_recall (te_recall env) a) (\<lambda>rs. act_of (res_bind (sif_new n 4 False) (\<lambda>s.
          res_bind (sif_assemble s (ra_query a) rs) (\<lambda>f. Inr (sif_to_dict f))))))"

definition recall_item :: "recall_result \<Rightarrow> py_dict" where
  "recall_item r =
     (let m = rr_memory r in
      [(''memory_id'', VStr (env_id m)), (''memory_type'', VStr (memory_type m)),
       (''snippet'', VStr (take 600 (text_content m))), (''score'', VFloat (rr_score r)),
       (''confidence'', VFloat (rr_confidence r)), (''why_retrieved'', str_list (rr_why r)), (''scope'', VDict (scope m)),
       (''tags'', str_list (tags m)), (''modalities'', str_list (modality_names m)),
       (''source'', d_or (d_get (provenance m) ''source''))])"

definition recall_tool :: "tool_env \<Rightarrow> py_dict \<Rightarrow> py_dict call" where
  "recall_tool env d =
     act_bind (act_of (recall_args_of 10 d)) (\<lambda>a. act_bind (tools_recall (te_recall env) a) (\<lambda>rs.
       act_return [(''results'', VList (map (VDict \<circ> recall_item) rs))]))"

definition inspect_memory :: "tool_env \<Rightarrow> py_dict \<Rightarrow> py_dict call" where
  "inspect_memory env d t =
     (t, res_bind (required_string d ''memory_id'') (\<lambda>i.
         res_bind (inspect (te_now env) (bool_arg True (d_get d ''resolve_blobs'')) i (vt_store (tl_vault t))) (\<lambda>m.
         res_bind (governance_for m) (\<lambda>gov.
           Inr (d_update (envelope_to_dict m) [(''text'', VStr (text_content m)), (''governance'', VDict gov)])))))"

section \<open>Boxes and the vault\<close>

definition open_box_tool :: "tool_env \<Rightarrow> py_dict \<Rightarrow> py_dict call" where
  "open_box_tool env d t =
     act_bind (act_of (res_bind (required_string d ''name'') (\<lambda>n. res_bind (read_dict (d_get d ''scope'')) (\<lambda>sc. Inr (n, sc)))))
       (\<lambda>(n, sc). act_bind (on_vault (open_box (te_uid env (length (vt_boxes (tl_vault t)))) (te_now env) n sc)) (\<lambda>b.
          act_return [(''box_id'', VStr (bx_id b)), (''name'', VStr (bx_name b)), (''scope'', VDict (bx_scope b))])) t"

definition close_box_tool :: "tool_env \<Rightarrow> py_dict \<Rightarrow> py_dict call" where
  "close_box_tool env d =
     act_bind (act_of (required_string d ''box_id'')) (\<lambda>i.
     act_bind (on_vault (\<lambda>v. (close_box (te_now env) i v, Inr ()))) (\<lambda>_.
       act_return [(''box_id'', VStr i), (''state'', VStr ''closed'')]))"

definition box_to_dict :: "box_info \<Rightarrow> py_dict" where
  "box_to_dict b =
     [(''id'', VStr (bx_id b)), (''name'', VStr (bx_name b)), (''scope'', VDict (bx_scope b)),
      (''created_at'', VFloat (bx_created_at b)), (''closed_at'', opt_real (bx_closed_at b)), (''state'', VStr (bx_state b)),
      (''memory_ids'', str_list (bx_memory_ids b))]"

definition box_info_tool :: "py_dict \<Rightarrow> py_dict call" where
  "box_info_tool d t =
     (t, res_bind (required_string d ''box_id'') (\<lambda>i. res_bind (get_box i (tl_vault t)) (\<lambda>b. Inr (box_to_dict b))))"

definition box_memories :: "tool_env \<Rightarrow> py_dict \<Rightarrow> py_dict call" where
  "box_memories env d t =
     (t, res_bind (required_string d ''box_id'') (\<lambda>i. res_bind (memories_in_box (te_now env) i (tl_vault t)) (\<lambda>ms.
        Inr [(''memories'', VList (map (\<lambda>m. VDict (d_update (envelope_to_dict m) [(''text'', VStr (text_content m))])) ms))])))"

definition integrity_to_dict :: "integrity_report \<Rightarrow> py_dict" where
  "integrity_to_dict r =
     [(''checked'', VInt (int (ir_checked r))), (''tampered'', str_list (ir_tampered r)),
      (''invalid_lines'', VList (map (VInt \<circ> int) (ir_invalid r)))]"

definition verify_tool :: "tool_env \<Rightarrow> py_dict \<Rightarrow> py_dict call" where
  "verify_tool env d t =
     (t, res_bind (verify_integrity (te_now env) (tl_vault t)) (\<lambda>r. Inr (integrity_to_dict r)))"

definition rebuild_tool :: "tool_env \<Rightarrow> py_dict \<Rightarrow> py_dict call" where
  "rebuild_tool env d =
     act_bind (on_vault (rebuild_indexes (te_zone env) (te_now env))) (\<lambda>_.
       act_return [(''rebuilt'', VBool True), (''elapsed_ms'', VInt (te_elapsed env))])"

definition box_sample :: "vault \<Rightarrow> py_value list" where
  "box_sample v =
     map (\<lambda>b. VDict [(''id'', VStr (bx_id b)), (''name'', VStr (bx_name b)), (''state'', VStr (bx_state b)),
            (''created_at'', VFloat (bx_created_at b)), (''closed_at'', opt_real (bx_closed_at b))])
       (sql_limit 50 (sort_desc bx_created_at (vt_boxes v)))"

definition kg_count_dict :: "kg \<Rightarrow> py_dict" where
  "kg_count_dict k =
     (case kg_count k of (es, as, act) \<Rightarrow>
        [(''entities'', VInt es), (''assertions'', VInt as), (''active_assertions'', VInt act)])"

definition memory_stats :: "tool_env \<Rightarrow> py_dict \<Rightarrow> py_dict call" where
  "memory_stats env d t =
     (let v = tl_vault t in
      (t, res_bind (list_memories (te_now env) [] [] None None (vt_store v)) (\<lambda>ms.
          res_bind (verify_integrity (te_now env) v) (\<lambda>r.
            Inr [(''root'', VStr (te_root env)), (''memory_count'', VInt (int (length ms))),
                 (''fact_count'', VInt (fact_count (vt_ledger v))), (''knowledge'', VDict (kg_count_dict (vt_kg v))),
                 (''box_count_sample'', VInt (int (length (box_sample v)))), (''boxes_sample'', VList (box_sample v)),
                 (''task_state_count'', VInt (task_count (vt_tasks v))), (''engram'', VDict (engram_stats (tl_engram t))),
                 (''integrity'', VDict (integrity_to_dict r))]))))"

section \<open>Proposals\<close>

definition proposal_to_dict :: "envelope proposal \<Rightarrow> py_dict" where
  "proposal_to_dict p =
     [(''id'', VStr (pr_id p)), (''proposal_type'', VStr (pr_type p)), (''candidate'', VDict (envelope_to_dict (pr_candidate p))),
      (''rationale'', VStr (pr_rationale p)), (''created_by'', VStr (pr_created_by p)), (''created_at'', VFloat (pr_created_at p)),
      (''status'', VStr (pr_status p)), (''reviewed_by'', opt_str (pr_reviewed_by p)), (''reviewed_at'', opt_real (pr_reviewed_at p)),
      (''review_reason'', opt_str (pr_review_reason p)), (''memory_id'', opt_str (pr_memory_id p))]"

text \<open>The candidate is made without the sensitivity argument, which this tool does not have.\<close>

definition proposed_envelope :: "real \<Rightarrow> py_dict \<Rightarrow> envelope result" where
  "proposed_envelope now d =
     res_bind (required_string d ''content'') (\<lambda>c.
     res_bind (envelope_args now ''episodic''
         [(''source'', case d_get d ''created_by'' of None \<Rightarrow> VStr ''mcp'' | Some v \<Rightarrow> v)] (filter (\<lambda>p. fst p \<noteq> ''sensitivity'') d))
       (envelope_text c))"

definition propose_text_memory :: "tool_env \<Rightarrow> py_dict \<Rightarrow> py_dict call" where
  "propose_text_memory env d t =
     act_bind (act_of (res_bind (proposed_envelope (te_now env) d) (\<lambda>e. res_bind (required_string d ''proposal_type'') (\<lambda>kind.
         res_bind (required_string d ''rationale'') (\<lambda>why. res_bind (required_string d ''created_by'') (\<lambda>who. Inr (e, kind, why, who)))))))
       (\<lambda>(e, kind, why, who).
          act_bind (on_proposals (propose_memory (te_uid env (length (tl_proposals t))) (te_now env) e kind why who))
            (\<lambda>p. act_return (proposal_to_dict p))) t"

definition approve_proposal :: "tool_env \<Rightarrow> py_dict \<Rightarrow> py_dict call" where
  "approve_proposal env d =
     act_bind (act_of (res_bind (required_string d ''proposal_id'') (\<lambda>i. res_bind (required_string d ''reviewer'') (\<lambda>who. Inr (i, who)))))
       (\<lambda>(i, who). act_bind (on_review (approve (te_zone env) (te_now env) i who)) (\<lambda>mid.
          act_return [(''proposal_id'', VStr i), (''memory_id'', VStr mid), (''status'', VStr ''approved'')]))"

definition reject_proposal :: "tool_env \<Rightarrow> py_dict \<Rightarrow> py_dict call" where
  "reject_proposal env d =
     act_bind (act_of (res_bind (required_string d ''proposal_id'') (\<lambda>i. res_bind (required_string d ''reviewer'') (\<lambda>who.
         res_bind (required_string d ''reason'') (\<lambda>why. Inr (i, who, why))))))
       (\<lambda>(i, who, why). act_bind (on_proposals (reject (te_now env) i who why)) (\<lambda>_.
          act_return [(''proposal_id'', VStr i), (''status'', VStr ''rejected'')]))"

definition get_proposal_tool :: "tool_env \<Rightarrow> py_dict \<Rightarrow> py_dict call" where
  "get_proposal_tool env d t =
     (t, res_bind (required_string d ''proposal_id'') (\<lambda>i. res_bind (get_proposal (te_now env) i (tl_proposals t)) (\<lambda>p.
        Inr (proposal_to_dict p))))"

section \<open>Relations\<close>

definition scope_of_memory :: "real \<Rightarrow> string \<Rightarrow> store \<Rightarrow> py_dict result" where
  "scope_of_memory now i s =
     (case inspect now False i s of Inl (KeyError k) \<Rightarrow> Inr [] | Inl err \<Rightarrow> Inl err | Inr m \<Rightarrow> Inr (scope m))"

definition linked_assertion :: "relation \<Rightarrow> string \<Rightarrow> py_dict \<Rightarrow> assertion" where
  "linked_assertion r reason sc =
     \<lparr>as_id = [], as_subject = rl_subject r, as_predicate = rl_predicate r, as_object = rl_object r,
      as_memory_id = rl_memory_id r, as_subject_entity = [], as_object_entity = None, as_object_kind = ''entity'',
      as_fact_id = None, as_scope = sc, as_graph_name = ''knowledge'', as_valid_from = rl_valid_from r,
      as_valid_to = rl_valid_to r, as_observed_at = rl_created_at r, as_confidence = rl_confidence r, as_status = ''active'',
      as_reason = reason, as_supersedes = [], as_superseded_by = None\<rparr>"

text \<open>
  A relation is filed in the graph, then as an assertion with the scope of its memory, if that is stored; \<open>given\<close> are the
  bounds of its validity as the caller gave them.
\<close>

definition link_relation ::
  "real \<Rightarrow> string option \<Rightarrow> string \<Rightarrow> py_value \<times> py_value \<Rightarrow> relation \<Rightarrow> (vault, relation \<times> assertion) action" where
  "link_relation now name reason given r =
     act_bind (on_graph (add_relation name r)) (\<lambda>rel.
     act_bind (\<lambda>v. (v, scope_of_memory now (rl_memory_id r) (vt_store v))) (\<lambda>sc.
     act_bind (on_knowledge (add_assertion_given True given (linked_assertion r reason sc))) (\<lambda>a. act_return (rel, a))))"

definition relation_arg :: "real \<Rightarrow> py_dict \<Rightarrow> (string option \<times> relation) result" where
  "relation_arg now d =
     res_bind (required_string d ''subject'') (\<lambda>subj. res_bind (required_string d ''predicate'') (\<lambda>pred.
     res_bind (required_string d ''object'') (\<lambda>obj. res_bind (required_string d ''memory_id'') (\<lambda>mid.
     res_bind (read_opt_str (d_get d ''graph_name'')) (\<lambda>name. res_bind (read_updated (d_get d ''valid_from'')) (\<lambda>vf.
     res_bind (read_updated (d_get d ''valid_to'')) (\<lambda>vt. res_bind (float_arg 1 (d_get d ''confidence'')) (\<lambda>c.
     res_bind (read_opt_str (d_get d ''source'')) (\<lambda>src.
       Inr (name, \<lparr>rl_subject = subj, rl_predicate = pred, rl_object = obj, rl_memory_id = mid, rl_graph_name = [],
         rl_valid_from = vf, rl_valid_to = vt, rl_confidence = c, rl_source = src, rl_created_at = now\<rparr>))))))))))"

definition add_relation_tool :: "tool_env \<Rightarrow> py_dict \<Rightarrow> py_dict call" where
  "add_relation_tool env d =
     act_bind (act_of (relation_arg (te_now env) d)) (\<lambda>(name, r).
     act_bind (on_vault (link_relation (te_now env) name ''manual_relation'' (given_bounds d) r)) (\<lambda>(rel, a).
       act_return (relation_to_dict rel @ [(''knowledge_assertion'', VDict (assertion_to_dict a))])))"

definition query_graph :: "py_dict \<Rightarrow> py_dict call" where
  "query_graph d t =
     (t, res_bind (read_opt_str (d_get d ''subject'')) (\<lambda>subj. res_bind (read_opt_str (d_get d ''predicate'')) (\<lambda>pred.
         res_bind (read_opt_str (d_get d ''object'')) (\<lambda>obj. res_bind (read_opt_str (d_get d ''graph_name'')) (\<lambda>name.
         res_bind (read_updated (d_get d ''at_time'')) (\<lambda>at_time. res_bind (int_or 50 (d_get d ''limit'')) (\<lambda>n.
         res_bind (graph_query subj pred obj name at_time n (vt_graph (tl_vault t))) (\<lambda>rels.
           Inr [(''relations'', VList (map (VDict \<circ> relation_to_dict) rels))]))))))))"

definition query_knowledge :: "py_dict \<Rightarrow> py_dict call" where
  "query_knowledge d t =
     (t, res_bind (read_opt_str (d_get d ''subject'')) (\<lambda>subj. res_bind (read_opt_str (d_get d ''predicate'')) (\<lambda>pred.
         res_bind (read_opt_str (d_get d ''object'')) (\<lambda>obj. res_bind (read_dict (d_get d ''scope'')) (\<lambda>sc.
         res_bind (case d_get d ''status'' of None \<Rightarrow> Inr (Some ''active'') | Some v \<Rightarrow> read_opt_str (Some v)) (\<lambda>status.
         res_bind (read_updated (d_get d ''at_time'')) (\<lambda>at_time. res_bind (read_strings (d_get d ''memory_ids'')) (\<lambda>ids.
         res_bind (int_or 50 (d_get d ''limit'')) (\<lambda>n.
         (let as = kg_query subj pred obj sc status at_time ids (Some n) (vt_kg (tl_vault t)) in
           Inr [(''format'', VStr ''living-memoryv2/knowledge-query-1''),
                (''assertions'', VList (map (VDict \<circ> assertion_to_dict) as)), (''count'', VInt (int (length as)))]))))))))))"

section \<open>Tools for choosing tools\<close>

definition engram_stats_tool :: "py_dict \<Rightarrow> py_dict call" where
  "engram_stats_tool d t = (t, Inr (engram_stats (tl_engram t)))"

definition tool_to_dict :: "tool_spec \<Rightarrow> py_dict" where
  "tool_to_dict s =
     [(''name'', VStr (tool_name s)), (''task'', VStr (tool_task s)), (''description'', VStr (tool_description s)),
      (''parameters'', str_list (tool_parameters s)), (''difficulty'', VInt (tool_difficulty s)), (''tags'', str_list (tool_tags s))]"

definition tool_spec_of :: "py_dict \<Rightarrow> tool_spec result" where
  "tool_spec_of d =
     res_bind (required_string d ''name'') (\<lambda>n. res_bind (required_string d ''task'') (\<lambda>k.
     res_bind (required_string d ''description'') (\<lambda>de. res_bind (read_strings (d_get d ''parameters'')) (\<lambda>ps.
     res_bind (int_or 1 (d_get d ''difficulty'')) (\<lambda>df. res_bind (read_strings (d_get d ''tags'')) (\<lambda>tgs.
       Inr \<lparr>tool_name = n, tool_task = k, tool_description = de, tool_parameters = ps, tool_difficulty = df, tool_tags = tgs\<rparr>))))))"

definition register_tool_call :: "py_dict \<Rightarrow> py_dict call" where
  "register_tool_call d =
     act_bind (act_of (tool_spec_of d)) (\<lambda>s. act_bind (on_curriculum (register_tool s)) (\<lambda>_.
       act_return [(''registered'', VStr (tool_name s)), (''tool'', VDict (tool_to_dict s))]))"

definition select_tools_call :: "py_dict \<Rightarrow> py_dict call" where
  "select_tools_call d t =
     (t, res_bind (required_string d ''query'') (\<lambda>q. res_bind (read_opt_str (d_get d ''task'')) (\<lambda>task.
         res_bind (string_or ''warmup'' (d_get d ''stage'')) (\<lambda>stage. res_bind (int_or 8 (d_get d ''top_k'')) (\<lambda>k.
         res_bind (int_or 2 (d_get d ''distractors'')) (\<lambda>n. res_bind (select_tools (tl_curriculum t) q task stage k n) (\<lambda>ts.
           Inr [(''tools'', VList (map (\<lambda>s. VDict (tool_to_dict s @ [(''prompt_line'', VStr (prompt_line s))])) ts))])))))))"

definition tool_trace_of :: "real \<Rightarrow> py_dict \<Rightarrow> tool_trace result" where
  "tool_trace_of now d =
     res_bind (required_string d ''query'') (\<lambda>q.
     res_bind (required d ''selected_tools'') (\<lambda>sel. res_bind (py_iter sel) (\<lambda>vs. res_bind (res_each read_string vs) (\<lambda>selected.
     res_bind (required d ''success'') (\<lambda>ok. res_bind (required_string d ''stage'') (\<lambda>stage.
     res_bind (read_strings (d_get d ''expected_tools'')) (\<lambda>expected. res_bind (string_or [] (d_get d ''error_type'')) (\<lambda>kind.
     res_bind (string_or [] (d_get d ''feedback'')) (\<lambda>note. res_bind (read_dict (d_get d ''metadata'')) (\<lambda>meta.
       Inr \<lparr>tr_query = q, tr_selected = selected, tr_success = truthy ok, tr_stage = stage, tr_expected = expected,
         tr_error_type = kind, tr_feedback = note, tr_created_at = now, tr_metadata = meta\<rparr>))))))))))"

definition lesson_envelope :: "real \<Rightarrow> py_dict \<Rightarrow> py_dict \<Rightarrow> envelope result" where
  "lesson_envelope now sc lesson =
     (let name = py_str (d_or (d_get lesson ''tool_name'')) in
      envelope_structured lesson ((blank_envelope sc now)\<lparr>memory_type := ''procedural'', tags := [''tool-use'', py_lower name],
        entities := [name], importance := 75 / 100, provenance := [(''source'', VStr ''tool_curriculum'')]\<rparr>))"

definition persist_lesson :: "tool_env \<Rightarrow> py_dict \<Rightarrow> py_dict \<Rightarrow> string call" where
  "persist_lesson env sc lesson =
     act_bind (act_of (lesson_envelope (te_now env) sc lesson)) (\<lambda>e.
       on_vault (vault_remember (te_zone env) (te_now env) None True False e))"

definition trace_report :: "tool_env \<Rightarrow> py_dict \<Rightarrow> py_dict list \<Rightarrow> py_dict call" where
  "trace_report env d lessons =
     act_bind (if truthy (d_or (d_get d ''persist_lessons''))
               then act_bind (act_of (read_dict (d_get d ''scope''))) (\<lambda>sc. act_each (persist_lesson env sc) lessons)
               else act_return [])
       (\<lambda>ids. act_return [(''recorded'', VBool True), (''lessons'', VList (map VDict lessons)),
          (''persisted_memory_ids'', str_list ids)])"

definition record_tool_trace :: "tool_env \<Rightarrow> py_dict \<Rightarrow> py_dict call" where
  "record_tool_trace env d =
     act_bind (act_of (tool_trace_of (te_now env) d)) (\<lambda>tr.
     act_bind (on_curriculum (record_trace tr)) (\<lambda>_ t. trace_report env d (lesson_memories (tl_curriculum t) 1) t))"

definition tool_lessons :: "py_dict \<Rightarrow> py_dict call" where
  "tool_lessons d t =
     (t, res_bind (int_or 1 (d_get d ''min_failures'')) (\<lambda>n. Inr [(''lessons'', VList (map VDict (lesson_memories (tl_curriculum t) n)))]))"

section \<open>What calls preserve\<close>

definition preserves :: "('s \<Rightarrow> bool) \<Rightarrow> ('s, 'a) action \<Rightarrow> bool" where
  "preserves I m = (\<forall>t. I t \<longrightarrow> I (fst (m t)))"

named_theorems preserved \<open>what preserves an assertion about the state\<close>

lemma preservesD: "preserves I m \<Longrightarrow> I t \<Longrightarrow> m t = (t', x) \<Longrightarrow> I t'"
  by (metis fst_conv preserves_def)

lemma preserves_pure [preserved]:
  "preserves I (act_of x)" "preserves I (act_return a)" "preserves I (\<lambda>t. (t, g t))"
  by (simp_all add: preserves_def act_of_def act_return_def)

lemma preserves_bind [preserved]:
  "preserves I m \<Longrightarrow> (\<And>a. preserves I (f a)) \<Longrightarrow> preserves I (act_bind m f)"
  unfolding preserves_def by (blast intro: act_bind_invariant)

lemma preserves_pair [preserved]: "(\<And>a b. preserves I (f a b)) \<Longrightarrow> preserves I (case p of (a, b) \<Rightarrow> f a b)"
  by (cases p) simp

lemma preserves_if [preserved]: "preserves I m \<Longrightarrow> preserves I m' \<Longrightarrow> preserves I (if b then m else m')"
  by simp

lemma preserves_each [preserved]: "(\<And>x. x \<in> set xs \<Longrightarrow> preserves I (f x)) \<Longrightarrow> preserves I (act_each f xs)"
  unfolding preserves_def using act_each_invariant [of xs I f] by blast

text \<open>An action chosen by what the state is when it starts.\<close>

lemma preserves_at: "(\<And>u. preserves I (m u)) \<Longrightarrow> preserves I (\<lambda>t. m t t)"
  by (simp add: preserves_def)

definition tools_ok :: "(string \<Rightarrow> string) \<Rightarrow> tools \<Rightarrow> bool" where
  "tools_ok nf t =
     (vault_ok (tl_vault t) \<and> proposals_ok (tl_proposals t) \<and> engram_ok nf (tl_engram t) \<and> curriculum_ok (tl_curriculum t))"

lemma on_vault_ok [preserved]: "preserves vault_ok m \<Longrightarrow> preserves (tools_ok nf) (on_vault m)"
  unfolding preserves_def [of "tools_ok nf"] by (auto simp: on_vault_def tools_ok_def split: prod.split dest: preservesD)

lemma on_proposals_ok [preserved]: "preserves proposals_ok m \<Longrightarrow> preserves (tools_ok nf) (on_proposals m)"
  unfolding preserves_def [of "tools_ok nf"] by (auto simp: on_proposals_def tools_ok_def split: prod.split dest: preservesD)

lemma on_curriculum_ok [preserved]: "preserves curriculum_ok m \<Longrightarrow> preserves (tools_ok nf) (on_curriculum m)"
  unfolding preserves_def [of "tools_ok nf"] by (auto simp: on_curriculum_def tools_ok_def split: prod.split dest: preservesD)

lemma on_review_ok [preserved]:
  assumes m: "preserves (\<lambda>rv. proposals_ok (fst rv) \<and> vault_ok (snd rv)) m"
  shows "preserves (tools_ok nf) (on_review m)"
proof -
  have "tools_ok nf (fst (on_review m t))" if t: "tools_ok nf t" for t
  proof -
    obtain p v x where x: "m (tl_proposals t, tl_vault t) = ((p, v), x)" by (metis prod.exhaust)
    then show ?thesis using preservesD [OF m _ x] t by (simp add: on_review_def tools_ok_def)
  qed
  then show ?thesis by (simp add: preserves_def)
qed

lemma vault_ok_parts: "vault_ok v \<Longrightarrow> graph_ok (vt_graph v) \<and> kg_ok (vt_kg v)"
  by (simp add: vault_ok_def)

lemma components_ok [preserved]:
  "preserves vault_ok (vault_remember zone now box lg ex e)" "preserves vault_ok (open_box uid now n sc)"
  "preserves vault_ok (rebuild_indexes zone now)" "preserves vault_ok (\<lambda>v. (close_box now i v, Inr ()))"
  "preserves vault_ok (link_relation now name reason given r)"
  "preserves proposals_ok (propose_memory u now e kind why who)"
  "preserves proposals_ok (propose_from_recent zone now uids sc k v)" "preserves proposals_ok (reject now i who why)"
  "preserves (\<lambda>rv. proposals_ok (fst rv) \<and> vault_ok (snd rv)) (approve zone now i who)"
  "preserves curriculum_ok (register_tool s)" "preserves curriculum_ok (record_trace tr)"
proof -
  show "preserves vault_ok (link_relation now name reason given r)"
    unfolding link_relation_def
    by (intro preserved) (simp_all add: preserves_def on_graph_ok on_knowledge_ok add_relation_graph_ok add_assertion_given_invariant
        vault_ok_parts)
  show "preserves proposals_ok (propose_from_recent zone now uids sc k v)"
    by (simp add: preserves_def propose_from_recent_def propose_facts_ok split: sum.split)
  show "preserves proposals_ok (reject now i who why)"
    using review_step_ok [OF reject_step [where v = vault_open]] by (simp add: preserves_def)
  show "preserves (\<lambda>rv. proposals_ok (fst rv) \<and> vault_ok (snd rv)) (approve zone now i who)"
    unfolding preserves_def using review_step_ok [OF approve_step] by blast
qed (simp_all add: preserves_def vault_remember_ok open_box_ok rebuild_indexes_ok close_box_ok propose_ok register_ok record_trace_ok)

text \<open>A recall changes the engram cache only.\<close>

definition beside_engram :: "tools \<Rightarrow> vault \<times> proposal_table \<times> curriculum" where
  "beside_engram t = (tl_vault t, tl_proposals t, tl_curriculum t)"

definition engram_only :: "(string \<Rightarrow> string) \<Rightarrow> vault \<times> proposal_table \<times> curriculum \<Rightarrow> tools \<Rightarrow> bool" where
  "engram_only nf rest t = (beside_engram t = rest \<and> engram_ok nf (tl_engram t))"

lemma recall_engram_only [preserved]: "preserves (engram_only (re_nf env) rest) (tools_recall env a)"
  unfolding preserves_def engram_only_def
proof safe
  fix t :: tools
  assume ok: "engram_ok (re_nf env) (tl_engram t)"
  obtain t' x where t': "tools_recall env a t = (t', x)" by fastforce
  show "beside_engram (fst (tools_recall env a t)) = beside_engram t" "engram_ok (re_nf env) (tl_engram (fst (tools_recall env a t)))"
    using tools_recall_facts [OF ok t'] t' by (simp_all add: beside_engram_def)
qed

lemma recall_ok [preserved]: "preserves (tools_ok (re_nf env)) (tools_recall env a)"
proof -
  have "tools_ok (re_nf env) (fst (tools_recall env a t))" if "tools_ok (re_nf env) t" for t
    using recall_engram_only [of env "beside_engram t" a] that by (auto simp: preserves_def engram_only_def beside_engram_def tools_ok_def)
  then show ?thesis by (simp add: preserves_def)
qed

section \<open>Every tool\<close>

lemma remember_in_ok [preserved]: "preserves (tools_ok nf) (remember_in env d x e)"
  unfolding remember_in_def by (intro preserved)

lemma remember_made_ok [preserved]: "preserves (tools_ok nf) (remember_made env d e)"
  unfolding remember_made_def by (intro preserved)

lemma writing_tools_ok [preserved]:
  "preserves (tools_ok nf) (remember_text env d)" "preserves (tools_ok nf) (remember_structured env d)"
  "preserves (tools_ok nf) (remember_file_ref env d)" "preserves (tools_ok nf) (ingest_connector_record env d)"
  "preserves (tools_ok nf) (remember_section env d src base sec)"
  unfolding remember_text_def remember_structured_def remember_file_ref_def ingest_connector_record_def remember_section_def
  by (intro preserved)+

lemma consolidate_memory_ok [preserved]: "preserves (tools_ok nf) (consolidate_memory env d)"
  unfolding consolidate_memory_def [abs_def] by (rule preserves_at) (intro preserved)

lemma box_tools_ok [preserved]:
  "preserves (tools_ok nf) (open_box_tool env d)" "preserves (tools_ok nf) (close_box_tool env d)"
  "preserves (tools_ok nf) (rebuild_tool env d)" "preserves (tools_ok nf) (add_relation_tool env d)"
proof -
  show "preserves (tools_ok nf) (open_box_tool env d)"
    unfolding open_box_tool_def [abs_def] by (rule preserves_at) (intro preserved)
qed (unfold close_box_tool_def rebuild_tool_def add_relation_tool_def, (intro preserved)+)

lemma review_tools_ok [preserved]:
  "preserves (tools_ok nf) (propose_text_memory env d)" "preserves (tools_ok nf) (approve_proposal env d)"
  "preserves (tools_ok nf) (reject_proposal env d)"
proof -
  show "preserves (tools_ok nf) (propose_text_memory env d)"
    unfolding propose_text_memory_def [abs_def] by (rule preserves_at) (intro preserved)
qed (unfold approve_proposal_def reject_proposal_def, (intro preserved)+)

lemma curriculum_tools_ok [preserved]:
  "preserves (tools_ok nf) (register_tool_call d)" "preserves (tools_ok nf) (persist_lesson env sc l)"
  "preserves (tools_ok nf) (record_tool_trace env d)"
proof -
  show lesson: "preserves (tools_ok nf) (persist_lesson env sc l)" for sc l
    unfolding persist_lesson_def by (intro preserved)
  have report: "preserves (tools_ok nf) (trace_report env d lessons)" for lessons
    unfolding trace_report_def by (intro preserved lesson)
  show "preserves (tools_ok nf) (record_tool_trace env d)"
    unfolding record_tool_trace_def
    by (intro preserved preserves_at [where m = "\<lambda>u. trace_report env d (lesson_memories (tl_curriculum u) 1)"] report)
qed (unfold register_tool_call_def, (intro preserved)+)

lemma recall_tools_ok [preserved]:
  "preserves (tools_ok (re_nf (te_recall env))) (recall_context env d)"
  "preserves (tools_ok (re_nf (te_recall env))) (recall_sif env d)"
  "preserves (tools_ok (re_nf (te_recall env))) (recall_tool env d)"
  unfolding recall_context_def recall_sif_def recall_tool_def by (intro preserved)+

lemma reading_tools_only [preserved]:
  "preserves I (fact_status d)" "preserves I (inspect_memory env d)" "preserves I (box_info_tool d)"
  "preserves I (box_memories env d)" "preserves I (verify_tool env d)" "preserves I (memory_stats env d)"
  "preserves I (get_proposal_tool env d)" "preserves I (query_graph d)" "preserves I (query_knowledge d)"
  "preserves I (engram_stats_tool d)" "preserves I (select_tools_call d)" "preserves I (tool_lessons d)"
  by (simp_all add: preserves_def fact_status_def inspect_memory_def box_info_tool_def box_memories_def verify_tool_def
      memory_stats_def get_proposal_tool_def query_graph_def query_knowledge_def engram_stats_tool_def select_tools_call_def
      tool_lessons_def Let_def)

lemma recall_tools_only [preserved]:
  "preserves (engram_only (re_nf (te_recall env)) rest) (recall_context env d)"
  "preserves (engram_only (re_nf (te_recall env)) rest) (recall_sif env d)"
  "preserves (engram_only (re_nf (te_recall env)) rest) (recall_tool env d)"
  unfolding recall_context_def recall_sif_def recall_tool_def by (intro preserved)+

text \<open>The same of a call that might not end.\<close>

definition preserves_run :: "('s \<Rightarrow> bool) \<Rightarrow> ('s \<Rightarrow> ('s \<times> 'a) option) \<Rightarrow> bool" where
  "preserves_run I m = (\<forall>t t' x. I t \<longrightarrow> m t = Some (t', x) \<longrightarrow> I t')"

lemma preserves_once: "preserves I m \<Longrightarrow> preserves_run I (\<lambda>t. Some (m t))"
  by (auto simp: preserves_run_def dest: preservesD)

lemma remember_markdown_ok: "preserves_run (tools_ok nf) (remember_markdown env d)"
proof -
  have "preserves (tools_ok nf) (act_bind (act_of split) (\<lambda>secs. act_bind (act_of (markdown_base (te_now env) d src)) (\<lambda>base.
      act_bind (act_each (remember_section env d src base) secs) (\<lambda>rows. act_return (markdown_report src rows)))))" for split src
    by (intro preserved)
  then show ?thesis
    unfolding preserves_run_def remember_markdown_def by (auto split: sum.splits dest: preservesD)
qed

lemma split_markdown_ends: "split_markdown_sections s src n \<noteq> None"
proof (cases "80 < n")
  case True
  have "0 < nat n" using True by simp
  from chunk_sections_spec [OF this, of "raw_sections src s" src 0] raw_sections_spec [of src s] show ?thesis
    using True by (auto simp: split_markdown_sections_def)
qed (simp add: split_markdown_sections_def)

lemma remember_markdown_ends: "remember_markdown env d t \<noteq> None"
  unfolding remember_markdown_def option.map_disc_iff
  by (simp add: split_markdown_ends split: sum.split prod.split del: not_None_eq split_paired_Ex)

end
