(* ===== verification/Capture.thy ===== *)
theory Capture
  imports Tool_Calls
begin

text \<open>
  The capture mode of the \<open>living_memory\<close> tool (\<open>mcp_server.py\<close>): what an agent notes of its work is filed as memories
  or, in the mode \<open>propose\<close>, as proposals; then relations between them are filed, a tool trace is recorded and the state of
  the task is brought up to date. The accumulators of the Python method are a record, \<open>capture_log\<close>; its dict
  \<open>captured_items_by_role\<close> is written and never read, and is left out.
\<close>

section \<open>Items\<close>

text \<open>\<open>_as_list\<close>\<close>

definition as_list :: "py_value option \<Rightarrow> py_value list" where
  "as_list v = (case d_or v of VNone \<Rightarrow> [] | VList vs \<Rightarrow> vs | w \<Rightarrow> [w])"

text \<open>The value of the first key that is there.\<close>

fun first_key :: "string list \<Rightarrow> py_dict \<Rightarrow> py_value option" where
  "first_key [] d = None"
| "first_key (k # ks) d = (case d_get d k of Some v \<Rightarrow> Some v | None \<Rightarrow> first_key ks d)"

definition set_default :: "string \<Rightarrow> py_value \<Rightarrow> py_dict \<Rightarrow> py_dict" where
  "set_default k v d = (case d_get d k of None \<Rightarrow> d @ [(k, v)] | Some _ \<Rightarrow> d)"

definition fields_of :: "py_value \<Rightarrow> py_dict" where
  "fields_of item = (case item of VDict d \<Rightarrow> d | _ \<Rightarrow> [])"

definition no_content :: "py_value \<Rightarrow> bool" where
  "no_content c \<longleftrightarrow> c = VNone \<or> c = VStr []"

definition leading_modality :: "py_value \<Rightarrow> modality_ref list" where
  "leading_modality c =
     (if no_content c then []
      else case c of
          VDict d \<Rightarrow> [\<lparr>modality = ''structured'', content = VDict d, uri = None, mime_type = Some ''application/json'',
            mod_sha256 = None, size_bytes = None, mod_metadata = []\<rparr>]
        | v \<Rightarrow> [text_modality (py_str v)])"

record capture_spec =
  cs_keys :: "string list"
  cs_role :: string
  cs_type :: string
  cs_tags :: "string list"
  cs_importance :: real

definition capture_base :: "real \<Rightarrow> py_dict \<Rightarrow> string list \<Rightarrow> capture_spec \<Rightarrow> py_dict \<Rightarrow> envelope result" where
  "capture_base now sc tgs spec d =
     res_bind (read_strings (d_get d ''tags'')) (\<lambda>own.
     res_bind (dict_or [(''source'', VStr ''living_memory_facade'')] (d_get d ''provenance'')) (\<lambda>prov.
     res_bind (read_dict (d_get d ''metadata'')) (\<lambda>meta.
     res_bind (dict_or sc (d_get d ''scope'')) (\<lambda>sc'.
     res_bind (read_strings (d_get d ''entities'')) (\<lambda>ents.
     res_bind (read_dicts (d_get d ''relations'')) (\<lambda>rels.
     res_bind (float_arg (cs_importance spec) (d_get d ''importance'')) (\<lambda>imp.
     res_bind (float_arg 1 (d_get d ''confidence'')) (\<lambda>conf.
       Inr ((blank_envelope sc' now)\<lparr>memory_type := or_str (cs_type spec) (d_get d ''memory_type''),
         tags := tgs @ cs_tags spec @ own, entities := ents, relations := rels, importance := imp, confidence := conf,
         sensitivity := or_str ''normal'' (d_get d ''sensitivity''), provenance := prov,
         metadata := set_default ''capture'' (VStr ''living_memory_facade'') meta\<rparr>)))))))))"

text \<open>\<open>None\<close> if the item has neither content nor modalities.\<close>

definition captured_envelope :: "real \<Rightarrow> py_dict \<Rightarrow> string list \<Rightarrow> capture_spec \<Rightarrow> py_value \<Rightarrow> envelope option result" where
  "captured_envelope now sc tgs spec item =
     (let d = fields_of item; c = (case first_key [''content'', ''text'', ''note''] d of Some v \<Rightarrow> v | None \<Rightarrow> item) in
      res_bind (iter_or_empty (d_get d ''modalities'')) (\<lambda>raw.
        if no_content c \<and> raw = [] then Inr None
        else res_bind (capture_base now sc tgs spec d) (\<lambda>base.
          map_sum id Some
            (if raw \<noteq> []
             then res_bind (res_each (\<lambda>v. res_bind (read_dict_item v) modality_from_dict) raw) (\<lambda>ms.
                    envelope_multimodal (leading_modality c @ ms) base)
             else (case c of VDict cd \<Rightarrow> envelope_structured cd base | v \<Rightarrow> envelope_text (py_str v) base)))))"

definition propose_item :: "tool_env \<Rightarrow> py_dict \<Rightarrow> envelope \<Rightarrow> py_dict call" where
  "propose_item env d e t =
     act_bind (on_proposals (propose_memory (te_uid env (length (tl_proposals t))) (te_now env) e
         (or_str ''facade_capture'' (d_get d ''proposal_type'')) (or_str ''final interaction capture'' (d_get d ''rationale''))
         (or_str ''living_memory'' (d_get d ''created_by''))))
       (\<lambda>p. act_return [(''proposal_id'', VStr (pr_id p)), (''status'', VStr (pr_status p)),
          (''memory_type'', VStr (memory_type e)), (''content_hash'', VStr (content_hash e))]) t"

definition file_item :: "tool_env \<Rightarrow> py_dict \<Rightarrow> envelope \<Rightarrow> py_dict call" where
  "file_item env args e =
     act_bind (act_of (read_opt_str (d_get args ''box_id''))) (\<lambda>box.
     act_bind (on_vault (vault_remember (te_zone env) (te_now env) box True False e)) (\<lambda>i.
       act_return [(''memory_id'', VStr i), (''memory_type'', VStr (memory_type e)), (''tags'', str_list (tags e)),
         (''content_hash'', VStr (content_hash e))]))"

record capture_args =
  ca_args :: py_dict
  ca_scope :: py_dict
  ca_tags :: "string list"
  ca_propose :: bool
  ca_task :: string
  ca_patch :: "py_dict option"

definition capture_item :: "tool_env \<Rightarrow> capture_args \<Rightarrow> capture_spec \<Rightarrow> py_value \<Rightarrow> py_dict call" where
  "capture_item env c spec item =
     act_bind (act_of (captured_envelope (te_now env) (ca_scope c) (ca_tags c) spec item)) (\<lambda>made.
       case made of
         None \<Rightarrow> act_return []
       | Some e \<Rightarrow> if ca_propose c then propose_item env (fields_of item) e else file_item env (ca_args c) e)"

section \<open>The log of a capture\<close>

record capture_log =
  cl_captured :: "py_dict list"
  cl_proposals :: "py_dict list"
  cl_ignored :: "py_dict list"
  cl_roles :: "(string \<times> string list) list"

definition empty_log :: capture_log where
  "empty_log = \<lparr>cl_captured = [], cl_proposals = [], cl_ignored = [], cl_roles = []\<rparr>"

fun push_role :: "string \<Rightarrow> string \<Rightarrow> (string \<times> string list) list \<Rightarrow> (string \<times> string list) list" where
  "push_role r i [] = [(r, [i])]"
| "push_role r i ((q, is) # rest) = (if q = r then (q, is @ [i]) # rest else (q, is) # push_role r i rest)"

definition role_ids :: "string \<Rightarrow> (string \<times> string list) list \<Rightarrow> string list" where
  "role_ids r roles = (case map_of roles r of Some is \<Rightarrow> is | None \<Rightarrow> [])"

definition record_captured :: "string \<Rightarrow> py_dict \<Rightarrow> capture_log \<Rightarrow> capture_log" where
  "record_captured role result lg =
     (let item = d_set ''capture_role'' (VStr role) result in
      if truthy (d_or (d_get result ''memory_id''))
      then lg\<lparr>cl_captured := cl_captured lg @ [item],
               cl_roles := push_role role (py_str (d_or (d_get result ''memory_id''))) (cl_roles lg)\<rparr>
      else if truthy (d_or (d_get result ''proposal_id'')) then lg\<lparr>cl_proposals := cl_proposals lg @ [item]\<rparr>
      else lg)"

text \<open>A loop that carries a value along.\<close>

fun act_fold :: "('x \<Rightarrow> 'b \<Rightarrow> ('s, 'b) action) \<Rightarrow> 'x list \<Rightarrow> 'b \<Rightarrow> ('s, 'b) action" where
  "act_fold f [] b = act_return b"
| "act_fold f (x # xs) b = act_bind (f x b) (act_fold f xs)"

text \<open>\<open>_prepare_agentic_capture_item\<close>: \<open>None\<close> for what is empty or passing.\<close>

definition not_content_keys :: "string list" where
  "not_content_keys = [''tags'', ''metadata'', ''importance'', ''confidence'', ''relations'', ''provenance'', ''sensitivity'',
     ''memory_type'', ''modalities'', ''durable'']"

definition agentic_content :: "string \<Rightarrow> py_value \<Rightarrow> py_dict option" where
  "agentic_content role item =
     (let d = fields_of item in
      if d = [] then
        (if item = VNone \<or> (case item of VStr s \<Rightarrow> py_strip s = [] | _ \<Rightarrow> False) then None
         else Some [(''content'', if role = ''open_question'' then VDict [(''question'', VStr (py_str item))] else VStr (py_str item))])
      else if py_lower (py_strip (py_str (or_chain [d_get d ''status'', d_get d ''lifecycle''] (VStr []))))
                \<in> {''ephemeral'', ''scratchpad'', ''transient''} \<and> \<not> truthy (d_or (d_get d ''durable''))
      then None
      else
        (let found = d_or (first_key [''content'', ''text'', ''note''] d);
             payload = (if found = VNone then VDict (filter (\<lambda>(k, v). k \<notin> set not_content_keys) d) else found) in
         if payload \<in> {VStr [], VDict [], VList []} then None else Some (d_set ''content'' payload d)))"

definition prepare_item :: "string \<Rightarrow> string \<Rightarrow> py_value \<Rightarrow> py_dict option result" where
  "prepare_item role task item =
     (case agentic_content role item of
        None \<Rightarrow> Inr None
      | Some d \<Rightarrow>
          res_bind (read_dict (d_get d ''metadata'')) (\<lambda>meta.
          (let meta1 = d_update meta [(''capture'', VStr ''living_memory_capture_v2''), (''capture_role'', VStr role)];
               meta2 = (if task \<noteq> [] then d_set ''task_id'' (VStr task) meta1 else meta1);
               tgs = sorted_set (map py_str (as_list (d_get d ''tags'')) @ [''agentic'', role])
           in Inr (Some (d_set ''tags'' (str_list tgs) (d_set ''memory_type'' (VStr role) (d_set ''metadata'' (VDict meta2) d)))))))"

section \<open>The two passes over the arguments\<close>

definition note_specs :: "capture_spec list" where
  "note_specs =
     [\<lparr>cs_keys = [''notes''], cs_role = ''note'', cs_type = ''episodic'', cs_tags = [''annotation'', ''note''], cs_importance = 58 / 100\<rparr>,
      \<lparr>cs_keys = [''decisions''], cs_role = ''decision'', cs_type = ''decision'', cs_tags = [''annotation'', ''decision''],
        cs_importance = 74 / 100\<rparr>,
      \<lparr>cs_keys = [''lessons''], cs_role = ''lesson'', cs_type = ''procedural'', cs_tags = [''annotation'', ''lesson''],
        cs_importance = 70 / 100\<rparr>]"

definition agentic_spec :: "string list \<Rightarrow> string \<Rightarrow> real \<Rightarrow> capture_spec" where
  "agentic_spec ks role imp = \<lparr>cs_keys = ks, cs_role = role, cs_type = role, cs_tags = [''agentic'', role], cs_importance = imp\<rparr>"

definition agentic_specs :: "capture_spec list" where
  "agentic_specs =
     [agentic_spec [''spec'', ''specs''] ''spec'' (84 / 100), agentic_spec [''plan'', ''plans''] ''plan'' (80 / 100),
      agentic_spec [''progress''] ''progress'' (66 / 100),
      agentic_spec [''checkpoint'', ''checkpoints''] ''checkpoint'' (86 / 100),
      agentic_spec [''artifact'', ''artifacts''] ''artifact'' (70 / 100), agentic_spec [''risk'', ''risks''] ''risk'' (72 / 100),
      agentic_spec [''open_question'', ''open_questions''] ''open_question'' (62 / 100)]"

definition spec_items :: "py_dict \<Rightarrow> capture_spec list \<Rightarrow> (capture_spec \<times> py_value) list" where
  "spec_items args specs =
     concat (map (\<lambda>s. map (Pair s) (concat (map (\<lambda>k. as_list (d_get args k)) (cs_keys s)))) specs)"

definition capture_note :: "tool_env \<Rightarrow> capture_args \<Rightarrow> capture_spec \<times> py_value \<Rightarrow> capture_log \<Rightarrow> (tools, capture_log) action" where
  "capture_note env c si lg =
     (case si of (spec, item) \<Rightarrow>
        act_bind (capture_item env c spec item) (\<lambda>r. act_return (record_captured (cs_role spec) r lg)))"

definition capture_agentic :: "tool_env \<Rightarrow> capture_args \<Rightarrow> capture_spec \<times> py_value \<Rightarrow> capture_log \<Rightarrow> (tools, capture_log) action" where
  "capture_agentic env c si lg =
     (case si of (spec, item) \<Rightarrow>
        act_bind (act_of (prepare_item (cs_role spec) (ca_task c) item)) (\<lambda>prepared.
          case prepared of
            None \<Rightarrow> act_return (lg\<lparr>cl_ignored := cl_ignored lg @
                [[(''role'', VStr (cs_role spec)), (''reason'', VStr ''empty_or_ephemeral'')]]\<rparr>)
          | Some d \<Rightarrow> capture_note env c (spec, VDict d) lg))"

definition capture_items :: "tool_env \<Rightarrow> capture_args \<Rightarrow> (tools, capture_log) action" where
  "capture_items env c =
     act_bind (act_fold (capture_note env c) (spec_items (ca_args c) note_specs) empty_log)
       (act_fold (capture_agentic env c) (spec_items (ca_args c) agentic_specs))"

section \<open>Relations\<close>

text \<open>\<open>_memory_id_from_ref\<close>: \<open>last\<close>, or an index, which may count from the end.\<close>

definition memory_id_from_ref :: "py_value \<Rightarrow> string list \<Rightarrow> string option" where
  "memory_id_from_ref ref ids =
     (if ref = VNone \<or> ids = [] then None
      else if ref = VStr ''last'' then Some (last ids)
      else (case py_int ref of
          Inl err \<Rightarrow> None
        | Inr i \<Rightarrow> (let j = (if i < 0 then int (length ids) + i else i) in
            if 0 \<le> j \<and> j < int (length ids) then Some (ids ! nat j) else None)))"

definition relation_memory :: "py_dict \<Rightarrow> string list \<Rightarrow> string option" where
  "relation_memory d ids =
     (let own = d_or (d_get d ''memory_id'');
          found = (if truthy own then Some (py_str own) else memory_id_from_ref (d_or (d_get d ''memory_ref'')) ids)
      in if found = None \<and> ids \<noteq> [] then Some (hd ids) else found)"

definition captured_relation :: "real \<Rightarrow> string list \<Rightarrow> py_value \<Rightarrow> (string option \<times> relation) result" where
  "captured_relation now ids item =
     (case item of
        VDict d \<Rightarrow>
          (case relation_memory d ids of
             None \<Rightarrow> Inl (ValueError ''relation memory_id is required when no captured memories exist'')
           | Some mid \<Rightarrow>
               if mid = [] then Inl (ValueError ''relation memory_id is required when no captured memories exist'')
               else
                 (let subj = d_or (first_key [''subject'', ''from''] d); pred = d_or (first_key [''predicate'', ''type''] d);
                      obj = d_or (first_key [''object'', ''to''] d) in
                  if \<not> truthy subj \<or> \<not> truthy pred \<or> \<not> truthy obj
                  then Inl (ValueError ''relations require subject/predicate/object fields; aliases from/type/to are also accepted'')
                  else
                    res_bind (read_opt_str (d_get d ''graph_name'')) (\<lambda>name.
                    res_bind (read_updated (d_get d ''valid_from'')) (\<lambda>vf. res_bind (read_updated (d_get d ''valid_to'')) (\<lambda>vt.
                    res_bind (float_arg 1 (d_get d ''confidence'')) (\<lambda>conf.
                    res_bind (string_or ''living_memory_facade'' (d_get d ''source'')) (\<lambda>src.
                      Inr (name, \<lparr>rl_subject = py_str subj, rl_predicate = py_str pred, rl_object = py_str obj,
                        rl_memory_id = mid, rl_graph_name = [], rl_valid_from = vf, rl_valid_to = vt, rl_confidence = conf,
                        rl_source = Some src, rl_created_at = now\<rparr>))))))))
      | _ \<Rightarrow> Inl (ValueError ''relations must be objects''))"

definition capture_relation :: "tool_env \<Rightarrow> string list \<Rightarrow> py_value \<Rightarrow> py_dict call" where
  "capture_relation env ids item =
     act_bind (act_of (captured_relation (te_now env) ids item)) (\<lambda>(name, r).
     act_bind (on_vault (link_relation (te_now env) name ''living_memory_facade_relation'' (given_bounds (fields_of item)) r)) (\<lambda>(rel, a).
       act_return (relation_to_dict rel @ [(''knowledge_assertion_id'', VStr (as_id a))])))"

definition capture_relations :: "tool_env \<Rightarrow> py_value list \<Rightarrow> string list \<Rightarrow> py_dict list call" where
  "capture_relations env items ids = act_each (capture_relation env ids) (filter truthy items)"

text \<open>\<open>_auto_agentic_relations\<close>: what each role says of the first memory of another.\<close>

definition auto_relation :: "(string \<times> string list) list \<Rightarrow> string \<times> string \<times> string \<Rightarrow> py_value list" where
  "auto_relation roles rule =
     (case rule of (subj, pred, obj) \<Rightarrow>
        (case role_ids obj roles of
           [] \<Rightarrow> []
         | target # _ \<Rightarrow>
             if target = [] then []
             else map (\<lambda>i. VDict [(''subject'', VStr i), (''predicate'', VStr pred), (''object'', VStr target),
               (''memory_id'', VStr i), (''source'', VStr ''capture_v2_auto_relation'')]) (role_ids subj roles)))"

definition auto_relations :: "(string \<times> string list) list \<Rightarrow> py_value list" where
  "auto_relations roles = concat (map (auto_relation roles)
     [(''plan'', ''implements'', ''spec''), (''progress'', ''updates'', ''plan''), (''checkpoint'', ''verifies'', ''plan''),
      (''artifact'', ''evidences'', ''plan''), (''artifact'', ''evidences'', ''checkpoint''), (''risk'', ''threatens'', ''plan''),
      (''open_question'', ''blocks'', ''plan''), (''decision'', ''constrains'', ''plan''), (''lesson'', ''informs'', ''plan'')])"

section \<open>The report and the task's state\<close>

text \<open>\<open>_structured_memory_content\<close>: a memory that is not there is an empty dict.\<close>

definition structured_content :: "real \<Rightarrow> store \<Rightarrow> string \<Rightarrow> py_dict result" where
  "structured_content now s i =
     (case inspect now True i s of
        Inl (KeyError k) \<Rightarrow> Inr []
      | Inl err \<Rightarrow> Inl err
      | Inr m \<Rightarrow>
          (case concat (map (\<lambda>p. case content p of VDict d \<Rightarrow> if modality p = ''structured'' then [d] else [] | _ \<Rightarrow> [])
                  (modalities m)) of
             d # _ \<Rightarrow> Inr d
           | [] \<Rightarrow> Inr [(''text'', VStr (text_content m))]))"

definition evidence_value :: "py_dict \<Rightarrow> py_value" where
  "evidence_value d = or_chain [d_get d ''evidence_ids'', d_get d ''evidence''] (VList [])"

definition missing_evidence_count :: "real \<Rightarrow> store \<Rightarrow> (string \<times> string list) list \<Rightarrow> int result" where
  "missing_evidence_count now s roles =
     res_bind (res_each (structured_content now s)
         (concat (map (\<lambda>r. role_ids r roles) [''decision'', ''checkpoint'', ''artifact''])))
       (\<lambda>ds. Inr (int (length (filter (\<lambda>d. \<not> truthy (evidence_value d)) ds))))"

definition capture_report :: "real \<Rightarrow> store \<Rightarrow> capture_log \<Rightarrow> py_dict list \<Rightarrow> py_dict list \<Rightarrow> bool \<Rightarrow> py_dict result" where
  "capture_report now s lg manual auto_rels synced =
     res_bind (missing_evidence_count now s (cl_roles lg)) (\<lambda>missing.
       Inr [(''format'', VStr ''living-memoryv2/capture-v2-1''),
            (''captured_by_role'', VDict (map (\<lambda>r. (r, str_list (role_ids r (cl_roles lg)))) (sort (map fst (cl_roles lg))))),
            (''ignored'', VList (map VDict (cl_ignored lg))), (''auto_relations'', VList (map VDict auto_rels)),
            (''quality'', VDict [(''durable_items'', VInt (int (sum_list (map (length \<circ> snd) (cl_roles lg))))),
               (''proposed_items'', VInt (int (length (cl_proposals lg)))), (''ignored_items'', VInt (int (length (cl_ignored lg)))),
               (''missing_evidence'', VInt missing), (''relations_added'', VInt (int (length manual + length auto_rels))),
               (''task_state_synced'', VBool synced)])])"

definition string_items :: "py_value \<Rightarrow> string list" where
  "string_items v = filter (\<lambda>s. s \<noteq> []) (map py_str (as_list (Some v)))"

definition either :: "string \<Rightarrow> string \<Rightarrow> py_dict \<Rightarrow> py_value" where
  "either j k d = or_chain [d_get d j] (d_or (d_get d k))"

text \<open>\<open>re.sub("[^a-zA-Z0-9]+", "_", value).strip("_").lower()\<close>, with the prefix the checkpoints have.\<close>

definition strip_underscores :: "string \<Rightarrow> string" where
  "strip_underscores s = rev (dropWhile (\<lambda>c. c = CHR ''_'') (rev (dropWhile (\<lambda>c. c = CHR ''_'') s)))"

definition ascii_alnum :: "char \<Rightarrow> bool" where
  "ascii_alnum c = (let n = code c in 48 \<le> n \<and> n \<le> 57 \<or> 65 \<le> n \<and> n \<le> 90 \<or> 97 \<le> n \<and> n \<le> 122)"

definition checkpoint_name :: "string \<Rightarrow> string" where
  "checkpoint_name s =
     (let cleaned = py_lower (strip_underscores (py_join ''_'' (rx_split (Repeat True (\<lambda>c. \<not> ascii_alnum c) 1 None) s))) in
      if cleaned \<noteq> [] \<and> take 5 cleaned \<noteq> ''ckpt_'' then ''ckpt_'' @ take 40 cleaned else cleaned)"

definition first_content :: "real \<Rightarrow> store \<Rightarrow> (string \<times> string list) list \<Rightarrow> string \<Rightarrow> py_dict result" where
  "first_content now s roles r = (case role_ids r roles of [] \<Rightarrow> Inr [] | i # _ \<Rightarrow> structured_content now s i)"

definition decision_lines :: "real \<Rightarrow> store \<Rightarrow> (string \<times> string list) list \<Rightarrow> string list result" where
  "decision_lines now s roles =
     res_bind (res_each (structured_content now s) (role_ids ''decision'' roles)) (\<lambda>ds.
       Inr (take 6 (map (\<lambda>l. facade_one_line l 160) (filter (\<lambda>l. l \<noteq> [])
         (map (\<lambda>d. py_strip (py_str (or_chain [d_get d ''decision'', d_get d ''content'', d_get d ''text''] (VStr [])))) ds)))))"

definition capture_evidence_ids :: "real \<Rightarrow> store \<Rightarrow> (string \<times> string list) list \<Rightarrow> string list result" where
  "capture_evidence_ids now s roles =
     res_bind (res_each (structured_content now s) (concat (map snd roles))) (\<lambda>ds.
       Inr (take 12 (dedupe (concat (map (\<lambda>d. string_items (evidence_value d)) ds)))))"

definition task_patch :: "real \<Rightarrow> store \<Rightarrow> (string \<times> string list) list \<Rightarrow> py_dict result" where
  "task_patch now s roles =
     res_bind (first_content now s roles ''spec'') (\<lambda>spec. res_bind (first_content now s roles ''plan'') (\<lambda>plan.
     res_bind (first_content now s roles ''progress'') (\<lambda>progress.
     res_bind (first_content now s roles ''checkpoint'') (\<lambda>checkpoint.
     res_bind (decision_lines now s roles) (\<lambda>decisions. res_bind (capture_evidence_ids now s roles) (\<lambda>evidence.
     (let objective = py_str (or_chain [d_get plan ''title'', d_get plan ''goal'', d_get spec ''goal'', d_get spec ''title''] (VStr []));
          status = py_str (or_chain [d_get plan ''status'', d_get checkpoint ''status''] (VStr ''active''));
          ckpt = py_strip (py_str (or_chain [d_get checkpoint ''checkpoint_id'', d_get checkpoint ''id'',
            d_get checkpoint ''title''] (VStr [])))
      in Inr ([(''objective'', VStr objective), (''status'', VStr status),
               (''constraints'', str_list (string_items (d_or (d_get spec ''constraints'')))),
               (''current_plan'', str_list (string_items (either ''steps'' ''current_plan'' plan))),
               (''open_subtasks'', str_list (string_items (either ''open'' ''open_subtasks'' progress))),
               (''completed_subtasks'', str_list (string_items (either ''completed'' ''completed_subtasks'' progress))),
               (''irreversible_decisions'', str_list decisions), (''tool_evidence_ids'', str_list evidence)]
             @ (if ckpt \<noteq> [] then [(''checkpoint_id'', VStr (checkpoint_name ckpt))] else [])))))))))"

section \<open>The capture mode and the tool\<close>

definition patch_arg :: "py_dict \<Rightarrow> py_dict option result" where
  "patch_arg d =
     (let given = d_or (d_get d ''task_state_update'') in
      (case (if given = VNone then d_or (d_get d ''task_state'') else given) of
         VNone \<Rightarrow> Inr None
       | VDict p \<Rightarrow> Inr (Some p)
       | _ \<Rightarrow> Inl (ValueError ''task_state_update must be an object'')))"

definition capture_args_of :: "py_dict \<Rightarrow> capture_args result" where
  "capture_args_of d =
     res_bind (read_dict (d_get d ''scope'')) (\<lambda>sc. res_bind (read_strings (d_get d ''tags'')) (\<lambda>tgs.
     (let write_mode = clean_word ''remember'' (d_get d ''write_mode''); task = py_strip (or_str [] (d_get d ''task_id'')) in
      if write_mode \<notin> {''remember'', ''propose''} then Inl (ValueError ''write_mode must be remember or propose'')
      else res_bind (patch_arg d) (\<lambda>patch.
        if patch \<noteq> None \<and> task = [] then Inl (ValueError ''task_id is required when task_state_update is provided'')
        else Inr \<lparr>ca_args = d, ca_scope = sc, ca_tags = tgs, ca_propose = (write_mode = ''propose''), ca_task = task,
          ca_patch = patch\<rparr>))))"

definition capture_trace :: "tool_env \<Rightarrow> capture_args \<Rightarrow> py_value call" where
  "capture_trace env c =
     (let v = d_or (d_get (ca_args c) ''tool_trace'') in
      if \<not> truthy v then act_return VNone
      else act_bind (act_of (read_dict_item v)) (\<lambda>d.
        act_bind (record_tool_trace env (set_default ''scope'' (VDict (ca_scope c)) d)) (\<lambda>r. act_return (VDict r))))"

definition agentic_seen :: "capture_args \<Rightarrow> bool" where
  "agentic_seen c = (spec_items (ca_args c) agentic_specs \<noteq> [])"

definition capture_patch :: "tool_env \<Rightarrow> capture_args \<Rightarrow> capture_log \<Rightarrow> py_dict option call" where
  "capture_patch env c lg t =
     (t, case ca_patch c of
           Some p \<Rightarrow> Inr (Some p)
         | None \<Rightarrow> if ca_task c \<noteq> [] \<and> agentic_seen c
                   then map_sum id Some (task_patch (te_now env) (vt_store (tl_vault t)) (cl_roles lg)) else Inr None)"

definition sync_task :: "tool_env \<Rightarrow> capture_args \<Rightarrow> py_dict option \<Rightarrow> py_dict option call" where
  "sync_task env c patch =
     (case patch of
        None \<Rightarrow> act_return None
      | Some p \<Rightarrow> act_bind (on_vault (vault_update_task (te_now env) (te_now env) (ca_task c) (ca_scope c) p)) (\<lambda>st.
          act_return (Some (task_compact 6 st))))"

definition report_wanted :: "capture_args \<Rightarrow> bool" where
  "report_wanted c = (agentic_seen c
     \<or> clean_word [] (d_get (ca_args c) ''capture_type'') \<in> {''agentic_work'', ''work'', ''v2''})"

definition capture_response ::
  "capture_args \<Rightarrow> capture_log \<Rightarrow> py_value \<Rightarrow> py_dict list \<Rightarrow> py_dict \<Rightarrow> py_dict option \<Rightarrow> py_dict" where
  "capture_response c lg trace rels report task =
     [(''format'', VStr ''living-memoryv2/facade-1''), (''mode'', VStr ''capture''),
      (''captured_memory_ids'', VList (map (\<lambda>d. d_or (d_get d ''memory_id'')) (cl_captured lg))),
      (''captured'', VList (map VDict (cl_captured lg))), (''proposals'', VList (map VDict (cl_proposals lg))),
      (''relations_added'', VList (map VDict rels)), (''tool_trace'', trace),
      (''tools_used_internal'', str_list ([''vault'', ''graph'', ''tool_curriculum'']
         @ (if report_wanted c then [''capture_v2'', ''knowledge_graph''] else [])
         @ (if task \<noteq> None then [''task_state''] else [])))]
     @ (if report_wanted c then [(''capture_v2'', VDict report)] else [])
     @ (case task of Some d \<Rightarrow> [(''task_state'', VDict d)] | None \<Rightarrow> [])"

definition captured_ids :: "capture_log \<Rightarrow> string list" where
  "captured_ids lg = map (\<lambda>d. py_str (d_or (d_get d ''memory_id''))) (cl_captured lg)"

definition capture_rest :: "tool_env \<Rightarrow> capture_args \<Rightarrow> capture_log \<Rightarrow> py_dict call" where
  "capture_rest env c lg =
     act_bind (capture_trace env c) (\<lambda>trace.
     act_bind (capture_relations env (as_list (d_get (ca_args c) ''relations'')) (captured_ids lg)) (\<lambda>manual.
     act_bind (capture_relations env (auto_relations (cl_roles lg)) []) (\<lambda>auto_rels.
     act_bind (capture_patch env c lg) (\<lambda>patch.
     act_bind (sync_task env c patch) (\<lambda>task.
     act_bind (\<lambda>t. (t, capture_report (te_now env) (vt_store (tl_vault t)) lg manual auto_rels (task \<noteq> None))) (\<lambda>report.
       act_return (capture_response c lg trace (manual @ auto_rels) report task)))))))"

definition living_memory_capture :: "tool_env \<Rightarrow> py_dict \<Rightarrow> py_dict call" where
  "living_memory_capture env d =
     act_bind (act_of (capture_args_of d)) (\<lambda>c. act_bind (capture_items env c) (capture_rest env c))"

text \<open>The tool \<open>living_memory\<close>.\<close>

definition living_memory :: "tool_env \<Rightarrow> py_dict \<Rightarrow> tools \<Rightarrow> (tools \<times> py_dict result) option" where
  "living_memory env d t =
     (let mode = clean_word ''work'' (d_get d ''mode'') in
      if mode \<in> {''work'', ''recall'', ''context''} then living_memory_work (te_recall env) d t
      else if mode \<in> {''capture'', ''write'', ''note'', ''annotate''} then Some (living_memory_capture env d t)
      else Some (t, Inl (ValueError (''unknown living_memory mode: '' @ mode))))"

section \<open>What a capture preserves\<close>

lemma preserves_fold [preserved]:
  "(\<And>x b. x \<in> set xs \<Longrightarrow> preserves I (f x b)) \<Longrightarrow> preserves I (act_fold f xs b)"
proof (induction xs arbitrary: b)
  case (Cons x xs)
  have "preserves I (act_bind (f x b) (act_fold f xs))" using Cons by (intro preserves_bind) auto
  then show ?case by (simp add: preserves_def)
qed (simp add: preserves_def act_return_def)

lemma preserves_option [preserved]:
  "preserves I m \<Longrightarrow> (\<And>a. preserves I (f a)) \<Longrightarrow> preserves I (case x of None \<Rightarrow> m | Some a \<Rightarrow> f a)"
  by (cases x) simp_all

lemma preserves_arg: "(\<And>a. x = Inr a \<Longrightarrow> preserves I (f a)) \<Longrightarrow> preserves I (act_bind (act_of x) f)"
  by (cases x) (simp_all add: preserves_def act_bind_def act_of_def)

lemma preserves_raise: "preserves I (act_bind (act_of (Inl err)) f)"
  by (rule preserves_arg) simp

text \<open>It is enough to look at the four steps that write.\<close>

lemma capture_preserves:
  assumes item: "\<And>c spec item. capture_args_of d = Inr c \<Longrightarrow> preserves I (capture_item env c spec item)"
    and traced: "\<And>c. capture_args_of d = Inr c \<Longrightarrow> preserves I (capture_trace env c)"
    and linked: "\<And>name given r. preserves I (on_vault (link_relation (te_now env) name ''living_memory_facade_relation'' given r))"
    and synced: "\<And>i sc p. preserves I (on_vault (vault_update_task (te_now env) (te_now env) i sc p))"
  shows "preserves I (living_memory_capture env d)"
  unfolding living_memory_capture_def
proof (rule preserves_arg)
  fix c assume c: "capture_args_of d = Inr c"
  have noted: "preserves I (capture_note env c si lg)" for si lg
    unfolding capture_note_def by (intro preserved item [OF c])
  have agentic: "preserves I (capture_agentic env c si lg)" for si lg
    unfolding capture_agentic_def by (intro preserved noted)
  have items: "preserves I (capture_items env c)"
    unfolding capture_items_def by (intro preserved noted agentic)
  have rels: "preserves I (capture_relations env its ids)" for its ids
    unfolding capture_relations_def capture_relation_def by (intro preserved linked)
  have task: "preserves I (sync_task env c patch)" for patch
    unfolding sync_task_def by (intro preserved synced)
  have patch: "preserves I (capture_patch env c lg)" for lg
    by (simp add: preserves_def capture_patch_def)
  show "preserves I (act_bind (capture_items env c) (capture_rest env c))"
    unfolding capture_rest_def by (intro preserved items rels task traced [OF c] patch)
qed

lemma update_task_ok: "t0 \<noteq> 0 \<Longrightarrow> t1 \<noteq> 0 \<Longrightarrow> preserves vault_ok (vault_update_task t0 t1 i sc p)"
  unfolding preserves_def using vault_step_ok [OF update_task_step] by blast

lemma propose_item_ok: "preserves (tools_ok nf) (propose_item env d e)"
  unfolding propose_item_def [abs_def] by (rule preserves_at) (intro preserved)

lemma capture_ok: "te_now env \<noteq> 0 \<Longrightarrow> preserves (tools_ok nf) (living_memory_capture env d)"
proof (rule capture_preserves)
  show "preserves (tools_ok nf) (capture_item env c spec item)" for c spec item
    unfolding capture_item_def file_item_def by (intro preserved propose_item_ok)
  show "preserves (tools_ok nf) (capture_trace env c)" for c
    unfolding capture_trace_def Let_def by (intro preserved)
qed (intro preserved update_task_ok, assumption?)+

text \<open>The work mode has the invariant from its recall.\<close>

lemma work_changes: 
  assumes "living_memory_work renv d t = Some (t', x)"
  shows "t' = t \<or> (\<exists>a. t' = fst (tools_recall renv a t))"
  using assms unfolding living_memory_work_def
  by (auto split: sum.splits prod.splits) (metis fst_conv)+

lemma living_memory_work_only: "preserves_run (engram_only (re_nf renv) rest) (living_memory_work renv d)"
  unfolding preserves_run_def using work_changes recall_engram_only by (metis preserves_def)

lemma preserves_run_if:
  "preserves_run I m \<Longrightarrow> preserves_run I m' \<Longrightarrow> preserves_run I (\<lambda>t. if b then m t else m' t)"
  by (cases b) simp_all

lemma living_memory_ok:
  assumes "te_now env \<noteq> 0"
  shows "preserves_run (tools_ok (re_nf (te_recall env))) (living_memory env d)"
proof -
  have "preserves_run (tools_ok (re_nf (te_recall env))) (living_memory_work (te_recall env) d)"
    unfolding preserves_run_def using work_changes recall_ok by (metis preserves_def)
  moreover have "preserves_run (tools_ok (re_nf (te_recall env))) (\<lambda>t. Some (living_memory_capture env d t))"
    by (intro preserves_once capture_ok assms)
  moreover have "preserves_run (tools_ok (re_nf (te_recall env))) (\<lambda>t. Some (t, Inl err))" for err :: py_error
    by (simp add: preserves_run_def)
  ultimately show ?thesis
    unfolding living_memory_def [abs_def] Let_def by (intro preserves_run_if)
qed

lemma living_memory_work_ends: "living_memory_work renv d t \<noteq> None"
  using sections_assemble_ends by (simp add: living_memory_work_def split: sum.split prod.split)

lemma living_memory_ends: "living_memory env d t \<noteq> None"
  unfolding living_memory_def Let_def by (simp add: living_memory_work_ends del: not_None_eq)

section \<open>The mode \<open>propose\<close>\<close>

definition filed :: "vault \<Rightarrow> store \<times> ledger \<times> box_info list \<times> box_memory list" where
  "filed v = (vt_store v, vt_ledger v, vt_boxes v, vt_box_memories v)"

text \<open>Nothing is filed, and every new proposal waits for its review.\<close>

definition only_proposed :: "tools \<Rightarrow> tools \<Rightarrow> bool" where
  "only_proposed t t' \<longleftrightarrow> filed (tl_vault t') = filed (tl_vault t) \<and> tl_engram t' = tl_engram t
     \<and> (\<exists>new. tl_proposals t' = tl_proposals t @ new \<and> list_all (\<lambda>p. pr_status p = ''pending'' \<and> pr_memory_id p = None) new)"

lemma on_vault_filed: "preserves (\<lambda>v. filed v = f) m \<Longrightarrow> filed (tl_vault t) = f \<Longrightarrow> preserves (only_proposed t) (on_vault m)"
  unfolding preserves_def [of "only_proposed t"] by (auto simp: on_vault_def only_proposed_def split: prod.split dest: preservesD)

lemma link_filed: "preserves (\<lambda>v. filed v = f) (link_relation now name why given r)"
  unfolding link_relation_def
  by (intro preserved) (simp_all add: preserves_def on_graph_def on_knowledge_def filed_def split: prod.split)

lemma sync_filed: "preserves (\<lambda>v. filed v = f) (vault_update_task t0 t1 i sc p)"
  by (simp add: preserves_def vault_update_task_def filed_def split: prod.split)

lemma only_proposed_refl: "only_proposed t t"
  by (simp add: only_proposed_def)

lemma propose_item_only: "preserves (only_proposed t) (propose_item env d e)"
  unfolding preserves_def
proof safe
  fix u assume u: "only_proposed t u"
  let ?k = "or_str ''facade_capture'' (d_get d ''proposal_type'')" and ?w = "or_str ''final interaction capture'' (d_get d ''rationale'')"
    and ?by = "or_str ''living_memory'' (d_get d ''created_by'')" and ?id = "te_uid env (length (tl_proposals u))"
  obtain rows x where x: "propose_memory ?id (te_now env) e ?k ?w ?by (tl_proposals u) = (rows, x)" by fastforce
  from propose_memory_cases [OF x]
  have "rows = tl_proposals u \<or> rows = tl_proposals u @ [with_candidate (canon_dict (envelope_to_dict e)) (new_proposal ?id (te_now env) e ?k ?w ?by)]"
    by blast
  moreover have "fst (propose_item env d e u) = u\<lparr>tl_proposals := rows\<rparr>"
    by (cases x) (simp_all add: propose_item_def on_proposals_def act_bind_def act_return_def x)
  ultimately show "only_proposed t (fst (propose_item env d e u))"
    using u by (auto simp: only_proposed_def with_candidate_def new_proposal_def)
qed

lemma capture_item_only: "ca_propose c \<Longrightarrow> preserves (only_proposed t) (capture_item env c spec item)"
  unfolding capture_item_def by (simp, intro preserved propose_item_only)

lemma on_curriculum_only [preserved]: "preserves (only_proposed t) (on_curriculum m)"
  by (simp add: preserves_def on_curriculum_def only_proposed_def split: prod.split)

lemma capture_trace_only:
  assumes "truthy (d_or (d_get (fields_of (d_or (d_get (ca_args c) ''tool_trace''))) ''persist_lessons'')) = False"
  shows "preserves (only_proposed t) (capture_trace env c)"
proof -
  have report: "preserves (only_proposed t) (trace_report env d lessons)" if "\<not> truthy (d_or (d_get d ''persist_lessons''))" for d lessons
    unfolding trace_report_def using that by (simp, intro preserved)
  have rec: "preserves (only_proposed t) (record_tool_trace env d)" if "\<not> truthy (d_or (d_get d ''persist_lessons''))" for d
    unfolding record_tool_trace_def
    by (intro preserved preserves_at [where m = "\<lambda>u. trace_report env d (lesson_memories (tl_curriculum u) 1)"] report [OF that])
  have keep: "d_get (set_default ''scope'' v d) ''persist_lessons'' = d_get d ''persist_lessons''" for v d
    by (simp add: set_default_def map_add_def split: option.split)
  show ?thesis
  proof (cases "d_or (d_get (ca_args c) ''tool_trace'')")
    case (VDict d)
    then have d: "\<not> truthy (d_or (d_get d ''persist_lessons''))" using assms by (simp add: fields_of_def)
    have "preserves (only_proposed t) (record_tool_trace env (set_default ''scope'' v d))" for v
      by (rule rec) (simp add: keep d)
    then have "preserves (only_proposed t) (act_bind (act_of (Inr d)) (\<lambda>d.
        act_bind (record_tool_trace env (set_default ''scope'' (VDict (ca_scope c)) d)) (\<lambda>r. act_return (VDict r))))"
      by (intro preserves_arg preserves_bind preserves_pure) simp
    then show ?thesis using VDict by (simp add: capture_trace_def Let_def read_dict_item_def preserves_pure)
  qed (simp_all add: capture_trace_def Let_def read_dict_item_def preserves_pure preserves_raise)
qed

text \<open>
  C9: In the mode \<open>propose\<close>, with no lessons of a tool trace to persist, a capture remembers nothing:
  whether it returns or raises half way, the stored memories, their log and blobs, the facts, the boxes and the engram
  cache are as they were, and the table of proposals only grows, by proposals that wait for their review and name no
  memory. (What the call gives beside items is not proposed: relations, the task's state and the tool trace are written
  at once in this mode too.)
\<close>

theorem capture_only_proposes:
  assumes "clean_word ''remember'' (d_get d ''write_mode'') = ''propose''"
    and "truthy (d_or (d_get (fields_of (d_or (d_get d ''tool_trace''))) ''persist_lessons'')) = False"
    and "living_memory_capture env d t = (t', x)"
  shows "filed (tl_vault t') = filed (tl_vault t) \<and> tl_engram t' = tl_engram t
    \<and> (\<exists>new. tl_proposals t' = tl_proposals t @ new \<and> list_all (\<lambda>p. pr_status p = ''pending'' \<and> pr_memory_id p = None) new)"
proof -
  have c: "ca_propose c \<and> ca_args c = d" if "capture_args_of d = Inr c" for c
    using that assms(1) by (auto simp: capture_args_of_def Let_def res_bind_eq_Inr split: if_splits sum.splits)
  have "preserves (only_proposed t) (living_memory_capture env d)"
    by (rule capture_preserves)
      (use c assms(2) in \<open>auto intro: capture_item_only capture_trace_only on_vault_filed link_filed sync_filed\<close>)
  from preservesD [OF this only_proposed_refl assms(3)] show ?thesis by (simp add: only_proposed_def)
qed

section \<open>Concrete calls\<close>

definition demo_tool_env :: tool_env where
  "demo_tool_env = \<lparr>te_recall = demo_env, te_zone = (\<lambda>t. 0), te_uid = show_nat, te_root = ''/vault'', te_elapsed = 0,
     te_compact = [], te_error_text = (\<lambda>err. ''error'')\<rparr>"

lemma capture_only_proposes_witness:
  "\<exists>t' x new. living_memory_capture demo_tool_env [(''write_mode'', VStr ''propose''), (''notes'', VList [VStr ''hello''])] demo_tools = (t', x)
    \<and> filed (tl_vault t') = filed (tl_vault demo_tools) \<and> tl_proposals t' = tl_proposals demo_tools @ new"
proof -
  let ?d = "[(''write_mode'', VStr ''propose''), (''notes'', VList [VStr ''hello''])]"
  have w: "clean_word ''remember'' (d_get ?d ''write_mode'') = ''propose''" by code_simp
  have l: "truthy (d_or (d_get (fields_of (d_or (d_get ?d ''tool_trace''))) ''persist_lessons'')) = False"
    by (simp add: d_or_def fields_of_def)
  obtain t' x where t': "living_memory_capture demo_tool_env ?d demo_tools = (t', x)" by fastforce
  from capture_only_proposes [OF w l t'] t' show ?thesis by blast
qed

text \<open>An empty object is not taken for an empty item: it is captured as a text.\<close>

lemma empty_object_captured: "agentic_content ''plan'' (VDict []) = Some [(''content'', VStr ''{}'')]"
  by (simp add: agentic_content_def fields_of_def py_str_def)

end
