(* ===== verification/Descriptors.thy ===== *)
theory Descriptors
  imports Capture
begin

text \<open>
  What \<open>tools/list\<close> tells a client of the tools (\<open>tool_descriptors\<close> and the schema helpers of \<open>mcp_server.py\<close>): the name,
  the description and the JSON schema of each, in the order of the source; and the table of the methods that run them.
\<close>

section \<open>Schemas\<close>

definition string_schema :: "string \<Rightarrow> py_value" where
  "string_schema s = VDict [(''type'', VStr ''string''), (''description'', VStr s)]"

definition number_schema :: "string \<Rightarrow> py_value" where
  "number_schema s = VDict [(''type'', VStr ''number''), (''description'', VStr s)]"

definition integer_schema :: "string \<Rightarrow> py_value" where
  "integer_schema s = VDict [(''type'', VStr ''integer''), (''description'', VStr s)]"

definition boolean_schema :: "string \<Rightarrow> py_value" where
  "boolean_schema s = VDict [(''type'', VStr ''boolean''), (''description'', VStr s)]"

definition object_schema :: "string \<Rightarrow> py_value" where
  "object_schema s = VDict [(''type'', VStr ''object''), (''description'', VStr s), (''additionalProperties'', VBool True)]"

definition array_schema :: "string \<Rightarrow> string \<Rightarrow> py_value" where
  "array_schema s item_type = VDict [(''type'', VStr ''array''), (''description'', VStr s),
     (''items'', VDict ((''type'', VStr item_type) #
        (if item_type = ''object'' then [(''additionalProperties'', VBool True)] else [])))]"

definition text_or_object_array_schema :: "string \<Rightarrow> py_value" where
  "text_or_object_array_schema s = VDict [(''type'', VStr ''array''), (''description'', VStr s),
     (''items'', VDict [(''anyOf'', VList [VDict [(''type'', VStr ''string'')],
        VDict [(''type'', VStr ''object''), (''additionalProperties'', VBool True)]])])]"

definition descriptor :: "string \<Rightarrow> string \<Rightarrow> py_dict \<Rightarrow> string list \<Rightarrow> py_dict" where
  "descriptor name description properties req =
     [(''name'', VStr name), (''description'', VStr description),
      (''inputSchema'', VDict [(''type'', VStr ''object''), (''properties'', VDict properties), (''required'', str_list req),
         (''additionalProperties'', VBool True)])]"

definition common_memory_schema :: "py_dict \<Rightarrow> py_dict" where
  "common_memory_schema extra = d_update
     [(''scope'', object_schema ''Scope metadata.''),
      (''memory_type'', string_schema ''episodic, semantic, procedural, decision, artifact, etc.''),
      (''tags'', array_schema ''Memory tags.'' ''string''), (''entities'', array_schema ''Named entities.'' ''string''),
      (''relations'', array_schema ''Graph relation dicts.'' ''object''), (''importance'', number_schema ''0..1 importance.''),
      (''confidence'', number_schema ''0..1 confidence.''),
      (''sensitivity'', string_schema ''normal, sensitive, confidential, restricted, credential, or pii.''),
      (''provenance'', object_schema ''Source/provenance metadata.''), (''metadata'', object_schema ''Additional metadata.''),
      (''box_id'', string_schema ''Optional session box id.''),
      (''extract_facts'', boolean_schema ''Optionally run deterministic fact extraction for this write. Default false.'')]
     extra"

section \<open>The descriptors\<close>

definition facade_descriptors :: "py_dict list" where
  "facade_descriptors =
    [descriptor ''living_memory''
       ''One-call facade for work context retrieval or final interaction capture. Use mode=work before/while acting; use mode=capture at the end only when there are useful notes, decisions, lessons, or relations to persist.''
       [(''mode'', string_schema ''work/recall/context for retrieval, or capture/write/note for final annotations. Default work.''),
         (''query'', string_schema ''Task/query for work mode.''), (''task'', string_schema ''Alias for query.''),
         (''scope'', object_schema ''Scope filter or metadata, e.g. project_id/user_id.''),
         (''tags'', array_schema ''Optional required tags for retrieval or tags for capture.'' ''string''),
         (''top_k'', integer_schema ''Maximum recalled memories before facade assembly.''),
         (''max_tokens'', integer_schema ''SIF context token budget.''),
         (''budget'', integer_schema ''Alias for max_tokens.''),
         (''at_time'', number_schema ''Optional temporal graph timestamp.''),
         (''graph_hops'', integer_schema ''Graph walk depth. Default 1.''),
         (''notes'', text_or_object_array_schema ''Capture mode: short notes to persist.''),
         (''decisions'', text_or_object_array_schema ''Capture mode: decisions to persist.''),
         (''lessons'', text_or_object_array_schema ''Capture mode: procedural lessons to persist.''),
         (''capture_type'', string_schema ''Optional capture contract, e.g. agentic_work.''),
         (''spec'', text_or_object_array_schema ''Capture v2: durable spec objects.''),
         (''plan'', text_or_object_array_schema ''Capture v2: durable implementation/execution plans.''),
         (''progress'', text_or_object_array_schema ''Capture v2: progress updates.''),
         (''checkpoint'', text_or_object_array_schema ''Capture v2: verified checkpoints.''),
         (''artifacts'', text_or_object_array_schema ''Capture v2: files, reports, tests, and evidence artifacts.''),
         (''risks'', text_or_object_array_schema ''Capture v2: risks and mitigations.''),
         (''open_questions'', text_or_object_array_schema ''Capture v2: unresolved questions that should not become facts yet.''),
         (''relations'', array_schema ''Capture mode: temporal graph relations to add.'' ''object''),
         (''modalities'', array_schema ''Capture mode: optional modality refs for notes/decisions/lessons.'' ''object''),
         (''tool_trace'', object_schema ''Capture mode: optional tool-use trace for procedural lesson extraction.''),
         (''write_mode'', string_schema ''remember or propose. Default remember.''),
         (''box_id'', string_schema ''Optional session box id for captured memories.''),
         (''task_id'', string_schema ''Optional task/checkpoint id for explicit short task state.''),
         (''task_state_update'', object_schema ''Capture mode: explicit TaskState patch for objective, plan, subtasks, decisions, evidence, and checkpoint.'')]
       []]"

definition context_descriptors :: "py_dict list" where
  "context_descriptors =
    [descriptor ''recall_context''
       ''Return bounded JSON evidence packets for a query.''
       [(''query'', string_schema ''User/task query to retrieve memory for.''),
         (''scope'', object_schema ''Scope filter, e.g. project_id/user_id.''),
         (''tags'', array_schema ''Optional required tags.'' ''string''),
         (''top_k'', integer_schema ''Maximum recalled memories before context assembly.''),
         (''max_tokens'', integer_schema ''Hard output token budget for snippets.''),
         (''at_time'', number_schema ''Optional temporal graph timestamp.''),
         (''graph_hops'', integer_schema ''Graph walk depth. Default 1.'')]
       [''query''],
     descriptor ''recall_sif''
       ''Return a compact SIF-style memory frame for direct prompt injection with inspectable memory ids.''
       [(''query'', string_schema ''User/task query to retrieve memory for.''),
         (''scope'', object_schema ''Scope filter, e.g. project_id/user_id.''),
         (''tags'', array_schema ''Optional required tags.'' ''string''),
         (''top_k'', integer_schema ''Maximum recalled memories before SIF assembly.''),
         (''max_tokens'', integer_schema ''Hard output token budget for the SIF text.''),
         (''at_time'', number_schema ''Optional temporal graph timestamp.''),
         (''graph_hops'', integer_schema ''Graph walk depth. Default 1.'')]
       [''query''],
     descriptor ''inspect_memory''
       ''Return one full memory by id.''
       [(''memory_id'', string_schema ''Memory id.'')]
       [''memory_id'']]"

definition writing_descriptors :: "py_dict list" where
  "writing_descriptors =
    [descriptor ''remember_text''
       ''Persist a canonical text memory.''
       (common_memory_schema
        [(''content'', string_schema ''Text content to remember.'')])
       [''content''],
     descriptor ''remember_structured''
       ''Persist a canonical structured JSON memory.''
       (common_memory_schema
        [(''content'', object_schema ''Structured JSON content.'')])
       [''content''],
     descriptor ''remember_file_ref''
       ''Persist a file reference without copying file content.''
       (common_memory_schema
        [(''uri'', string_schema ''File or external URI.''),
         (''mime_type'', string_schema ''MIME type, e.g. text/markdown.''),
         (''modality'', string_schema ''Optional modality, e.g. image, audio, video, document, file.'')])
       [''uri'', ''mime_type''],
     descriptor ''remember_markdown''
       ''Persist Markdown as heading-aware artifact_section memories.''
       (common_memory_schema
        [(''content'', string_schema ''Markdown content.''), (''source_path'', string_schema ''Source file path or URI.''),
         (''max_section_chars'', integer_schema ''Maximum chars per section/chunk.'')])
       [''content'', ''source_path''],
     descriptor ''ingest_connector_record''
       ''Normalize a real-world connector record into a canonical MemoryEnvelope and optionally extract deterministic facts.''
       [(''connector_type'', string_schema ''chat, doc, ticket, repo, email, or business_record.''),
         (''external_id'', string_schema ''Stable source record id.''),
         (''title'', string_schema ''Record title or subject.''), (''body'', string_schema ''Record body/content.''),
         (''source_uri'', string_schema ''Source URI or URL.''),
         (''updated_at'', number_schema ''Optional source update timestamp.''),
         (''metadata'', object_schema ''Connector-specific metadata.''),
         (''scope'', object_schema ''Scope filter or metadata, e.g. project_id/user_id.''),
         (''tags'', array_schema ''Optional tags.'' ''string''),
         (''extract_facts'', boolean_schema ''Whether to run deterministic fact extraction. Default true.''),
         (''box_id'', string_schema ''Optional session box id.'')]
       [''connector_type'', ''external_id'']]"

definition fact_descriptors :: "py_dict list" where
  "fact_descriptors =
    [descriptor ''consolidate_memory''
       ''Run conservative background consolidation into pending derived-fact proposals without writing memories directly.''
       [(''scope'', object_schema ''Scope filter, e.g. project_id/user_id.''),
         (''limit'', integer_schema ''Maximum recent memories to scan.'')]
       [],
     descriptor ''fact_status''
       ''Inspect deterministic facts and supersession state by memory id or scope.''
       [(''memory_id'', string_schema ''Optional memory id.''), (''scope'', object_schema ''Optional scope filter.''),
         (''status'', string_schema ''Optional fact status, e.g. active or superseded.''),
         (''limit'', integer_schema ''Maximum facts to return.'')]
       [],
     descriptor ''recall''
       ''Return recalled memory metadata and short text without assembling context.''
       [(''query'', string_schema ''Query.''), (''scope'', object_schema ''Scope filter.''),
         (''tags'', array_schema ''Required tags.'' ''string''), (''top_k'', integer_schema ''Maximum results.''),
         (''at_time'', number_schema ''Temporal graph timestamp.''), (''graph_hops'', integer_schema ''Graph depth.'')]
       [''query'']]"

definition vault_descriptors :: "py_dict list" where
  "vault_descriptors =
    [descriptor ''open_box''
       ''Open a session box for scoped memories.''
       [(''name'', string_schema ''Box name.''), (''scope'', object_schema ''Box scope.'')]
       [''name''],
     descriptor ''close_box''
       ''Close a session box.''
       [(''box_id'', string_schema ''Box id.'')]
       [''box_id''],
     descriptor ''box_info''
       ''Return metadata for a session box.''
       [(''box_id'', string_schema ''Box id.'')]
       [''box_id''],
     descriptor ''box_memories''
       ''Return memories recorded in a session box.''
       [(''box_id'', string_schema ''Box id.'')]
       [''box_id''],
     descriptor ''verify_integrity''
       ''Verify canonical JSONL/blob integrity.''
       []
       [],
     descriptor ''rebuild_indexes''
       ''Rebuild SQL/FTS/Mobius/graph indexes from canonical log.''
       []
       [],
     descriptor ''memory_stats''
       ''Return lightweight vault/store/cache statistics.''
       []
       []]"

definition review_descriptors :: "py_dict list" where
  "review_descriptors =
    [descriptor ''propose_text_memory''
       ''Create a pending text memory proposal.''
       (common_memory_schema
        [(''content'', string_schema ''Text content.''), (''proposal_type'', string_schema ''Proposal type.''),
         (''rationale'', string_schema ''Why this should be remembered.''),
         (''created_by'', string_schema ''Agent/user name.'')])
       [''content'', ''proposal_type'', ''rationale'', ''created_by''],
     descriptor ''approve_proposal''
       ''Approve a pending memory proposal and write it to the vault.''
       [(''proposal_id'', string_schema ''Proposal id.''), (''reviewer'', string_schema ''Reviewer name.'')]
       [''proposal_id'', ''reviewer''],
     descriptor ''reject_proposal''
       ''Reject a pending memory proposal.''
       [(''proposal_id'', string_schema ''Proposal id.''), (''reviewer'', string_schema ''Reviewer name.''),
         (''reason'', string_schema ''Rejection reason.'')]
       [''proposal_id'', ''reviewer'', ''reason''],
     descriptor ''get_proposal''
       ''Inspect a memory proposal.''
       [(''proposal_id'', string_schema ''Proposal id.'')]
       [''proposal_id'']]"

definition graph_descriptors :: "py_dict list" where
  "graph_descriptors =
    [descriptor ''add_relation''
       ''Add a named graph relation.''
       [(''subject'', string_schema ''Subject.''), (''predicate'', string_schema ''Predicate.''),
         (''object'', string_schema ''Object.''), (''memory_id'', string_schema ''Memory id.''),
         (''graph_name'', string_schema ''semantic, temporal, multimodal, procedural, provenance, topology, facts, conflict, knowledge, or default.''),
         (''valid_from'', number_schema ''Start timestamp.''), (''valid_to'', number_schema ''End timestamp.''),
         (''confidence'', number_schema ''0..1 confidence.''), (''source'', string_schema ''Source.'')]
       [''subject'', ''predicate'', ''object'', ''memory_id''],
     descriptor ''query_graph''
       ''Query named graph relations.''
       [(''subject'', string_schema ''Subject.''), (''predicate'', string_schema ''Predicate.''),
         (''object'', string_schema ''Object.''), (''graph_name'', string_schema ''Optional graph name.''),
         (''at_time'', number_schema ''Timestamp.''), (''limit'', integer_schema ''Max rows.'')]
       [],
     descriptor ''query_knowledge''
       ''Query Temporal Knowledge Graph assertions.''
       [(''subject'', string_schema ''Subject.''), (''predicate'', string_schema ''Predicate.''),
         (''object'', string_schema ''Object.''), (''scope'', object_schema ''Scope filter.''),
         (''status'', string_schema ''Assertion status. Default active.''), (''at_time'', number_schema ''Timestamp.''),
         (''memory_ids'', array_schema ''Memory ids.'' ''string''), (''limit'', integer_schema ''Max rows.'')]
       []]"

definition curriculum_descriptors :: "py_dict list" where
  "curriculum_descriptors =
    [descriptor ''engram_stats''
       ''Return hot-query Engram cache stats.''
       []
       [],
     descriptor ''register_tool''
       ''Register a tool spec for Confucius-style tool curriculum.''
       [(''name'', string_schema ''Tool name.''), (''task'', string_schema ''Task/category.''),
         (''description'', string_schema ''Description.''), (''parameters'', array_schema ''Parameter names.'' ''string''),
         (''difficulty'', integer_schema ''Difficulty >= 1.''), (''tags'', array_schema ''Tags.'' ''string'')]
       [''name'', ''task'', ''description''],
     descriptor ''select_tools''
       ''Select tools by warmup/in_category/cross_category curriculum.''
       [(''query'', string_schema ''Task query.''), (''task'', string_schema ''Task/category.''),
         (''stage'', string_schema ''warmup, in_category, or cross_category.''),
         (''top_k'', integer_schema ''Max tools.''), (''distractors'', integer_schema ''Distractors to include.'')]
       [''query''],
     descriptor ''record_tool_trace''
       ''Record tool-use success/failure and optionally persist lessons.''
       [(''query'', string_schema ''Original query.''),
         (''selected_tools'', array_schema ''Selected tool names.'' ''string''),
         (''success'', boolean_schema ''Whether tool use succeeded.''), (''stage'', string_schema ''Curriculum stage.''),
         (''expected_tools'', array_schema ''Expected tool names.'' ''string''),
         (''error_type'', string_schema ''Error class.''), (''feedback'', string_schema ''Natural language feedback.''),
         (''persist_lessons'', boolean_schema ''Persist generated lessons as procedural memories.''),
         (''scope'', object_schema ''Scope for persisted lessons.'')]
       [''query'', ''selected_tools'', ''success'', ''stage''],
     descriptor ''tool_lessons''
       ''Return procedural lessons from recorded tool failures.''
       [(''min_failures'', integer_schema ''Minimum failures per tool.'')]
       []]"

definition all_descriptors :: "py_dict list" where
  "all_descriptors = facade_descriptors @ context_descriptors @ writing_descriptors @ fact_descriptors @
     vault_descriptors @ review_descriptors @ graph_descriptors @ curriculum_descriptors"

text \<open>\<open>_compact_tool_descriptors_enabled\<close> on the value of \<open>LIVING_MEMORY_COMPACT_TOOLS\<close>, empty if it is not set.\<close>

definition compact_enabled :: "string \<Rightarrow> bool" where
  "compact_enabled flag \<longleftrightarrow> py_lower (py_strip flag) \<in> {''1'', ''true'', ''yes'', ''on''}"

definition compact_names :: "string list" where
  "compact_names = [''living_memory'', ''inspect_memory'', ''memory_stats'']"

definition tool_descriptors :: "string \<Rightarrow> py_dict list" where
  "tool_descriptors flag =
     (if compact_enabled flag then filter (\<lambda>d. d_or (d_get d ''name'') \<in> VStr ` set compact_names) all_descriptors
      else all_descriptors)"

section \<open>The methods\<close>

type_synonym 's handler = "py_dict \<Rightarrow> 's \<Rightarrow> ('s \<times> py_dict result) option"

definition once :: "'a call \<Rightarrow> tools \<Rightarrow> (tools \<times> 'a result) option" where
  "once m t = Some (m t)"

definition tool_table :: "tool_env \<Rightarrow> (string \<times> tools handler) list" where
  "tool_table env =
     [(''living_memory'', living_memory env),
      (''remember_text'', once \<circ> remember_text env), (''remember_structured'', once \<circ> remember_structured env),
      (''remember_file_ref'', once \<circ> remember_file_ref env), (''remember_markdown'', remember_markdown env),
      (''ingest_connector_record'', once \<circ> ingest_connector_record env),
      (''consolidate_memory'', once \<circ> consolidate_memory env), (''fact_status'', once \<circ> fact_status),
      (''recall_context'', once \<circ> recall_context env), (''recall_sif'', once \<circ> recall_sif env),
      (''recall'', once \<circ> recall_tool env), (''inspect_memory'', once \<circ> inspect_memory env),
      (''open_box'', once \<circ> open_box_tool env), (''close_box'', once \<circ> close_box_tool env),
      (''box_info'', once \<circ> box_info_tool), (''box_memories'', once \<circ> box_memories env),
      (''verify_integrity'', once \<circ> verify_tool env), (''rebuild_indexes'', once \<circ> rebuild_tool env),
      (''memory_stats'', once \<circ> memory_stats env), (''propose_text_memory'', once \<circ> propose_text_memory env),
      (''approve_proposal'', once \<circ> approve_proposal env), (''reject_proposal'', once \<circ> reject_proposal env),
      (''get_proposal'', once \<circ> get_proposal_tool env), (''add_relation'', once \<circ> add_relation_tool env),
      (''query_graph'', once \<circ> query_graph), (''query_knowledge'', once \<circ> query_knowledge),
      (''engram_stats'', once \<circ> engram_stats_tool), (''register_tool'', once \<circ> register_tool_call),
      (''select_tools'', once \<circ> select_tools_call), (''record_tool_trace'', once \<circ> record_tool_trace env),
      (''tool_lessons'', once \<circ> tool_lessons)]"

end
