(* ===== verification/Server.thy ===== *)
theory Server
  imports Descriptors Vault_Log
begin

text \<open>
  The JSON-RPC server of \<open>mcp_server.py\<close>: one message a line on the standard input, one reply a line on the output
  (\<open>MCPServer\<close>, \<open>run_stdio\<close>, \<open>response\<close>, \<open>error_response\<close>). It knows its backend by a table of methods, a list of
  descriptors and the text of an exception; what it needs of them is the locale \<open>mcp_backend\<close>, and the tools
  of the vault are one. Each line comes with the environment its call runs in.
\<close>

section \<open>Text\<close>

text \<open>\<open>json.dumps\<close> with the keys in the order of the dict, with any separators.\<close>

fun json_text :: "string \<Rightarrow> string \<Rightarrow> py_value \<Rightarrow> string" where
  "json_text isep ksep (VList xs) = ''['' @ py_join isep (map (json_text isep ksep) xs) @ '']''"
| "json_text isep ksep (VDict d) =
     ''{'' @ py_join isep (map (\<lambda>(k, v). json_string k @ ksep @ json_text isep ksep v) d) @ ''}''"
| "json_text isep ksep v = dumps v"

definition result_text :: "py_dict \<Rightarrow> string result" where
  "result_text d =
     (if jsonable (VDict d) then Inr (json_text '', '' '': '' (canon (VDict d)))
      else Inl (TypeError ''Object of type bytes is not JSON serializable''))"

definition message_line :: "py_value \<Rightarrow> string" where
  "message_line m = json_text '','' '':'' m @ [CHR 0x0A]"

section \<open>Replies\<close>

definition response :: "py_value \<Rightarrow> py_dict \<Rightarrow> py_value" where
  "response rid result = VDict [(''jsonrpc'', VStr ''2.0''), (''id'', rid), (''result'', VDict result)]"

definition error_response :: "py_value \<Rightarrow> int \<Rightarrow> string \<Rightarrow> py_value" where
  "error_response rid n msg =
     VDict [(''jsonrpc'', VStr ''2.0''), (''id'', rid),
            (''error'', VDict [(''code'', VInt n), (''message'', VStr msg)])]"

section \<open>The server\<close>

record 's backend =
  be_handlers :: "(string \<times> 's handler) list"
  be_descriptors :: "py_dict list"
  be_error_text :: "py_error \<Rightarrow> string"

text \<open>
  \<open>self.handlers[name](**arguments)\<close>: the arguments must be a dict, and one of them named \<open>self\<close> clashes with the bound
  method. A name that cannot be hashed raises where it is looked up.
\<close>

definition find_handler :: "'s backend \<Rightarrow> py_value \<Rightarrow> 's handler result" where
  "find_handler be name =
     (case name of
        VStr n \<Rightarrow> (case map_of (be_handlers be) n of Some h \<Rightarrow> Inr h | None \<Rightarrow> Inl (ValueError (''unknown tool: '' @ n)))
      | VList vs \<Rightarrow> Inl (TypeError ''unhashable type: list'')
      | VDict d \<Rightarrow> Inl (TypeError ''unhashable type: dict'')
      | v \<Rightarrow> Inl (ValueError (''unknown tool: '' @ py_str v)))"

definition keyword_args :: "py_value \<Rightarrow> py_dict result" where
  "keyword_args v =
     (case v of
        VDict d \<Rightarrow> if d_get d ''self'' = None then Inr d else Inl (TypeError ''got multiple values for argument self'')
      | _ \<Rightarrow> Inl (TypeError ''argument after ** must be a mapping''))"

definition params_get :: "py_value \<Rightarrow> string \<Rightarrow> py_value option result" where
  "params_get params k =
     (case params of VDict d \<Rightarrow> Inr (d_get d k) | _ \<Rightarrow> Inl (AttributeError ''object has no attribute get''))"

definition tool_call :: "'s backend \<Rightarrow> py_value \<Rightarrow> ('s handler \<times> py_dict) result" where
  "tool_call be params =
     res_bind (params_get params ''name'') (\<lambda>name. res_bind (params_get params ''arguments'') (\<lambda>args.
     res_bind (find_handler be (d_or name)) (\<lambda>h. res_bind (keyword_args (or_chain [args] (VDict []))) (\<lambda>d. Inr (h, d)))))"

definition call_tool :: "'s backend \<Rightarrow> py_value \<Rightarrow> 's \<Rightarrow> ('s \<times> py_dict result) option" where
  "call_tool be params s =
     (case tool_call be params of
        Inl err \<Rightarrow> Some (s, Inl err)
      | Inr (h, d) \<Rightarrow>
          map_option (map_prod id (\<lambda>x. res_bind x (\<lambda>r. res_bind (result_text r) (\<lambda>txt.
            Inr [(''content'', VList [VDict [(''type'', VStr ''text''), (''text'', VStr txt)]])])))) (h d s))"

definition initialize_result :: "py_value \<Rightarrow> py_dict result" where
  "initialize_result params =
     res_bind (params_get params ''protocolVersion'') (\<lambda>v.
       Inr [(''protocolVersion'', or_chain [v] (VStr ''2025-03-26'')), (''capabilities'', VDict [(''tools'', VDict [])]),
            (''serverInfo'', VDict [(''name'', VStr ''living-memoryv2''), (''version'', VStr ''0.1.0'')])])"

definition reply_to :: "'s backend \<Rightarrow> py_value \<Rightarrow> py_dict result \<Rightarrow> py_value" where
  "reply_to be rid x =
     (case x of Inr d \<Rightarrow> response rid d | Inl err \<Rightarrow> error_response rid (- 32000) (be_error_text be err))"

definition answer :: "'s backend \<Rightarrow> py_value \<Rightarrow> py_dict \<Rightarrow> 's \<Rightarrow> ('s \<times> py_value) option" where
  "answer be rid msg s =
     (let method = d_or (d_get msg ''method''); params = or_chain [d_get msg ''params''] (VDict []) in
      if method = VStr ''initialize'' then Some (s, reply_to be rid (initialize_result params))
      else if method = VStr ''tools/list''
      then Some (s, response rid [(''tools'', VList (map VDict (be_descriptors be)))])
      else if method = VStr ''tools/call'' then map_option (map_prod id (reply_to be rid)) (call_tool be params s)
      else if method = VStr ''ping'' then Some (s, response rid [])
      else Some (s, error_response rid (- 32601) (''method not found: '' @ py_str method)))"

text \<open>
  \<open>"id" in message\<close> and \<open>message["id"]\<close> stand before the \<open>try\<close>: of a message that is no object they raise, or find
  no id in a string or a list.
\<close>

definition message_id :: "py_value \<Rightarrow> py_value option result" where
  "message_id msg =
     (case msg of
        VDict d \<Rightarrow> Inr (d_get d ''id'')
      | VStr s \<Rightarrow> if py_contains ''id'' s then Inl (TypeError ''string indices must be integers'') else Inr None
      | VList vs \<Rightarrow> if VStr ''id'' \<in> set vs then Inl (TypeError ''list indices must be integers or slices'') else Inr None
      | _ \<Rightarrow> Inl (TypeError ''argument is not iterable''))"

text \<open>\<open>None\<close> if a tool does not end; \<open>Inl\<close> if an exception leaves the method.\<close>

definition handle :: "'s backend \<Rightarrow> py_value \<Rightarrow> 's \<Rightarrow> ('s \<times> py_value option result) option" where
  "handle be msg s =
     (case message_id msg of
        Inl err \<Rightarrow> Some (s, Inl err)
      | Inr None \<Rightarrow> Some (s, Inr None)
      | Inr (Some rid) \<Rightarrow> map_option (map_prod id (Inr \<circ> Some)) (answer be rid (fields_of msg) s))"

text \<open>
  The session: the state, the replies written, and the exception that ended it, if one did before the input ended.
\<close>

fun run_stdio :: "('e \<Rightarrow> 's backend) \<Rightarrow> ('e \<times> string) list \<Rightarrow> 's \<Rightarrow> ('s \<times> py_value list \<times> py_error option) option" where
  "run_stdio be [] s = Some (s, [], None)"
| "run_stdio be ((env, line) # rest) s =
     (if py_strip line = [] then run_stdio be rest s
      else case loads line of
          Inl err \<Rightarrow>
            map_option (map_prod id (map_prod (Cons (error_response VNone (- 32700) (''parse error: '' @ be_error_text (be env) err))) id))
              (run_stdio be rest s)
        | Inr msg \<Rightarrow>
            (case handle (be env) msg s of
               None \<Rightarrow> None
             | Some (s', Inl err) \<Rightarrow> Some (s', [], Some err)
             | Some (s', Inr None) \<Rightarrow> run_stdio be rest s'
             | Some (s', Inr (Some r)) \<Rightarrow> map_option (map_prod id (map_prod (Cons r) id)) (run_stdio be rest s')))"

text \<open>The server of the vault's tools.\<close>

definition living_backend :: "tool_env \<Rightarrow> tools backend" where
  "living_backend env =
     \<lparr>be_handlers = tool_table env, be_descriptors = tool_descriptors (te_compact env), be_error_text = te_error_text env\<rparr>"

section \<open>What the server needs of its backend\<close>

text \<open>
  A method ends, and what it makes of a well-formed state is well formed, in the environments that are.
\<close>

lemma find_handler_Inr: "find_handler be v = Inr h \<Longrightarrow> \<exists>n. map_of (be_handlers be) n = Some h"
  by (cases v) (auto simp: find_handler_def split: option.splits)

locale mcp_backend =
  fixes backend :: "'e \<Rightarrow> 's backend"
    and env_ok :: "'e \<Rightarrow> bool"
    and inv :: "'s \<Rightarrow> bool"
  assumes method_ends: "map_of (be_handlers (backend e)) n = Some h \<Longrightarrow> h d s \<noteq> None"
    and method_keeps: "env_ok e \<Longrightarrow> map_of (be_handlers (backend e)) n = Some h \<Longrightarrow> preserves_run inv (h d)"
begin

lemma tool_call_method: "tool_call (backend e) params = Inr (h, d) \<Longrightarrow> \<exists>n. map_of (be_handlers (backend e)) n = Some h"
  by (auto simp: tool_call_def res_bind_eq_Inr dest: find_handler_Inr)

lemma call_ends: "call_tool (backend e) params s \<noteq> None"
proof (cases "tool_call (backend e) params")
  case (Inr hd)
  obtain h d where hd: "hd = (h, d)" by fastforce
  from tool_call_method [OF Inr [unfolded hd]] obtain n where "map_of (be_handlers (backend e)) n = Some h" by blast
  from method_ends [OF this] show ?thesis using Inr hd by (simp add: call_tool_def)
qed (simp add: call_tool_def)

lemma answer_ends: "answer (backend e) rid msg s \<noteq> None"
  using call_ends by (auto simp: answer_def Let_def)

lemma handle_ends: "handle (backend e) msg s \<noteq> None"
  using answer_ends by (auto simp: handle_def split: sum.split option.split)

lemma call_keeps:
  assumes "env_ok e" "inv s" "call_tool (backend e) params s = Some (s', x)"
  shows "inv s'"
proof (cases "tool_call (backend e) params")
  case (Inr hd)
  obtain h d where hd: "hd = (h, d)" by fastforce
  from tool_call_method [OF Inr [unfolded hd]] obtain n where "map_of (be_handlers (backend e)) n = Some h" by blast
  then have "preserves_run inv (h d)" using method_keeps assms(1) by blast
  then show ?thesis using assms(2,3) Inr hd by (auto simp: call_tool_def preserves_run_def)
qed (use assms in \<open>simp add: call_tool_def\<close>)

lemma handle_keeps: "env_ok e \<Longrightarrow> inv s \<Longrightarrow> handle (backend e) msg s = Some (s', x) \<Longrightarrow> inv s'"
  unfolding handle_def answer_def Let_def
  by (auto split: sum.splits option.splits if_splits intro: call_keeps)

end

lemma reply_to_shape: "(\<exists>d. reply_to be rid x = response rid d) \<or> (\<exists>c m. reply_to be rid x = error_response rid c m)"
  by (cases x) (auto simp: reply_to_def)

lemma answer_shape:
  "answer be rid msg s = Some (s', r) \<Longrightarrow> (\<exists>d. r = response rid d) \<or> (\<exists>c m. r = error_response rid c m)"
  using reply_to_shape unfolding answer_def Let_def by (fastforce split: if_splits)

definition reply_id :: "py_value \<Rightarrow> py_value" where
  "reply_id r = d_or (d_get (fields_of r) ''id'')"

lemma reply_id_simps [simp]: "reply_id (response rid d) = rid" "reply_id (error_response rid c m) = rid"
  by (simp_all add: reply_id_def response_def error_response_def fields_of_def d_or_def)

text \<open>The ids a line waits for, and the lines that end the session.\<close>

definition awaited :: "string \<Rightarrow> py_value list" where
  "awaited line =
     (if py_strip line = [] then []
      else case loads line of
          Inl err \<Rightarrow> [VNone]
        | Inr msg \<Rightarrow> (case message_id msg of Inr (Some rid) \<Rightarrow> [rid] | _ \<Rightarrow> []))"

definition fatal :: "string \<Rightarrow> bool" where
  "fatal line =
     (py_strip line \<noteq> [] \<and> (case loads line of Inl err \<Rightarrow> False
        | Inr msg \<Rightarrow> (case message_id msg of Inl err \<Rightarrow> True | Inr rid \<Rightarrow> False)))"

lemma handle_cases:
  assumes "handle be msg s = Some (s', x)"
  shows "(case message_id msg of
      Inl err \<Rightarrow> x = Inl err
    | Inr None \<Rightarrow> x = Inr None \<and> s' = s
    | Inr (Some rid) \<Rightarrow> \<exists>r. x = Inr (Some r) \<and> reply_id r = rid)"
  using assms answer_shape by (fastforce simp: handle_def split: sum.splits option.splits)

context mcp_backend
begin

lemma run_answers:
  "\<exists>s' out err. run_stdio backend ls s = Some (s', out, err)
     \<and> map reply_id out = concat (map awaited (takeWhile (\<lambda>l. \<not> fatal l) (map snd ls)))
     \<and> (err = None \<longleftrightarrow> list_all (\<lambda>l. \<not> fatal l) (map snd ls))"
proof (induction ls arbitrary: s)
  case (Cons p ls)
  obtain env line where p: "p = (env, line)" by fastforce
  show ?case
  proof (cases "py_strip line = []")
    case True
    then show ?thesis using Cons.IH [of s] by (auto simp: p awaited_def fatal_def)
  next
    case line: False
    show ?thesis
    proof (cases "loads line")
      case (Inl err)
      have "awaited line = [VNone]" "\<not> fatal line" using line Inl by (simp_all add: awaited_def fatal_def)
      then show ?thesis using Cons.IH [of s] line Inl by (auto simp: p)
    next
      case (Inr msg)
      obtain s' x where h: "handle (backend env) msg s = Some (s', x)" using handle_ends [of env msg s] by auto
      note x = handle_cases [OF h]
      show ?thesis
      proof (cases "message_id msg")
        case (Inl err)
        then have "fatal line" using line Inr by (simp add: fatal_def)
        then show ?thesis using x Inl h line Inr by (simp add: p)
      next
        case rid: (Inr rid)
        then have no: "\<not> fatal line" using line Inr by (simp add: fatal_def)
        show ?thesis
        proof (cases rid)
          case None
          then have "awaited line = []" using line Inr rid by (simp add: awaited_def)
          then show ?thesis using Cons.IH [of s'] no x rid None h line Inr by (auto simp: p)
        next
          case (Some i)
          then have "awaited line = [i]" using line Inr rid by (simp add: awaited_def)
          then show ?thesis using Cons.IH [of s'] no x rid Some h line Inr by (auto simp: p)
        qed
      qed
    qed
  qed
qed simp

lemma run_keeps:
  assumes "\<forall>p\<in>set ls. env_ok (fst p)" "inv s" "run_stdio backend ls s = Some (s', out, err)"
  shows "inv s'"
  using assms
proof (induction ls arbitrary: s out)
  case (Cons p ls)
  obtain env line where p: "p = (env, line)" by fastforce
  have env: "env_ok env" "\<forall>p\<in>set ls. env_ok (fst p)" using Cons.prems(1) p by simp_all
  have run: "run_stdio backend ((env, line) # ls) s = Some (s', out, err)" using Cons.prems(3) p by simp
  show ?case
  proof (cases "py_strip line = []")
    case True
    then show ?thesis using Cons.IH [OF env(2) Cons.prems(2)] run by simp
  next
    case line: False
    show ?thesis
    proof (cases "loads line")
      case (Inl e)
      then show ?thesis using Cons.IH [OF env(2) Cons.prems(2)] run line by auto
    next
      case (Inr msg)
      obtain t x where h: "handle (backend env) msg s = Some (t, x)" using handle_ends [of env msg s] by auto
      have t: "inv t" by (rule handle_keeps [OF env(1) Cons.prems(2) h])
      show ?thesis
      proof (cases x)
        case (Inl e)
        then show ?thesis using run line Inr h t by simp
      next
        case r: (Inr r)
        then show ?thesis using run line Inr h Cons.IH [OF env(2) t] by (cases r) auto
      qed
    qed
  qed
qed simp

end

section \<open>The vault's tools as a backend\<close>

lemma tool_table_cases:
  "map_of (tool_table env) n = Some h \<Longrightarrow> h \<in> {living_memory env, remember_markdown env} \<or> (\<exists>m. h = once \<circ> m)"
  by (auto simp: tool_table_def split: if_splits)

lemma preserves_run_once: "preserves I (m d) \<Longrightarrow> preserves_run I ((once \<circ> m) d)"
  using preserves_once by (simp add: once_def [abs_def] comp_def)

lemma tool_keeps:
  assumes "te_now env \<noteq> 0" "map_of (tool_table env) n = Some h"
  shows "preserves_run (tools_ok (re_nf (te_recall env))) (h d)"
  using assms(2) unfolding tool_table_def
  by (auto split: if_splits intro!: preserves_run_once preserved remember_markdown_ok living_memory_ok [OF assms(1)])

interpretation living: mcp_backend living_backend "\<lambda>env. te_now env \<noteq> 0 \<and> re_nf (te_recall env) = nf" "tools_ok nf" for nf
proof unfold_locales
  fix env n h d t
  assume "map_of (be_handlers (living_backend env)) n = Some h"
  from tool_table_cases [OF this [unfolded living_backend_def backend.select_convs]] show "h d t \<noteq> None"
    using living_memory_ends remember_markdown_ends by (auto simp: once_def)
next
  fix env n h d
  assume "te_now env \<noteq> 0 \<and> re_nf (te_recall env) = nf" "map_of (be_handlers (living_backend env)) n = Some h"
  then show "preserves_run (tools_ok nf) (h d)" using tool_keeps by (auto simp: living_backend_def)
qed

text \<open>\<open>LivingMemoryTools.__init__\<close> on a directory that holds no vault yet.\<close>

definition tools_new :: "tools result" where
  "tools_new =
     res_bind (engram_new 100003 4 2 20) (\<lambda>g. res_bind (curriculum_new []) (\<lambda>c.
       Inr \<lparr>tl_vault = vault_open, tl_proposals = [], tl_engram = g, tl_curriculum = c\<rparr>))"

lemma tools_new_ok: "tools_new = Inr t \<Longrightarrow> tools_ok nf t"
  by (auto simp: tools_new_def res_bind_eq_Inr tools_ok_def proposals_ok_def new_ok curriculum_new_ok)

lemma tools_new_Inr: "\<exists>t. tools_new = Inr t"
  by (simp add: tools_new_def engram_new_def hasher_new_def PRIMES_def curriculum_new_def)

text \<open>
  C7: A session answers. Whatever lines come in, it ends; before the first line that ends it (no JSON object, yet no
  container without an id either), each request and each line that is no JSON has exactly one reply, in the order of the
  lines, under the id of the request or \<open>null\<close>; blank lines and notifications have none. An error of a tool is such a reply.
\<close>

theorem session_answers:
  "\<exists>t' out err. run_stdio living_backend ls t = Some (t', out, err)
     \<and> map reply_id out = concat (map awaited (takeWhile (\<lambda>l. \<not> fatal l) (map snd ls)))
     \<and> (err = None \<longleftrightarrow> list_all (\<lambda>l. \<not> fatal l) (map snd ls))"
  by (rule living.run_answers)

text \<open>
  C8: Whatever a client sends to a server that starts on an empty directory, the state stays well formed: the vault's tables,
  the proposals and their reviews, the engram cache and the tool curriculum. The clock must not stand at zero.
\<close>

theorem session_keeps_tools:
  assumes "tools_new = Inr t" "\<forall>p\<in>set ls. te_now (fst p) \<noteq> 0 \<and> re_nf (te_recall (fst p)) = nf"
    and "run_stdio living_backend ls t = Some (t', out, err)"
  shows "vault_ok (tl_vault t') \<and> proposals_ok (tl_proposals t') \<and> engram_ok nf (tl_engram t') \<and> curriculum_ok (tl_curriculum t')"
  using living.run_keeps [OF assms(2) tools_new_ok [OF assms(1)] assms(3)] by (simp add: tools_ok_def)

text \<open>The tools that only read.\<close>

definition reading_tools :: "string list" where
  "reading_tools = [''fact_status'', ''recall_context'', ''recall_sif'', ''recall'', ''inspect_memory'', ''box_info'', ''box_memories'',
     ''verify_integrity'', ''memory_stats'', ''get_proposal'', ''query_graph'', ''query_knowledge'', ''engram_stats'',
     ''select_tools'', ''tool_lessons'']"

definition reads :: "(string \<Rightarrow> string) \<Rightarrow> tools handler \<Rightarrow> bool" where
  "reads nf h \<longleftrightarrow> (\<forall>rest d. preserves_run (engram_only nf rest) (h d))"

lemma reads_once: "(\<And>rest d. preserves (engram_only nf rest) (m d)) \<Longrightarrow> reads nf (once \<circ> m)"
  unfolding reads_def by (blast intro: preserves_run_once)

lemma reading_tools_read: "\<forall>n\<in>set reading_tools. pred_option (reads (re_nf (te_recall env))) (map_of (tool_table env) n)"
  by (simp add: reading_tools_def tool_table_def) (intro conjI reads_once preserved)

text \<open>
  C10: The tools that read change nothing but the engram cache: the vault, the proposals and the tool curriculum are as they
  were after any call of one of them, answered or not.
\<close>

theorem reading_tools_change_nothing:
  assumes "n \<in> set reading_tools" "map_of (tool_table env) n = Some h" "engram_ok (re_nf (te_recall env)) (tl_engram t)"
    and "h d t = Some (t', x)"
  shows "tl_vault t' = tl_vault t \<and> tl_proposals t' = tl_proposals t \<and> tl_curriculum t' = tl_curriculum t"
proof -
  have "engram_only (re_nf (te_recall env)) (beside_engram t) t" using assms(3) by (simp add: engram_only_def)
  moreover have "preserves_run (engram_only (re_nf (te_recall env)) (beside_engram t)) (h d)"
    using bspec [OF reading_tools_read assms(1), of env] assms(2) by (simp add: reads_def del: split_paired_All)
  ultimately have "engram_only (re_nf (te_recall env)) (beside_engram t) t'"
    using assms(4) unfolding preserves_run_def by blast
  then show ?thesis by (simp add: engram_only_def beside_engram_def)
qed

definition descriptor_name :: "py_dict \<Rightarrow> string" where
  "descriptor_name d = py_str (d_or (d_get d ''name''))"

definition requires_properties :: "py_dict \<Rightarrow> bool" where
  "requires_properties d =
     (let sch = fields_of (d_or (d_get d ''inputSchema'')); props = map (VStr \<circ> fst) (fields_of (d_or (d_get sch ''properties'')))
      in list_all (\<lambda>v. v \<in> set props) (as_list (d_get sch ''required'')))"

lemma descriptor_simps [simp]:
  "descriptor_name (descriptor n s props req) = n"
  "requires_properties (descriptor n s props req) \<longleftrightarrow> set req \<subseteq> fst ` set props"
proof -
  show "descriptor_name (descriptor n s props req) = n" by (simp add: descriptor_name_def descriptor_def d_or_def)
  show "requires_properties (descriptor n s props req) \<longleftrightarrow> set req \<subseteq> fst ` set props"
    by (force simp: requires_properties_def descriptor_def Let_def fields_of_def d_or_def as_list_def str_list_def list_all_iff)
qed

lemma all_descriptor_names:
  "map descriptor_name all_descriptors =
     [''living_memory'', ''recall_context'', ''recall_sif'', ''inspect_memory'', ''remember_text'', ''remember_structured'',
      ''remember_file_ref'', ''remember_markdown'', ''ingest_connector_record'', ''consolidate_memory'', ''fact_status'', ''recall'',
      ''open_box'', ''close_box'', ''box_info'', ''box_memories'', ''verify_integrity'', ''rebuild_indexes'', ''memory_stats'',
      ''propose_text_memory'', ''approve_proposal'', ''reject_proposal'', ''get_proposal'', ''add_relation'', ''query_graph'',
      ''query_knowledge'', ''engram_stats'', ''register_tool'', ''select_tools'', ''record_tool_trace'', ''tool_lessons'']"
  by (simp add: all_descriptors_def facade_descriptors_def context_descriptors_def writing_descriptors_def fact_descriptors_def
      vault_descriptors_def review_descriptors_def graph_descriptors_def curriculum_descriptors_def)

lemma d_update_keys: "k \<in> fst ` set e \<Longrightarrow> k \<in> fst ` set (d_update d e)"
  unfolding dom_map_of_conv_image_fst [symmetric]
proof (induction e rule: rev_induct)
  case (snoc p e)
  then show ?case by (cases p) (auto simp: d_update_snoc map_add_Some_iff dom_def split: if_splits)
qed simp

lemma common_schema_keeps: "k \<in> fst ` set extra \<Longrightarrow> k \<in> fst ` set (common_memory_schema extra)"
  unfolding common_memory_schema_def by (rule d_update_keys)

lemma all_require_properties: "list_all requires_properties all_descriptors"
  by (simp add: all_descriptors_def facade_descriptors_def context_descriptors_def writing_descriptors_def fact_descriptors_def
      vault_descriptors_def review_descriptors_def graph_descriptors_def curriculum_descriptors_def common_schema_keeps)

text \<open>
  The list of tools and the table of methods fit: the descriptors name each method once, every argument a descriptor
  requires is one of its properties, and the compact list is a part of the full one.
\<close>

lemma tools_listed:
  "distinct (map descriptor_name (tool_descriptors [])) \<and> set (map descriptor_name (tool_descriptors [])) = fst ` set (tool_table env)
     \<and> list_all requires_properties (tool_descriptors flag) \<and> set (tool_descriptors flag) \<subseteq> set (tool_descriptors [])"
proof (intro conjI)
  have full: "tool_descriptors [] = all_descriptors" by (simp add: tool_descriptors_def compact_enabled_def)
  show "distinct (map descriptor_name (tool_descriptors []))" unfolding full all_descriptor_names by simp
  show "set (map descriptor_name (tool_descriptors [])) = fst ` set (tool_table env)"
    unfolding full all_descriptor_names tool_table_def by auto
  show "set (tool_descriptors flag) \<subseteq> set (tool_descriptors [])" unfolding full by (auto simp: tool_descriptors_def)
  then show "list_all requires_properties (tool_descriptors flag)"
    using all_require_properties unfolding full list_all_iff by blast
qed

section \<open>One reply, one line\<close>

definition newline_free :: "string \<Rightarrow> bool" where
  "newline_free s \<longleftrightarrow> CHR 0x0A \<notin> set s"

lemma unbroken_newline_free: "unbroken s \<Longrightarrow> newline_free s"
  by (auto simp: unbroken_def newline_free_def list_all_iff is_break_def)

lemma newline_free_escape: "newline_free (json_escape_char c)"
proof (cases "c = CHR 0x85")
  case True
  have "newline_free (json_escape_char (CHR 0x85))" by (simp add: json_escape_char_def newline_free_def)
  then show ?thesis using True by simp
qed (rule unbroken_newline_free [OF unbroken_escape])

lemma newline_free_json_string: "newline_free (json_string s)"
proof -
  have "newline_free (concat (map json_escape_char s))" using newline_free_escape by (auto simp: newline_free_def)
  then show ?thesis by (simp add: json_string_def newline_free_def quote_char_def)
qed

lemma newline_free_join: "newline_free sep \<Longrightarrow> \<forall>w\<in>set ws. newline_free w \<Longrightarrow> newline_free (py_join sep ws)"
  by (induction sep ws rule: py_join.induct) (auto simp: newline_free_def)

lemma newline_free_atom: "newline_free (dumps (VInt i))" "newline_free (dumps (VFloat x))" "newline_free (dumps (VBool b))"
  using unbroken_dumps [of "VInt i"] unbroken_dumps [of "VFloat x"] unbroken_dumps [of "VBool b"]
  by (simp_all add: unbroken_newline_free del: dumps.simps)

lemma newline_free_json_text: "newline_free isep \<Longrightarrow> newline_free ksep \<Longrightarrow> newline_free (json_text isep ksep v)"
proof (induction isep ksep v rule: json_text.induct)
  case (1 isep ksep xs)
  then have "newline_free (py_join isep (map (json_text isep ksep) xs))" by (intro newline_free_join) auto
  then show ?case by (simp add: newline_free_def)
next
  case (2 isep ksep d)
  have "\<forall>w\<in>set (map (\<lambda>(k, v). json_string k @ ksep @ json_text isep ksep v) d). newline_free w"
    using 2 newline_free_json_string by (fastforce simp: newline_free_def)
  then have "newline_free (py_join isep (map (\<lambda>(k, v). json_string k @ ksep @ json_text isep ksep v) d))"
    using 2 by (intro newline_free_join) auto
  then show ?case by (simp add: newline_free_def)
qed (simp_all add: newline_free_atom del: dumps.simps, simp_all add: newline_free_def newline_free_json_string [unfolded newline_free_def])

text \<open>
  C40: A reply is one line of the output: the text of a message, whatever texts the memories in it hold, has one
  newline, at its end.
\<close>

theorem message_line_framed: "\<exists>s. message_line m = s @ [CHR 0x0A] \<and> newline_free s"
proof -
  have "newline_free (json_text '','' '':'' m)" by (rule newline_free_json_text) (simp_all add: newline_free_def)
  then show ?thesis by (auto simp: message_line_def)
qed

section \<open>Concrete sessions\<close>

lemma session_keeps_tools_witness:
  "\<exists>t t' out err. tools_new = Inr t
    \<and> run_stdio living_backend [(demo_tool_env, ''{\"id\": 1, \"method\": \"ping\"}''), (demo_tool_env, ''[]'')] t = Some (t', out, err)
    \<and> vault_ok (tl_vault t') \<and> engram_ok id (tl_engram t')"
proof -
  let ?ls = "[(demo_tool_env, ''{\"id\": 1, \"method\": \"ping\"}''), (demo_tool_env, ''[]'')]"
  obtain t where t: "tools_new = Inr t" using tools_new_Inr by blast
  obtain t' out err where run: "run_stdio living_backend ?ls t = Some (t', out, err)"
    using living.run_answers [of ?ls t] by blast
  have "\<forall>p\<in>set ?ls. te_now (fst p) \<noteq> 0 \<and> re_nf (te_recall (fst p)) = id" by (simp add: demo_tool_env_def demo_env_def)
  from session_keeps_tools [OF t this run] t run show ?thesis by blast
qed

lemma reading_tools_change_nothing_witness:
  "\<exists>t' x. (once \<circ> recall_tool demo_tool_env) [(''query'', VStr ''what is the'')] demo_tools = Some (t', x)
    \<and> map_of (tool_table demo_tool_env) ''recall'' = Some (once \<circ> recall_tool demo_tool_env)
    \<and> tl_vault t' = tl_vault demo_tools \<and> tl_proposals t' = tl_proposals demo_tools \<and> tl_curriculum t' = tl_curriculum demo_tools"
proof -
  have n: "''recall'' \<in> set reading_tools" by (simp add: reading_tools_def)
  have h: "map_of (tool_table demo_tool_env) ''recall'' = Some (once \<circ> recall_tool demo_tool_env)" by (simp add: tool_table_def)
  have e: "engram_ok (re_nf (te_recall demo_tool_env)) (tl_engram demo_tools)"
    using new_ok [OF demo_engram_new] by (simp add: demo_tool_env_def demo_env_def demo_tools_def)
  obtain t' x where "recall_tool demo_tool_env [(''query'', VStr ''what is the'')] demo_tools = (t', x)" by fastforce
  then have r: "(once \<circ> recall_tool demo_tool_env) [(''query'', VStr ''what is the'')] demo_tools = Some (t', x)"
    by (simp add: once_def)
  from reading_tools_change_nothing [OF n h e r] r h show ?thesis by blast
qed

text \<open>A line that is a JSON number ends the session with an exception.\<close>

lemma number_line_fatal: "fatal ''5''"
proof -
  have five: "dumps (VInt 5) = ''5''" by code_simp
  have "loads ''5'' = Inr (VInt 5)" using loads_dumps [of "VInt 5"] by (simp add: five del: dumps.simps)
  moreover have "py_strip ''5'' \<noteq> []" by code_simp
  ultimately show ?thesis by (simp add: fatal_def message_id_def)
qed

end
