(* ===== verification/Benchmark.thy ===== *)
theory Benchmark
  imports Server
begin

text \<open>
  How the benchmarks judge the engine (\<open>benchmarks.py\<close>): one case of a suite run through the tool \<open>living_memory\<close>, its scores
  and the causes of its failure, the summary of a run and its thresholds; and the loader of external cases
  (\<open>benchmarks_external.py\<close>). The memories and cases the suites are seeded with are data and a parameter here, as are the measured
  milliseconds and the date of a report.
\<close>

section \<open>Cases\<close>

record validation_case =
  vc_name :: string
  vc_category :: string
  vc_query :: string
  vc_scope :: py_dict
  vc_expected :: "string list"
  vc_forbidden :: "string list"
  vc_lesson_terms :: "string list"
  vc_modalities :: "string list"
  vc_subgraphs :: "string list"
  vc_validators :: "string list"
  vc_max_tokens :: int
  vc_top_k :: int
  vc_hops :: int
  vc_at_time :: "real option"

record case_result =
  bc_name :: string
  bc_category :: string
  bc_query :: string
  bc_expected_ids :: "string list"
  bc_retrieved_ids :: "string list"
  bc_expected_hits :: "string list"
  bc_forbidden_hits :: "string list"
  bc_recall :: real
  bc_precision :: real
  bc_mrr :: real
  bc_lesson_hit :: bool
  bc_exp_modalities :: "string list"
  bc_modalities :: "string list"
  bc_modality_hit :: bool
  bc_exp_subgraphs :: "string list"
  bc_subgraphs :: "string list"
  bc_subgraph_hit :: bool
  bc_exp_validators :: "string list"
  bc_validators :: "string list"
  bc_validator_hit :: bool
  bc_facade_tokens :: int
  bc_full_tokens :: int
  bc_reduction :: real
  bc_latency :: real
  bc_max_tokens :: int
  bc_passed :: bool
  bc_modes :: "string list"

definition stale_categories :: "string list" where
  "stale_categories = [''temporal_update'', ''future_temporal'', ''conflict_update'']"

definition failure_checks :: "case_result \<Rightarrow> (string \<times> bool) list" where
  "failure_checks r =
     (let hits = bc_forbidden_hits r \<noteq> []; cat = bc_category r in
      [(''false_negative'', bc_expected_ids r \<noteq> [] \<and> length (bc_expected_hits r) < length (bc_expected_ids r)),
       (''forbidden_memory_retrieved'', hits), (''over_retrieval'', bc_expected_ids r = [] \<and> bc_retrieved_ids r \<noteq> []),
       (''scope_leak'', py_contains ''scope'' cat \<and> hits), (''stale_or_future_hit'', cat \<in> set stale_categories \<and> hits),
       (''prompt_injection_exposure'', cat = ''prompt_injection'' \<and> hits),
       (''budget_overrun'', bc_max_tokens r < bc_facade_tokens r), (''procedural_lesson_missing'', \<not> bc_lesson_hit r),
       (''modality_missing_from_evidence'', \<not> bc_modality_hit r), (''required_subgraph_missing'', \<not> bc_subgraph_hit r),
       (''required_validator_missing'', \<not> bc_validator_hit r)])"

definition failure_modes :: "case_result \<Rightarrow> string list" where
  "failure_modes r =
     (let modes = map fst (filter snd (failure_checks r)) in if modes = [] then [''unknown_failure''] else modes)"

definition recommended_direction :: "string list \<Rightarrow> string \<Rightarrow> string" where
  "recommended_direction modes category =
     (if ''scope_leak'' \<in> set modes
      then ''tighten scope signature checks and add user/project namespace assertions before ranking''
      else if ''stale_or_future_hit'' \<in> set modes
      then ''make temporal validity a hard pre-filter for dated relations and conflicting facts''
      else if ''prompt_injection_exposure'' \<in> set modes
      then ''add memory-safety labels and suppress instruction-like memories unless explicitly requested''
      else if category = ''multimodal_native_vision_gap''
      then ''add a textual bridge such as caption/OCR/labels or optional external vision embedding adapter''
      else if category = ''keyword_distractor'' \<or> ''forbidden_memory_retrieved'' \<in> set modes
      then ''add contradiction-aware reranking and stronger source/type confidence signals''
      else if ''false_negative'' \<in> set modes
      then ''improve graph expansion, lexical normalization, or budget allocation for inspectable IDs''
      else if ''over_retrieval'' \<in> set modes then ''raise minimum relevance thresholds and add abstention scoring''
      else if ''budget_overrun'' \<in> set modes then ''reserve budget for IDs first, then shrink snippets more aggressively''
      else if ''modality_missing_from_evidence'' \<in> set modes
      then ''make modality refs visible in facade evidence for expected multimodal memories''
      else if ''required_subgraph_missing'' \<in> set modes
      then ''strengthen multimodal/provenance graph anchors or relax only after answerability evidence is preserved''
      else ''inspect case manually and add a focused regression test'')"

section \<open>Judging a response\<close>

text \<open>\<open>_mean_reciprocal_rank\<close>\<close>

fun first_rank :: "nat \<Rightarrow> string list \<Rightarrow> string list \<Rightarrow> real" where
  "first_rank k expected [] = 0"
| "first_rank k expected (i # is) = (if i \<in> set expected then 1 / of_nat k else first_rank (Suc k) expected is)"

definition reciprocal_rank :: "string list \<Rightarrow> string list \<Rightarrow> real" where
  "reciprocal_rank retrieved expected =
     (if expected = [] then (if retrieved = [] then 1 else 0) else first_rank 1 expected retrieved)"

definition lesson_hit :: "py_value list \<Rightarrow> string list \<Rightarrow> bool" where
  "lesson_hit lessons terms =
     (terms = [] \<or> (let haystack = py_lower (json_text '', '' '': '' (VList lessons))
                    in list_all (\<lambda>w. py_contains (py_lower w) haystack) terms))"

definition full_context_tokens :: "real \<Rightarrow> py_dict \<Rightarrow> store \<Rightarrow> int result" where
  "full_context_tokens now sc s =
     res_bind (list_memories now sc [] None None s) (\<lambda>ms. res_bind (assembler_new 4000 4) (\<lambda>a.
       Inr (estimate_tokens a (py_join [CHR 0x0A] (map text_content ms)))))"

text \<open>The texts a field of some dicts lists.\<close>

definition listed_texts :: "string \<Rightarrow> py_dict list \<Rightarrow> string list result" where
  "listed_texts k ds =
     res_bind (res_each (\<lambda>d. iter_or_empty (d_get d k)) ds) (\<lambda>vss. Inr (sorted_set (map py_str (concat vss))))"

definition graph_names :: "py_dict list \<Rightarrow> string list" where
  "graph_names ds = sorted_set (map py_str (filter truthy (map (\<lambda>d. d_or (d_get d ''graph_name'')) ds)))"

definition facade_tokens :: "py_dict \<Rightarrow> int result" where
  "facade_tokens resp =
     res_bind (case d_get resp ''context'' of None \<Rightarrow> Inr [] | Some v \<Rightarrow> read_dict_item v) (\<lambda>ctx.
       int_or 0 (d_get ctx ''estimated_tokens''))"

definition recall_of :: "string list \<Rightarrow> string list \<Rightarrow> real" where
  "recall_of expected hits = (if expected = [] then 1 else of_nat (length hits) / of_nat (length expected))"

definition precision_of :: "string list \<Rightarrow> string list \<Rightarrow> string list \<Rightarrow> real" where
  "precision_of expected hits retrieved =
     (if expected = [] then (if retrieved = [] then 1 else 0) else of_nat (length hits) / of_nat (max 1 (length retrieved)))"

definition case_passed :: "validation_case \<Rightarrow> case_result \<Rightarrow> bool" where
  "case_passed c r =
     (if bc_expected_ids r = [] \<and> vc_lesson_terms c = []
      then bc_retrieved_ids r = [] \<and> bc_forbidden_hits r = [] \<and> bc_facade_tokens r \<le> vc_max_tokens c
      else 1 \<le> recall_of (bc_expected_ids r) (bc_expected_hits r) \<and> bc_forbidden_hits r = []
        \<and> bc_facade_tokens r \<le> vc_max_tokens c \<and> (vc_lesson_terms c \<noteq> [] \<longrightarrow> bc_lesson_hit r)
        \<and> bc_modality_hit r \<and> bc_subgraph_hit r \<and> bc_validator_hit r)"

definition relevant_evidence :: "string list \<Rightarrow> py_dict list \<Rightarrow> py_dict list" where
  "relevant_evidence expected evidence =
     (if expected = [] then evidence else filter (\<lambda>d. d_or (d_get d ''memory_id'') \<in> VStr ` set expected) evidence)"

text \<open>What a response shows of a case, before the verdict.\<close>

definition observed_case ::
  "validation_case \<Rightarrow> string list \<Rightarrow> string list \<Rightarrow> py_dict \<Rightarrow> int \<Rightarrow> real \<Rightarrow> case_result result" where
  "observed_case c expected forbidden resp full latency =
     res_bind (read_strings (d_get resp ''inspectable_ids'')) (\<lambda>retrieved.
     res_bind (iter_or_empty (d_get resp ''procedural_lessons'')) (\<lambda>lessons.
     res_bind (read_dicts (d_get resp ''evidence'')) (\<lambda>evidence.
     res_bind (read_dicts (d_get resp ''subgraphs'')) (\<lambda>graphs.
     res_bind (facade_tokens resp) (\<lambda>tokens.
     res_bind (listed_texts ''modalities'' (relevant_evidence expected evidence)) (\<lambda>mods.
     res_bind (listed_texts ''validated_by'' (relevant_evidence expected evidence)) (\<lambda>vals.
       Inr \<lparr>bc_name = vc_name c, bc_category = vc_category c, bc_query = vc_query c, bc_expected_ids = expected,
         bc_retrieved_ids = retrieved, bc_expected_hits = filter (\<lambda>i. i \<in> set retrieved) expected,
         bc_forbidden_hits = filter (\<lambda>i. i \<in> set retrieved) forbidden,
         bc_recall = py_round 4 (recall_of expected (filter (\<lambda>i. i \<in> set retrieved) expected)),
         bc_precision = py_round 4 (precision_of expected (filter (\<lambda>i. i \<in> set retrieved) expected) retrieved),
         bc_mrr = py_round 4 (reciprocal_rank retrieved expected), bc_lesson_hit = lesson_hit lessons (vc_lesson_terms c),
         bc_exp_modalities = vc_modalities c, bc_modalities = mods, bc_modality_hit = list_all (\<lambda>m. m \<in> set mods) (vc_modalities c),
         bc_exp_subgraphs = vc_subgraphs c, bc_subgraphs = graph_names graphs,
         bc_subgraph_hit = list_all (\<lambda>m. m \<in> set (graph_names graphs)) (vc_subgraphs c),
         bc_exp_validators = vc_validators c, bc_validators = vals, bc_validator_hit = list_all (\<lambda>m. m \<in> set vals) (vc_validators c),
         bc_facade_tokens = tokens, bc_full_tokens = full,
         bc_reduction = py_round 4 (max 0 (1 - of_int tokens / of_int (max 1 full))), bc_latency = py_round 3 latency,
         bc_max_tokens = vc_max_tokens c, bc_passed = False, bc_modes = []\<rparr>)))))))"

definition verdict :: "validation_case \<Rightarrow> case_result \<Rightarrow> case_result" where
  "verdict c r = r\<lparr>bc_passed := case_passed c r, bc_modes := if case_passed c r then [] else failure_modes r\<rparr>"

definition judge_case ::
  "validation_case \<Rightarrow> string list \<Rightarrow> string list \<Rightarrow> py_dict \<Rightarrow> int \<Rightarrow> real \<Rightarrow> case_result result" where
  "judge_case c expected forbidden resp full latency =
     res_bind (observed_case c expected forbidden resp full latency) (\<lambda>r. Inr (verdict c r))"

definition alias_ids :: "(string \<times> string) list \<Rightarrow> string list \<Rightarrow> string list result" where
  "alias_ids aliases names =
     res_each (\<lambda>a. case map_of aliases a of Some i \<Rightarrow> Inr i | None \<Rightarrow> Inl (KeyError a)) names"

definition case_call :: "validation_case \<Rightarrow> py_dict" where
  "case_call c =
     [(''mode'', VStr ''work''), (''query'', VStr (vc_query c)), (''scope'', VDict (vc_scope c)), (''max_tokens'', VInt (vc_max_tokens c)),
      (''top_k'', VInt (vc_top_k c)), (''graph_hops'', VInt (vc_hops c)), (''at_time'', opt_real (vc_at_time c))]"

text \<open>\<open>_evaluate_case\<close>; \<open>None\<close> if the call of the tool did not end.\<close>

definition evaluate_case ::
  "tool_env \<Rightarrow> real \<Rightarrow> (string \<times> string) list \<Rightarrow> validation_case \<Rightarrow> tools \<Rightarrow> (tools \<times> case_result result) option" where
  "evaluate_case env latency aliases c t =
     map_option (\<lambda>(t', x). (t', res_bind x (\<lambda>resp.
         res_bind (alias_ids aliases (vc_expected c)) (\<lambda>expected. res_bind (alias_ids aliases (vc_forbidden c)) (\<lambda>forbidden.
         res_bind (full_context_tokens (te_now env) (vc_scope c) (vt_store (tl_vault t'))) (\<lambda>full.
           judge_case c expected forbidden resp full latency))))))
       (living_memory env (case_call c) t)"

fun evaluate_cases ::
  "(validation_case \<Rightarrow> tool_env) \<Rightarrow> (validation_case \<Rightarrow> real) \<Rightarrow> (string \<times> string) list \<Rightarrow> validation_case list
     \<Rightarrow> tools \<Rightarrow> (tools \<times> case_result list result) option" where
  "evaluate_cases env latency aliases [] t = Some (t, Inr [])"
| "evaluate_cases env latency aliases (c # cs) t =
     (case evaluate_case (env c) (latency c) aliases c t of
        None \<Rightarrow> None
      | Some (t', Inl err) \<Rightarrow> Some (t', Inl err)
      | Some (t', Inr r) \<Rightarrow> map_option (map_prod id (map_sum id (Cons r))) (evaluate_cases env latency aliases cs t'))"

section \<open>The report of a run\<close>

definition fmean :: "real list \<Rightarrow> real result" where
  "fmean xs = (if xs = [] then Inl (ValueError ''fmean requires at least one data point'') else Inr (sum_list xs / of_nat (length xs)))"

definition rounded_mean :: "nat \<Rightarrow> (case_result \<Rightarrow> real) \<Rightarrow> case_result list \<Rightarrow> real result" where
  "rounded_mean n f rs = res_bind (fmean (map f rs)) (\<lambda>x. Inr (py_round n x))"

record run_summary =
  rs_cases :: int
  rs_passed :: int
  rs_failed :: int
  rs_accuracy :: real
  rs_recall :: real
  rs_precision :: real
  rs_mrr :: real
  rs_latency :: real
  rs_tokens :: real
  rs_full_tokens :: real
  rs_reduction :: real

definition summarize :: "case_result list \<Rightarrow> run_summary result" where
  "summarize rs =
     (let passed = length (filter bc_passed rs) in
      res_bind (rounded_mean 4 bc_recall rs) (\<lambda>recall_k. res_bind (rounded_mean 4 bc_precision rs) (\<lambda>precision.
      res_bind (rounded_mean 4 bc_mrr rs) (\<lambda>mrr. res_bind (rounded_mean 3 bc_latency rs) (\<lambda>latency.
      res_bind (rounded_mean 2 (\<lambda>r. of_int (bc_facade_tokens r)) rs) (\<lambda>tokens.
      res_bind (rounded_mean 2 (\<lambda>r. of_int (bc_full_tokens r)) rs) (\<lambda>full.
      res_bind (rounded_mean 4 bc_reduction rs) (\<lambda>reduction.
        Inr \<lparr>rs_cases = int (length rs), rs_passed = int passed, rs_failed = int (length rs) - int passed,
          rs_accuracy = py_round 4 (of_nat passed / of_nat (max 1 (length rs))), rs_recall = recall_k, rs_precision = precision,
          rs_mrr = mrr, rs_latency = latency, rs_tokens = tokens, rs_full_tokens = full, rs_reduction = reduction\<rparr>))))))))"

record failure_counts =
  fn_false_positive :: int
  fn_false_negative :: int
  fn_scope_leak :: int
  fn_stale :: int
  fn_overrun :: int
  fn_modality :: int
  fn_subgraph :: int
  fn_validator :: int

definition count_cases :: "(case_result \<Rightarrow> bool) \<Rightarrow> case_result list \<Rightarrow> int" where
  "count_cases P rs = int (length (filter P rs))"

definition failure_summary :: "case_result list \<Rightarrow> failure_counts" where
  "failure_summary rs =
     (let leaks = (\<lambda>r. bc_forbidden_hits r \<noteq> []) in
      \<lparr>fn_false_positive = count_cases (\<lambda>r. leaks r \<or> (bc_expected_ids r = [] \<and> bc_retrieved_ids r \<noteq> [])) rs,
       fn_false_negative = count_cases (\<lambda>r. bc_expected_ids r \<noteq> [] \<and> length (bc_expected_hits r) < length (bc_expected_ids r)) rs,
       fn_scope_leak = count_cases (\<lambda>r. py_contains ''scope'' (bc_category r) \<and> leaks r) rs,
       fn_stale = count_cases (\<lambda>r. bc_category r \<in> set stale_categories \<and> leaks r) rs,
       fn_overrun = count_cases (\<lambda>r. bc_max_tokens r < bc_facade_tokens r) rs,
       fn_modality = count_cases (\<lambda>r. \<not> bc_modality_hit r) rs, fn_subgraph = count_cases (\<lambda>r. \<not> bc_subgraph_hit r) rs,
       fn_validator = count_cases (\<lambda>r. \<not> bc_validator_hit r) rs\<rparr>)"

text \<open>The thresholds of the four suites: accuracy, recall, token reduction, latency, and a test of the counts.\<close>

record thresholds =
  th_accuracy :: real
  th_recall :: real
  th_reduction :: real
  th_latency :: real
  th_counts :: "failure_counts \<Rightarrow> bool"

definition local_thresholds :: thresholds where
  "local_thresholds = \<lparr>th_accuracy = 80 / 100, th_recall = 80 / 100, th_reduction = 20 / 100, th_latency = 250, th_counts = (\<lambda>n. True)\<rparr>"

definition hard_thresholds :: thresholds where
  "hard_thresholds = \<lparr>th_accuracy = 70 / 100, th_recall = 70 / 100, th_reduction = 50 / 100, th_latency = 750,
     th_counts = (\<lambda>n. fn_scope_leak n \<le> 0)\<rparr>"

definition replay_thresholds :: thresholds where
  "replay_thresholds = \<lparr>th_accuracy = 66 / 100, th_recall = 66 / 100, th_reduction = 20 / 100, th_latency = 500, th_counts = (\<lambda>n. True)\<rparr>"

definition multimodal_thresholds :: thresholds where
  "multimodal_thresholds = \<lparr>th_accuracy = 85 / 100, th_recall = 85 / 100, th_reduction = 50 / 100, th_latency = 500,
     th_counts = (\<lambda>n. fn_false_negative n \<le> 0 \<and> fn_overrun n \<le> 0)\<rparr>"

definition passes_thresholds :: "thresholds \<Rightarrow> run_summary \<Rightarrow> failure_counts \<Rightarrow> bool" where
  "passes_thresholds th s n \<longleftrightarrow> th_accuracy th \<le> rs_accuracy s \<and> th_recall th \<le> rs_recall s \<and> th_reduction th \<le> rs_reduction s
     \<and> rs_latency s \<le> th_latency th \<and> th_counts th n"

record weakness =
  wk_case :: string
  wk_category :: string
  wk_modes :: "string list"
  wk_expected :: "string list"
  wk_retrieved :: "string list"
  wk_forbidden :: "string list"
  wk_direction :: string

definition weakness_for_case :: "case_result \<Rightarrow> weakness" where
  "weakness_for_case r =
     \<lparr>wk_case = bc_name r, wk_category = bc_category r, wk_modes = failure_modes r,
      wk_expected = bc_expected_ids r, wk_retrieved = bc_retrieved_ids r, wk_forbidden = bc_forbidden_hits r,
      wk_direction = recommended_direction (failure_modes r) (bc_category r)\<rparr>"

record run_report =
  rn_passes :: bool
  rn_summary :: run_summary
  rn_failures :: "failure_counts option"
  rn_weaknesses :: "weakness list"
  rn_cases :: "case_result list"

text \<open>The local suite reports neither counts nor weaknesses.\<close>

definition local_report :: "case_result list \<Rightarrow> run_report result" where
  "local_report rs =
     res_bind (summarize rs) (\<lambda>s.
       Inr \<lparr>rn_passes = passes_thresholds local_thresholds s (failure_summary rs), rn_summary = s, rn_failures = None,
         rn_weaknesses = [], rn_cases = rs\<rparr>)"

definition suite_report :: "thresholds \<Rightarrow> case_result list \<Rightarrow> run_report result" where
  "suite_report th rs =
     res_bind (summarize rs) (\<lambda>s.
       Inr \<lparr>rn_passes = passes_thresholds th s (failure_summary rs), rn_summary = s, rn_failures = Some (failure_summary rs),
         rn_weaknesses = map weakness_for_case (filter (\<lambda>r. \<not> bc_passed r) rs), rn_cases = rs\<rparr>)"

definition combined_report :: "run_report list \<Rightarrow> run_report result" where
  "combined_report reps =
     (let rs = concat (map rn_cases reps) in
      res_bind (summarize rs) (\<lambda>s.
        Inr \<lparr>rn_passes = list_all rn_passes reps, rn_summary = s, rn_failures = Some (failure_summary rs),
          rn_weaknesses = concat (map rn_weaknesses reps), rn_cases = rs\<rparr>))"

text \<open>A seeded suite: the tools, the ids behind the aliases, the cases.\<close>

type_synonym seeded_suite = "tools \<times> (string \<times> string) list \<times> validation_case list"

definition run_suite ::
  "(validation_case \<Rightarrow> tool_env) \<Rightarrow> (validation_case \<Rightarrow> real) \<Rightarrow> (case_result list \<Rightarrow> run_report result) \<Rightarrow> seeded_suite
     \<Rightarrow> run_report result option" where
  "run_suite env latency report suite =
     (case suite of (t, aliases, cs) \<Rightarrow>
        map_option (\<lambda>(t', rs). res_bind rs report) (evaluate_cases env latency aliases cs t))"

section \<open>External cases\<close>

record external_case =
  xc_id :: string
  xc_suite :: string
  xc_query :: string
  xc_answer :: string
  xc_evidence :: "string list"
  xc_should_answer :: bool
  xc_metadata :: py_dict

definition external_to_dict :: "external_case \<Rightarrow> py_dict" where
  "external_to_dict x =
     [(''case_id'', VStr (xc_id x)), (''suite'', VStr (xc_suite x)), (''query'', VStr (xc_query x)),
      (''expected_answer'', VStr (xc_answer x)), (''evidence_ids'', str_list (xc_evidence x)),
      (''should_answer'', VBool (xc_should_answer x)), (''metadata'', VDict (xc_metadata x))]"

text \<open>\<open>str(row.get(a) or row.get(b) or "")\<close>, \<open>[str(x) for x in row.get(a) or row.get(b) or []]\<close>, \<open>bool(row.get(a, row.get(b, True)))\<close>\<close>

definition first_text :: "string list \<Rightarrow> py_dict \<Rightarrow> string" where
  "first_text ks d = py_str (or_chain (map (d_get d) ks) (VStr []))"

definition first_texts :: "string list \<Rightarrow> py_dict \<Rightarrow> string list result" where
  "first_texts ks d = map_sum id (map py_str) (py_iter (or_chain (map (d_get d) ks) (VList [])))"

definition first_bool :: "string list \<Rightarrow> py_dict \<Rightarrow> bool" where
  "first_bool ks d = (case first_key ks d of Some v \<Rightarrow> truthy v | None \<Rightarrow> True)"

definition external_of ::
  "string \<Rightarrow> string list \<Rightarrow> string list \<Rightarrow> string list \<Rightarrow> string list \<Rightarrow> string list \<Rightarrow> string list \<Rightarrow> py_dict
     \<Rightarrow> external_case result" where
  "external_of suite ids queries answers evidence should dropped row =
     res_bind (first_texts evidence row) (\<lambda>ev.
       Inr \<lparr>xc_id = first_text ids row, xc_suite = suite, xc_query = first_text queries row, xc_answer = first_text answers row,
         xc_evidence = ev, xc_should_answer = first_bool should row,
         xc_metadata = filter (\<lambda>(k, v). k \<notin> set dropped) row\<rparr>)"

definition from_locomem_like :: "string \<Rightarrow> py_dict \<Rightarrow> external_case result" where
  "from_locomem_like suite =
     external_of suite [''id'', ''case_id'', ''question_id''] [''question'', ''query''] [''answer'', ''expected_answer'']
       [''evidence'', ''evidence_ids''] [''should_answer'', ''answerable''] [''id'', ''question'', ''answer'', ''evidence'', ''should_answer'']"

definition from_longmemeval_like :: "string \<Rightarrow> py_dict \<Rightarrow> external_case result" where
  "from_longmemeval_like suite =
     external_of suite [''question_id'', ''id'', ''case_id''] [''query'', ''question''] [''gold_answer'', ''answer'', ''expected_answer'']
       [''supporting_memory_ids'', ''evidence_ids''] [''answerable'', ''should_answer'']
       [''question_id'', ''query'', ''gold_answer'', ''supporting_memory_ids'', ''answerable'']"

definition from_generic :: "string \<Rightarrow> py_dict \<Rightarrow> external_case result" where
  "from_generic suite =
     external_of suite [''case_id'', ''id'', ''question_id''] [''query'', ''question''] [''expected_answer'', ''answer'', ''gold_answer'']
       [''evidence_ids'', ''evidence''] [''should_answer'', ''answerable''] []"

definition external_row :: "py_value \<Rightarrow> py_dict result" where
  "external_row v = (case v of VDict d \<Rightarrow> Inr d | _ \<Rightarrow> Inl (AttributeError ''object has no attribute get''))"

definition load_external_cases :: "string \<Rightarrow> string \<Rightarrow> external_case list result" where
  "load_external_cases txt suite_name =
     res_bind (loads txt) (\<lambda>payload.
     (let suite = py_lower (py_strip suite_name);
          rows = (case payload of VDict d \<Rightarrow> d_or (d_get d ''cases'') | v \<Rightarrow> v);
          reader = (if suite \<in> {''locomo'', ''dmr'', ''beam'', ''halu_eval'', ''halueval''} then from_locomem_like
            else if suite \<in> {''longmemeval'', ''long_mem_eval''} then from_longmemeval_like else from_generic)
      in case rows of
          VList vs \<Rightarrow> res_each (\<lambda>v. res_bind (external_row v) (reader suite)) vs
        | _ \<Rightarrow> Inl (ValueError ''external benchmark fixture must be a list or contain a cases list'')))"

section \<open>What a verdict means\<close>

lemma first_rank_unit: "0 < k \<Longrightarrow> 0 \<le> first_rank k expected is \<and> first_rank k expected is \<le> 1"
  by (induction "is" arbitrary: k) simp_all

lemma reciprocal_rank_unit: "0 \<le> reciprocal_rank retrieved expected \<and> reciprocal_rank retrieved expected \<le> 1"
  using first_rank_unit [of 1 expected retrieved] by (simp add: reciprocal_rank_def)

lemma observed_fields:
  assumes "observed_case c expected forbidden resp full latency = Inr r"
  shows "bc_expected_ids r = expected" "bc_expected_hits r = filter (\<lambda>i. i \<in> set (bc_retrieved_ids r)) expected"
    "bc_forbidden_hits r = filter (\<lambda>i. i \<in> set (bc_retrieved_ids r)) forbidden" "bc_max_tokens r = vc_max_tokens c"
    "bc_recall r = py_round 4 (recall_of expected (bc_expected_hits r))"
    "bc_mrr r = py_round 4 (reciprocal_rank (bc_retrieved_ids r) expected)" "vc_lesson_terms c = [] \<Longrightarrow> bc_lesson_hit r"
  using assms unfolding observed_case_def res_bind_eq_Inr by (auto simp: lesson_hit_def)

lemma recall_of_unit: "0 \<le> recall_of expected (filter P expected) \<and> recall_of expected (filter P expected) \<le> 1"
  by (simp add: recall_of_def divide_le_eq_1)

lemma recall_of_full: "1 \<le> recall_of expected (filter P expected) \<longleftrightarrow> length expected \<le> length (filter P expected)"
  by (simp add: recall_of_def le_divide_eq)

lemma full_filter: "length expected \<le> length (filter P expected) \<Longrightarrow> \<forall>i\<in>set expected. P i"
  by (metis length_filter_less linorder_not_less)

lemma known_modes: "''unknown_failure'' \<notin> fst ` set (failure_checks r)"
  by (simp add: failure_checks_def Let_def)

lemma failure_modes_of_check: "list_ex snd (failure_checks r) \<Longrightarrow> failure_modes r \<noteq> [] \<and> ''unknown_failure'' \<notin> set (failure_modes r)"
  using known_modes [of r] by (auto simp: failure_modes_def Let_def filter_empty_conv list_ex_iff)

lemma failure_modes_named:
  assumes "\<not> case_passed c r" "bc_max_tokens r = vc_max_tokens c" "vc_lesson_terms c = [] \<Longrightarrow> bc_lesson_hit r"
    "bc_expected_hits r = filter P (bc_expected_ids r)"
  shows "failure_modes r \<noteq> [] \<and> ''unknown_failure'' \<notin> set (failure_modes r)"
proof -
  have "case_passed c r" if "\<not> list_ex snd (failure_checks r)"
    using that assms(2,3) recall_of_full [of "bc_expected_ids r" P] 
    by (cases "bc_expected_ids r = []") (simp_all add: failure_checks_def Let_def case_passed_def assms(4) not_less)
  then show ?thesis using assms(1) failure_modes_of_check by blast
qed

text \<open>
  C6: A case passes exactly if no cause of failure is reported, and a case that fails has a cause with a name: the fallback
  \<open>unknown_failure\<close> is never reported by the judge. A case that passes has every expected id retrieved, none of the forbidden ones,
  and is in its budget; recall and reciprocal rank are in \<open>[0, 1]\<close>.
\<close>

theorem judge_case_spec:
  assumes "judge_case c expected forbidden resp full latency = Inr r"
  shows "(bc_passed r \<longleftrightarrow> bc_modes r = []) \<and> ''unknown_failure'' \<notin> set (bc_modes r)
    \<and> (bc_passed r \<longrightarrow> set expected \<subseteq> set (bc_retrieved_ids r) \<and> set forbidden \<inter> set (bc_retrieved_ids r) = {}
         \<and> bc_facade_tokens r \<le> vc_max_tokens c)
    \<and> 0 \<le> bc_recall r \<and> bc_recall r \<le> 1 \<and> 0 \<le> bc_mrr r \<and> bc_mrr r \<le> 1"
proof -
  obtain r0 where r0: "observed_case c expected forbidden resp full latency = Inr r0" and r: "r = verdict c r0"
    using assms by (auto simp: judge_case_def res_bind_eq_Inr)
  note f = observed_fields [OF r0]
  have "failure_modes r0 \<noteq> [] \<and> ''unknown_failure'' \<notin> set (failure_modes r0)" if "\<not> case_passed c r0"
    using failure_modes_named [OF that f(4) f(7)] f(1,2) by simp
  moreover have "set expected \<subseteq> set (bc_retrieved_ids r0) \<and> set forbidden \<inter> set (bc_retrieved_ids r0) = {}
      \<and> bc_facade_tokens r0 \<le> vc_max_tokens c" if "case_passed c r0"
  proof -
    have "expected = [] \<or> 1 \<le> recall_of expected (filter (\<lambda>i. i \<in> set (bc_retrieved_ids r0)) expected)"
      using that f(1,2) by (auto simp: case_passed_def split: if_splits)
    then have "set expected \<subseteq> set (bc_retrieved_ids r0)" unfolding recall_of_full using full_filter by fastforce
    moreover have "bc_forbidden_hits r0 = []" "bc_facade_tokens r0 \<le> vc_max_tokens c"
      using that by (auto simp: case_passed_def split: if_splits)
    ultimately show ?thesis using f(3) by (auto simp: filter_empty_conv)
  qed
  moreover have "0 \<le> bc_recall r0 \<and> bc_recall r0 \<le> 1 \<and> 0 \<le> bc_mrr r0 \<and> bc_mrr r0 \<le> 1"
    unfolding f(5,6) f(2) using recall_of_unit reciprocal_rank_unit py_round_unit by blast
  ultimately show ?thesis by (simp add: r verdict_def)
qed

definition demo_case :: validation_case where
  "demo_case = \<lparr>vc_name = ''silence'', vc_category = ''abstention'', vc_query = ''q'', vc_scope = [], vc_expected = [], vc_forbidden = [],
     vc_lesson_terms = [], vc_modalities = [], vc_subgraphs = [], vc_validators = [], vc_max_tokens = 420, vc_top_k = 6, vc_hops = 1,
     vc_at_time = None\<rparr>"

lemma judge_case_spec_witness:
  "\<exists>r. judge_case demo_case [''m1''] [''m2''] [(''inspectable_ids'', str_list [''m2'', ''m1''])] 900 12 = Inr r
    \<and> \<not> bc_passed r \<and> bc_modes r \<noteq> [] \<and> ''unknown_failure'' \<notin> set (bc_modes r)"
proof -
  obtain r where r: "judge_case demo_case [''m1''] [''m2''] [(''inspectable_ids'', str_list [''m2'', ''m1''])] 900 12 = Inr r"
    "bc_forbidden_hits r = [''m2'']" "bc_retrieved_ids r = [''m2'', ''m1'']"
    by (simp add: judge_case_def observed_case_def read_strings_def read_string_def iter_or_empty_def py_iter_def d_or_def str_list_def
        read_dicts_def facade_tokens_def int_or_def py_int_def listed_texts_def relevant_evidence_def demo_case_def verdict_def Let_def)
  from judge_case_spec [OF r(1)] r show ?thesis by auto
qed

text \<open>A run without cases has no summary.\<close>

lemma empty_run_raises: "\<exists>msg. summarize [] = Inl (ValueError msg)"
  by (simp add: summarize_def rounded_mean_def fmean_def)

end
