(* ===== verification/Calibration.thy ===== *)
theory Calibration
  imports Schema
begin

text \<open>
  \<open>calibration.py\<close>: the expected calibration error of a list of judged cases, and the accuracy at each
  coverage. The scores that reach the error are clamped to [0, 1] by \<open>_normalize_case\<close>.
\<close>

record judged_case =
  jc_score :: real
  jc_predicted :: bool
  jc_expected :: bool
  jc_correct :: bool

definition normalize_case :: "py_dict \<Rightarrow> judged_case result" where
  "normalize_case item =
     (let score = d_or (d_get item ''score''); predicted = truthy (d_or (d_get item ''predicted_supported''));
          expected = truthy (d_or (d_get item ''expected_supported'')) in
      res_bind (if truthy score then py_float score else Inr 0) (\<lambda>x.
        Inr \<lparr>jc_score = max 0 (min 1 x), jc_predicted = predicted, jc_expected = expected,
          jc_correct = (predicted = expected)\<rparr>))"

definition in_bin :: "int \<Rightarrow> int \<Rightarrow> real \<Rightarrow> bool" where
  "in_bin bins index x =
     (of_int index / of_int bins \<le> x
      \<and> (if index = bins - 1 then x \<le> of_int (index + 1) / of_int bins else x < of_int (index + 1) / of_int bins))"

definition accuracy_of :: "judged_case list \<Rightarrow> real" where
  "accuracy_of cs = of_nat (length (filter jc_correct cs)) / of_nat (length cs)"

definition mean_score :: "judged_case list \<Rightarrow> real" where
  "mean_score cs = sum_list (map jc_score cs) / of_nat (length cs)"

definition bin_error :: "judged_case list \<Rightarrow> int \<Rightarrow> int \<Rightarrow> real" where
  "bin_error cs bins index =
     (let bucket = filter (\<lambda>c. in_bin bins index (jc_score c)) cs in
      if bucket = [] then 0
      else of_nat (length bucket) / of_nat (length cs) * \<bar>accuracy_of bucket - mean_score bucket\<bar>)"

definition expected_calibration_error :: "judged_case list \<Rightarrow> int \<Rightarrow> real" where
  "expected_calibration_error cs bins0 =
     (if cs = [] then 0
      else (let bins = max 1 bins0 in sum_list (map (bin_error cs bins) [0..bins - 1])))"

record coverage_point =
  cp_coverage :: real
  cp_accuracy :: real
  cp_threshold :: real

definition coverage_point_at :: "judged_case list \<Rightarrow> nat \<Rightarrow> coverage_point" where
  "coverage_point_at ordered index =
     (let prefix = take index ordered in
      \<lparr>cp_coverage = py_round 4 (of_nat index / of_nat (length ordered)),
       cp_accuracy = py_round 4 (of_nat (length (filter jc_correct prefix)) / of_nat index),
       cp_threshold = py_round 4 (jc_score (last prefix))\<rparr>)"

definition risk_coverage_curve :: "judged_case list \<Rightarrow> coverage_point list" where
  "risk_coverage_curve cs =
     (let ordered = sort_desc jc_score cs in map (coverage_point_at ordered) [1..<Suc (length ordered)])"

record calibration =
  cal_count :: nat
  cal_ece :: real
  cal_unsupported :: nat
  cal_curve :: "coverage_point list"

definition calibration_report :: "py_dict list \<Rightarrow> int \<Rightarrow> calibration result" where
  "calibration_report cases bins =
     res_bind (res_each normalize_case cases) (\<lambda>cs.
       Inr \<lparr>cal_count = length cs, cal_ece = py_round 6 (expected_calibration_error cs bins),
         cal_unsupported = length (filter (\<lambda>c. jc_predicted c \<and> \<not> jc_expected c) cs),
         cal_curve = risk_coverage_curve cs\<rparr>)"

section \<open>Every case falls in one bin\<close>

definition unit_scores :: "judged_case list \<Rightarrow> bool" where
  "unit_scores cs = (\<forall>c\<in>set cs. 0 \<le> jc_score c \<and> jc_score c \<le> 1)"

lemma in_one_bin:
  assumes "0 < bins" "0 \<le> x" "x \<le> 1"
  shows "\<exists>i\<in>{0..bins - 1}. \<forall>j\<in>{0..bins - 1}. in_bin bins j x \<longleftrightarrow> j = i"
proof -
  let ?i = "min (bins - 1) \<lfloor>x * of_int bins\<rfloor>"
  have b: "0 < (of_int bins :: real)" using assms(1) by simp
  have bin: "in_bin bins j x \<longleftrightarrow> of_int j \<le> x * of_int bins
      \<and> (if j = bins - 1 then x * of_int bins \<le> of_int (j + 1) else x * of_int bins < of_int (j + 1))" for j
    using b by (simp add: in_bin_def divide_le_eq le_divide_eq less_divide_eq)
  have top: "x * of_int bins \<le> of_int bins" using b assms(3) by simp
  have "0 \<le> ?i" using assms by simp
  moreover have "in_bin bins j x \<longleftrightarrow> j = ?i" if "j \<in> {0..bins - 1}" for j
    using that top unfolding bin by (cases "j = bins - 1") (auto simp: min_def le_floor_iff floor_less_iff; linarith)+
  ultimately show ?thesis by (intro bexI [of _ ?i]) auto
qed

text \<open>How far a case's outcome is from its score.\<close>

definition gap :: "judged_case \<Rightarrow> real" where
  "gap c = of_bool (jc_correct c) - jc_score c"

lemma sum_gap: "sum_list (map gap cs) = of_nat (length (filter jc_correct cs)) - sum_list (map jc_score cs)"
  by (induction cs) (simp_all add: gap_def)

lemma gap_mean: "cs \<noteq> [] \<Longrightarrow> accuracy_of cs - mean_score cs = sum_list (map gap cs) / of_nat (length cs)"
  by (simp add: accuracy_of_def mean_score_def sum_gap diff_divide_distrib)

definition in_bucket :: "judged_case list \<Rightarrow> int \<Rightarrow> int \<Rightarrow> judged_case list" where
  "in_bucket cs bins i = filter (\<lambda>c. in_bin bins i (jc_score c)) cs"

lemma bin_error_gap: "bin_error cs bins i = \<bar>sum_list (map gap (in_bucket cs bins i))\<bar> / of_nat (length cs)"
  by (simp add: bin_error_def Let_def gap_mean in_bucket_def [symmetric] abs_divide)

lemma sum_buckets:
  assumes "0 < bins" "unit_scores cs"
  shows "(\<Sum>i\<in>{0..bins - 1}. sum_list (map g (in_bucket cs bins i))) = sum_list (map g cs)"
  using assms(2)
proof (induction cs)
  case Nil
  then show ?case by (simp add: in_bucket_def)
next
  case (Cons c cs)
  obtain i where i: "i \<in> {0..bins - 1}" "\<forall>j\<in>{0..bins - 1}. in_bin bins j (jc_score c) \<longleftrightarrow> j = i"
    using in_one_bin [OF assms(1), of "jc_score c"] Cons.prems unfolding unit_scores_def by (metis list.set_intros(1))
  have "(\<Sum>j\<in>{0..bins - 1}. sum_list (map g (in_bucket (c # cs) bins j)))
      = (\<Sum>j\<in>{0..bins - 1}. (if j = i then g c else 0) + sum_list (map g (in_bucket cs bins j)))"
    using i(2) by (intro sum.cong) (auto simp: in_bucket_def)
  also have "\<dots> = g c + sum_list (map g cs)"
    using Cons i(1) by (simp add: sum.distrib unit_scores_def del: atLeastAtMost_iff)
  finally show ?case by simp
qed

lemma calibration_sum:
  assumes "cs \<noteq> []"
  shows "expected_calibration_error cs b
    = (\<Sum>i\<in>{0..max 1 b - 1}. \<bar>sum_list (map gap (in_bucket cs (max 1 b) i))\<bar>) / of_nat (length cs)"
  using assms by (simp add: expected_calibration_error_def Let_def bin_error_gap sum_list_distinct_conv_sum_set sum_divide_distrib)

lemma abs_gaps: "unit_scores cs \<Longrightarrow> sum_list (map (\<lambda>c. \<bar>gap c\<bar>) cs) \<le> of_nat (length cs)"
  by (induction cs) (auto simp: unit_scores_def gap_def)

lemma calibration_bounds_lemma:
  assumes "unit_scores cs" "cs \<noteq> []"
  shows "\<bar>accuracy_of cs - mean_score cs\<bar> \<le> expected_calibration_error cs b \<and> expected_calibration_error cs b \<le> 1"
proof -
  let ?b = "max 1 b" and ?n = "of_nat (length cs) :: real"
  let ?gap = "\<lambda>i. sum_list (map gap (in_bucket cs ?b i))"
  have n: "0 < ?n" using assms(2) by simp
  have b: "0 < ?b" by simp
  have "\<bar>\<Sum>i\<in>{0..?b - 1}. ?gap i\<bar> \<le> (\<Sum>i\<in>{0..?b - 1}. \<bar>?gap i\<bar>)" by (rule sum_abs)
  then have low: "\<bar>sum_list (map gap cs)\<bar> \<le> (\<Sum>i\<in>{0..?b - 1}. \<bar>?gap i\<bar>)"
    unfolding sum_buckets [OF b assms(1)] .
  have "\<bar>?gap i\<bar> \<le> sum_list (map (\<lambda>c. \<bar>gap c\<bar>) (in_bucket cs ?b i))" for i
    using sum_list_abs [of "map gap (in_bucket cs ?b i)"] by (simp add: comp_def)
  then have "(\<Sum>i\<in>{0..?b - 1}. \<bar>?gap i\<bar>) \<le> (\<Sum>i\<in>{0..?b - 1}. sum_list (map (\<lambda>c. \<bar>gap c\<bar>) (in_bucket cs ?b i)))"
    by (rule sum_mono)
  also have "\<dots> = sum_list (map (\<lambda>c. \<bar>gap c\<bar>) cs)" by (rule sum_buckets [OF b assms(1)])
  also have "\<dots> \<le> ?n" by (rule abs_gaps [OF assms(1)])
  finally have high: "(\<Sum>i\<in>{0..?b - 1}. \<bar>?gap i\<bar>) \<le> ?n" .
  show ?thesis
    using low high n by (simp add: calibration_sum [OF assms(2)] gap_mean [OF assms(2)] abs_divide divide_right_mono)
qed

lemma normalized_scores: "res_each normalize_case items = Inr cs \<Longrightarrow> unit_scores cs"
  using res_each_eq_Inr [of normalize_case items cs]
  by (fastforce simp: unit_scores_def normalize_case_def Let_def res_bind_eq_Inr)

section \<open>The report\<close>

lemma coverage_length: "length (risk_coverage_curve cs) = length cs"
  by (simp add: risk_coverage_curve_def Let_def del: upt_Suc)

lemma curve_nth:
  "i < length cs \<Longrightarrow> risk_coverage_curve cs ! i = coverage_point_at (sort_desc jc_score cs) (Suc i)"
  by (simp add: risk_coverage_curve_def Let_def nth_map_upt del: upt_Suc)

lemma last_take_Suc: "i < length xs \<Longrightarrow> last (take (Suc i) xs) = xs ! i"
  by (simp add: take_Suc_conv_app_nth)

lemma curve_monotone:
  assumes "i < j" "j < length cs"
  shows "cp_coverage (risk_coverage_curve cs ! i) \<le> cp_coverage (risk_coverage_curve cs ! j)"
    and "cp_threshold (risk_coverage_curve cs ! j) \<le> cp_threshold (risk_coverage_curve cs ! i)"
proof -
  have "jc_score (sort_desc jc_score cs ! j) \<le> jc_score (sort_desc jc_score cs ! i)"
    using sort_desc_sorted [of jc_score cs] assms by (simp add: sorted_wrt_iff_nth_less)
  then show "cp_coverage (risk_coverage_curve cs ! i) \<le> cp_coverage (risk_coverage_curve cs ! j)"
    "cp_threshold (risk_coverage_curve cs ! j) \<le> cp_threshold (risk_coverage_curve cs ! i)"
    using assms by (simp_all add: curve_nth coverage_point_at_def Let_def last_take_Suc py_round_mono divide_right_mono)
qed

lemma curve_last:
  assumes "cs \<noteq> []"
  shows "cp_coverage (last (risk_coverage_curve cs)) = 1"
    and "cp_accuracy (last (risk_coverage_curve cs)) = py_round 4 (accuracy_of cs)"
proof -
  have "mset (filter jc_correct (sort_desc jc_score cs)) = mset (filter jc_correct cs)" by simp
  then have f: "length (filter jc_correct (sort_desc jc_score cs)) = length (filter jc_correct cs)"
    by (rule mset_eq_length)
  have one: "py_round 4 1 = 1" using round_even_of_int [of "10 ^ 4"] by (simp add: py_round_def)
  have "risk_coverage_curve cs \<noteq> []" "Suc (length cs - 1) = length cs" using coverage_length [of cs] assms by (auto simp: Suc_diff_1)
  then have "last (risk_coverage_curve cs) = coverage_point_at (sort_desc jc_score cs) (length cs)"
    using assms curve_nth [of "length cs - 1" cs] by (simp add: last_conv_nth coverage_length)
  then show "cp_coverage (last (risk_coverage_curve cs)) = 1"
    "cp_accuracy (last (risk_coverage_curve cs)) = py_round 4 (accuracy_of cs)"
    using assms f one by (simp_all add: coverage_point_at_def Let_def accuracy_of_def)
qed

text \<open>
  A calibration report counts its cases; its error lies in [0, 1] and, up to the rounding to six places, is
  at least the distance of the mean score from the accuracy, for any number of bins. Along its curve, one point
  a case, coverage never falls and the threshold never rises, and the last point covers every case.
\<close>

theorem calibration_report_spec:
  assumes "calibration_report items bins = Inr rep" "items \<noteq> []"
  shows "\<exists>cs. res_each normalize_case items = Inr cs \<and> cal_count rep = length items
    \<and> 0 \<le> cal_ece rep \<and> cal_ece rep \<le> 1 \<and> \<bar>accuracy_of cs - mean_score cs\<bar> \<le> cal_ece rep + 1 / 10 ^ 6
    \<and> length (cal_curve rep) = length items
    \<and> (\<forall>i j. i < j \<and> j < length items \<longrightarrow> cp_coverage (cal_curve rep ! i) \<le> cp_coverage (cal_curve rep ! j)
        \<and> cp_threshold (cal_curve rep ! j) \<le> cp_threshold (cal_curve rep ! i))
    \<and> cp_coverage (last (cal_curve rep)) = 1 \<and> cp_accuracy (last (cal_curve rep)) = py_round 4 (accuracy_of cs)"
proof -
  obtain cs where cs: "res_each normalize_case items = Inr cs" and rep: "cal_count rep = length cs"
    "cal_ece rep = py_round 6 (expected_calibration_error cs bins)" "cal_curve rep = risk_coverage_curve cs"
    using assms(1) by (auto simp: calibration_report_def res_bind_eq_Inr)
  have n: "length cs = length items" "cs \<noteq> []" using res_each_eq_Inr [OF cs] assms(2) by auto
  note ece = calibration_bounds_lemma [OF normalized_scores [OF cs] n(2), of bins]
  then have "0 \<le> expected_calibration_error cs bins" by linarith
  note unit = py_round_unit [OF this, of 6]
  have "\<bar>accuracy_of cs - mean_score cs\<bar> \<le> cal_ece rep + 1 / 10 ^ 6"
    using ece py_round_near [of 6 "expected_calibration_error cs bins"] unfolding rep(2) by (simp only: abs_le_iff) simp
  then show ?thesis
    using cs rep n unit ece coverage_length [of cs] curve_monotone [of _ _ cs] curve_last [OF n(2)] by simp
qed

lemma calibration_report_spec_witness:
  "\<exists>rep. calibration_report [[(''score'', VFloat (1 / 2)), (''predicted_supported'', VBool True)]] 10 = Inr rep
    \<and> 0 \<le> cal_ece rep \<and> cal_ece rep \<le> 1 \<and> cp_accuracy (last (cal_curve rep)) = 0"
proof -
  let ?items = "[[(''score'', VFloat (1 / 2)), (''predicted_supported'', VBool True)]]"
  obtain rep where rep: "calibration_report ?items 10 = Inr rep"
    by (simp add: calibration_report_def normalize_case_def Let_def d_or_def py_float_def)
  have "res_each normalize_case ?items = Inr [\<lparr>jc_score = 1 / 2, jc_predicted = True, jc_expected = False, jc_correct = False\<rparr>]"
    by (simp add: normalize_case_def Let_def d_or_def py_float_def)
  moreover have "py_round 4 0 = 0" using round_even_of_int [of 0] by (simp add: py_round_def)
  ultimately show ?thesis using calibration_report_spec [OF rep] rep by (auto simp: accuracy_of_def)
qed

end
