(* ===== verification/Spec2Isabelle.thy ===== *)
theory Spec2Isabelle
  imports Benchmark Calibration
begin

text \<open>
  The memory engine of \<open>src/engines/living_memoryv2\<close>, a Python package: a vault that stores memories, the indexes derived
  from them, the recall that reads them back under a budget, and the server that offers all of it as tools. File names
  below are those of \<open>src/living_memoryv2/\<close> in that directory.

  \<^bold>\<open>The parts and how they interact.\<close> A memory is an envelope (\<open>schema.py\<close>). The vault (\<open>vault.py\<close>) files it in the store
  (\<open>store.py\<close>: three tables, a log with a line a memory, blobs for large payloads, an address by \<open>mobius.py\<close>), in the
  graph of relations (\<open>graph.py\<close>) and in the knowledge graph (\<open>knowledge.py\<close>); facts found in its text (\<open>extraction.py\<close>) go to
  the ledger (\<open>facts.py\<close>), which tells the knowledge graph of every change. Task states (\<open>task_state.py\<close>) and boxes are tables
  of the vault too. Agents propose memories and reviewers decide (\<open>agents.py\<close>); \<open>consolidation.py\<close> proposes derived facts.
  A recall (\<open>recall.py\<close>) merges candidates of the store, the engram cache (\<open>engram.py\<close>), the graph and the Mobius index, by
  lifecycle (\<open>lifecycle.py\<close>) and scope. What a prompt sees of the results is cut to a token budget and withheld by governance
  (\<open>governance.py\<close>, \<open>context.py\<close>, \<open>sif.py\<close>), with scores and an assessment (\<open>scoring.py\<close>, \<open>answerability.py\<close>). The tools
  and the JSON-RPC session are \<open>mcp_server.py\<close>.

  \<^bold>\<open>Theories.\<close>
  \<^item> The language: Prelude (exceptions as values, actions on a state, strings, slices), Json and Json_Text (values, \<open>dumps\<close>,
    \<open>loads\<close> and their round trip), Numbers, Regex (a matcher that lists the ways a pattern matches, in the order of Python's
    backtracking), Sha256, Table (SQLite tables; the locales \<open>keyed_table\<close> and \<open>checked_table\<close>, interpreted on every table).
  \<^item> The data: Schema (\<open>schema.py\<close>), Lifecycle, Mobius, Governance.
  \<^item> The state: Store, Graph (its locale \<open>row_choice\<close> says what is used of the rows a \<open>LIMIT\<close> keeps), Facts (its locale
    \<open>fact_listener\<close> says what the ledger needs of its listener), Knowledge (which is one), Task_State, Engram, Fact_Extraction,
    Vault, Vault_Log (the log, its check and the rebuild), Agents, Consolidation.
  \<^item> The readers: Recall, Context_Assembly, Scoring, Ingest, Sif, Sif_Sections, Calibration, Tool_Curriculum, Connectors.
  \<^item> The server (\<open>mcp_server.py\<close>): Facade (the ranking), Work_Mode and Capture (the tool \<open>living_memory\<close>), Tool_Calls (the other
    tools), Descriptors (their schemas and the table of methods), Server (messages and the session; its locale
    \<open>mcp_backend\<close> says what a session needs of the methods, and the tools are an interpretation).
  \<^item> The benchmarks (\<open>benchmarks.py\<close>, \<open>benchmarks_external.py\<close>): Benchmark (how a case is run against the tools and judged, the summaries,
    thresholds and reports of a run, and the loader of external cases).

  In each theory a class of the source is a record, its methods are definitions of the same name that take the record and return
  it with the outcome, \<open>Inl\<close> for an exception. What was committed before an exception stays in the state.

  \<^bold>\<open>What the lemmas show.\<close>
  \<^item> Storage: an envelope that can be stored is inspected back whole, other memories are untouched, a rebuild from the log
    restores the memories whose log lines can be read back, and the integrity check accepts what was logged with its own
    hash (Schema, Store, Vault_Log). The text before each theorem names the conditions.
  \<^item> State: the tables of every component are well formed in every state that its operations reach, those that raise half way
    among them (Facts, Knowledge, Task_State, Engram, Vault, Agents, Tool_Calls), up to the whole session (Server).
  \<^item> Abstraction: the engram cache is a map, the graph walk is reachability, the ledger is mirrored in the knowledge graph, the
    caches of a recall and of the facade change no result.
  \<^item> Safety of what is shown: only memories of the scope asked for, still valid, within the budget; a withheld memory's content
    does not influence a frame; a proposal is decided once; the mode \<open>propose\<close> files nothing; reading tools write nothing.
  \<^item> Termination and answers: the splitting of Markdown, the shrinking of frames, work calls and sessions end, and each
    request has its one reply.

  \<^bold>\<open>Bounds and fuel.\<close> The parser of JSON has twice the length of the text plus one as fuel; \<open>loads_dumps\<close> shows that enough for what
  \<open>dumps\<close> writes, and a text that ran out of it would be rejected. \<open>rx_finditer\<close> has the length plus one: each match starts later than
  the last. \<open>walk_hops\<close> counts the hops the caller asks for. The shrinking loop of \<open>Sif_Sections\<close> is a \<open>while_option\<close> and the
  Markdown chunker a \<open>partial_function\<close>: that they return is a theorem, for every input the code admits (\<open>sections_total\<close>, \<open>split_markdown_total\<close>).
  Words of 32 bits wrap in Sha256 and Engram; all other integers are Python's.

  \<^bold>\<open>Parameters.\<close> What is not in the source is an argument: the rank SQLite's full-text search gives (\<open>re_rank\<close>), the rows it prefers
  among equals (\<open>re_pick\<close>) and the order in which it visits the entries of an index (\<open>re_scan\<close>), Unicode normalisation (\<open>re_nf\<close>), the clock, the offset of local time, the ids of \<open>uuid4\<close>, the elapsed
  time of a rebuild, the text Python gives an exception. Theorems hold for all of them, but where a hypothesis says otherwise:
  no digest collision among what is hashed, a clock that is not zero, parts of an envelope that JSON text can hold.

  \<^bold>\<open>Choices.\<close> Characters are the code points below 256; a float is the real number its shortest form denotes, without rounding of
  the arithmetic, and \<open>nan\<close> and \<open>inf\<close> are left out, and an integer given for a float is that float, except in the id of an assertion, which hashes its bounds as
  they were given; a call reads the clock once; a field or argument of a kind its annotation or the
  tool's schema does not name is a \<open>TypeError\<close>, where Python may carry it on; connections to SQLite do not fail, and one
  process uses them.

  \<^bold>\<open>Not modelled.\<close> The memories and cases that \<open>benchmarks.py\<close> seeds for its suites (data), its clock, command line and writing of report
  files, \<open>__init__.py\<close> and the examples, the creation and migration of the SQLite schema, a pipe that breaks during a session,
  and the Go services and clients around the engine.
\<close>

end
